(* ===== verification/Prelude.thy ===== *)
theory Prelude
  imports Main "HOL-Library.AList" "HOL-Library.Multiset"
begin

text \<open>
  Shared vocabulary of the development: the type names that every component uses, the model of
  the standard containers, and the generic list and map facts the component proofs rely on.

  A \<open>std::unordered_map\<close> is an association list with distinct keys. The order of the list is the
  iteration order, which the C++ standard leaves open; the theorems hold for every such list.
  Lookup is \<open>map_of\<close>, assignment through \<open>operator[]\<close> is \<open>AList.update\<close>, \<open>erase\<close> is
  \<open>AList.delete\<close> and \<open>emplace\<close> / \<open>try_emplace\<close> (which keep an existing entry) is \<open>um_emplace\<close>.
\<close>

type_synonym symbol = string
type_synonym client_id = int
type_synonym quantity = int
type_synonym time = int

named_theorems book_simps "unfolding rules of the order book operations"
named_theorems engine_simps "unfolding rules of the matching engine operations"
named_theorems frame_simps "state components an operation leaves alone"
named_theorems inv_intros "preservation lemmas, used as introduction rules"

section \<open>Unordered maps\<close>

definition um_emplace :: "'k \<Rightarrow> 'v \<Rightarrow> ('k \<times> 'v) list \<Rightarrow> ('k \<times> 'v) list" where
  "um_emplace k v m = (case map_of m k of None \<Rightarrow> m @ [(k, v)] | Some _ \<Rightarrow> m)"

definition um_get :: "'v \<Rightarrow> ('k \<times> 'v) list \<Rightarrow> 'k \<Rightarrow> 'v" where
  "um_get d m k = (case map_of m k of None \<Rightarrow> d | Some v \<Rightarrow> v)"

text \<open>\<open>operator[]\<close> followed by an update in place: a missing entry is value-initialised first.\<close>

definition um_modify :: "'v \<Rightarrow> 'k \<Rightarrow> ('v \<Rightarrow> 'v) \<Rightarrow> ('k \<times> 'v) list \<Rightarrow> ('k \<times> 'v) list" where
  "um_modify d k f m = AList.update k (f (um_get d m k)) m"

abbreviation um_ok :: "('k \<times> 'v) list \<Rightarrow> bool" where
  "um_ok m \<equiv> distinct (map fst m)"

abbreviation um_contains :: "('k \<times> 'v) list \<Rightarrow> 'k \<Rightarrow> bool" where
  "um_contains m k \<equiv> map_of m k \<noteq> None"

lemma map_of_emplace:
  "map_of (um_emplace k v m) k' =
     (if k' = k \<and> map_of m k = None then Some v else map_of m k')"
  by (auto simp: um_emplace_def map_add_def split: option.splits)

lemma map_of_update [simp]: "map_of (AList.update k v m) = (map_of m)(k \<mapsto> v)"
  by (rule update_conv')

lemma map_of_delete [simp]: "map_of (AList.delete k m) = (map_of m)(k := None)"
  by (rule delete_conv')

lemma um_ok_emplace [simp, intro]: "um_ok m \<Longrightarrow> um_ok (um_emplace k v m)"
  by (auto simp: um_emplace_def map_of_eq_None_iff split: option.splits)

lemma um_ok_update [simp, intro]: "um_ok m \<Longrightarrow> um_ok (AList.update k v m)"
  by (rule distinct_update)

lemma um_ok_modify [simp, intro]: "um_ok m \<Longrightarrow> um_ok (um_modify d k f m)"
  by (simp add: um_modify_def)

lemma um_ok_delete [simp, intro]: "um_ok m \<Longrightarrow> um_ok (AList.delete k m)"
  by (rule distinct_delete)

lemma map_of_modify:
  "map_of (um_modify d k f m) = (map_of m)(k \<mapsto> f (um_get d m k))"
  by (simp add: um_modify_def)

lemma um_get_modify:
  "um_get d (um_modify d k f m) k' = (if k' = k then f (um_get d m k) else um_get d m k')"
  by (auto simp: um_get_def map_of_modify)

lemma um_get_update:
  "um_get d (AList.update k v m) k' = (if k' = k then v else um_get d m k')"
  by (simp add: um_get_def)

lemma um_mem_iff: "um_ok m \<Longrightarrow> (k, v) \<in> set m \<longleftrightarrow> map_of m k = Some v"
  by (auto intro: map_of_is_SomeI map_of_SomeD)

text \<open>
  The interface the components use a map through, stated on the lookup function, and what a
  client gets from it: two writes to different keys commute as far as lookups can tell, and the
  last write to a key wins.
\<close>

locale lookup_map =
  fixes get :: "'m \<Rightarrow> 'k \<Rightarrow> 'v option"
    and put :: "'k \<Rightarrow> 'v \<Rightarrow> 'm \<Rightarrow> 'm"
    and del :: "'k \<Rightarrow> 'm \<Rightarrow> 'm"
    and ok :: "'m \<Rightarrow> bool"
  assumes get_put: "get (put k v m) = (get m)(k \<mapsto> v)"
    and get_del: "get (del k m) = (get m)(k := None)"
    and ok_put: "ok m \<Longrightarrow> ok (put k v m)"
    and ok_del: "ok m \<Longrightarrow> ok (del k m)"
begin

lemma put_commute: "k \<noteq> k' \<Longrightarrow> get (put k v (put k' v' m)) = get (put k' v' (put k v m))"
  by (simp add: get_put fun_upd_twist)

lemma put_put: "get (put k v (put k v' m)) = get (put k v m)"
  by (simp add: get_put)

lemma del_put: "get m k = None \<Longrightarrow> get (del k (put k v m)) = get m"
  by (simp add: get_put get_del fun_upd_idem)

lemma ok_folds: "ok m \<Longrightarrow> ok (foldl (\<lambda>m (k, v). put k v m) m kvs)"
  by (induction kvs arbitrary: m) (auto intro: ok_put)

end

interpretation um: lookup_map map_of AList.update AList.delete um_ok
  by unfold_locales auto

section \<open>Sums over maps\<close>

text \<open>
  Total of a numeric view of a map's values; the workhorse of the conservation proofs. Changing
  one entry changes the total by the difference of the two views.
\<close>

definition um_total :: "('v \<Rightarrow> 'n::comm_monoid_add) \<Rightarrow> ('k \<times> 'v) list \<Rightarrow> 'n" where
  "um_total f m = sum_list (map (\<lambda>(_, v). f v) m)"

lemma um_total_Nil [simp]: "um_total f [] = 0"
  and um_total_Cons [simp]: "um_total f ((k, v) # m) = f v + um_total f m"
  by (simp_all add: um_total_def)

lemma um_total_append [simp]: "um_total f (m @ m') = um_total f m + um_total f m'"
  by (simp add: um_total_def)

lemma um_total_update:
  fixes f :: "'v \<Rightarrow> 'n::ab_group_add"
  shows "um_ok m \<Longrightarrow>
    um_total f (AList.update k v m) =
      um_total f m + f v - (case map_of m k of None \<Rightarrow> 0 | Some w \<Rightarrow> f w)"
proof (induction m)
  case (Cons p m)
  obtain k' w where p: "p = (k', w)" by (cases p)
  have "map_of m k' = None" using Cons.prems p by (simp add: map_of_eq_None_iff)
  then show ?case using Cons p by (cases "k' = k") (auto simp: algebra_simps)
qed simp

lemma um_total_modify:
  fixes f :: "'v \<Rightarrow> 'n::ab_group_add"
  assumes "um_ok m" "f d = 0"
  shows "um_total f (um_modify d k g m) = um_total f m + f (g (um_get d m k)) - f (um_get d m k)"
  using assms by (simp add: um_modify_def um_total_update um_get_def split: option.splits)

lemma um_total_emplace:
  "um_total f (um_emplace k v m) = um_total f m + (if map_of m k = None then f v else 0)"
  by (simp add: um_emplace_def split: option.splits)

text \<open>The same for a view of key and value into a monoid without subtraction.\<close>

lemma um_sum_update:
  fixes f :: "'k \<times> 'v \<Rightarrow> 'n::comm_monoid_add"
  shows "um_ok m \<Longrightarrow>
    sum_list (map f (AList.update k v m)) + (case map_of m k of None \<Rightarrow> 0 | Some w \<Rightarrow> f (k, w)) =
      sum_list (map f m) + f (k, v)"
proof (induction m)
  case (Cons p m)
  obtain k' w where p: "p = (k', w)" by (cases p)
  show ?case
  proof (cases "k' = k")
    case True
    then have "map_of m k = None" using Cons.prems p by (simp add: map_of_eq_None_iff)
    then show ?thesis using True p by (simp add: ac_simps)
  next
    case False
    then show ?thesis using Cons p by (simp add: add.assoc)
  qed
qed simp

lemma um_sum_emplace:
  "sum_list (map f (um_emplace k v m)) =
     sum_list (map f m) + (if map_of m k = None then f (k, v) else (0::'n::comm_monoid_add))"
  by (simp add: um_emplace_def split: option.splits)

lemma mset_delete: "um_ok m \<Longrightarrow> map_of m k = Some v \<Longrightarrow> mset m = add_mset (k, v) (mset (AList.delete k m))"
proof (induction m)
  case (Cons p m)
  obtain k' w where p: "p = (k', w)" by (cases p)
  show ?case
  proof (cases "k' = k")
    case True
    then have "AList.delete k m = m" using Cons.prems p by (simp add: delete_idem)
    then show ?thesis using True Cons.prems p by simp
  next
    case False
    then show ?thesis using Cons p by simp
  qed
qed simp

lemma mset_concat_map: "mset (concat (map g m)) = sum_list (map (\<lambda>x. mset (g x)) m)"
  by (induction m) auto

section \<open>Lists\<close>

lemma sum_list_nonneg_int: "(\<And>x. x \<in> set xs \<Longrightarrow> 0 \<le> x) \<Longrightarrow> 0 \<le> sum_list (xs :: int list)"
  by (induction xs) auto

text \<open>\<open>std::find_if\<close> followed by \<open>erase\<close>: drop the first element that satisfies the predicate.\<close>

fun remove_first :: "('a \<Rightarrow> bool) \<Rightarrow> 'a list \<Rightarrow> 'a list" where
  "remove_first P [] = []"
| "remove_first P (x # xs) = (if P x then xs else x # remove_first P xs)"

lemma remove_first_none: "\<not> (\<exists>x \<in> set xs. P x) \<Longrightarrow> remove_first P xs = xs"
  by (induction xs) auto

lemma remove_first_split:
  "\<exists>x \<in> set xs. P x \<Longrightarrow>
     \<exists>as x bs. xs = as @ x # bs \<and> P x \<and> (\<forall>y \<in> set as. \<not> P y) \<and> remove_first P xs = as @ bs"
proof (induction xs)
  case Nil
  then show ?case by simp
next
  case (Cons a xs)
  show ?case
  proof (cases "P a")
    case True
    then show ?thesis by (intro exI[of _ "[]"] exI[of _ a] exI[of _ xs]) simp
  next
    case False
    with Cons obtain as x bs where "xs = as @ x # bs" "P x" "\<forall>y \<in> set as. \<not> P y"
      "remove_first P xs = as @ bs" by auto
    with False show ?thesis by (intro exI[of _ "a # as"] exI[of _ x] exI[of _ bs]) simp
  qed
qed

lemma set_remove_first: "set (remove_first P xs) \<subseteq> set xs"
  by (induction xs) auto

lemma sorted_wrt_remove_first: "sorted_wrt R xs \<Longrightarrow> sorted_wrt R (remove_first P xs)"
  by (induction xs) (use set_remove_first in fastforce)+

end
