(* ===== verification/Doubles.thy ===== *)
theory Doubles
  imports Prelude Complex_Main "HOL-Library.Log_Nat"
begin

text \<open>
  The C++ type \<open>double\<close>: IEEE-754 binary64 values with NaN and the infinities, and the arithmetic
  and comparison operators on them. A finite value is the rational number it denotes; an
  operation on finite operands is the exact rational result rounded to nearest, ties to even, to
  53 significant bits with exponents down to \<open>-1074\<close>, and overflows to an infinity at \<open>2 ^ 1024\<close>.
  The two zeros are one value (no code modelled here can tell them apart).
\<close>

datatype double = NaN | NegInf | PosInf | Fin rat

section \<open>Rounding\<close>

text \<open>Binary logarithm, rounded down, of a positive rational.\<close>

definition flog2 :: "rat \<Rightarrow> int" where
  "flog2 x = (let (p, q) = quotient_of x; k = bitlen p - bitlen q
              in if 2 powi k \<le> x then k else k - 1)"

definition round_even :: "rat \<Rightarrow> int" where
  "round_even x = (let f = \<lfloor>x\<rfloor>; d = x - of_int f in
     if d < 1/2 then f else if 1/2 < d then f + 1 else if even f then f else f + 1)"

text \<open>The exponent of the unit in the last place at the magnitude of \<open>x\<close>.\<close>

definition ulp_exp :: "rat \<Rightarrow> int" where
  "ulp_exp x = max (-1074) (flog2 \<bar>x\<bar> - 52)"

definition round53 :: "rat \<Rightarrow> rat" where
  "round53 x = (if x = 0 then 0
     else of_int (round_even (x / 2 powi ulp_exp x)) * 2 powi ulp_exp x)"

definition rnd :: "rat \<Rightarrow> double" where
  "rnd x = (let r = round53 x in
     if 2 ^ 1024 \<le> r then PosInf else if r \<le> - (2 ^ 1024) then NegInf else Fin r)"

section \<open>Comparison and arithmetic operators\<close>

text \<open>
  Every comparison with NaN is false. The class \<open>ord\<close> carries no laws, so \<open><\<close> and \<open>\<le>\<close> can be
  the C++ operators themselves.
\<close>

instantiation double :: ord
begin

fun less_double :: "double \<Rightarrow> double \<Rightarrow> bool" where
  "less_double NaN _ = False"
| "less_double _ NaN = False"
| "less_double NegInf y = (y \<noteq> NegInf)"
| "less_double x PosInf = (x \<noteq> PosInf)"
| "less_double (Fin x) (Fin y) = (x < y)"
| "less_double _ _ = False"

fun less_eq_double :: "double \<Rightarrow> double \<Rightarrow> bool" where
  "less_eq_double NaN _ = False"
| "less_eq_double _ NaN = False"
| "less_eq_double x y = (x < y \<or> x = y)"

instance ..

end

text \<open>C++ \<open>==\<close>: false when an operand is NaN.\<close>

definition deq :: "double \<Rightarrow> double \<Rightarrow> bool" where
  "deq x y \<longleftrightarrow> x \<noteq> NaN \<and> x = y"

fun dneg :: "double \<Rightarrow> double" where
  "dneg NaN = NaN"
| "dneg NegInf = PosInf"
| "dneg PosInf = NegInf"
| "dneg (Fin x) = Fin (- x)"

text \<open>The infinity with the sign of a nonzero factor; zero times infinity is NaN.\<close>

definition inf_of_sign :: "rat \<Rightarrow> double" where
  "inf_of_sign s = (if s = 0 then NaN else if 0 < s then PosInf else NegInf)"

instantiation double :: "{zero, one, plus, minus, times, divide}"
begin

definition zero_double :: double where "zero_double = Fin 0"

definition one_double :: double where "one_double = Fin 1"

fun plus_double :: "double \<Rightarrow> double \<Rightarrow> double" where
  "plus_double NaN _ = NaN"
| "plus_double _ NaN = NaN"
| "plus_double PosInf NegInf = NaN"
| "plus_double NegInf PosInf = NaN"
| "plus_double PosInf _ = PosInf"
| "plus_double _ PosInf = PosInf"
| "plus_double NegInf _ = NegInf"
| "plus_double _ NegInf = NegInf"
| "plus_double (Fin x) (Fin y) = rnd (x + y)"

definition minus_double :: "double \<Rightarrow> double \<Rightarrow> double" where
  "minus_double x y = x + dneg y"

fun times_double :: "double \<Rightarrow> double \<Rightarrow> double" where
  "times_double NaN _ = NaN"
| "times_double _ NaN = NaN"
| "times_double (Fin x) (Fin y) = rnd (x * y)"
| "times_double (Fin x) PosInf = inf_of_sign x"
| "times_double (Fin x) NegInf = inf_of_sign (- x)"
| "times_double PosInf (Fin y) = inf_of_sign y"
| "times_double NegInf (Fin y) = inf_of_sign (- y)"
| "times_double PosInf y = y"
| "times_double NegInf y = dneg y"

text \<open>A nonzero value divided by zero is an infinity of its own sign (the zeros are positive).\<close>

fun divide_double :: "double \<Rightarrow> double \<Rightarrow> double" where
  "divide_double NaN _ = NaN"
| "divide_double _ NaN = NaN"
| "divide_double (Fin x) (Fin y) = (if y = 0 then inf_of_sign x else rnd (x / y))"
| "divide_double (Fin _) _ = Fin 0"
| "divide_double PosInf (Fin y) = (if 0 \<le> y then PosInf else NegInf)"
| "divide_double NegInf (Fin y) = (if 0 \<le> y then NegInf else PosInf)"
| "divide_double _ _ = NaN"

instance ..

end

text \<open>\<open>static_cast<double>\<close> of an integer, \<open>std::max\<close>, \<open>std::min\<close>, and \<open>std::isfinite\<close>.\<close>

definition dbl_of_int :: "int \<Rightarrow> double" where
  "dbl_of_int n = rnd (of_int n)"

definition dmax :: "double \<Rightarrow> double \<Rightarrow> double" where
  "dmax a b = (if a < b then b else a)"

definition dmin :: "double \<Rightarrow> double \<Rightarrow> double" where
  "dmin a b = (if b < a then b else a)"

fun isfinite :: "double \<Rightarrow> bool" where
  "isfinite (Fin _) = True"
| "isfinite _ = False"


section \<open>Facts about rounding\<close>

lemma powi_pos [simp]: "0 < (2::rat) powi e"
  by (simp add: zero_less_power_int)

lemma powi_ge_iff: "0 \<le> a \<Longrightarrow> (2::rat) powi a = 2 ^ nat a"
  by (simp add: power_int_def)

lemma int_bitlen_bounds:
  assumes "0 < (p::int)"
  shows "2 powi (bitlen p - 1) \<le> (of_int p :: rat)" "(of_int p :: rat) < 2 powi bitlen p"
proof -
  have b: "0 < bitlen p" 
    using bitlen_nonneg[of p] bitlen_eq_zero_iff[of p] assms by linarith
  have "(2::int) ^ nat (bitlen p - 1) \<le> p" "p < 2 ^ nat (bitlen p)"
    using bitlen_bounds[OF assms] by auto
  then have "(of_int (2 ^ nat (bitlen p - 1)) :: rat) \<le> of_int p"
    "(of_int p :: rat) < of_int (2 ^ nat (bitlen p))"
    by (simp_all only: of_int_le_iff of_int_less_iff)
  with b show "2 powi (bitlen p - 1) \<le> (of_int p :: rat)" "(of_int p :: rat) < 2 powi bitlen p"
    by (simp_all add: powi_ge_iff)
qed

lemma flog2_bounds:
  assumes "0 < x"
  shows "2 powi flog2 x \<le> x" "x < 2 powi (flog2 x + 1)"
proof -
  obtain p q where pq: "quotient_of x = (p, q)" by (cases "quotient_of x")
  have q: "0 < q" using quotient_of_denom_pos[OF pq] .
  have x: "x = of_int p / of_int q" using quotient_of_div[OF pq] .
  have p: "0 < p" using assms q by (simp add: x zero_less_divide_iff)
  define k where "k = bitlen p - bitlen q"
  note P = int_bitlen_bounds[OF p] and Q = int_bitlen_bounds[OF q]
  have "x < 2 powi bitlen p / 2 powi (bitlen q - 1)"
    unfolding x using P Q q p by (intro frac_less) (auto simp: less_imp_le)
  also have "\<dots> = 2 powi (k + 1)"
    unfolding k_def by (simp add: power_int_diff power_int_add)
  finally have up: "x < 2 powi (k + 1)" .
  have "2 powi (bitlen p - 1) / 2 powi bitlen q \<le> x"
    unfolding x using P Q q p by (intro frac_le) (auto simp: less_imp_le)
  moreover have "2 powi (bitlen p - 1) / 2 powi bitlen q = (2::rat) powi (k - 1)"
    unfolding k_def by (simp add: power_int_diff)
  ultimately have lo: "2 powi (k - 1) \<le> x" by simp
  have f: "flog2 x = (if 2 powi k \<le> x then k else k - 1)"
    by (simp add: flog2_def pq k_def)
  show "2 powi flog2 x \<le> x" using lo by (simp add: f)
  show "x < 2 powi (flog2 x + 1)" using up by (auto simp: f)
qed

lemma flog2_less:
  assumes "0 < x" "x < 2 powi e"
  shows "flog2 x < e"
proof -
  have "(2::rat) powi flog2 x < 2 powi e"
    using flog2_bounds(1)[OF assms(1)] assms(2) by linarith
  then show ?thesis
    using power_int_increasing[of e "flog2 x" "2::rat"] by (cases "flog2 x < e") auto
qed

lemma round_even_of_int [simp]: "round_even (of_int n) = n"
  by (simp add: round_even_def Let_def)

lemma round_even_error: "\<bar>of_int (round_even x) - x\<bar> \<le> 1/2"
proof -
  have "of_int \<lfloor>x\<rfloor> \<le> x" "x < of_int \<lfloor>x\<rfloor> + 1" by linarith+
  then show ?thesis unfolding round_even_def Let_def abs_if
    by (simp only: of_int_add of_int_1 split: if_split) linarith
qed

lemma round_even_nonneg: "0 \<le> x \<Longrightarrow> 0 \<le> round_even x"
  by (simp add: round_even_def Let_def)

text \<open>A value with at most 53 significant bits is its own rounding.\<close>

lemma round53_exact:
  assumes n: "\<bar>n\<bar> < 2 ^ 53" and e: "-1074 \<le> e" and x: "x = of_int n * 2 powi e"
  shows "round53 x = x"
proof (cases "n = 0")
  case True
  then show ?thesis by (simp add: x round53_def)
next
  case False
  define u where "u = ulp_exp x"
  have x0: "x \<noteq> 0" using False by (simp add: x)
  have "\<bar>x\<bar> = of_int \<bar>n\<bar> * 2 powi e" by (simp add: x abs_mult)
  also have "\<dots> < 2 powi 53 * 2 powi e"
  proof (rule mult_strict_right_mono)
    have "(of_int \<bar>n\<bar> :: rat) < of_int (2 ^ 53)" using n by (simp only: of_int_less_iff)
    then show "(of_int \<bar>n\<bar> :: rat) < 2 powi 53" by (simp add: powi_ge_iff)
  qed simp
  also have "\<dots> = 2 powi (53 + e)" by (simp add: power_int_add)
  finally have "flog2 \<bar>x\<bar> < 53 + e" using x0 by (intro flog2_less) simp_all
  then have u: "u \<le> e" using e by (simp add: u_def ulp_exp_def)
  have "(2::rat) powi e = 2 powi (e - u) * 2 powi u" by (simp add: power_int_add [symmetric])
  then have "x / 2 powi u = of_int (n * 2 ^ nat (e - u))"
    using u by (simp add: x powi_ge_iff)
  then show ?thesis using x0
    by (simp add: round53_def u_def [symmetric] del: of_int_mult) (simp add: field_simps)
qed

lemma round53_error: "\<bar>round53 x - x\<bar> \<le> 2 powi ulp_exp x / 2"
proof (cases "x = 0")
  case True
  then show ?thesis by (simp add: round53_def)
next
  case False
  define u where "u = (2::rat) powi ulp_exp x"
  have u: "0 < u" by (simp add: u_def)
  have "round53 x - x = (of_int (round_even (x / u)) - x / u) * u"
    using False u by (simp add: round53_def u_def [symmetric] algebra_simps)
  then have "\<bar>round53 x - x\<bar> = \<bar>of_int (round_even (x / u)) - x / u\<bar> * u"
    using u by (simp add: abs_mult)
  also have "\<dots> \<le> 1/2 * u" using round_even_error[of "x / u"] u by (intro mult_right_mono) auto
  finally show ?thesis by (simp add: u_def)
qed

text \<open>
  The values whose sums, differences and products are computed without rounding: integers
  multiples of one unit \<open>2 powi e\<close>, of magnitude below \<open>2 ^ 53\<close> units.
\<close>

lemma rnd_exact:
  assumes "\<bar>n\<bar> < 2 ^ 53" "-1074 \<le> e" "e \<le> 970" "x = of_int n * 2 powi e"
  shows "rnd x = Fin x"
proof -
  have r: "round53 x = x" by (rule round53_exact[OF assms(1,2,4)])
  have "\<bar>x\<bar> = of_int \<bar>n\<bar> * 2 powi e" by (simp add: assms(4) abs_mult)
  also have "\<dots> < 2 powi 53 * 2 powi e"
  proof (rule mult_strict_right_mono)
    have "(of_int \<bar>n\<bar> :: rat) < of_int (2 ^ 53)" using assms(1) by (simp only: of_int_less_iff)
    then show "(of_int \<bar>n\<bar> :: rat) < 2 powi 53" by (simp add: powi_ge_iff)
  qed simp
  also have "\<dots> = 2 powi (53 + e)" by (simp add: power_int_add)
  also have "\<dots> \<le> 2 powi 1024" using assms(3) by (intro power_int_increasing) auto
  also have "\<dots> = 2 ^ 1024" by (simp add: powi_ge_iff)
  finally have "\<bar>x\<bar> < 2 ^ 1024" .
  then have "\<not> 2 ^ 1024 \<le> x" "\<not> x \<le> - (2 ^ 1024)" by (auto simp only: abs_less_iff not_le)
  then show ?thesis by (simp only: rnd_def Let_def r if_False)
qed

lemma rnd_of_int: "\<bar>n\<bar> < 2 ^ 53 \<Longrightarrow> rnd (of_int n) = Fin (of_int n)"
  by (rule rnd_exact[of n 0]) auto

lemma rnd_error: "rnd x = Fin r \<Longrightarrow> \<bar>r - x\<bar> \<le> 2 powi ulp_exp x / 2"
  using round53_error[of x] by (auto simp only: rnd_def Let_def split: if_splits)

lemma rnd_not_NaN [simp]: "rnd x \<noteq> NaN"
  by (simp add: rnd_def Let_def)

lemma round53_nonneg: "0 \<le> x \<Longrightarrow> 0 \<le> round53 x"
  by (simp add: round53_def round_even_nonneg)

text \<open>Evaluation of the rounding at integer literals, for concrete scenarios.\<close>

lemma rnd_literals [simp]:
  "rnd 0 = Fin 0" "rnd 1 = Fin 1"
  "(numeral k :: int) < 9007199254740992 \<Longrightarrow> rnd (numeral k) = Fin (numeral k)"
  "(numeral k :: int) < 9007199254740992 \<Longrightarrow> rnd (- numeral k) = Fin (- numeral k)"
  using rnd_of_int[of 0] rnd_of_int[of 1] rnd_of_int[of "numeral k"] rnd_of_int[of "- numeral k"]
  by simp_all

text \<open>
  The rounding of a rational whose significand is known: \<open>n\<close> is the nearest 53-bit integer at the
  exponent \<open>e\<close>. With it every literal of the code that is not exact in binary can be evaluated.
\<close>

lemma flog2_unique:
  assumes "2 powi k \<le> x" "x < 2 powi (k + 1)"
  shows "flog2 x = k"
proof -
  have x: "0 < x" using assms(1) powi_pos[of k] by linarith
  have "flog2 x < k + 1" by (rule flog2_less[OF x assms(2)])
  moreover have "\<not> flog2 x < k"
  proof
    assume "flog2 x < k"
    then have "(2::rat) powi (flog2 x + 1) \<le> 2 powi k" by (intro power_int_increasing) auto
    then show False using flog2_bounds(2)[OF x] assms(1) by linarith
  qed
  ultimately show ?thesis by simp
qed

lemma round_even_nearest:
  assumes "\<bar>x - of_int n\<bar> < 1 / 2"
  shows "round_even x = n"
proof -
  have "\<bar>of_int (round_even x) - x\<bar> \<le> 1/2" by (rule round_even_error)
  then have "\<bar>of_int (round_even x) - of_int n :: rat\<bar> < 1" using assms by linarith
  then have "\<bar>of_int (round_even x - n) :: rat\<bar> < 1" by simp
  then show ?thesis by linarith
qed

lemma rnd_eval:
  assumes "2 ^ 52 \<le> n" "n < 2 ^ 53" "- 1074 \<le> e" "e \<le> 971"
    and "2 powi (52 + e) \<le> x" "x < 2 powi (53 + e)" "\<bar>x / 2 powi e - of_int n\<bar> < 1 / 2"
  shows "rnd x = Fin (of_int n * 2 powi e)"
proof -
  have f: "flog2 x = 52 + e" by (rule flog2_unique) (use assms in \<open>auto simp: add.assoc add.commute\<close>)
  have x: "0 < x" using assms(5) powi_pos[of "52 + e"] by linarith
  have r: "round53 x = of_int n * 2 powi e"
    using x assms(3) by (simp add: round53_def ulp_exp_def f round_even_nearest[OF assms(7)])
  have n: "(of_int n :: rat) < 2 ^ 53" "0 < (of_int n :: rat)"
    using assms(1,2) by (metis of_int_less_iff of_int_numeral of_int_power) (use assms(1) in simp)
  have "of_int n * 2 powi e < 2 ^ 53 * (2::rat) powi e" using n(1) by simp
  also have "\<dots> = 2 powi (53 + e)" by (simp add: power_int_add)
  also have "\<dots> \<le> 2 powi 1024" using assms(4) by (intro power_int_increasing) auto
  finally have "of_int n * 2 powi e < (2::rat) powi 1024" .
  moreover have "(2::rat) powi 1024 = 2 ^ 1024" by (rule power_int_numeral)
  moreover have "0 < of_int n * (2::rat) powi e" using n(2) by simp
  moreover have "- (2 ^ 1024) < (0::rat)" by simp
  ultimately show ?thesis unfolding rnd_def r Let_def by (metis less_trans not_le)
qed

lemma rnd_eleven_tenths: "rnd (11 / 10) = Fin (2476979795053773 / 2251799813685248)"
proof -
  have "rnd (11 / 10) = Fin (of_int 4953959590107546 * 2 powi (- 52))"
    by (rule rnd_eval) (simp_all add: power_int_def power_divide)
  then show ?thesis by (simp add: power_int_def power_divide)
qed

section \<open>Facts about the order\<close>

lemma double_less_irrefl [simp]: "\<not> x < (x::double)"
  by (cases x) auto

lemma double_less_trans: "x < y \<Longrightarrow> y < z \<Longrightarrow> x < (z::double)"
  by (cases x; cases y; cases z) auto

lemma double_less_asym: "x < y \<Longrightarrow> \<not> y < (x::double)"
  by (cases x; cases y) auto

lemma double_less_total: "x \<noteq> NaN \<Longrightarrow> y \<noteq> NaN \<Longrightarrow> x < y \<or> x = y \<or> y < (x::double)"
  by (cases x; cases y) auto

lemma double_less_NaN [simp]: "\<not> NaN < x" "\<not> x < NaN"
  by (cases x; simp)+

lemma double_le_NaN [simp]: "\<not> NaN \<le> x" "\<not> x \<le> NaN"
  by (cases x; simp)+

lemma double_less_not_NaN: "x < y \<Longrightarrow> x \<noteq> NaN \<and> y \<noteq> NaN"
  by (cases x; cases y) auto

lemma double_le_iff: "x \<le> y \<longleftrightarrow> x < y \<or> x = (y::double) \<and> x \<noteq> NaN"
  by (cases x; cases y) auto

lemma double_not_less: "x \<noteq> NaN \<Longrightarrow> y \<noteq> NaN \<Longrightarrow> \<not> x < y \<longleftrightarrow> y \<le> (x::double)"
  by (cases x; cases y) auto

lemma double_le_trans: "x \<le> y \<Longrightarrow> y \<le> z \<Longrightarrow> x \<le> (z::double)"
  by (cases x; cases y; cases z) auto

lemma double_le_less_trans: "x \<le> y \<Longrightarrow> y < z \<Longrightarrow> x < (z::double)"
  by (cases x; cases y; cases z) auto

lemma double_less_le_trans: "x < y \<Longrightarrow> y \<le> z \<Longrightarrow> x < (z::double)"
  by (cases x; cases y; cases z) auto

lemma zero_double_simps [simp]: "0 = Fin 0" "1 = Fin 1"
  by (simp_all add: zero_double_def one_double_def)

lemmas double_order = double_less_trans double_less_asym double_less_total double_le_iff
  double_not_less double_le_trans double_le_less_trans double_less_le_trans

lemma Fin_minus [simp]: "Fin x - Fin y = rnd (x - y)"
  by (simp add: minus_double_def)

lemma minus_NaN [simp]: "NaN - y = NaN" "x - NaN = NaN"
  by (cases x; simp add: minus_double_def)+

lemma times_NaN [simp]: "NaN * y = NaN" "x * NaN = NaN"
  by (cases x; simp)+

lemma plus_NaN [simp]: "NaN + y = NaN" "x + NaN = NaN"
  by (cases x; simp)+

end
