(* ===== verification/Types.thy ===== *)
theory Types
  imports Doubles "HOL-Library.Word"
begin

text \<open>
  The value types of \<open>Src_Simulation/include/types.hpp\<close>: sides, order kinds, orders, order
  requests, trades and submit results. Order ids are 64-bit words (the counter wraps); client ids
  and quantities are signed 64-bit in the code, where overflow is undefined, and integers here;
  prices are binary64 values; time points are integers, in nanoseconds of the steady clock.
\<close>

type_synonym order_id = "64 word"
type_synonym price = double

datatype side = BUY | SELL

datatype order_kind = MARKET | LIMIT | STOP | LIMIT_STOP

fun side_to_string :: "side \<Rightarrow> string" where
  "side_to_string BUY = ''BUY''"
| "side_to_string SELL = ''SELL''"

fun kind_to_string :: "order_kind \<Rightarrow> string" where
  "kind_to_string MARKET = ''MARKET''"
| "kind_to_string LIMIT = ''LIMIT''"
| "kind_to_string STOP = ''STOP''"
| "kind_to_string LIMIT_STOP = ''LIMIT_STOP''"

record order =
  oid :: order_id
  client :: client_id
  side :: side
  kind :: order_kind
  osymbol :: symbol
  qty :: quantity
  price :: price
  release_lower :: price
  release_upper :: price
  submitted_at :: time
  not_before :: "time option"
  expires_at :: "time option"

definition release_band_contains :: "order \<Rightarrow> price \<Rightarrow> bool" where
  "release_band_contains ord reference \<longleftrightarrow>
     release_lower ord \<le> reference \<and> reference \<le> release_upper ord"

record order_request =
  rq_client :: client_id
  rq_side :: side
  rq_kind :: order_kind
  rq_symbol :: symbol
  rq_quantity :: quantity
  rq_price :: price
  trigger_lower :: "price option"
  trigger_upper :: "price option"
  expires_in :: "int option"
  not_before_in :: "int option"

definition default_request :: order_request where
  "default_request = \<lparr>rq_client = 0, rq_side = BUY, rq_kind = LIMIT, rq_symbol = [],
     rq_quantity = 0, rq_price = 0, trigger_lower = None, trigger_upper = None,
     expires_in = None, not_before_in = None\<rparr>"

record trade =
  buy_order_id :: order_id
  sell_order_id :: order_id
  buyer :: client_id
  seller :: client_id
  tsymbol :: symbol
  tqty :: quantity
  tprice :: price
  timestamp :: time

record submit_result =
  accepted :: bool
  queued :: bool
  reject_reason :: string
  result_order_id :: order_id
  filled_quantity :: quantity
  trades :: "trade list"

definition empty_result :: submit_result where
  "empty_result = \<lparr>accepted = False, queued = False, reject_reason = [], result_order_id = 0,
     filled_quantity = 0, trades = []\<rparr>"

text \<open>\<open>std::optional::value_or\<close>.\<close>

definition value_or :: "'a option \<Rightarrow> 'a \<Rightarrow> 'a" where
  "value_or x d = (case x of None \<Rightarrow> d | Some v \<Rightarrow> v)"

lemma value_or_simps [simp]: "value_or None d = d" "value_or (Some v) d = v"
  by (simp_all add: value_or_def)

lemma release_band_unbounded:
  "release_lower ord = NegInf \<Longrightarrow> release_upper ord = PosInf \<Longrightarrow>
     release_band_contains ord p \<longleftrightarrow> p \<noteq> NaN"
  by (cases p) (auto simp: release_band_contains_def)

abbreviation volume :: "order list \<Rightarrow> quantity" where
  "volume os \<equiv> sum_list (map qty os)"

abbreviation trade_volume :: "trade list \<Rightarrow> quantity" where
  "trade_volume ts \<equiv> sum_list (map tqty ts)"

end
