(* ===== verification/OrderBook.thy ===== *)
theory OrderBook
  imports Types
begin

text \<open>
  The single-symbol order book of \<open>Src_Simulation/src/order_book.cpp\<close> and \<open>order_book.hpp\<close>.

  A side of the book is a \<open>std::map\<close> from a price to a queue of orders. It is modelled as the list
  of its (price, queue) pairs in iteration order; searching walks to the first key that is not
  before the wanted one (\<open>lower_bound\<close>) and two keys are equivalent when neither is before the
  other, so the model also says what the map does with a NaN key. Every call to \<open>Clock::now()\<close> inside
  a match is a reading of the parameter \<open>clk\<close>, indexed by the number of trades made so far.
\<close>

type_synonym levels = "(price \<times> order list) list"

record order_book =
  bk_symbol :: symbol
  bids :: levels
  asks :: levels

definition new_book :: "symbol \<Rightarrow> order_book" where
  "new_book s = \<lparr>bk_symbol = s, bids = [], asks = []\<rparr>"

text \<open>The comparators of the two maps: \<open>std::greater\<close> and \<open>std::less\<close>.\<close>

definition bid_before :: "price \<Rightarrow> price \<Rightarrow> bool" where
  "bid_before a b \<longleftrightarrow> b < a"

definition ask_before :: "price \<Rightarrow> price \<Rightarrow> bool" where
  "ask_before a b \<longleftrightarrow> a < b"

text \<open>\<open>side[price].push_back(order)\<close>.\<close>

fun level_push :: "(price \<Rightarrow> price \<Rightarrow> bool) \<Rightarrow> price \<Rightarrow> order \<Rightarrow> levels \<Rightarrow> levels" where
  "level_push prec p x [] = [(p, [x])]"
| "level_push prec p x ((k, q) # lv) =
     (if prec k p then (k, q) # level_push prec p x lv
      else if prec p k then (p, [x]) # (k, q) # lv
      else (k, q @ [x]) # lv)"

section \<open>Matching\<close>

text \<open>
  The inner loop: while the incoming order is not exhausted and the level's queue is not empty,
  trade with the front order and pop it when it is filled. The result is the trades, the incoming
  order and what is left of the queue.
\<close>

function fill_queue ::
  "(nat \<Rightarrow> order \<Rightarrow> order \<Rightarrow> quantity \<Rightarrow> trade) \<Rightarrow> nat \<Rightarrow> order \<Rightarrow> order list \<Rightarrow>
     trade list \<times> order \<times> order list" where
  "fill_queue mk k inc [] = ([], inc, [])"
| "fill_queue mk k inc (r # rs) =
     (if 0 < qty inc then
        let n = min (qty inc) (qty r);
            t = mk k inc r n;
            inc' = inc\<lparr>qty := qty inc - n\<rparr>;
            r' = r\<lparr>qty := qty r - n\<rparr>;
            (ts, inc'', q) = fill_queue mk (Suc k) inc' (if qty r' = 0 then rs else r' # rs)
        in (t # ts, inc'', q)
      else ([], inc, r # rs))"
  by pat_completeness auto
termination
  by (relation "measure (\<lambda>(mk, k, inc, q). length q + (if 0 < qty inc then 1 else 0))") auto

declare fill_queue.simps(2) [simp del]

text \<open>
  One turn of the loop, by the three ways it can go; the proofs about the loop are inductions on
  the queue with these rules.
\<close>

lemma fill_queue_done [book_simps]: "\<not> 0 < qty inc \<Longrightarrow> fill_queue mk k inc q = ([], inc, q)"
  by (cases q) (auto simp: fill_queue.simps)

lemma fill_queue_pop [book_simps]:
  assumes "0 < qty inc" "qty r \<le> qty inc"
  shows "fill_queue mk k inc (r # rs) =
    (let (ts, inc', q) = fill_queue mk (Suc k) (inc\<lparr>qty := qty inc - qty r\<rparr>) rs
     in (mk k inc r (qty r) # ts, inc', q))"
  using assms by (simp add: fill_queue.simps(2) Let_def)

lemma fill_queue_partial [book_simps]:
  assumes "0 < qty inc" "qty inc < qty r"
  shows "fill_queue mk k inc (r # rs) =
    ([mk k inc r (qty inc)], inc\<lparr>qty := 0\<rparr>, r\<lparr>qty := qty r - qty inc\<rparr> # rs)"
  using assms by (simp add: fill_queue.simps(2) fill_queue_done Let_def)

lemma fill_queue_cases:
  obtains (stop) "\<not> 0 < qty inc" | (pop) "0 < qty inc" "qty r \<le> qty inc"
    | (part) "0 < qty inc" "qty inc < qty r"
  by linarith

text \<open>The loop leaves orders in the queue only when the incoming order is exhausted.\<close>

lemma fill_queue_exit: "fill_queue mk k inc q = (ts, inc', q') \<Longrightarrow> q' \<noteq> [] \<Longrightarrow> \<not> 0 < qty inc'"
proof (induction q arbitrary: k inc ts)
  case (Cons r rs)
  show ?case
    by (rule fill_queue_cases[where inc = inc and r = r]) (use Cons in \<open>auto simp: book_simps split: prod.splits\<close>)
qed simp

text \<open>
  The outer loop over the opposite side's levels, best first. \<open>stop limit level\<close> is the test that
  ends it for an order that is not a MARKET order.
\<close>

function match_levels ::
  "(price \<Rightarrow> price \<Rightarrow> bool) \<Rightarrow> (price \<Rightarrow> nat \<Rightarrow> order \<Rightarrow> order \<Rightarrow> quantity \<Rightarrow> trade) \<Rightarrow> nat \<Rightarrow> order \<Rightarrow> levels \<Rightarrow>
     trade list \<times> order \<times> levels" where
  "match_levels stop mk k inc [] = ([], inc, [])"
| "match_levels stop mk k inc ((p, q) # lv) =
     (if 0 < qty inc \<and> \<not> (kind inc \<noteq> MARKET \<and> stop (price inc) p) then
        let (ts, inc', q') = fill_queue (mk p) k inc q;
            (ts', inc'', lv') =
              match_levels stop mk (k + length ts) inc' (if q' = [] then lv else (p, q') # lv)
        in (ts @ ts', inc'', lv')
      else ([], inc, (p, q) # lv))"
  by pat_completeness auto
termination
proof (relation "measure (\<lambda>(stop, mk, k, inc, lv). length lv + (if 0 < qty inc then 1 else 0))",
    goal_cases)
  case (2 stop mk k inc p q lv x ts y inc' q')
  then have "fill_queue (mk p) k inc q = (ts, inc', q')" by simp
  then have "q' \<noteq> [] \<Longrightarrow> \<not> 0 < qty inc'" by (rule fill_queue_exit)
  then show ?case using 2 by auto
qed simp

declare match_levels.simps(2) [simp del]

lemma match_levels_stop [book_simps]:
  "\<not> 0 < qty inc \<or> kind inc \<noteq> MARKET \<and> stop (price inc) p \<Longrightarrow>
     match_levels stop mk k inc ((p, q) # lv) = ([], inc, (p, q) # lv)"
  by (auto simp: match_levels.simps(2))

lemma match_levels_step [book_simps]:
  "0 < qty inc \<Longrightarrow> \<not> (kind inc \<noteq> MARKET \<and> stop (price inc) p) \<Longrightarrow>
     match_levels stop mk k inc ((p, q) # lv) =
       (let (ts, inc', q') = fill_queue (mk p) k inc q;
            (ts', inc'', lv') =
              match_levels stop mk (k + length ts) inc' (if q' = [] then lv else (p, q') # lv)
        in (ts @ ts', inc'', lv'))"
  by (simp add: match_levels.simps(2))

definition buy_trade ::
  "symbol \<Rightarrow> (nat \<Rightarrow> time) \<Rightarrow> price \<Rightarrow> nat \<Rightarrow> order \<Rightarrow> order \<Rightarrow> quantity \<Rightarrow> trade" where
  "buy_trade s clk level_price k incoming resting n =
     \<lparr>buy_order_id = oid incoming, sell_order_id = oid resting,
      buyer = client incoming, seller = client resting,
      tsymbol = s, tqty = n, tprice = level_price, timestamp = clk k\<rparr>"

definition sell_trade ::
  "symbol \<Rightarrow> (nat \<Rightarrow> time) \<Rightarrow> price \<Rightarrow> nat \<Rightarrow> order \<Rightarrow> order \<Rightarrow> quantity \<Rightarrow> trade" where
  "sell_trade s clk level_price k incoming resting n =
     \<lparr>buy_order_id = oid resting, sell_order_id = oid incoming,
      buyer = client resting, seller = client incoming,
      tsymbol = s, tqty = n, tprice = level_price, timestamp = clk k\<rparr>"

definition match_incoming_buy ::
  "(nat \<Rightarrow> time) \<Rightarrow> order \<Rightarrow> order_book \<Rightarrow> trade list \<times> order_book" where
  "match_incoming_buy clk incoming b =
     (let (ts, inc, lv) =
            match_levels (\<lambda>limit level. limit < level) (buy_trade (bk_symbol b) clk) 0 incoming (asks b);
          b' = b\<lparr>asks := lv\<rparr>
      in (ts, if 0 < qty inc \<and> kind inc \<noteq> MARKET
              then b'\<lparr>bids := level_push bid_before (price inc) inc (bids b')\<rparr> else b'))"

definition match_incoming_sell ::
  "(nat \<Rightarrow> time) \<Rightarrow> order \<Rightarrow> order_book \<Rightarrow> trade list \<times> order_book" where
  "match_incoming_sell clk incoming b =
     (let (ts, inc, lv) =
            match_levels (\<lambda>limit level. level < limit) (sell_trade (bk_symbol b) clk) 0 incoming (bids b);
          b' = b\<lparr>bids := lv\<rparr>
      in (ts, if 0 < qty inc \<and> kind inc \<noteq> MARKET
              then b'\<lparr>asks := level_push ask_before (price inc) inc (asks b')\<rparr> else b'))"

definition book_match :: "(nat \<Rightarrow> time) \<Rightarrow> order \<Rightarrow> order_book \<Rightarrow> trade list \<times> order_book" where
  "book_match clk incoming b =
     (if side incoming = BUY then match_incoming_buy clk incoming b
      else match_incoming_sell clk incoming b)"

section \<open>Cancelling\<close>

text \<open>\<open>find(price)\<close>, then \<open>find_if\<close> in its queue, then erase the order and an emptied level.\<close>

fun cancel_at :: "(price \<Rightarrow> price \<Rightarrow> bool) \<Rightarrow> price \<Rightarrow> order_id \<Rightarrow> levels \<Rightarrow> bool \<times> levels" where
  "cancel_at prec p i [] = (False, [])"
| "cancel_at prec p i ((k, q) # lv) =
     (if prec k p then (let (found, lv') = cancel_at prec p i lv in (found, (k, q) # lv'))
      else if prec p k then (False, (k, q) # lv)
      else if \<exists>x \<in> set q. oid x = i then
        (let q' = remove_first (\<lambda>x. oid x = i) q in (True, if q' = [] then lv else (k, q') # lv))
      else (False, (k, q) # lv))"

definition book_cancel_at :: "side \<Rightarrow> price \<Rightarrow> order_id \<Rightarrow> order_book \<Rightarrow> bool \<times> order_book" where
  "book_cancel_at s p i b =
     (if s = BUY then
        let (found, lv) = cancel_at bid_before p i (bids b) in (found, b\<lparr>bids := lv\<rparr>)
      else
        let (found, lv) = cancel_at ask_before p i (asks b) in (found, b\<lparr>asks := lv\<rparr>))"

fun cancel_in :: "order_id \<Rightarrow> levels \<Rightarrow> bool \<times> levels" where
  "cancel_in i [] = (False, [])"
| "cancel_in i ((k, q) # lv) =
     (if \<exists>x \<in> set q. oid x = i then
        (let q' = remove_first (\<lambda>x. oid x = i) q in (True, if q' = [] then lv else (k, q') # lv))
      else (let (found, lv') = cancel_in i lv in (found, (k, q) # lv')))"

definition book_cancel :: "order_id \<Rightarrow> order_book \<Rightarrow> bool \<times> order_book" where
  "book_cancel i b =
     (let (found, lv) = cancel_in i (bids b) in
      if found then (True, b\<lparr>bids := lv\<rparr>)
      else let (found', lv') = cancel_in i (asks b) in (found', b\<lparr>asks := lv'\<rparr>))"

section \<open>Views\<close>

definition best_bid :: "order_book \<Rightarrow> price option" where
  "best_bid b = (case bids b of [] \<Rightarrow> None | (p, _) # _ \<Rightarrow> Some p)"

definition best_ask :: "order_book \<Rightarrow> price option" where
  "best_ask b = (case asks b of [] \<Rightarrow> None | (p, _) # _ \<Rightarrow> Some p)"

record book_level =
  lv_price :: price
  lv_quantity :: quantity

record book_snapshot =
  snap_bids :: "book_level list"
  snap_asks :: "book_level list"

definition level_of :: "price \<times> order list \<Rightarrow> book_level" where
  "level_of l = \<lparr>lv_price = fst l, lv_quantity = volume (snd l)\<rparr>"

fun top_levels :: "nat \<Rightarrow> nat \<Rightarrow> levels \<Rightarrow> book_level list" where
  "top_levels depth n [] = []"
| "top_levels depth n (l # lv) =
     (if depth \<le> n then [] else level_of l # top_levels depth (Suc n) lv)"

definition book_snapshot_of :: "nat \<Rightarrow> order_book \<Rightarrow> book_snapshot" where
  "book_snapshot_of depth b =
     \<lparr>snap_bids = top_levels depth 0 (bids b), snap_asks = top_levels depth 0 (asks b)\<rparr>"

definition resting_orders :: "order_book \<Rightarrow> order list" where
  "resting_orders b = concat (map snd (bids b)) @ concat (map snd (asks b))"

end
