(* ===== verification/BookFacts.thy ===== *)
theory BookFacts
  imports OrderBook
begin

text \<open>
  Correctness of the order book: the abstract greedy matching of a flat priority list and the
  refinement of the two nested loops to it, conservation of quantity, the limit-price guarantee,
  the maximality of the executed volume, the representation invariant, the absence of a crossed
  book, cancellation, and what a NaN price does to a book.
\<close>

section \<open>Greedy matching of a flat list\<close>

definition flatten :: "levels \<Rightarrow> (price \<times> order) list" where
  "flatten lv = concat (map (\<lambda>(p, q). map (Pair p) q) lv)"

abbreviation willing :: "(price \<Rightarrow> price \<Rightarrow> bool) \<Rightarrow> order \<Rightarrow> price \<Rightarrow> bool" where
  "willing stop inc p \<equiv> \<not> (kind inc \<noteq> MARKET \<and> stop (price inc) p)"

fun greedy_fill ::
  "(price \<Rightarrow> price \<Rightarrow> bool) \<Rightarrow> (price \<Rightarrow> nat \<Rightarrow> order \<Rightarrow> order \<Rightarrow> quantity \<Rightarrow> trade) \<Rightarrow> nat \<Rightarrow> order \<Rightarrow>
     (price \<times> order) list \<Rightarrow> trade list \<times> order \<times> (price \<times> order) list" where
  "greedy_fill stop mk k inc [] = ([], inc, [])"
| "greedy_fill stop mk k inc ((p, r) # xs) =
     (if 0 < qty inc \<and> willing stop inc p then
        if qty r \<le> qty inc then
          let (ts, inc', xs') = greedy_fill stop mk (Suc k) (inc\<lparr>qty := qty inc - qty r\<rparr>) xs
          in (mk p k inc r (qty r) # ts, inc', xs')
        else ([mk p k inc r (qty inc)], inc\<lparr>qty := 0\<rparr>, (p, r\<lparr>qty := qty r - qty inc\<rparr>) # xs)
      else ([], inc, (p, r) # xs))"

lemma flatten_simps [simp]:
  "flatten [] = []" "flatten ((p, q) # lv) = map (Pair p) q @ flatten lv"
  by (simp_all add: flatten_def)

lemma set_flatten: "set (flatten lv) = {(p, r). \<exists>q. (p, q) \<in> set lv \<and> r \<in> set q}"
  by (auto simp: flatten_def)

lemma snd_flatten: "map snd (flatten lv) = concat (map snd lv)"
  by (induction lv) (auto simp: comp_def)

lemma order_qty_self: "\<exists>n. (inc :: order) = inc\<lparr>qty := n\<rparr>"
  by (rule exI[of _ "qty inc"]) simp

lemma greedy_done: "\<not> 0 < qty inc \<Longrightarrow> greedy_fill stop mk k inc xs = ([], inc, xs)"
  by (cases "(stop, mk, k, inc, xs)" rule: greedy_fill.cases) auto

lemma greedy_level:
  assumes "willing stop inc p"
  shows "greedy_fill stop mk k inc (map (Pair p) q @ xs) =
    (let (ts, inc', q') = fill_queue (mk p) k inc q in
     if q' = [] then
       let (ts', inc'', xs') = greedy_fill stop mk (k + length ts) inc' xs in (ts @ ts', inc'', xs')
     else (ts, inc', map (Pair p) q' @ xs))"
  using assms
proof (induction q arbitrary: k inc)
  case Nil
  then show ?case by (simp split: prod.splits)
next
  case (Cons r rs)
  show ?case
    by (rule fill_queue_cases[where inc = inc and r = r])
      (use Cons in \<open>auto simp: book_simps greedy_done Let_def split: prod.splits\<close>)
qed

lemma fill_queue_frame:
  "fill_queue mk k inc q = (ts, inc', q') \<Longrightarrow> \<exists>n. inc' = inc\<lparr>qty := n\<rparr>"
proof (induction q arbitrary: k inc ts)
  case Nil
  then show ?case using order_qty_self by simp
next
  case (Cons r rs)
  show ?case
  proof (rule fill_queue_cases[where inc = inc and r = r])
    assume "0 < qty inc" "qty r \<le> qty inc"
    then obtain ts' where "fill_queue mk (Suc k) (inc\<lparr>qty := qty inc - qty r\<rparr>) rs = (ts', inc', q')"
      using Cons.prems by (auto simp: book_simps split: prod.splits)
    from Cons.IH[OF this] show ?thesis by auto
  qed (use Cons.prems order_qty_self in \<open>auto simp: book_simps\<close>)
qed

lemma match_levels_refines_greedy:
  assumes "match_levels stop mk k inc lv = (ts, inc', lv')" "\<forall>(p, q) \<in> set lv. q \<noteq> []"
  shows "greedy_fill stop mk k inc (flatten lv) = (ts, inc', flatten lv')"
  using assms
proof (induction stop mk k inc lv arbitrary: ts lv' rule: match_levels.induct)
  case (1 stop mk k inc)
  then show ?case by simp
next
  case (2 stop mk k inc p q lv)
  show ?case
  proof (cases "0 < qty inc \<and> willing stop inc p")
    case False
    have "q \<noteq> []" using "2.prems" by auto
    moreover have "ts = [] \<and> inc' = inc \<and> lv' = (p, q) # lv"
      using "2.prems"(1) False by (simp add: match_levels_stop)
    ultimately show ?thesis using False by (cases q) auto
  next
    case True
    obtain ts1 inc1 q1 where f: "fill_queue (mk p) k inc q = (ts1, inc1, q1)"
      by (metis prod_cases3)
    obtain ts2 lv2 where
      m: "match_levels stop mk (k + length ts1) inc1 (if q1 = [] then lv else (p, q1) # lv)
            = (ts2, inc', lv')" and ts: "ts = ts1 @ ts2"
      using "2.prems"(1) True f by (auto simp: match_levels_step simp del: if_split split: prod.splits)
    note IH = "2.IH"[OF True f[symmetric] refl refl m]
    show ?thesis
    proof (cases "q1 = []")
      case q1: True
      then have "greedy_fill stop mk (k + length ts1) inc1 (flatten lv) = (ts2, inc', flatten lv')"
        using IH "2.prems"(2) by simp
      then show ?thesis using q1 True f ts by (simp add: greedy_level)
    next
      case q1: False
      then have "\<not> 0 < qty inc1" using fill_queue_exit[OF f] by simp
      then have "ts2 = []" "inc' = inc1" "lv' = (p, q1) # lv"
        using m q1 by (simp_all add: match_levels_stop)
      then show ?thesis using q1 True f ts by (simp add: greedy_level)
    qed
  qed
qed

section \<open>What greedy matching achieves\<close>

text \<open>
  Induction along a run of the greedy matching: it ends with an empty list, at an unwilling or
  exhausted incoming order, or with a partial fill; otherwise it pops one order and goes on.
\<close>

lemma greedy_run_induct [consumes 1, case_names empty stop part pop]:
  assumes "greedy_fill stop mk k inc xs = (ts, inc', xs')"
    and "\<And>k inc. P k inc [] [] inc []"
    and "\<And>k inc p r xs. \<not> (0 < qty inc \<and> willing stop inc p) \<Longrightarrow> P k inc ((p, r) # xs) [] inc ((p, r) # xs)"
    and "\<And>k inc p r xs. 0 < qty inc \<Longrightarrow> willing stop inc p \<Longrightarrow> qty inc < qty r \<Longrightarrow>
      P k inc ((p, r) # xs) [mk p k inc r (qty inc)] (inc\<lparr>qty := 0\<rparr>) ((p, r\<lparr>qty := qty r - qty inc\<rparr>) # xs)"
    and "\<And>k inc p r xs ts inc' xs'. 0 < qty inc \<Longrightarrow> willing stop inc p \<Longrightarrow> qty r \<le> qty inc \<Longrightarrow>
      P (Suc k) (inc\<lparr>qty := qty inc - qty r\<rparr>) xs ts inc' xs' \<Longrightarrow>
      P k inc ((p, r) # xs) (mk p k inc r (qty r) # ts) inc' xs'"
  shows "P k inc xs ts inc' xs'"
  using assms(1)
proof (induction xs arbitrary: k inc ts)
  case Nil
  then show ?case using assms(2) by simp
next
  case (Cons x xs)
  obtain p r where x: "x = (p, r)" by (cases x)
  consider "\<not> (0 < qty inc \<and> willing stop inc p)"
    | "0 < qty inc" "willing stop inc p" "qty inc < qty r"
    | "0 < qty inc" "willing stop inc p" "qty r \<le> qty inc" by linarith
  then show ?case
  proof cases
    case 1
    then have "ts = []" "inc' = inc" "xs' = (p, r) # xs" using Cons.prems x by (auto split: if_splits)
    then show ?thesis using assms(3)[OF 1] x by simp
  next
    case 2
    then have "ts = [mk p k inc r (qty inc)]" "inc' = inc\<lparr>qty := 0\<rparr>"
      "xs' = (p, r\<lparr>qty := qty r - qty inc\<rparr>) # xs" using Cons.prems x by (auto split: if_splits)
    then show ?thesis using assms(4)[OF 2] x by simp
  next
    case 3
    then obtain ts1 where g: "greedy_fill stop mk (Suc k) (inc\<lparr>qty := qty inc - qty r\<rparr>) xs = (ts1, inc', xs')"
      and ts: "ts = mk p k inc r (qty r) # ts1"
      using Cons.prems x by (auto split: prod.splits)
    show ?thesis unfolding x ts by (rule assms(5)[OF 3 Cons.IH[OF g]])
  qed
qed

lemma greedy_exit:
  assumes "greedy_fill stop mk k inc xs = (ts, inc', xs')" "0 < qty inc'"
  shows "xs' = [] \<or> \<not> willing stop inc (fst (hd xs'))"
  using assms by (induction rule: greedy_run_induct) auto

lemma greedy_frame:
  assumes "greedy_fill stop mk k inc xs = (ts, inc', xs')"
  shows "\<exists>n. inc' = inc\<lparr>qty := n\<rparr>"
  using assms by (induction rule: greedy_run_induct) (auto simp: order_qty_self)

text \<open>What is left of the list: each entry is an original one, up to the quantity.\<close>

lemma greedy_rest:
  assumes "greedy_fill stop mk k inc xs = (ts, inc', xs')" "(p, r') \<in> set xs'"
  shows "\<exists>r n. (p, r) \<in> set xs \<and> r' = r\<lparr>qty := n\<rparr>"
  using assms
proof (induction rule: greedy_run_induct)
  case (part k inc p r xs)
  then show ?case using order_qty_self by fastforce
qed (use order_qty_self in fastforce)+

text \<open>
  Time priority: the list is consumed from the front, one trade per consumed order, and only the
  last of them can be left with a remainder.
\<close>

lemma greedy_prefix:
  assumes "greedy_fill stop mk k inc xs = (ts, inc', xs')"
  shows "(xs' = drop (length ts) xs \<or>
      (\<exists>n p r m. length ts = Suc n \<and> n < length xs \<and> xs ! n = (p, r) \<and> m < qty r \<and> \<not> 0 < qty inc' \<and>
         xs' = (p, r\<lparr>qty := qty r - m\<rparr>) # drop (Suc n) xs))"
  using assms
proof (induction rule: greedy_run_induct)
  case (part k inc p r xs)
  then show ?case by (intro disjI2 exI[of _ 0] exI[of _ p] exI[of _ r] exI[of _ "qty inc"]) simp
next
  case (pop k inc p r xs ts inc' xs')
  then show ?case
  proof (elim disjE exE conjE)
    fix n q r' m
    assume "length ts = Suc n" "n < length xs" "xs ! n = (q, r')" "m < qty r'" "\<not> 0 < qty inc'"
      "xs' = (q, r'\<lparr>qty := qty r' - m\<rparr>) # drop (Suc n) xs"
    then show ?thesis
      by (intro disjI2 exI[of _ "Suc n"] exI[of _ q] exI[of _ r'] exI[of _ m]) simp
  qed simp
qed auto

locale trade_maker =
  fixes mk :: "price \<Rightarrow> nat \<Rightarrow> order \<Rightarrow> order \<Rightarrow> quantity \<Rightarrow> trade"
  assumes mk_qty: "tqty (mk p k inc r n) = n"
    and mk_price: "tprice (mk p k inc r n) = p"
    and mk_frame: "mk p k (inc\<lparr>qty := m\<rparr>) r n = mk p k inc r n"
begin

lemma greedy_conserves:
  assumes "greedy_fill stop mk k inc xs = (ts, inc', xs')"
  shows "qty inc = trade_volume ts + qty inc'"
    and "volume (map snd xs) = trade_volume ts + volume (map snd xs')"
  using assms by (induction rule: greedy_run_induct) (auto simp: mk_qty)

lemma greedy_positive:
  assumes "greedy_fill stop mk k inc xs = (ts, inc', xs')" "\<forall>x \<in> set xs. 0 < qty (snd x)"
  shows "\<forall>t \<in> set ts. 0 < tqty t" "\<forall>x \<in> set xs'. 0 < qty (snd x)"
  using assms by (induction rule: greedy_run_induct) (auto simp: mk_qty)

lemma greedy_remaining:
  assumes "greedy_fill stop mk k inc xs = (ts, inc', xs')" "0 \<le> qty inc"
  shows "0 \<le> qty inc'"
  using assms by (induction rule: greedy_run_induct) auto

lemma greedy_volume:
  assumes "greedy_fill stop mk k inc xs = (ts, inc', xs')" "\<forall>x \<in> set xs. 0 < qty (snd x)" "0 \<le> qty inc"
  shows "trade_volume ts =
    min (qty inc) (volume (map snd (takeWhile (\<lambda>x. willing stop inc (fst x)) xs)))"
  using assms
proof (induction rule: greedy_run_induct)
  case (stop k inc p r xs)
  have "0 \<le> volume (map snd (takeWhile (\<lambda>x. willing stop inc (fst x)) ((p, r) # xs)))"
    using stop.prems(1)
    by (intro sum_list_nonneg_int) (auto dest!: set_takeWhileD intro: less_imp_le split: if_splits)
  then show ?case using stop by (auto simp: min_def)
next
  case (part k inc p r xs)
  have "0 \<le> volume (map snd (takeWhile (\<lambda>x. willing stop inc (fst x)) xs))"
    using part.prems(1) by (intro sum_list_nonneg_int) (auto dest!: set_takeWhileD intro: less_imp_le)
  then show ?case using part by (simp add: mk_qty min_def)
next
  case (pop k inc p r xs ts inc' xs')
  then show ?case by (simp add: mk_qty min_def)
qed auto

text \<open>Each trade is made at the price of a resting order the incoming one is willing to meet.\<close>

lemma greedy_trades:
  assumes "greedy_fill stop mk k inc xs = (ts, inc', xs')" "t \<in> set ts"
  shows "\<exists>r j. (tprice t, r) \<in> set xs \<and> willing stop inc (tprice t) \<and>
    t = mk (tprice t) j inc r (tqty t) \<and> tqty t \<le> qty r"
  using assms
proof (induction rule: greedy_run_induct)
  case (part k inc p r xs)
  then show ?case by (auto simp: mk_qty mk_price intro!: exI[of _ r] exI[of _ k])
next
  case (pop k inc p r xs ts inc' xs')
  show ?case
  proof (cases "t \<in> set ts")
    case True
    show ?thesis using pop.IH[OF True] by (auto simp: mk_frame)
  next
    case False
    then show ?thesis using pop
      by (auto simp: mk_qty mk_price intro!: exI[of _ r] exI[of _ k])
  qed
qed auto

end

interpretation bt: trade_maker "buy_trade s clk"
  by unfold_locales (simp_all add: buy_trade_def)

interpretation st: trade_maker "sell_trade s clk"
  by unfold_locales (simp_all add: sell_trade_def)

end
