(* ===== verification/BookInv.thy ===== *)
theory BookInv
  imports BookFacts
begin

text \<open>
  The representation invariant of a side of the book (levels strictly sorted by the map's
  comparator, no empty queue, every order at its own price with a positive quantity), stated once
  for a comparator in the locale \<open>price_side\<close> and interpreted for the bids and the asks; then the
  invariant of the whole book and the theorems about \<open>match\<close>, \<open>cancel\<close> and the views.
\<close>

definition levels_ok :: "(price \<Rightarrow> price \<Rightarrow> bool) \<Rightarrow> (order \<Rightarrow> bool) \<Rightarrow> levels \<Rightarrow> bool" where
  "levels_ok before good lv \<longleftrightarrow>
     sorted_wrt (\<lambda>a b. before (fst a) (fst b)) lv \<and>
     (\<forall>l \<in> set lv. fst l \<noteq> NaN \<and> snd l \<noteq> [] \<and>
        (\<forall>x \<in> set (snd l). price x = fst l \<and> 0 < qty x \<and> kind x \<noteq> MARKET \<and> good x))"

definition prices_of :: "levels \<Rightarrow> price set" where
  "prices_of lv = fst ` set lv"

text \<open>The levels a match leaves: a suffix of the old ones, the first possibly with a shorter queue.\<close>

lemma match_levels_shape:
  assumes "match_levels stop mk k inc lv = (ts, inc', lv')"
  shows "\<exists>n. lv' = drop n lv \<or>
    (\<exists>p q q'. n < length lv \<and> lv ! n = (p, q) \<and> q' \<noteq> [] \<and> lv' = (p, q') # drop (Suc n) lv)"
  using assms
proof (induction stop mk k inc lv arbitrary: ts rule: match_levels.induct)
  case (1 stop mk k inc)
  then show ?case by simp
next
  case (2 stop mk k inc p q lv)
  show ?case
  proof (cases "0 < qty inc \<and> willing stop inc p")
    case False
    then have "lv' = drop 0 ((p, q) # lv)" using "2.prems" by (simp add: match_levels_stop)
    then show ?thesis by blast
  next
    case True
    obtain ts1 inc1 q1 where f: "fill_queue (mk p) k inc q = (ts1, inc1, q1)"
      by (metis prod_cases3)
    obtain ts2 where
      m: "match_levels stop mk (k + length ts1) inc1 (if q1 = [] then lv else (p, q1) # lv)
            = (ts2, inc', lv')"
      using "2.prems" True f by (auto simp: match_levels_step simp del: if_split split: prod.splits)
    note IH = "2.IH"[OF True f[symmetric] refl refl m]
    show ?thesis
    proof (cases "q1 = []")
      case q1: True
      then obtain n where "lv' = drop n lv \<or>
        (\<exists>p q q'. n < length lv \<and> lv ! n = (p, q) \<and> q' \<noteq> [] \<and> lv' = (p, q') # drop (Suc n) lv)"
        using IH by auto
      then show ?thesis by (intro exI[of _ "Suc n"]) auto
    next
      case q1: False
      then have "\<not> 0 < qty inc1" using fill_queue_exit[OF f] by simp
      then have "lv' = (p, q1) # lv" using m q1 by (simp add: match_levels_stop)
      then show ?thesis using q1 by (intro exI[of _ 0]) auto
    qed
  qed
qed

text \<open>The laws of a map comparator that the book relies on.\<close>

locale price_side =
  fixes before :: "price \<Rightarrow> price \<Rightarrow> bool"
  assumes before_irrefl: "\<not> before p p"
    and before_trans: "before p q \<Longrightarrow> before q r \<Longrightarrow> before p r"
    and before_total: "p \<noteq> NaN \<Longrightarrow> q \<noteq> NaN \<Longrightarrow> before p q \<or> p = q \<or> before q p"
begin

lemma before_asym: "before p q \<Longrightarrow> \<not> before q p"
  using before_trans before_irrefl by blast

lemma ok_nonempty: "levels_ok before good lv \<Longrightarrow> \<forall>(p, q) \<in> set lv. q \<noteq> []"
  by (fastforce simp: levels_ok_def)

lemma ok_positive: "levels_ok before good lv \<Longrightarrow> \<forall>x \<in> set (flatten lv). 0 < qty (snd x)"
  by (fastforce simp: levels_ok_def set_flatten)

lemma ok_Cons:
  "levels_ok before good (l # lv) \<longleftrightarrow>
     (\<forall>m \<in> set lv. before (fst l) (fst m)) \<and> fst l \<noteq> NaN \<and> snd l \<noteq> [] \<and>
     (\<forall>x \<in> set (snd l). price x = fst l \<and> 0 < qty x \<and> kind x \<noteq> MARKET \<and> good x) \<and>
     levels_ok before good lv"
  by (auto simp: levels_ok_def)

lemma ok_Nil [simp]: "levels_ok before good []"
  by (simp add: levels_ok_def)

lemma push_prices:
  assumes "levels_ok before good lv" "p \<noteq> NaN"
  shows "fst ` set (level_push before p x lv) = insert p (fst ` set lv)"
  using assms(1)
proof (induction lv)
  case (Cons l lv)
  obtain k q where l: "l = (k, q)" by (cases l)
  have ok: "levels_ok before good lv" and k: "k \<noteq> NaN" using Cons.prems l by (auto simp: ok_Cons)
  show ?case using Cons.IH[OF ok] before_total[OF k assms(2)] before_asym l by auto
qed simp

lemma push_prices_of:
  "levels_ok before good lv \<Longrightarrow> p \<noteq> NaN \<Longrightarrow> prices_of (level_push before p x lv) = insert p (prices_of lv)"
  unfolding prices_of_def by (rule push_prices)

lemma push_ok:
  assumes "levels_ok before good lv" "price x \<noteq> NaN" "0 < qty x" "kind x \<noteq> MARKET" "good x"
  shows "levels_ok before good (level_push before (price x) x lv)"
  using assms(1)
proof (induction lv)
  case Nil
  then show ?case using assms by (simp add: ok_Cons)
next
  case (Cons l lv)
  obtain k q where l: "l = (k, q)" by (cases l)
  have ok: "levels_ok before good lv" and k: "k \<noteq> NaN" and lk: "\<forall>m \<in> set lv. before k (fst m)"
    using Cons.prems l by (auto simp: ok_Cons)
  consider "before k (price x)" | "before (price x) k" | "k = price x"
    using before_total[OF k assms(2)] by blast
  then show ?case
  proof cases
    case 1
    have "\<forall>m \<in> set (level_push before (price x) x lv). before k (fst m)"
      using push_prices[OF ok assms(2), of x] lk 1 by (metis (no_types) imageI image_iff insertE)
    then show ?thesis using 1 Cons l by (auto simp: ok_Cons)
  next
    case 2
    moreover have "\<forall>m \<in> set lv. before (price x) (fst m)" using 2 lk before_trans by blast
    ultimately show ?thesis using Cons.prems l assms before_asym[OF 2] by (simp add: ok_Cons)
  next
    case 3
    then show ?thesis using Cons.prems l assms before_irrefl by (auto simp: ok_Cons)
  qed
qed

text \<open>
  Price-time priority of resting: a new order comes after every resting order that is not worse
  and before every resting order that is worse; in particular last at its own price.
\<close>

lemma flatten_in_level: "(p, r) \<in> set (flatten lv) \<Longrightarrow> p \<in> fst ` set lv"
  by (force simp: set_flatten)

lemma push_flatten:
  assumes "levels_ok before good lv" "p \<noteq> NaN"
  shows "flatten (level_push before p x lv) =
    filter (\<lambda>y. \<not> before p (fst y)) (flatten lv) @ (p, x) # filter (\<lambda>y. before p (fst y)) (flatten lv)"
  using assms(1)
proof (induction lv)
  case Nil
  then show ?case by simp
next
  case (Cons l lv)
  obtain k q where l: "l = (k, q)" by (cases l)
  have ok: "levels_ok before good lv" and k: "k \<noteq> NaN" and lk: "\<forall>m \<in> set lv. before k (fst m)"
    using Cons.prems l by (auto simp: ok_Cons)
  have later: "before k (fst y)" if "y \<in> set (flatten lv)" for y
    using that lk flatten_in_level[of "fst y" "snd y" lv] by auto
  consider (a) "before k p" | (b) "before p k" | (c) "k = p" using before_total[OF k assms(2)] by blast
  then show ?case
  proof cases
    case a
    then show ?thesis using Cons.IH[OF ok] l before_asym[OF a] by (simp add: comp_def)
  next
    case b
    then have "\<forall>y \<in> set (flatten lv). before p (fst y)" using later before_trans by blast
    then have "filter (\<lambda>y. before p (fst y)) (flatten lv) = flatten lv"
      "filter (\<lambda>y. \<not> before p (fst y)) (flatten lv) = []" by simp_all
    then show ?thesis using b l before_asym[OF b] by (simp add: comp_def)
  next
    case c
    then have "\<forall>y \<in> set (flatten lv). before p (fst y)" using later by blast
    then have "filter (\<lambda>y. before p (fst y)) (flatten lv) = flatten lv"
      "filter (\<lambda>y. \<not> before p (fst y)) (flatten lv) = []" by simp_all
    then show ?thesis using c l before_irrefl by (simp add: comp_def)
  qed
qed

lemma push_orders:
  "mset (concat (map snd (level_push before p x lv))) = add_mset x (mset (concat (map snd lv)))"
  by (induction lv) auto

lemma match_ok:
  assumes m: "match_levels before mk k inc lv = (ts, inc', lv')"
    and ok: "levels_ok before good lv"
    and good: "\<And>x n. good x \<Longrightarrow> good (x\<lparr>qty := n\<rparr>)"
    and tm: "trade_maker mk"
  shows "levels_ok before good lv'"
proof -
  note g = match_levels_refines_greedy[OF m ok_nonempty[OF ok]]
  have entry: "price x = p \<and> 0 < qty x \<and> kind x \<noteq> MARKET \<and> good x"
    if x: "(p, q) \<in> set lv'" "x \<in> set q" for p q x
  proof -
    have mem: "(p, x) \<in> set (flatten lv')" using x by (auto simp: set_flatten)
    from greedy_rest[OF g mem] obtain r n where r: "(p, r) \<in> set (flatten lv)" "x = r\<lparr>qty := n\<rparr>" by blast
    have "0 < qty x" using trade_maker.greedy_positive(2)[OF tm g ok_positive[OF ok]] mem by auto
    moreover have "price r = p \<and> kind r \<noteq> MARKET \<and> good r"
      using r(1) ok by (fastforce simp: set_flatten levels_ok_def)
    ultimately show ?thesis using r(2) good by auto
  qed
  obtain n where "lv' = drop n lv \<or>
    (\<exists>p q q'. n < length lv \<and> lv ! n = (p, q) \<and> q' \<noteq> [] \<and> lv' = (p, q') # drop (Suc n) lv)"
    using match_levels_shape[OF m] by blast
  then show ?thesis
  proof (elim disjE exE conjE)
    assume lv': "lv' = drop n lv"
    then show ?thesis using ok sorted_wrt_drop by (auto simp: levels_ok_def dest: in_set_dropD)
  next
    fix p q q'
    assume n: "n < length lv" "lv ! n = (p, q)" "q' \<noteq> []" and lv': "lv' = (p, q') # drop (Suc n) lv"
    have "drop n lv = (p, q) # drop (Suc n) lv" using n by (metis Cons_nth_drop_Suc)
    moreover have "levels_ok before good (drop n lv)"
      using ok sorted_wrt_drop by (auto simp: levels_ok_def dest: in_set_dropD)
    ultimately show ?thesis using entry[of p q'] n(3) lv' by (auto simp: ok_Cons)
  qed
qed

lemma match_prices:
  assumes "match_levels before mk k inc lv = (ts, inc', lv')"
  shows "prices_of lv' \<subseteq> prices_of lv"
proof -
  obtain n where "lv' = drop n lv \<or>
    (\<exists>p q q'. n < length lv \<and> lv ! n = (p, q) \<and> q' \<noteq> [] \<and> lv' = (p, q') # drop (Suc n) lv)"
    using match_levels_shape[OF assms] by blast
  moreover have "fst ` set (drop m lv) \<subseteq> fst ` set lv" for m by (meson image_mono set_drop_subset)
  moreover have "n < length lv \<Longrightarrow> lv ! n = (p, q) \<Longrightarrow> p \<in> fst ` set lv" for p q
    by (metis fst_conv image_eqI nth_mem)
  ultimately show ?thesis unfolding prices_of_def by (elim disjE exE conjE) auto
qed

text \<open>An incoming order with quantity left has met every level it is willing to meet.\<close>

lemma match_exit:
  assumes m: "match_levels before mk k inc lv = (ts, inc', lv')"
    and ok: "levels_ok before good lv" and ok': "levels_ok before good' lv'" and left: "0 < qty inc'"
  shows "\<forall>p \<in> prices_of lv'. kind inc \<noteq> MARKET \<and> before (price inc) p"
proof (cases lv')
  case (Cons l lv1)
  note g = match_levels_refines_greedy[OF m ok_nonempty[OF ok]]
  have ne: "snd l \<noteq> []" using ok' Cons by (simp add: ok_Cons)
  then have "fst (hd (flatten lv')) = fst l" "flatten lv' \<noteq> []"
    using Cons by (cases l; cases "snd l"; simp)+
  then have "kind inc \<noteq> MARKET \<and> before (price inc) (fst l)" using greedy_exit[OF g left] by auto
  then show ?thesis using ok' Cons before_trans by (fastforce simp: ok_Cons prices_of_def)
qed (simp add: prices_of_def)

lemma crossing_prefix:
  assumes "levels_ok before good lv"
  shows "takeWhile (\<lambda>x. willing before inc (fst x)) (flatten lv) =
    filter (\<lambda>x. willing before inc (fst x)) (flatten lv)"
  using assms
proof (induction lv)
  case (Cons l lv)
  obtain k q where l: "l = (k, q)" by (cases l)
  show ?case
  proof (cases "willing before inc k")
    case True
    let ?w = "\<lambda>x. willing before inc (fst x)"
    have all: "?w x" if "x \<in> set (map (Pair k) q)" for x using True that by auto
    have "takeWhile ?w (map (Pair k) q @ flatten lv) = map (Pair k) q @ takeWhile ?w (flatten lv)"
      by (rule takeWhile_append2) (rule all)
    moreover have "filter ?w (map (Pair k) q) = map (Pair k) q" unfolding filter_id_conv using all by blast
    moreover have "levels_ok before good lv" using Cons.prems by (simp add: ok_Cons)
    moreover note Cons.IH
    ultimately show ?thesis using l by (simp only: flatten_simps filter_append)
  next
    case False
    have "\<not> willing before inc (fst y)" if "y \<in> set (flatten lv)" for y
      using that False Cons.prems l flatten_in_level[of "fst y" "snd y" lv] before_trans
      by (fastforce simp: ok_Cons)
    then have "filter (\<lambda>x. willing before inc (fst x)) (flatten lv) = []" by (simp add: filter_empty_conv)
    moreover obtain r rs where "q = r # rs" using Cons.prems l by (cases q) (auto simp: ok_Cons)
    ultimately show ?thesis using False l by (simp add: comp_def)
  qed
qed simp

end

interpretation bid: price_side bid_before
  by unfold_locales (auto simp: bid_before_def dest: double_less_trans double_less_total)

interpretation ask: price_side ask_before
  by unfold_locales (auto simp: ask_before_def dest: double_less_trans double_less_total)

end
