(* ===== verification/BookThms.thy ===== *)
theory BookThms
  imports BookInv
begin

text \<open>
  The theorems about the whole order book: refinement of \<open>match\<close> to an abstract book of two
  priority lists, preservation of the representation invariant and of the uncrossed state, executed
  volume, limit prices, conservation of quantity, cancellation and the market-data views.
\<close>

section \<open>The invariant of a book\<close>

definition good_bid :: "symbol \<Rightarrow> order \<Rightarrow> bool" where
  "good_bid s x \<longleftrightarrow> side x = BUY \<and> osymbol x = s"

definition good_ask :: "symbol \<Rightarrow> order \<Rightarrow> bool" where
  "good_ask s x \<longleftrightarrow> side x = SELL \<and> osymbol x = s"

definition book_ok :: "order_book \<Rightarrow> bool" where
  "book_ok b \<longleftrightarrow> levels_ok bid_before (good_bid (bk_symbol b)) (bids b) \<and>
     levels_ok ask_before (good_ask (bk_symbol b)) (asks b)"

definition uncrossed :: "order_book \<Rightarrow> bool" where
  "uncrossed b \<longleftrightarrow> (\<forall>p \<in> prices_of (bids b). \<forall>q \<in> prices_of (asks b). p < q)"

text \<open>An order the engine may hand to the book: for its symbol, and not a NaN limit price.\<close>

definition matchable :: "order \<Rightarrow> order_book \<Rightarrow> bool" where
  "matchable inc b \<longleftrightarrow> osymbol inc = bk_symbol b \<and> (kind inc = MARKET \<or> price inc \<noteq> NaN)"

lemma good_qty [simp]:
  "good_bid s (x\<lparr>qty := n\<rparr>) = good_bid s x" "good_ask s (x\<lparr>qty := n\<rparr>) = good_ask s x"
  by (simp_all add: good_bid_def good_ask_def)

lemma new_book_ok: "book_ok (new_book s)" "uncrossed (new_book s)"
  by (simp_all add: book_ok_def new_book_def uncrossed_def prices_of_def)

lemma bk_symbol_match [simp, frame_simps]: "bk_symbol (snd (book_match clk inc b)) = bk_symbol b"
  by (simp add: book_match_def match_incoming_buy_def match_incoming_sell_def Let_def split: prod.splits)

section \<open>The abstract book\<close>

type_synonym abs_book = "(price \<times> order) list \<times> (price \<times> order) list"

definition abs_of :: "order_book \<Rightarrow> abs_book" where
  "abs_of b = (flatten (bids b), flatten (asks b))"

text \<open>A new order waits behind every resting order of its side that is not worse.\<close>

definition rest_in :: "(price \<Rightarrow> price \<Rightarrow> bool) \<Rightarrow> order \<Rightarrow> (price \<times> order) list \<Rightarrow> (price \<times> order) list" where
  "rest_in before x xs =
     (if 0 < qty x \<and> kind x \<noteq> MARKET then
        filter (\<lambda>y. \<not> before (price x) (fst y)) xs @ (price x, x) # filter (\<lambda>y. before (price x) (fst y)) xs
      else xs)"

definition spec_match :: "(nat \<Rightarrow> time) \<Rightarrow> symbol \<Rightarrow> order \<Rightarrow> abs_book \<Rightarrow> trade list \<times> abs_book" where
  "spec_match clk s inc = (\<lambda>(B, A).
     if side inc = BUY then
       let (ts, inc', A') = greedy_fill ask_before (buy_trade s clk) 0 inc A
       in (ts, rest_in bid_before inc' B, A')
     else
       let (ts, inc', B') = greedy_fill bid_before (sell_trade s clk) 0 inc B
       in (ts, B', rest_in ask_before inc' A))"

lemma buy_stop: "(\<lambda>limit level. limit < level) = ask_before"
  by (simp add: fun_eq_iff ask_before_def)

lemma sell_stop: "(\<lambda>limit level. level < limit) = bid_before"
  by (simp add: fun_eq_iff bid_before_def)

lemma side_cases: obtains "side inc = BUY" | "side inc = SELL"
  by (cases "side inc") auto

text \<open>What \<open>match\<close> does, in terms of the loop, on either side.\<close>

lemma book_match_buy:
  assumes "side inc = BUY"
    and "match_levels ask_before (buy_trade (bk_symbol b) clk) 0 inc (asks b) = (ts, inc', lv)"
  shows "book_match clk inc b = (ts, b\<lparr>asks := lv, bids :=
    (if 0 < qty inc' \<and> kind inc' \<noteq> MARKET then level_push bid_before (price inc') inc' (bids b) else bids b)\<rparr>)"
  using assms by (simp add: book_match_def match_incoming_buy_def buy_stop Let_def)

lemma book_match_sell:
  assumes "side inc = SELL"
    and "match_levels bid_before (sell_trade (bk_symbol b) clk) 0 inc (bids b) = (ts, inc', lv)"
  shows "book_match clk inc b = (ts, b\<lparr>bids := lv, asks :=
    (if 0 < qty inc' \<and> kind inc' \<noteq> MARKET then level_push ask_before (price inc') inc' (asks b) else asks b)\<rparr>)"
  using assms by (simp add: book_match_def match_incoming_sell_def sell_stop Let_def)

lemma match_incoming_frame:
  assumes "match_levels stop mk k inc lv = (ts, inc', lv')" "\<forall>(p, q) \<in> set lv. q \<noteq> []"
  shows "kind inc' = kind inc" "price inc' = price inc" "side inc' = side inc"
    "osymbol inc' = osymbol inc" "oid inc' = oid inc" "client inc' = client inc"
  using greedy_frame[OF match_levels_refines_greedy[OF assms]] by auto

lemmas trade_makers = bt.trade_maker_axioms st.trade_maker_axioms

text \<open>
  One induction-free description of a match of an invariant book, from which the theorems below
  are read off: the greedy run it performs, what it leaves and where the remainder goes.
\<close>

lemma match_run:
  assumes ok: "book_ok b" and m: "matchable inc b"
  obtains (buy) ts inc' lv where
    "side inc = BUY"
    "greedy_fill ask_before (buy_trade (bk_symbol b) clk) 0 inc (flatten (asks b)) = (ts, inc', flatten lv)"
    "match_levels ask_before (buy_trade (bk_symbol b) clk) 0 inc (asks b) = (ts, inc', lv)"
    "levels_ok ask_before (good_ask (bk_symbol b)) lv"
    "\<exists>n. inc' = inc\<lparr>qty := n\<rparr>"
    "book_match clk inc b = (ts, b\<lparr>asks := lv, bids :=
      (if 0 < qty inc' \<and> kind inc \<noteq> MARKET then level_push bid_before (price inc) inc' (bids b) else bids b)\<rparr>)"
  | (sell) ts inc' lv where
    "side inc = SELL"
    "greedy_fill bid_before (sell_trade (bk_symbol b) clk) 0 inc (flatten (bids b)) = (ts, inc', flatten lv)"
    "match_levels bid_before (sell_trade (bk_symbol b) clk) 0 inc (bids b) = (ts, inc', lv)"
    "levels_ok bid_before (good_bid (bk_symbol b)) lv"
    "\<exists>n. inc' = inc\<lparr>qty := n\<rparr>"
    "book_match clk inc b = (ts, b\<lparr>bids := lv, asks :=
      (if 0 < qty inc' \<and> kind inc \<noteq> MARKET then level_push ask_before (price inc) inc' (asks b) else asks b)\<rparr>)"
proof (rule side_cases[of inc])
  assume s: "side inc = BUY"
  obtain ts inc' lv where
    ml: "match_levels ask_before (buy_trade (bk_symbol b) clk) 0 inc (asks b) = (ts, inc', lv)"
    by (metis prod_cases3)
  have oka: "levels_ok ask_before (good_ask (bk_symbol b)) (asks b)" using ok by (simp add: book_ok_def)
  note g = match_levels_refines_greedy[OF ml ask.ok_nonempty[OF oka]]
  have fr: "\<exists>n. inc' = inc\<lparr>qty := n\<rparr>" by (rule greedy_frame[OF g])
  have lv: "levels_ok ask_before (good_ask (bk_symbol b)) lv"
    by (rule ask.match_ok[OF ml oka _ trade_makers(1)]) simp
  show thesis
    by (rule buy[OF s g ml lv fr]) (use book_match_buy[OF s ml] fr in auto)
next
  assume s: "side inc = SELL"
  obtain ts inc' lv where
    ml: "match_levels bid_before (sell_trade (bk_symbol b) clk) 0 inc (bids b) = (ts, inc', lv)"
    by (metis prod_cases3)
  have okb: "levels_ok bid_before (good_bid (bk_symbol b)) (bids b)" using ok by (simp add: book_ok_def)
  note g = match_levels_refines_greedy[OF ml bid.ok_nonempty[OF okb]]
  have fr: "\<exists>n. inc' = inc\<lparr>qty := n\<rparr>" by (rule greedy_frame[OF g])
  have lv: "levels_ok bid_before (good_bid (bk_symbol b)) lv"
    by (rule bid.match_ok[OF ml okb _ trade_makers(2)]) simp
  show thesis
    by (rule sell[OF s g ml lv fr]) (use book_match_sell[OF s ml] fr in auto)
qed


section \<open>Properties of matching\<close>

text \<open>C1. Price-time priority: on a book that satisfies its invariant, the two nested loops of
\<open>OrderBook::match\<close> and the insertion of the remainder compute exactly the abstract book, which
meets the opposite orders one by one in priority order and lets the remainder wait behind every
order of its own side that is not worse.\<close>

theorem book_match_refines_spec:
  assumes "book_ok b" "matchable inc b"
  shows "map_prod id abs_of (book_match clk inc b) = spec_match clk (bk_symbol b) inc (abs_of b)"
proof (rule match_run[OF assms, of clk])
  fix ts inc' lv
  assume s: "side inc = BUY" and fr: "\<exists>n. inc' = inc\<lparr>qty := n\<rparr>"
    and g: "greedy_fill ask_before (buy_trade (bk_symbol b) clk) 0 inc (flatten (asks b)) = (ts, inc', flatten lv)"
    and bm: "book_match clk inc b = (ts, b\<lparr>asks := lv, bids :=
      (if 0 < qty inc' \<and> kind inc \<noteq> MARKET then level_push bid_before (price inc) inc' (bids b) else bids b)\<rparr>)"
  have "0 < qty inc' \<and> kind inc \<noteq> MARKET \<Longrightarrow>
    flatten (level_push bid_before (price inc) inc' (bids b)) = rest_in bid_before inc' (flatten (bids b))"
    using assms fr bid.push_flatten by (auto simp: book_ok_def matchable_def rest_in_def)
  moreover have "rest_in bid_before inc' (flatten (bids b)) = flatten (bids b)"
    if "\<not> (0 < qty inc' \<and> kind inc \<noteq> MARKET)" using that fr by (auto simp: rest_in_def)
  ultimately show ?thesis by (simp add: spec_match_def abs_of_def s g bm)
next
  fix ts inc' lv
  assume s: "side inc = SELL" and fr: "\<exists>n. inc' = inc\<lparr>qty := n\<rparr>"
    and g: "greedy_fill bid_before (sell_trade (bk_symbol b) clk) 0 inc (flatten (bids b)) = (ts, inc', flatten lv)"
    and bm: "book_match clk inc b = (ts, b\<lparr>bids := lv, asks :=
      (if 0 < qty inc' \<and> kind inc \<noteq> MARKET then level_push ask_before (price inc) inc' (asks b) else asks b)\<rparr>)"
  have "0 < qty inc' \<and> kind inc \<noteq> MARKET \<Longrightarrow>
    flatten (level_push ask_before (price inc) inc' (asks b)) = rest_in ask_before inc' (flatten (asks b))"
    using assms fr ask.push_flatten by (auto simp: book_ok_def matchable_def rest_in_def)
  moreover have "rest_in ask_before inc' (flatten (asks b)) = flatten (asks b)"
    if "\<not> (0 < qty inc' \<and> kind inc \<noteq> MARKET)" using that fr by (auto simp: rest_in_def)
  ultimately show ?thesis by (simp add: spec_match_def abs_of_def s g bm)
qed

lemma book_match_ok [inv_intros]:
  assumes "book_ok b" "matchable inc b"
  shows "book_ok (snd (book_match clk inc b))"
proof (rule match_run[OF assms, of clk])
  fix ts inc' lv
  assume s: "side inc = BUY" and fr: "\<exists>n. inc' = inc\<lparr>qty := n\<rparr>"
    and lv: "levels_ok ask_before (good_ask (bk_symbol b)) lv"
    and bm: "book_match clk inc b = (ts, b\<lparr>asks := lv, bids :=
      (if 0 < qty inc' \<and> kind inc \<noteq> MARKET then level_push bid_before (price inc) inc' (bids b) else bids b)\<rparr>)"
  have "levels_ok bid_before (good_bid (bk_symbol b)) (level_push bid_before (price inc) inc' (bids b))"
    if "0 < qty inc' \<and> kind inc \<noteq> MARKET"
    using bid.push_ok[of "good_bid (bk_symbol b)" "bids b" inc'] assms s fr that
    by (auto simp: book_ok_def matchable_def good_bid_def)
  then show ?thesis using assms(1) lv by (simp add: bm book_ok_def)
next
  fix ts inc' lv
  assume s: "side inc = SELL" and fr: "\<exists>n. inc' = inc\<lparr>qty := n\<rparr>"
    and lv: "levels_ok bid_before (good_bid (bk_symbol b)) lv"
    and bm: "book_match clk inc b = (ts, b\<lparr>bids := lv, asks :=
      (if 0 < qty inc' \<and> kind inc \<noteq> MARKET then level_push ask_before (price inc) inc' (asks b) else asks b)\<rparr>)"
  have "levels_ok ask_before (good_ask (bk_symbol b)) (level_push ask_before (price inc) inc' (asks b))"
    if "0 < qty inc' \<and> kind inc \<noteq> MARKET"
    using ask.push_ok[of "good_ask (bk_symbol b)" "asks b" inc'] assms s fr that
    by (auto simp: book_ok_def matchable_def good_ask_def)
  then show ?thesis using assms(1) lv by (simp add: bm book_ok_def)
qed

lemma book_match_uncrossed [inv_intros]:
  assumes ok: "book_ok b" and m: "matchable inc b" and un: "uncrossed b"
  shows "uncrossed (snd (book_match clk inc b))"
proof (rule match_run[OF ok m, of clk])
  fix ts inc' lv
  assume ml: "match_levels ask_before (buy_trade (bk_symbol b) clk) 0 inc (asks b) = (ts, inc', lv)"
    and lv: "levels_ok ask_before (good_ask (bk_symbol b)) lv"
    and bm: "book_match clk inc b = (ts, b\<lparr>asks := lv, bids :=
      (if 0 < qty inc' \<and> kind inc \<noteq> MARKET then level_push bid_before (price inc) inc' (bids b) else bids b)\<rparr>)"
  have sub: "prices_of lv \<subseteq> prices_of (asks b)" by (rule ask.match_prices[OF ml])
  have push: "prices_of (level_push bid_before (price inc) inc' (bids b)) = insert (price inc) (prices_of (bids b))"
    if "kind inc \<noteq> MARKET" using that ok m by (intro bid.push_prices_of) (auto simp: book_ok_def matchable_def)
  have clear: "\<forall>q \<in> prices_of lv. price inc < q" if "0 < qty inc'"
    using ask.match_exit[OF ml _ lv that] ok by (auto simp: book_ok_def ask_before_def)
  show ?thesis
  proof (cases "0 < qty inc' \<and> kind inc \<noteq> MARKET")
    case True
    then show ?thesis using un sub push clear by (auto simp: bm uncrossed_def)
  next
    case False
    then show ?thesis using un sub by (auto simp: bm uncrossed_def)
  qed
next
  fix ts inc' lv
  assume ml: "match_levels bid_before (sell_trade (bk_symbol b) clk) 0 inc (bids b) = (ts, inc', lv)"
    and lv: "levels_ok bid_before (good_bid (bk_symbol b)) lv"
    and bm: "book_match clk inc b = (ts, b\<lparr>bids := lv, asks :=
      (if 0 < qty inc' \<and> kind inc \<noteq> MARKET then level_push ask_before (price inc) inc' (asks b) else asks b)\<rparr>)"
  have sub: "prices_of lv \<subseteq> prices_of (bids b)" by (rule bid.match_prices[OF ml])
  have push: "prices_of (level_push ask_before (price inc) inc' (asks b)) = insert (price inc) (prices_of (asks b))"
    if "kind inc \<noteq> MARKET" using that ok m by (intro ask.push_prices_of) (auto simp: book_ok_def matchable_def)
  have clear: "\<forall>q \<in> prices_of lv. q < price inc" if "0 < qty inc'"
    using bid.match_exit[OF ml _ lv that] ok by (auto simp: book_ok_def bid_before_def)
  show ?thesis
  proof (cases "0 < qty inc' \<and> kind inc \<noteq> MARKET")
    case True
    then show ?thesis using un sub push clear by (auto simp: bm uncrossed_def)
  next
    case False
    then show ?thesis using un sub by (auto simp: bm uncrossed_def)
  qed
qed

text \<open>The orders of the opposite side that an incoming order is willing to meet.\<close>

definition crossing_orders :: "order \<Rightarrow> order_book \<Rightarrow> order list" where
  "crossing_orders inc b =
     (if side inc = BUY then map snd (filter (\<lambda>x. willing ask_before inc (fst x)) (flatten (asks b)))
      else map snd (filter (\<lambda>x. willing bid_before inc (fst x)) (flatten (bids b))))"

lemma book_match_volume:
  assumes "book_ok b" "matchable inc b" "0 \<le> qty inc"
  shows "trade_volume (fst (book_match clk inc b)) = min (qty inc) (volume (crossing_orders inc b))"
proof (rule match_run[OF assms(1,2), of clk])
  fix ts inc' lv bk
  assume s: "side inc = BUY"
    and g: "greedy_fill ask_before (buy_trade (bk_symbol b) clk) 0 inc (flatten (asks b)) = (ts, inc', flatten lv)"
    and bm: "book_match clk inc b = (ts, b\<lparr>asks := lv, bids :=
      (if 0 < qty inc' \<and> kind inc \<noteq> MARKET then level_push bid_before (price inc) inc' (bids b) else bids b)\<rparr>)"
  have oka: "levels_ok ask_before (good_ask (bk_symbol b)) (asks b)" using assms by (simp add: book_ok_def)
  show ?thesis
    using bt.greedy_volume[OF g ask.ok_positive[OF oka] assms(3)] ask.crossing_prefix[OF oka]
    by (simp add: bm crossing_orders_def s)
next
  fix ts inc' lv bk
  assume s: "side inc = SELL"
    and g: "greedy_fill bid_before (sell_trade (bk_symbol b) clk) 0 inc (flatten (bids b)) = (ts, inc', flatten lv)"
    and bm: "book_match clk inc b = (ts, b\<lparr>bids := lv, asks :=
      (if 0 < qty inc' \<and> kind inc \<noteq> MARKET then level_push ask_before (price inc) inc' (asks b) else asks b)\<rparr>)"
  have okb: "levels_ok bid_before (good_bid (bk_symbol b)) (bids b)" using assms by (simp add: book_ok_def)
  show ?thesis
    using st.greedy_volume[OF g bid.ok_positive[OF okb] assms(3)] bid.crossing_prefix[OF okb]
    by (simp add: bm crossing_orders_def s)
qed


lemma resting_bids: "concat (map snd lv) = map snd (flatten lv)"
  by (simp add: snd_flatten)

lemma bid_order_price: "book_ok b \<Longrightarrow> (p, r) \<in> set (flatten (bids b)) \<Longrightarrow>
    r \<in> set (resting_orders b) \<and> price r = p \<and> side r = BUY \<and> osymbol r = bk_symbol b"
  by (fastforce simp: book_ok_def levels_ok_def set_flatten resting_orders_def good_bid_def)

lemma ask_order_price: "book_ok b \<Longrightarrow> (p, r) \<in> set (flatten (asks b)) \<Longrightarrow>
    r \<in> set (resting_orders b) \<and> price r = p \<and> side r = SELL \<and> osymbol r = bk_symbol b"
  by (fastforce simp: book_ok_def levels_ok_def set_flatten resting_orders_def good_ask_def)

text \<open>
  Every trade is for a positive quantity of the book's symbol, at the limit price of a resting
  order of the other side that has at least that quantity, and never beyond the limit of the
  incoming order.
\<close>

definition fair_trade :: "order \<Rightarrow> order_book \<Rightarrow> trade \<Rightarrow> bool" where
  "fair_trade inc b t \<longleftrightarrow>
     0 < tqty t \<and> tsymbol t = bk_symbol b \<and>
     (\<exists>r \<in> set (resting_orders b). side r \<noteq> side inc \<and> tprice t = price r \<and> tqty t \<le> qty r \<and>
        (if side inc = BUY
         then buy_order_id t = oid inc \<and> buyer t = client inc \<and> sell_order_id t = oid r \<and> seller t = client r
         else sell_order_id t = oid inc \<and> seller t = client inc \<and> buy_order_id t = oid r \<and> buyer t = client r)) \<and>
     (kind inc \<noteq> MARKET \<longrightarrow> (if side inc = BUY then tprice t \<le> price inc else price inc \<le> tprice t))"

lemma not_before_le:
  "p \<noteq> NaN \<Longrightarrow> q \<noteq> NaN \<Longrightarrow> \<not> ask_before p q \<Longrightarrow> q \<le> p"
  "p \<noteq> NaN \<Longrightarrow> q \<noteq> NaN \<Longrightarrow> \<not> bid_before p q \<Longrightarrow> p \<le> q"
  by (simp_all add: ask_before_def bid_before_def double_not_less)

lemma level_price_not_NaN:
  "levels_ok before good lv \<Longrightarrow> (p, r) \<in> set (flatten lv) \<Longrightarrow> p \<noteq> NaN"
  by (fastforce simp: levels_ok_def set_flatten)

lemma book_match_fair:
  assumes ok: "book_ok b" and m: "matchable inc b" and t: "t \<in> set (fst (book_match clk inc b))"
  shows "fair_trade inc b t"
proof (rule match_run[OF ok m, of clk])
  fix ts inc' lv
  assume s: "side inc = BUY"
    and g: "greedy_fill ask_before (buy_trade (bk_symbol b) clk) 0 inc (flatten (asks b)) = (ts, inc', flatten lv)"
    and bm: "book_match clk inc b = (ts, b\<lparr>asks := lv, bids :=
      (if 0 < qty inc' \<and> kind inc \<noteq> MARKET then level_push bid_before (price inc) inc' (bids b) else bids b)\<rparr>)"
  have oka: "levels_ok ask_before (good_ask (bk_symbol b)) (asks b)" using ok by (simp add: book_ok_def)
  have t': "t \<in> set ts" using t bm by simp
  from bt.greedy_trades[OF g t'] obtain r j where
    r: "(tprice t, r) \<in> set (flatten (asks b))" "willing ask_before inc (tprice t)"
    and mk: "t = buy_trade (bk_symbol b) clk (tprice t) j inc r (tqty t)" and le: "tqty t \<le> qty r" by blast
  have "0 < tqty t" using bt.greedy_positive(1)[OF g ask.ok_positive[OF oka]] t' by blast
  moreover have "kind inc \<noteq> MARKET \<Longrightarrow> tprice t \<le> price inc"
    using r m level_price_not_NaN[OF oka r(1)] not_before_le(1) by (auto simp: matchable_def)
  moreover have "tsymbol t = bk_symbol b" "buy_order_id t = oid inc" "buyer t = client inc"
    "sell_order_id t = oid r" "seller t = client r"
    by (subst mk, simp add: buy_trade_def)+
  ultimately show ?thesis using ask_order_price[OF ok r(1)] le s by (auto simp: fair_trade_def intro!: bexI[of _ r])
next
  fix ts inc' lv
  assume s: "side inc = SELL"
    and g: "greedy_fill bid_before (sell_trade (bk_symbol b) clk) 0 inc (flatten (bids b)) = (ts, inc', flatten lv)"
    and bm: "book_match clk inc b = (ts, b\<lparr>bids := lv, asks :=
      (if 0 < qty inc' \<and> kind inc \<noteq> MARKET then level_push ask_before (price inc) inc' (asks b) else asks b)\<rparr>)"
  have okb: "levels_ok bid_before (good_bid (bk_symbol b)) (bids b)" using ok by (simp add: book_ok_def)
  have t': "t \<in> set ts" using t bm by simp
  from st.greedy_trades[OF g t'] obtain r j where
    r: "(tprice t, r) \<in> set (flatten (bids b))" "willing bid_before inc (tprice t)"
    and mk: "t = sell_trade (bk_symbol b) clk (tprice t) j inc r (tqty t)" and le: "tqty t \<le> qty r" by blast
  have "0 < tqty t" using st.greedy_positive(1)[OF g bid.ok_positive[OF okb]] t' by blast
  moreover have "kind inc \<noteq> MARKET \<Longrightarrow> price inc \<le> tprice t"
    using r m level_price_not_NaN[OF okb r(1)] not_before_le(2) by (auto simp: matchable_def)
  moreover have "tsymbol t = bk_symbol b" "sell_order_id t = oid inc" "seller t = client inc"
    "buy_order_id t = oid r" "buyer t = client r"
    by (subst mk, simp add: sell_trade_def)+
  ultimately show ?thesis using bid_order_price[OF ok r(1)] le s by (auto simp: fair_trade_def intro!: bexI[of _ r])
qed

section \<open>Identities and quantities of the resting orders\<close>

text \<open>
  A view \<open>f\<close> of an order that does not look at its quantity (its id, its client) is never invented
  by a match: what rests afterwards was resting before or is the incoming order.
\<close>

definition quantity_blind :: "(order \<Rightarrow> 'a) \<Rightarrow> bool" where
  "quantity_blind f \<longleftrightarrow> (\<forall>x n. f (x\<lparr>qty := n\<rparr>) = f x)"

definition tags_of :: "(order \<Rightarrow> 'a) \<Rightarrow> order_book \<Rightarrow> 'a multiset" where
  "tags_of f b = mset (map f (resting_orders b))"

abbreviation ids_of :: "order_book \<Rightarrow> order_id multiset" where
  "ids_of b \<equiv> tags_of oid b"

lemma quantity_blind_views [simp]: "quantity_blind oid" "quantity_blind client"
  by (simp_all add: quantity_blind_def)

lemma greedy_tags:
  assumes "greedy_fill stop mk k inc xs = (ts, inc', xs')" "quantity_blind f"
  shows "mset (map (f \<circ> snd) xs') \<subseteq># mset (map (f \<circ> snd) xs)"
  using assms by (induction rule: greedy_run_induct)
    (auto intro: subset_mset.order_trans simp: quantity_blind_def)

lemma tags_of_flat:
  "tags_of f b = mset (map (f \<circ> snd) (flatten (bids b))) + mset (map (f \<circ> snd) (flatten (asks b)))"
  by (simp add: tags_of_def resting_orders_def resting_bids)

lemma push_tags:
  "image_mset (f \<circ> snd) (mset (flatten (level_push before p x lv))) =
     add_mset (f x) (image_mset (f \<circ> snd) (mset (flatten lv)))"
  by (induction lv) auto

lemma sub_add:
  "A \<subseteq># A0 \<Longrightarrow> add_mset i (B + A) \<subseteq># add_mset i (B + A0)"
  "A \<subseteq># A0 \<Longrightarrow> B + A \<subseteq># add_mset i (B + A0)"
  "A \<subseteq># A0 \<Longrightarrow> add_mset i (A + B) \<subseteq># add_mset i (A0 + B)"
  "A \<subseteq># A0 \<Longrightarrow> A + B \<subseteq># add_mset i (A0 + B)"
  "A \<subseteq># A0 \<Longrightarrow> A \<subseteq># add_mset i A0"
  by (auto simp: subseteq_mset_def le_SucI)

lemma book_match_tags:
  assumes "book_ok b" "matchable inc b" and blind: "quantity_blind f"
  shows "tags_of f (snd (book_match clk inc b)) \<subseteq># add_mset (f inc) (tags_of f b)"
proof (rule match_run[OF assms(1,2), of clk])
  fix ts inc' lv
  assume fr: "\<exists>n. inc' = inc\<lparr>qty := n\<rparr>"
    and g: "greedy_fill ask_before (buy_trade (bk_symbol b) clk) 0 inc (flatten (asks b)) = (ts, inc', flatten lv)"
    and bm: "book_match clk inc b = (ts, b\<lparr>asks := lv, bids :=
      (if 0 < qty inc' \<and> kind inc \<noteq> MARKET then level_push bid_before (price inc) inc' (bids b) else bids b)\<rparr>)"
  have i: "f inc' = f inc" using fr blind by (auto simp: quantity_blind_def)
  have sub: "image_mset (f \<circ> snd) (mset (flatten lv)) \<subseteq># image_mset (f \<circ> snd) (mset (flatten (asks b)))"
    using greedy_tags[OF g blind] by simp
  show ?thesis
    by (cases "0 < qty inc' \<and> kind inc \<noteq> MARKET")
      (simp_all add: bm tags_of_flat push_tags i sub sub_add[OF sub])
next
  fix ts inc' lv
  assume fr: "\<exists>n. inc' = inc\<lparr>qty := n\<rparr>"
    and g: "greedy_fill bid_before (sell_trade (bk_symbol b) clk) 0 inc (flatten (bids b)) = (ts, inc', flatten lv)"
    and bm: "book_match clk inc b = (ts, b\<lparr>bids := lv, asks :=
      (if 0 < qty inc' \<and> kind inc \<noteq> MARKET then level_push ask_before (price inc) inc' (asks b) else asks b)\<rparr>)"
  have i: "f inc' = f inc" using fr blind by (auto simp: quantity_blind_def)
  have sub: "image_mset (f \<circ> snd) (mset (flatten lv)) \<subseteq># image_mset (f \<circ> snd) (mset (flatten (bids b)))"
    using greedy_tags[OF g blind] by simp
  show ?thesis
    by (cases "0 < qty inc' \<and> kind inc \<noteq> MARKET")
      (simp_all add: bm tags_of_flat push_tags i sub sub_add[OF sub])
qed

text \<open>Resting volume of the two sides.\<close>

definition bid_volume :: "order_book \<Rightarrow> quantity" where
  "bid_volume b = volume (map snd (flatten (bids b)))"

definition ask_volume :: "order_book \<Rightarrow> quantity" where
  "ask_volume b = volume (map snd (flatten (asks b)))"

lemma push_volume:
  "sum_list (map (qty \<circ> snd) (flatten (level_push before p x lv))) =
     qty x + sum_list (map (qty \<circ> snd) (flatten lv))"
  by (induction lv) (auto simp: algebra_simps)

lemma book_match_quantities:
  assumes "book_ok b" "matchable inc b" "0 \<le> qty inc" "book_match clk inc b = (ts, b')"
  shows "side inc = BUY \<Longrightarrow> ask_volume b' = ask_volume b - trade_volume ts \<and>
      bid_volume b' = bid_volume b + (if kind inc = MARKET then 0 else qty inc - trade_volume ts)"
    and "side inc = SELL \<Longrightarrow> bid_volume b' = bid_volume b - trade_volume ts \<and>
      ask_volume b' = ask_volume b + (if kind inc = MARKET then 0 else qty inc - trade_volume ts)"
proof -
  assume s: "side inc = BUY"
  show "ask_volume b' = ask_volume b - trade_volume ts \<and>
      bid_volume b' = bid_volume b + (if kind inc = MARKET then 0 else qty inc - trade_volume ts)"
  proof (rule match_run[OF assms(1,2), of clk])
    fix ts1 inc' lv
    assume g: "greedy_fill ask_before (buy_trade (bk_symbol b) clk) 0 inc (flatten (asks b)) = (ts1, inc', flatten lv)"
      and bm: "book_match clk inc b = (ts1, b\<lparr>asks := lv, bids :=
        (if 0 < qty inc' \<and> kind inc \<noteq> MARKET then level_push bid_before (price inc) inc' (bids b) else bids b)\<rparr>)"
    show ?thesis using assms(4) bt.greedy_conserves[OF g] bt.greedy_remaining[OF g assms(3)]
      by (auto simp: bm ask_volume_def bid_volume_def push_volume)
  qed (use s in simp)
next
  assume s: "side inc = SELL"
  show "bid_volume b' = bid_volume b - trade_volume ts \<and>
      ask_volume b' = ask_volume b + (if kind inc = MARKET then 0 else qty inc - trade_volume ts)"
  proof (rule match_run[OF assms(1,2), of clk])
    fix ts1 inc' lv
    assume g: "greedy_fill bid_before (sell_trade (bk_symbol b) clk) 0 inc (flatten (bids b)) = (ts1, inc', flatten lv)"
      and bm: "book_match clk inc b = (ts1, b\<lparr>bids := lv, asks :=
        (if 0 < qty inc' \<and> kind inc \<noteq> MARKET then level_push ask_before (price inc) inc' (asks b) else asks b)\<rparr>)"
    show ?thesis using assms(4) st.greedy_conserves[OF g] st.greedy_remaining[OF g assms(3)]
      by (auto simp: bm ask_volume_def bid_volume_def push_volume)
  qed (use s in simp)
qed

section \<open>Cancellation\<close>

lemma cancel_in_found: "fst (cancel_in i lv) \<longleftrightarrow> (\<exists>x \<in> set (concat (map snd lv)). oid x = i)"
proof (induction i lv rule: cancel_in.induct)
  case (2 i k q lv)
  then show ?case by (cases "\<exists>x \<in> set q. oid x = i") (auto simp: Let_def split: prod.splits)
qed simp

lemma cancel_in_orders:
  "concat (map snd (snd (cancel_in i lv))) = remove_first (\<lambda>x. oid x = i) (concat (map snd lv))"
proof (induction i lv rule: cancel_in.induct)
  case (2 i k q lv)
  have left: "\<exists>x \<in> set q. oid x = i \<Longrightarrow>
      remove_first (\<lambda>x. oid x = i) (q @ ys) = remove_first (\<lambda>x. oid x = i) q @ ys" for ys
    by (induction q) auto
  have right: "\<not> (\<exists>x \<in> set q. oid x = i) \<Longrightarrow>
      remove_first (\<lambda>x. oid x = i) (q @ ys) = q @ remove_first (\<lambda>x. oid x = i) ys" for ys
    by (induction q) auto
  show ?case
    using 2 left right by (cases "\<exists>x \<in> set q. oid x = i") (auto simp: Let_def split: prod.splits)
qed simp

lemma cancel_in_ok:
  assumes "levels_ok before good lv"
  shows "levels_ok before good (snd (cancel_in i lv)) \<and> prices_of (snd (cancel_in i lv)) \<subseteq> prices_of lv"
  using assms
proof (induction i lv rule: cancel_in.induct)
  case (2 i k q lv)
  have sub: "x \<in> set (remove_first (\<lambda>x. oid x = i) q) \<Longrightarrow> x \<in> set q" for x
    using set_remove_first[of "\<lambda>x. oid x = i" q] by blast
  have tl: "levels_ok before good lv" using "2.prems" by (auto simp: levels_ok_def)
  show ?case
  proof (cases "\<exists>x \<in> set q. oid x = i")
    case True
    then show ?thesis using "2.prems" sub by (auto simp: levels_ok_def prices_of_def Let_def)
  next
    case False
    obtain f lv' where c: "cancel_in i lv = (f, lv')" by (cases "cancel_in i lv")
    have IH: "levels_ok before good lv'" "prices_of lv' \<subseteq> prices_of lv" using "2.IH"[OF False tl] c by auto
    have "\<forall>p \<in> prices_of lv'. before k p" 
      using IH(2) "2.prems" by (auto simp: levels_ok_def prices_of_def dest!: subsetD)
    then show ?thesis using False c IH "2.prems" by (auto simp: levels_ok_def prices_of_def)
  qed
qed (simp add: prices_of_def)


lemma book_cancel_found: "fst (book_cancel i b) \<longleftrightarrow> (\<exists>x \<in> set (resting_orders b). oid x = i)"
proof -
  obtain f lv where c: "cancel_in i (bids b) = (f, lv)" by (cases "cancel_in i (bids b)")
  have "f \<longleftrightarrow> (\<exists>x \<in> set (concat (map snd (bids b))). oid x = i)"
    using cancel_in_found[of i "bids b"] c by simp
  then show ?thesis using cancel_in_found[of i "asks b"]
    by (auto simp: book_cancel_def c resting_orders_def split: prod.splits)
qed

lemma remove_first_append:
  "remove_first P (xs @ ys) = (if \<exists>x \<in> set xs. P x then remove_first P xs @ ys else xs @ remove_first P ys)"
  by (induction xs) auto

lemma book_cancel_orders:
  "resting_orders (snd (book_cancel i b)) = remove_first (\<lambda>x. oid x = i) (resting_orders b)"
proof -
  obtain f lv where c: "cancel_in i (bids b) = (f, lv)" by (cases "cancel_in i (bids b)")
  obtain g lv' where d: "cancel_in i (asks b) = (g, lv')" by (cases "cancel_in i (asks b)")
  have f: "f \<longleftrightarrow> (\<exists>x \<in> set (concat (map snd (bids b))). oid x = i)"
    using cancel_in_found[of i "bids b"] c by simp
  have "concat (map snd lv) = remove_first (\<lambda>x. oid x = i) (concat (map snd (bids b)))"
    "concat (map snd lv') = remove_first (\<lambda>x. oid x = i) (concat (map snd (asks b)))"
    using cancel_in_orders[of i "bids b"] cancel_in_orders[of i "asks b"] c d by simp_all
  then show ?thesis
    by (cases f) (use f in \<open>simp_all add: book_cancel_def c d resting_orders_def remove_first_append\<close>)
qed

lemma book_cancel_ok [inv_intros]:
  assumes "book_ok b"
  shows "book_ok (snd (book_cancel i b))"
proof -
  have "levels_ok bid_before (good_bid (bk_symbol b)) (snd (cancel_in i (bids b)))"
    "levels_ok ask_before (good_ask (bk_symbol b)) (snd (cancel_in i (asks b)))"
    using assms cancel_in_ok by (auto simp: book_ok_def)
  then show ?thesis using assms by (auto simp: book_cancel_def book_ok_def split: prod.splits)
qed

lemma book_cancel_uncrossed [inv_intros]:
  assumes "book_ok b" "uncrossed b"
  shows "uncrossed (snd (book_cancel i b))"
proof -
  have "prices_of (snd (cancel_in i (bids b))) \<subseteq> prices_of (bids b)"
    "prices_of (snd (cancel_in i (asks b))) \<subseteq> prices_of (asks b)"
    using assms(1) cancel_in_ok unfolding book_ok_def by blast+
  then show ?thesis using assms(2)
    by (auto simp: book_cancel_def uncrossed_def split: prod.splits dest: subsetD)
qed

lemma bk_symbol_cancel [simp, frame_simps]: "bk_symbol (snd (book_cancel i b)) = bk_symbol b"
  by (simp add: book_cancel_def split: prod.splits)

text \<open>Cancelling by side and price, when the order is there, is cancelling by id in that side.\<close>

context price_side
begin

lemma cancel_at_found:
  assumes "levels_ok before good lv" "p \<noteq> NaN"
  shows "fst (cancel_at before p i lv) \<longleftrightarrow> (\<exists>x. (p, x) \<in> set (flatten lv) \<and> oid x = i)"
  using assms(1)
proof (induction lv)
  case (Cons l lv)
  obtain k q where l: "l = (k, q)" by (cases l)
  have ok: "levels_ok before good lv" and k: "k \<noteq> NaN" and lk: "\<forall>m \<in> set lv. before k (fst m)"
    using Cons.prems l by (auto simp: ok_Cons)
  have later: "before k p" if "(p, x) \<in> set (flatten lv)" for x
    using that lk flatten_in_level by fastforce
  consider (a) "before k p" | (b) "before p k" | (c) "k = p" using before_total[OF k assms(2)] by blast
  then show ?case
  proof cases
    case a
    then have "k \<noteq> p" using before_irrefl by blast
    then show ?thesis using a Cons.IH[OF ok] l by (auto split: prod.splits)
  next
    case b
    then have "k \<noteq> p" "\<And>x. (p, x) \<notin> set (flatten lv)" using before_irrefl later before_asym by blast+
    then show ?thesis using b l before_asym[OF b] by auto
  next
    case c
    then have "\<And>x. (p, x) \<notin> set (flatten lv)" using later before_irrefl by blast
    then show ?thesis using c l before_irrefl by (auto simp: Let_def)
  qed
qed simp

lemma cancel_at_cancel_in:
  assumes "levels_ok before good lv" "p \<noteq> NaN" "fst (cancel_at before p i lv)"
    and "distinct (map (oid \<circ> snd) (flatten lv))"
  shows "cancel_at before p i lv = cancel_in i lv"
  using assms(1,3,4)
proof (induction lv)
  case (Cons l lv)
  obtain k q where l: "l = (k, q)" by (cases l)
  have ok: "levels_ok before good lv" and k: "k \<noteq> NaN" using Cons.prems l by (auto simp: ok_Cons)
  consider (a) "before k p" | (b) "before p k" | (c) "k = p" using before_total[OF k assms(2)] by blast
  then show ?case
  proof cases
    case a
    then have f: "fst (cancel_at before p i lv)" using Cons.prems l by (auto split: prod.splits)
    obtain x where x: "(p, x) \<in> set (flatten lv)" "oid x = i"
      using f cancel_at_found[OF ok assms(2)] by blast
    then have "i \<in> set (map (oid \<circ> snd) (flatten lv))" by force
    moreover have "distinct (map oid q @ map (oid \<circ> snd) (flatten lv))"
      using Cons.prems(3) l by (simp add: comp_def)
    ultimately have "\<not> (\<exists>y \<in> set q. oid y = i)" by auto
    moreover have "cancel_at before p i lv = cancel_in i lv" using Cons.IH[OF ok f] Cons.prems(3) l by simp
    ultimately show ?thesis using a l by simp
  next
    case b
    then show ?thesis using Cons.prems l before_asym[OF b] by simp
  next
    case c
    then show ?thesis using Cons.prems l before_irrefl by (auto split: if_splits)
  qed
qed simp

text \<open>A cancel by price that finds nothing leaves the side as it is.\<close>

lemma cancel_at_not_found: "\<not> fst (cancel_at before p i lv) \<Longrightarrow> snd (cancel_at before p i lv) = lv"
  by (induction lv) (auto simp: Let_def split: prod.splits if_splits)

end

section \<open>Views\<close>

lemma top_levels_take: "top_levels depth n lv = map level_of (take (depth - n) lv)"
proof (induction lv arbitrary: n)
  case (Cons l lv)
  show ?case
  proof (cases "depth \<le> n")
    case False
    then have "depth - n = Suc (depth - Suc n)" by arith
    then show ?thesis using Cons False by simp
  qed simp
qed simp

lemma best_bid_max:
  assumes "book_ok b"
  shows "case best_bid b of None \<Rightarrow> prices_of (bids b) = {}
    | Some p \<Rightarrow> p \<in> prices_of (bids b) \<and> (\<forall>q \<in> prices_of (bids b). q \<le> p)"
proof (cases "bids b")
  case (Cons l lv)
  have "fst l \<noteq> NaN" "\<forall>m \<in> set lv. bid_before (fst l) (fst m)"
    using assms Cons by (simp_all add: book_ok_def bid.ok_Cons)
  then have "\<forall>q \<in> fst ` set lv. bid_before (fst l) q" by blast
  then show ?thesis using Cons \<open>fst l \<noteq> NaN\<close>
    by (cases l) (auto simp: best_bid_def prices_of_def bid_before_def double_le_iff)
qed (simp add: best_bid_def prices_of_def)

lemma best_ask_min:
  assumes "book_ok b"
  shows "case best_ask b of None \<Rightarrow> prices_of (asks b) = {}
    | Some p \<Rightarrow> p \<in> prices_of (asks b) \<and> (\<forall>q \<in> prices_of (asks b). p \<le> q)"
proof (cases "asks b")
  case (Cons l lv)
  have "fst l \<noteq> NaN" "\<forall>m \<in> set lv. ask_before (fst l) (fst m)"
    using assms Cons by (simp_all add: book_ok_def ask.ok_Cons)
  then have "\<forall>q \<in> fst ` set lv. ask_before (fst l) q" by blast
  then show ?thesis using Cons \<open>fst l \<noteq> NaN\<close>
    by (cases l) (auto simp: best_ask_def prices_of_def ask_before_def double_le_iff)
qed (simp add: best_ask_def prices_of_def)

lemma snapshot_levels:
  "snap_bids (book_snapshot_of d b) = map level_of (take d (bids b))"
  "snap_asks (book_snapshot_of d b) = map level_of (take d (asks b))"
  by (simp_all add: book_snapshot_of_def top_levels_take)

lemma snapshot_volume:
  "length (bids b) \<le> d \<Longrightarrow> sum_list (map lv_quantity (snap_bids (book_snapshot_of d b))) = bid_volume b"
  "length (asks b) \<le> d \<Longrightarrow> sum_list (map lv_quantity (snap_asks (book_snapshot_of d b))) = ask_volume b"
proof -
  have *: "sum_list (map (lv_quantity \<circ> level_of) lv) = volume (map snd (flatten lv))" for lv
    by (induction lv) (auto simp: level_of_def comp_def)
  show "length (bids b) \<le> d \<Longrightarrow> sum_list (map lv_quantity (snap_bids (book_snapshot_of d b))) = bid_volume b"
    "length (asks b) \<le> d \<Longrightarrow> sum_list (map lv_quantity (snap_asks (book_snapshot_of d b))) = ask_volume b"
    using * by (simp_all add: snapshot_levels bid_volume_def ask_volume_def)
qed

end
