(* ===== verification/BookProps.thy ===== *)
theory BookProps
  imports BookThms
begin

text \<open>
  The properties of the order book, each over the library lemmas of \<open>BookThms\<close>, with a concrete
  book on which their hypotheses hold: two ask levels, one bid level, and an incoming buy.
\<close>

definition demo_order :: "order_id \<Rightarrow> client_id \<Rightarrow> side \<Rightarrow> quantity \<Rightarrow> price \<Rightarrow> order" where
  "demo_order i c sd n p = \<lparr>oid = i, client = c, side = sd, kind = LIMIT, osymbol = ''AAA'', qty = n, price = p,
     release_lower = NegInf, release_upper = PosInf, submitted_at = 0, not_before = None, expires_at = None\<rparr>"

definition demo_book :: order_book where
  "demo_book = \<lparr>bk_symbol = ''AAA'',
     bids = [(Fin 99, [demo_order 1 1 BUY 4 (Fin 99)])],
     asks = [(Fin 100, [demo_order 2 2 SELL 5 (Fin 100), demo_order 3 3 SELL 1 (Fin 100)]),
             (Fin 101, [demo_order 4 2 SELL 2 (Fin 101)])]\<rparr>"

definition demo_buy :: order where
  "demo_buy = demo_order 5 1 BUY 9 (Fin 100)"

lemmas demo_defs = demo_book_def demo_buy_def demo_order_def

lemma demo_book_ok: "book_ok demo_book" "uncrossed demo_book" "matchable demo_buy demo_book" "0 \<le> qty demo_buy"
  by (simp_all add: demo_defs book_ok_def levels_ok_def bid_before_def ask_before_def good_bid_def good_ask_def
      uncrossed_def prices_of_def matchable_def)

lemma demo_match:
  "book_match (\<lambda>_. 7) demo_buy demo_book =
     ([buy_trade ''AAA'' (\<lambda>_. 7) (Fin 100) 0 demo_buy (demo_order 2 2 SELL 5 (Fin 100)) 5,
       buy_trade ''AAA'' (\<lambda>_. 7) (Fin 100) 1 demo_buy (demo_order 3 3 SELL 1 (Fin 100)) 1],
      \<lparr>bk_symbol = ''AAA'',
       bids = [(Fin 100, [demo_order 5 1 BUY 3 (Fin 100)]), (Fin 99, [demo_order 1 1 BUY 4 (Fin 99)])],
       asks = [(Fin 101, [demo_order 4 2 SELL 2 (Fin 101)])]\<rparr>)"
  by (simp add: book_match_def match_incoming_buy_def demo_defs book_simps bid_before_def buy_trade_def)

theorem book_match_refines_spec_witness:
  "book_ok demo_book \<and> matchable demo_buy demo_book \<and>
   map_prod id abs_of (book_match (\<lambda>_. 7) demo_buy demo_book) = spec_match (\<lambda>_. 7) ''AAA'' demo_buy (abs_of demo_book)"
  using book_match_refines_spec[OF demo_book_ok(1,3), of "\<lambda>_. 7"] demo_book_ok by (simp add: demo_book_def)

text \<open>C2. A match keeps the book well formed (levels strictly sorted by their comparator, no empty
queue, every order on its own level and side with a positive quantity, no MARKET order at rest) and
uncrossed: no resting bid is at or above a resting ask.\<close>

theorem match_preserves_book:
  assumes "book_ok b" "uncrossed b" "matchable inc b"
  shows "book_ok (snd (book_match clk inc b)) \<and> uncrossed (snd (book_match clk inc b)) \<and>
    bk_symbol (snd (book_match clk inc b)) = bk_symbol b"
  using assms book_match_ok book_match_uncrossed by simp

theorem match_preserves_book_witness:
  "book_ok demo_book \<and> uncrossed demo_book \<and> matchable demo_buy demo_book \<and>
   uncrossed (snd (book_match (\<lambda>_. 7) demo_buy demo_book))"
  using match_preserves_book[OF demo_book_ok(1-3), of "\<lambda>_. 7"] demo_book_ok by simp

text \<open>C3. A match executes as much as it can and no more: the traded quantity is the smaller of the
incoming quantity and the whole volume resting on the other side at prices the order accepts.\<close>

theorem match_executes_maximum:
  assumes "book_ok b" "matchable inc b" "0 \<le> qty inc"
  shows "trade_volume (fst (book_match clk inc b)) = min (qty inc) (volume (crossing_orders inc b))"
  by (rule book_match_volume[OF assms])

theorem match_executes_maximum_witness:
  "book_ok demo_book \<and> matchable demo_buy demo_book \<and> 0 \<le> qty demo_buy \<and>
   trade_volume (fst (book_match (\<lambda>_. 7) demo_buy demo_book)) = min 9 6"
proof -
  have "volume (crossing_orders demo_buy demo_book) = 6"
    by (simp add: crossing_orders_def demo_defs ask_before_def)
  then show ?thesis
    using match_executes_maximum[OF demo_book_ok(1,3,4), of "\<lambda>_. 7"] demo_book_ok
    by (simp add: demo_buy_def demo_order_def)
qed

text \<open>C4. Every trade of a match is fair: it is for a positive quantity of the book's symbol, at the
limit price of a resting order of the other side that holds at least that quantity, names the two
orders and their clients on the right sides, and is never beyond the incoming order's limit.\<close>

theorem match_trades_fair:
  assumes "book_ok b" "matchable inc b"
  shows "list_all (fair_trade inc b) (fst (book_match clk inc b))"
  using book_match_fair[OF assms] by (simp add: list_all_iff)

theorem match_trades_fair_witness:
  "book_ok demo_book \<and> matchable demo_buy demo_book \<and>
   list_all (fair_trade demo_buy demo_book) (fst (book_match (\<lambda>_. 7) demo_buy demo_book)) \<and>
   length (fst (book_match (\<lambda>_. 7) demo_buy demo_book)) = 2"
  using match_trades_fair[OF demo_book_ok(1,3), of "\<lambda>_. 7"] demo_book_ok by (simp add: demo_match)

text \<open>Quantity is conserved: the opposite side loses exactly the traded volume and the order's own
side gains exactly its unfilled remainder, or nothing when it is a MARKET order, whose remainder is
discarded.\<close>

theorem match_conserves_quantity:
  assumes "book_ok b" "matchable inc b" "0 \<le> qty inc"
  shows "(let (ts, b') = book_match clk inc b; rest = (if kind inc = MARKET then 0 else qty inc - trade_volume ts) in
    if side inc = BUY
    then ask_volume b' = ask_volume b - trade_volume ts \<and> bid_volume b' = bid_volume b + rest
    else bid_volume b' = bid_volume b - trade_volume ts \<and> ask_volume b' = ask_volume b + rest)"
proof -
  obtain ts b' where m: "book_match clk inc b = (ts, b')" by (cases "book_match clk inc b")
  show ?thesis
  proof (cases "side inc")
    case BUY
    then show ?thesis using book_match_quantities(1)[OF assms m] by (simp add: m)
  next
    case SELL
    then show ?thesis using book_match_quantities(2)[OF assms m] by (simp add: m)
  qed
qed

theorem match_conserves_quantity_witness:
  "book_ok demo_book \<and> matchable demo_buy demo_book \<and> 0 \<le> qty demo_buy \<and>
   ask_volume (snd (book_match (\<lambda>_. 7) demo_buy demo_book)) = 8 - 6 \<and>
   bid_volume (snd (book_match (\<lambda>_. 7) demo_buy demo_book)) = 4 + 3"
  using match_conserves_quantity[OF demo_book_ok(1,3,4), of "\<lambda>_. 7"] demo_book_ok
  by (simp add: demo_match buy_trade_def Let_def) (simp add: demo_defs ask_volume_def bid_volume_def)

text \<open>Cancelling by id removes exactly the first resting order with that id, keeps every other order
in its place, says whether there was one, and keeps the book well formed and uncrossed.\<close>

theorem cancel_exact:
  assumes "book_ok b" "uncrossed b"
  shows "(let (found, b') = book_cancel i b in
    (found \<longleftrightarrow> (\<exists>x \<in> set (resting_orders b). oid x = i)) \<and>
    resting_orders b' = remove_first (\<lambda>x. oid x = i) (resting_orders b) \<and> book_ok b' \<and> uncrossed b')"
  using book_cancel_found[of i b] book_cancel_orders[of i b] book_cancel_ok[OF assms(1), of i]
    book_cancel_uncrossed[OF assms, of i] by (simp add: case_prod_beta)

theorem cancel_exact_witness:
  "book_ok demo_book \<and> uncrossed demo_book \<and> fst (book_cancel 3 demo_book) \<and>
   map oid (resting_orders (snd (book_cancel 3 demo_book))) = [1, 2, 4]"
  using cancel_exact[OF demo_book_ok(1,2), of 3] demo_book_ok
  by (simp add: case_prod_beta Let_def) (simp add: demo_defs resting_orders_def)

text \<open>Cancelling by side and price finds an order exactly when one with that id rests on that level,
and then does to the side what cancelling by id does; otherwise it changes nothing.\<close>

theorem cancel_at_exact:
  assumes "book_ok b" "p \<noteq> NaN" "distinct (map oid (resting_orders b))"
  shows "(let lv = (if sd = BUY then bids b else asks b); (found, b') = book_cancel_at sd p i b in
    (found \<longleftrightarrow> (\<exists>x. (p, x) \<in> set (flatten lv) \<and> oid x = i)) \<and>
    b' = (if found then snd (book_cancel i b) else b))"
proof -
  have ok: "levels_ok bid_before (good_bid (bk_symbol b)) (bids b)" "levels_ok ask_before (good_ask (bk_symbol b)) (asks b)"
    using assms(1) by (simp_all add: book_ok_def)
  have d: "distinct (map (oid \<circ> snd) (flatten (bids b)))" "distinct (map (oid \<circ> snd) (flatten (asks b)))"
    and dj: "set (map (oid \<circ> snd) (flatten (bids b))) \<inter> set (map (oid \<circ> snd) (flatten (asks b))) = {}"
    using assms(3) by (simp_all add: resting_orders_def resting_bids)
  note f = bid.cancel_at_found[OF ok(1) assms(2), of i] ask.cancel_at_found[OF ok(2) assms(2), of i]
  have bid: "fst (cancel_at bid_before p i (bids b)) \<Longrightarrow> cancel_at bid_before p i (bids b) = cancel_in i (bids b)"
    by (rule bid.cancel_at_cancel_in[OF ok(1) assms(2) _ d(1)])
  have ask: "fst (cancel_at ask_before p i (asks b)) \<Longrightarrow> cancel_at ask_before p i (asks b) = cancel_in i (asks b)"
    by (rule ask.cancel_at_cancel_in[OF ok(2) assms(2) _ d(2)])
  have nb: "\<not> fst (cancel_in i (bids b))" if a: "fst (cancel_at ask_before p i (asks b))"
  proof -
    obtain x where "(p, x) \<in> set (flatten (asks b))" "oid x = i" using f(2) a by blast
    then have "i \<in> set (map (oid \<circ> snd) (flatten (asks b)))" by force
    then have "i \<notin> set (map (oid \<circ> snd) (flatten (bids b)))" using dj by blast
    then show ?thesis using cancel_in_found[of i "bids b"] by (force simp: resting_bids)
  qed
  show ?thesis
  proof (cases sd)
    case BUY
    obtain found lv where c: "cancel_at bid_before p i (bids b) = (found, lv)" by (cases "cancel_at bid_before p i (bids b)")
    show ?thesis
    proof (cases found)
      case True
      then have "cancel_in i (bids b) = (True, lv)" using bid c by simp
      then show ?thesis using f(1) c True BUY by (simp add: book_cancel_at_def book_cancel_def)
    next
      case False
      then show ?thesis using f(1) c BUY bid.cancel_at_not_found[of p i "bids b"] by (simp add: book_cancel_at_def)
    qed
  next
    case SELL
    obtain found lv where c: "cancel_at ask_before p i (asks b) = (found, lv)" by (cases "cancel_at ask_before p i (asks b)")
    show ?thesis
    proof (cases found)
      case True
      then have "cancel_in i (asks b) = (True, lv)" using ask c by simp
      moreover have "\<not> fst (cancel_in i (bids b))" by (rule nb) (simp add: c True)
      ultimately have "cancel_in i (asks b) = (True, lv)" "\<not> fst (cancel_in i (bids b))" by simp_all
      then show ?thesis using f(2) c True SELL by (auto simp: book_cancel_at_def book_cancel_def split: prod.splits)
    next
      case False
      then show ?thesis using f(2) c SELL ask.cancel_at_not_found[of p i "asks b"] by (simp add: book_cancel_at_def)
    qed
  qed
qed

theorem cancel_at_exact_witness:
  "book_ok demo_book \<and> Fin 100 \<noteq> NaN \<and> distinct (map oid (resting_orders demo_book)) \<and>
   fst (book_cancel_at SELL (Fin 100) 3 demo_book) \<and>
   snd (book_cancel_at SELL (Fin 100) 3 demo_book) = snd (book_cancel 3 demo_book)"
proof -
  have d: "distinct (map oid (resting_orders demo_book))" by (simp add: demo_defs resting_orders_def)
  have "fst (book_cancel_at SELL (Fin 100) 3 demo_book)"
    by (simp add: book_cancel_at_def demo_defs ask_before_def Let_def)
  then show ?thesis using cancel_at_exact[OF demo_book_ok(1) _ d, of "Fin 100" SELL 3] demo_book_ok d
    by (simp add: case_prod_beta Let_def)
qed

text \<open>The views: the best bid is the highest bid price and the best ask the lowest ask price, and a
snapshot shows, best first, the price and the total quantity of the first \<open>depth\<close> levels of each side.\<close>

theorem views_exact:
  assumes "book_ok b"
  shows "(case best_bid b of None \<Rightarrow> prices_of (bids b) = {}
      | Some p \<Rightarrow> p \<in> prices_of (bids b) \<and> (\<forall>q \<in> prices_of (bids b). q \<le> p)) \<and>
    (case best_ask b of None \<Rightarrow> prices_of (asks b) = {}
      | Some p \<Rightarrow> p \<in> prices_of (asks b) \<and> (\<forall>q \<in> prices_of (asks b). p \<le> q)) \<and>
    map lv_price (snap_bids (book_snapshot_of d b)) = take d (map fst (bids b)) \<and>
    map lv_quantity (snap_bids (book_snapshot_of d b)) = take d (map (volume \<circ> snd) (bids b)) \<and>
    map lv_price (snap_asks (book_snapshot_of d b)) = take d (map fst (asks b)) \<and>
    map lv_quantity (snap_asks (book_snapshot_of d b)) = take d (map (volume \<circ> snd) (asks b))"
  using best_bid_max[OF assms] best_ask_min[OF assms]
  by (simp add: snapshot_levels level_of_def comp_def take_map)

theorem views_exact_witness:
  "book_ok demo_book \<and> best_ask demo_book = Some (Fin 100) \<and>
   map lv_quantity (snap_asks (book_snapshot_of 1 demo_book)) = [6]"
  using views_exact[OF demo_book_ok(1), of 1] demo_book_ok(1)
  by (simp add: best_ask_def) (simp add: demo_defs)

text \<open>What a NaN limit price does, since \<open>price <= 0.0\<close> lets it pass: on an empty ask side a SELL at NaN
rests on a NaN level that blocks no buyer, and the next BUY trades with it at the price NaN.\<close>

theorem nan_price_trades:
  "(let (_, b1) = book_match clk (demo_order 1 1 SELL 5 NaN) (new_book ''AAA'');
        (ts, b2) = book_match clk (demo_order 2 2 BUY n p) b1
    in map tprice ts = (if 0 < n then [NaN] else []) \<and> map tqty ts = (if 0 < n then [min n 5] else []))"
proof (cases "0 < n")
  case True
  have "fill_queue mk k (demo_order 2 2 BUY n p) [demo_order 1 1 SELL 5 NaN] =
    ([mk k (demo_order 2 2 BUY n p) (demo_order 1 1 SELL 5 NaN) (min n 5)],
     demo_order 2 2 BUY (n - min n 5) p, if 5 \<le> n then [] else [demo_order 1 1 SELL (5 - n) NaN])" for mk k
    using True by (cases "5 \<le> n") (simp_all add: demo_order_def book_simps)
  then show ?thesis using True
    by (cases "5 \<le> n")
      (simp_all add: book_match_def match_incoming_sell_def match_incoming_buy_def new_book_def demo_order_def
        book_simps buy_trade_def Let_def case_prod_beta)
next
  case False
  then show ?thesis
    by (simp add: book_match_def match_incoming_sell_def match_incoming_buy_def new_book_def demo_order_def book_simps
      Let_def case_prod_beta)
qed

end
