(* ===== verification/Portfolio.thy ===== *)
theory Portfolio
  imports Types
begin

text \<open>
  A client's cash and holdings (\<open>Src_Simulation/include/portfolio.hpp\<close>) and the settlement of one
  trade between two portfolios (\<open>MatchingEngine::settle\<close>). Cash is a binary64 value, so it is kept
  with the rounding of every operation; holdings are exact integers.
\<close>

record portfolio =
  cash :: double
  holdings :: "(symbol \<times> quantity) list"

definition empty_portfolio :: portfolio where
  "empty_portfolio = \<lparr>cash = 0, holdings = []\<rparr>"

definition holding :: "portfolio \<Rightarrow> symbol \<Rightarrow> quantity" where
  "holding p s = um_get 0 (holdings p) s"

fun net_worth_loop :: "(symbol \<times> price) list \<Rightarrow> double \<Rightarrow> (symbol \<times> quantity) list \<Rightarrow> double" where
  "net_worth_loop prices acc [] = acc"
| "net_worth_loop prices acc ((s, q) # hs) =
     net_worth_loop prices
       (case map_of prices s of None \<Rightarrow> acc | Some p \<Rightarrow> acc + dbl_of_int q * p) hs"

definition net_worth :: "portfolio \<Rightarrow> (symbol \<times> price) list \<Rightarrow> double" where
  "net_worth p prices = net_worth_loop prices (cash p) (holdings p)"

type_synonym portfolios = "(client_id \<times> portfolio) list"

text \<open>\<open>holdings[symbol] += quantity\<close>.\<close>

definition add_holding :: "symbol \<Rightarrow> quantity \<Rightarrow> portfolio \<Rightarrow> portfolio" where
  "add_holding s n p = p\<lparr>holdings := um_modify 0 s (\<lambda>h. h + n) (holdings p)\<rparr>"

definition ensure_portfolio :: "client_id \<Rightarrow> double \<Rightarrow> portfolios \<Rightarrow> portfolios" where
  "ensure_portfolio c initial_cash ps =
     um_emplace c \<lparr>cash = initial_cash, holdings = []\<rparr> ps"

definition grant_holdings :: "client_id \<Rightarrow> symbol \<Rightarrow> quantity \<Rightarrow> portfolios \<Rightarrow> portfolios" where
  "grant_holdings c s n ps = um_modify empty_portfolio c (add_holding s n) ps"

definition settle_trade :: "trade \<Rightarrow> portfolios \<Rightarrow> portfolios" where
  "settle_trade t ps =
     (let notional = dbl_of_int (tqty t) * tprice t;
          ps1 = um_modify empty_portfolio (buyer t)
                  (\<lambda>p. add_holding (tsymbol t) (tqty t) (p\<lparr>cash := cash p - notional\<rparr>)) ps
      in um_modify empty_portfolio (seller t)
           (\<lambda>p. add_holding (tsymbol t) (- tqty t) (p\<lparr>cash := cash p + notional\<rparr>)) ps1)"

section \<open>Facts\<close>

lemma holding_add [simp]:
  "holding (add_holding s n p) s' = holding p s' + (if s' = s then n else 0)"
  by (simp add: holding_def add_holding_def um_get_modify)

lemma holding_cash [simp]: "holding (p\<lparr>cash := c\<rparr>) s = holding p s"
  by (simp add: holding_def)

lemma cash_add [simp]: "cash (add_holding s n p) = cash p"
  by (simp add: add_holding_def)

lemma holding_empty [simp]: "holding empty_portfolio s = 0" "cash empty_portfolio = 0"
  by (simp_all add: holding_def empty_portfolio_def um_get_def)

text \<open>The shares of a symbol that exist in all portfolios together.\<close>

definition shares :: "symbol \<Rightarrow> portfolios \<Rightarrow> quantity" where
  "shares s ps = um_total (\<lambda>p. holding p s) ps"

lemma um_ok_settle [simp, intro]: "um_ok ps \<Longrightarrow> um_ok (settle_trade t ps)"
  by (simp add: settle_trade_def Let_def)

lemma shares_settle [simp]: "um_ok ps \<Longrightarrow> shares s (settle_trade t ps) = shares s ps"
  by (simp add: shares_def settle_trade_def Let_def um_total_modify)

lemma shares_grant:
  "um_ok ps \<Longrightarrow> shares s (grant_holdings c s' n ps) = shares s ps + (if s = s' then n else 0)"
  by (simp add: shares_def grant_holdings_def um_total_modify)

lemma shares_ensure: "shares s (ensure_portfolio c x ps) = shares s ps"
  by (simp add: shares_def ensure_portfolio_def um_total_emplace holding_def um_get_def)

lemma settle_holding:
  assumes "buyer t \<noteq> seller t"
  shows "holding (um_get empty_portfolio (settle_trade t ps) c) s =
    holding (um_get empty_portfolio ps c) s +
      (if s = tsymbol t then (if c = buyer t then tqty t else if c = seller t then - tqty t else 0) else 0)"
  using assms by (auto simp: settle_trade_def Let_def um_get_modify)

lemma settle_cash:
  assumes "buyer t \<noteq> seller t"
  shows "cash (um_get empty_portfolio (settle_trade t ps) c) =
    (let p = um_get empty_portfolio ps c; n = dbl_of_int (tqty t) * tprice t in
     if c = buyer t then cash p - n else if c = seller t then cash p + n else cash p)"
  using assms by (auto simp: settle_trade_def Let_def um_get_modify)

text \<open>
  Money. The total cash as an exact rational; an infinite or NaN amount counts as zero and is
  excluded by the hypotheses of the theorems.
\<close>

fun rat_of_double :: "double \<Rightarrow> rat" where
  "rat_of_double (Fin r) = r"
| "rat_of_double _ = 0"

definition total_cash :: "portfolios \<Rightarrow> rat" where
  "total_cash ps = um_total (\<lambda>p. rat_of_double (cash p)) ps"

lemma total_cash_modify:
  assumes "um_ok ps"
  shows "total_cash (um_modify empty_portfolio c f ps) = total_cash ps +
    rat_of_double (cash (f (um_get empty_portfolio ps c))) - rat_of_double (cash (um_get empty_portfolio ps c))"
  using assms by (simp add: total_cash_def um_total_modify)

text \<open>The rounding error an operation with exact result \<open>x\<close> can commit: half a unit in the last place.\<close>

definition half_ulp :: "rat \<Rightarrow> rat" where
  "half_ulp x = 2 powi ulp_exp x / 2"

lemma rnd_half_ulp: "rnd x = Fin r \<Longrightarrow> \<bar>r - x\<bar> \<le> half_ulp x"
  unfolding half_ulp_def by (rule rnd_error)

text \<open>
  Settlement moves one amount: whatever the buyer pays the seller receives, so the total cash of
  all clients changes only by the two rounding errors of the subtraction and the addition.
\<close>

lemma settle_cash_error:
  assumes ok: "um_ok ps" and ne: "buyer t \<noteq> seller t"
    and n: "dbl_of_int (tqty t) * tprice t = Fin n"
    and b: "cash (um_get empty_portfolio ps (buyer t)) = Fin cb"
    and s: "cash (um_get empty_portfolio ps (seller t)) = Fin cs"
    and fb: "rnd (cb - n) = Fin rb" and fs: "rnd (cs + n) = Fin rs"
  shows "\<bar>total_cash (settle_trade t ps) - total_cash ps\<bar> \<le> half_ulp (cb - n) + half_ulp (cs + n)"
proof -
  have "total_cash (settle_trade t ps) - total_cash ps = (rb - (cb - n)) + (rs - (cs + n))"
    using ne by (simp add: settle_trade_def Let_def total_cash_modify ok um_ok_modify um_get_modify n b s fb fs)
  then show ?thesis using rnd_half_ulp[OF fb] rnd_half_ulp[OF fs] by linarith
qed

end
