(* ===== verification/OrderRegistry.thy ===== *)
theory OrderRegistry
  imports Types
begin

text \<open>
  The pool of orders that wait for their release band or start date
  (\<open>Src_Simulation/include/order_registry.hpp\<close>, \<open>src/order_registry.cpp\<close>): buckets of orders per
  symbol and an index from order id to symbol, with \<open>add\<close>, \<open>cancel\<close>, the two scans and the views.
\<close>

type_synonym bucket = "(order_id \<times> order) list"

record order_registry =
  waiting_by_symbol :: "(symbol \<times> bucket) list"
  order_symbol_index :: "(order_id \<times> symbol) list"

definition empty_registry :: order_registry where
  "empty_registry = \<lparr>waiting_by_symbol = [], order_symbol_index = []\<rparr>"

definition reg_add :: "order \<Rightarrow> order_registry \<Rightarrow> order_registry" where
  "reg_add ord r =
     r\<lparr>waiting_by_symbol := um_modify [] (osymbol ord) (um_emplace (oid ord) ord) (waiting_by_symbol r),
       order_symbol_index := um_emplace (oid ord) (osymbol ord) (order_symbol_index r)\<rparr>"

definition reg_cancel :: "order_id \<Rightarrow> order_registry \<Rightarrow> bool \<times> order_registry" where
  "reg_cancel i r =
     (case map_of (order_symbol_index r) i of
        None \<Rightarrow> (False, r)
      | Some s \<Rightarrow>
          (True, r\<lparr>waiting_by_symbol :=
                     (case map_of (waiting_by_symbol r) s of
                        None \<Rightarrow> waiting_by_symbol r
                      | Some b \<Rightarrow> AList.update s (AList.delete i b) (waiting_by_symbol r)),
                   order_symbol_index := AList.delete i (order_symbol_index r)\<rparr>))"

text \<open>The two tests of the scan: the expiry date has come; the start date has come.\<close>

definition expired_at :: "time \<Rightarrow> order \<Rightarrow> bool" where
  "expired_at now ord \<longleftrightarrow> (case expires_at ord of None \<Rightarrow> False | Some e \<Rightarrow> e \<le> now)"

definition started_at :: "time \<Rightarrow> order \<Rightarrow> bool" where
  "started_at now ord \<longleftrightarrow> (case not_before ord of None \<Rightarrow> True | Some t \<Rightarrow> t \<le> now)"

text \<open>The result lists, what stays in the bucket, and the index.\<close>

fun scan_bucket_locked ::
  "time \<Rightarrow> price \<Rightarrow> bucket \<Rightarrow> (order_id \<times> symbol) list \<Rightarrow>
     order list \<times> order list \<times> bucket \<times> (order_id \<times> symbol) list" where
  "scan_bucket_locked now ref [] idx = ([], [], [], idx)"
| "scan_bucket_locked now ref ((i, ord) # b) idx =
     (if expired_at now ord then
        let (rel, ex, b', idx') = scan_bucket_locked now ref b (AList.delete i idx)
        in (rel, ord # ex, b', idx')
      else if started_at now ord \<and> release_band_contains ord ref then
        let (rel, ex, b', idx') = scan_bucket_locked now ref b (AList.delete i idx)
        in (ord # rel, ex, b', idx')
      else
        let (rel, ex, b', idx') = scan_bucket_locked now ref b idx
        in (rel, ex, (i, ord) # b', idx'))"

fun scan_buckets ::
  "time \<Rightarrow> (symbol \<Rightarrow> price) \<Rightarrow> (symbol \<times> bucket) list \<Rightarrow> (order_id \<times> symbol) list \<Rightarrow>
     order list \<times> order list \<times> (symbol \<times> bucket) list \<times> (order_id \<times> symbol) list" where
  "scan_buckets now ref [] idx = ([], [], [], idx)"
| "scan_buckets now ref ((s, b) # m) idx =
     (let (rel, ex, b', idx') = scan_bucket_locked now (ref s) b idx;
          (rel2, ex2, m', idx'') = scan_buckets now ref m idx'
      in (rel @ rel2, ex @ ex2, (s, b') # m', idx''))"

definition scan_and_release ::
  "time \<Rightarrow> (symbol \<Rightarrow> price) \<Rightarrow> order_registry \<Rightarrow> order list \<times> order list \<times> order_registry" where
  "scan_and_release now ref r =
     (let (rel, ex, m, idx) = scan_buckets now ref (waiting_by_symbol r) (order_symbol_index r)
      in (rel, ex, r\<lparr>waiting_by_symbol := m, order_symbol_index := idx\<rparr>))"

definition scan_and_release_symbol ::
  "symbol \<Rightarrow> time \<Rightarrow> (symbol \<Rightarrow> price) \<Rightarrow> order_registry \<Rightarrow> order list \<times> order list \<times> order_registry" where
  "scan_and_release_symbol s now ref r =
     (case map_of (waiting_by_symbol r) s of
        None \<Rightarrow> ([], [], r)
      | Some b \<Rightarrow>
          (let (rel, ex, b', idx) = scan_bucket_locked now (ref s) b (order_symbol_index r)
           in (rel, ex, r\<lparr>waiting_by_symbol := AList.update s b' (waiting_by_symbol r),
                         order_symbol_index := idx\<rparr>)))"

definition reg_size :: "order_registry \<Rightarrow> nat" where
  "reg_size r = length (order_symbol_index r)"

definition symbols_with_waiting_orders :: "order_registry \<Rightarrow> symbol list" where
  "symbols_with_waiting_orders r = map fst (filter (\<lambda>(s, b). b \<noteq> []) (waiting_by_symbol r))"

definition all_waiting :: "order_registry \<Rightarrow> order list" where
  "all_waiting r = concat (map (\<lambda>(s, b). map snd b) (waiting_by_symbol r))"

section \<open>The invariant: buckets and index agree\<close>

definition bucket_ok :: "symbol \<Rightarrow> bucket \<Rightarrow> bool" where
  "bucket_ok s b \<longleftrightarrow> um_ok b \<and> (\<forall>(i, ord) \<in> set b. oid ord = i \<and> osymbol ord = s)"

text \<open>The (id, symbol) pairs of the waiting orders, bucket by bucket.\<close>

definition waiting_keys :: "(symbol \<times> bucket) list \<Rightarrow> (order_id \<times> symbol) list" where
  "waiting_keys m = concat (map (\<lambda>(s, b). map (\<lambda>e. (fst e, s)) b) m)"

definition reg_ok :: "order_registry \<Rightarrow> bool" where
  "reg_ok r \<longleftrightarrow> um_ok (waiting_by_symbol r) \<and>
     (\<forall>(s, b) \<in> set (waiting_by_symbol r). bucket_ok s b) \<and>
     um_ok (order_symbol_index r) \<and>
     mset (order_symbol_index r) = mset (waiting_keys (waiting_by_symbol r))"


lemma waiting_keys_simps [simp]:
  "waiting_keys [] = []" "waiting_keys ((s, b) # m) = map (\<lambda>e. (fst e, s)) b @ waiting_keys m"
  by (simp_all add: waiting_keys_def)

lemma all_waiting_simps:
  "all_waiting r = concat (map (map snd \<circ> snd) (waiting_by_symbol r))"
  unfolding all_waiting_def by (rule arg_cong[of _ _ concat]) auto

lemma set_waiting_keys: "set (waiting_keys m) = {(i, s). \<exists>b. (s, b) \<in> set m \<and> i \<in> fst ` set b}"
proof (induction m)
  case (Cons p m)
  then show ?case by (cases p) (auto simp: image_def)
qed simp

lemma reg_ok_index:
  "reg_ok r \<Longrightarrow> map_of (order_symbol_index r) i = Some s \<longleftrightarrow>
     (\<exists>b. map_of (waiting_by_symbol r) s = Some b \<and> i \<in> fst ` set b)"
proof -
  assume ok: "reg_ok r"
  then have "set (order_symbol_index r) = set (waiting_keys (waiting_by_symbol r))"
    unfolding reg_ok_def by (metis set_mset_mset)
  then have "(i, s) \<in> set (order_symbol_index r) \<longleftrightarrow>
      (\<exists>b. (s, b) \<in> set (waiting_by_symbol r) \<and> i \<in> fst ` set b)"
    by (simp add: set_waiting_keys)
  moreover have "um_ok (order_symbol_index r)" "um_ok (waiting_by_symbol r)"
    using ok by (simp_all add: reg_ok_def)
  ultimately show ?thesis by (simp only: um_mem_iff)
qed

lemma empty_registry_ok [simp]: "reg_ok empty_registry" "all_waiting empty_registry = []"
  by (simp_all add: reg_ok_def empty_registry_def all_waiting_def)

text \<open>Changing one bucket changes the waiting orders and the keys by that bucket.\<close>

lemma waiting_keys_update:
  assumes "um_ok m"
  shows "mset (waiting_keys (AList.update s b m)) + mset (map (\<lambda>e. (fst e, s)) (um_get [] m s)) =
    mset (waiting_keys m) + mset (map (\<lambda>e. (fst e, s)) b)"
  using um_sum_update[OF assms, of "\<lambda>(s, b). mset (map (\<lambda>e. (fst e, s)) b)" s b]
  by (simp add: waiting_keys_def mset_concat_map um_get_def case_prod_unfold split: option.splits)

lemma all_waiting_update:
  assumes "um_ok m"
  shows "mset (concat (map (map snd \<circ> snd) (AList.update s b m))) + mset (map snd (um_get [] m s)) =
    mset (concat (map (map snd \<circ> snd) m)) + mset (map snd b)"
  using um_sum_update[OF assms, of "\<lambda>(s, b). mset (map snd b)" s b]
  by (simp add: mset_concat_map um_get_def case_prod_unfold split: option.splits)

lemma bucket_of_ok:
  "reg_ok r \<Longrightarrow> bucket_ok s (um_get [] (waiting_by_symbol r) s)"
  by (auto simp: reg_ok_def um_get_def bucket_ok_def dest!: map_of_SomeD split: option.splits)

lemma buckets_update_ok:
  assumes "um_ok m" "\<forall>(s, b) \<in> set m. bucket_ok s b" "bucket_ok s b"
  shows "\<forall>(s', b') \<in> set (AList.update s b m). bucket_ok s' b'"
proof -
  have "bucket_ok s' b'" if mem: "(s', b') \<in> set (AList.update s b m)" for s' b'
  proof -
    have "map_of (AList.update s b m) s' = Some b'"
      by (rule map_of_is_SomeI[OF um_ok_update[OF assms(1)] mem])
    then have "s' = s \<and> b' = b \<or> (s', b') \<in> set m"
      by (cases "s' = s") (simp_all add: map_of_SomeD)
    then show ?thesis using assms(2,3) by blast
  qed
  then show ?thesis by blast
qed

lemma reg_add_fresh:
  assumes "reg_ok r" "map_of (order_symbol_index r) (oid ord) = None"
  shows "map_of (um_get [] (waiting_by_symbol r) (osymbol ord)) (oid ord) = None"
proof (cases "map_of (waiting_by_symbol r) (osymbol ord)")
  case (Some b)
  then have "oid ord \<notin> fst ` set b" using reg_ok_index[OF assms(1), of "oid ord" "osymbol ord"] assms(2) by auto
  then show ?thesis using Some by (simp add: um_get_def map_of_eq_None_iff)
qed (simp add: um_get_def)

lemma reg_add_ok:
  assumes ok: "reg_ok r" and fresh: "map_of (order_symbol_index r) (oid ord) = None"
  shows "reg_ok (reg_add ord r)"
    and "mset (all_waiting (reg_add ord r)) = add_mset ord (mset (all_waiting r))"
proof -
  let ?m = "waiting_by_symbol r" and ?s = "osymbol ord" and ?i = "oid ord"
  let ?b = "um_get [] ?m ?s"
  have um: "um_ok ?m" using ok by (simp add: reg_ok_def)
  have b': "um_emplace ?i ord ?b = ?b @ [(?i, ord)]"
    using reg_add_fresh[OF ok fresh] by (simp add: um_emplace_def)
  have idx: "um_emplace ?i ?s (order_symbol_index r) = order_symbol_index r @ [(?i, ?s)]"
    using fresh by (simp add: um_emplace_def)
  have bok: "bucket_ok ?s (?b @ [(?i, ord)])"
    using bucket_of_ok[OF ok, of ?s] reg_add_fresh[OF ok fresh]
    by (auto simp: bucket_ok_def map_of_eq_None_iff)
  have "mset (waiting_keys (AList.update ?s (?b @ [(?i, ord)]) ?m)) = add_mset (?i, ?s) (mset (waiting_keys ?m))"
    using waiting_keys_update[OF um, of ?s "?b @ [(?i, ord)]"] by simp
  then show "reg_ok (reg_add ord r)"
    using ok fresh buckets_update_ok[OF um _ bok]
    by (simp add: reg_ok_def reg_add_def um_modify_def b' idx map_of_eq_None_iff)
  show "mset (all_waiting (reg_add ord r)) = add_mset ord (mset (all_waiting r))"
    using all_waiting_update[OF um, of ?s "?b @ [(?i, ord)]"]
    by (simp add: all_waiting_simps reg_add_def um_modify_def b')
qed

text \<open>Removing some entries from the buckets and their ids from the index keeps the two in step.\<close>

lemma reg_ok_shrink:
  assumes ok: "reg_ok r" and um: "um_ok m'" and bs: "\<forall>(s, b) \<in> set m'. bucket_ok s b"
    and keys: "mset (waiting_keys (waiting_by_symbol r)) = mset (waiting_keys m') + mset gone"
    and idx: "idx' = filter (\<lambda>(i, _). i \<notin> fst ` set gone) (order_symbol_index r)"
  shows "reg_ok (r\<lparr>waiting_by_symbol := m', order_symbol_index := idx'\<rparr>)"
proof -
  let ?idx = "order_symbol_index r"
  have ms: "mset ?idx = mset (waiting_keys m' @ gone)" using ok keys by (simp add: reg_ok_def)
  then have "mset (map fst ?idx) = mset (map fst (waiting_keys m' @ gone))" by (metis mset_map)
  moreover have "distinct (map fst ?idx)" using ok by (simp add: reg_ok_def)
  ultimately have d: "distinct (map fst (waiting_keys m' @ gone))" by (metis mset_eq_imp_distinct_iff)
  have "mset idx' = filter_mset (\<lambda>(i, _). i \<notin> fst ` set gone) (mset ?idx)" by (simp add: idx)
  also have "\<dots> = filter_mset (\<lambda>(i, _). i \<notin> fst ` set gone) (mset (waiting_keys m' @ gone))"
    by (simp only: ms)
  also have "\<dots> = mset (filter (\<lambda>(i, _). i \<notin> fst ` set gone) (waiting_keys m' @ gone))" by simp
  also have "filter (\<lambda>(i, _). i \<notin> fst ` set gone) (waiting_keys m' @ gone) = waiting_keys m'"
  proof -
    have "filter (\<lambda>(i, _). i \<notin> fst ` set gone) (waiting_keys m') = waiting_keys m'"
      by (rule filter_True) (use d in force)
    moreover have "filter (\<lambda>(i, _). i \<notin> fst ` set gone) gone = []"
      by (rule filter_False) force
    ultimately show ?thesis by simp
  qed
  finally have "mset idx' = mset (waiting_keys m')" .
  moreover have "um_ok idx'" using ok by (simp add: idx reg_ok_def distinct_map_filter)
  ultimately show ?thesis using um bs by (simp add: reg_ok_def)
qed

lemma reg_cancel_ok:
  assumes ok: "reg_ok r" and c: "reg_cancel i r = (found, r')"
  shows "reg_ok r'"
    and "found \<longleftrightarrow> (\<exists>x \<in> set (all_waiting r). oid x = i)"
    and "found \<Longrightarrow> \<exists>x. oid x = i \<and> mset (all_waiting r) = add_mset x (mset (all_waiting r'))"
    and "\<not> found \<Longrightarrow> r' = r"
proof -
  let ?m = "waiting_by_symbol r" and ?idx = "order_symbol_index r"
  have um: "um_ok ?m" using ok by (simp add: reg_ok_def)
  have bs: "bucket_ok s b" if "map_of ?m s = Some b" for s b
    using ok that by (auto simp: reg_ok_def dest: map_of_SomeD)
  have aw: "(\<exists>x \<in> set (all_waiting r). oid x = i) \<longleftrightarrow> map_of ?idx i \<noteq> None"
  proof -
    have "(\<exists>x \<in> set (all_waiting r). oid x = i) \<longleftrightarrow> (\<exists>s b. map_of ?m s = Some b \<and> i \<in> fst ` set b)"
    proof
      assume "\<exists>x \<in> set (all_waiting r). oid x = i"
      then obtain s b x where "(s, b) \<in> set ?m" "x \<in> snd ` set b" "oid x = i"
        by (auto simp: all_waiting_def)
      then obtain j where j: "(j, x) \<in> set b" by auto
      have b: "map_of ?m s = Some b" by (rule map_of_is_SomeI[OF um \<open>(s, b) \<in> set ?m\<close>])
      then have "j = i" using bs[OF b] j \<open>oid x = i\<close> by (auto simp: bucket_ok_def)
      then have "i \<in> fst ` set b" using j by force
      then show "\<exists>s b. map_of ?m s = Some b \<and> i \<in> fst ` set b" using b by blast
    next
      assume "\<exists>s b. map_of ?m s = Some b \<and> i \<in> fst ` set b"
      then obtain s b x where "map_of ?m s = Some b" "(i, x) \<in> set b" by auto
      then show "\<exists>x \<in> set (all_waiting r). oid x = i"
        using bs[of s b] by (force simp: all_waiting_def bucket_ok_def dest: map_of_SomeD)
    qed
    also have "\<dots> \<longleftrightarrow> (\<exists>s. map_of ?idx i = Some s)" by (simp only: reg_ok_index[OF ok])
    finally show ?thesis by simp
  qed
  show "found \<longleftrightarrow> (\<exists>x \<in> set (all_waiting r). oid x = i)"
    using c aw by (auto simp: reg_cancel_def split: option.splits)
  show "\<not> found \<Longrightarrow> r' = r" using c by (auto simp: reg_cancel_def split: option.splits)
  have *: "reg_ok r' \<and> (\<exists>x. oid x = i \<and> mset (all_waiting r) = add_mset x (mset (all_waiting r')))"
    if s: "map_of ?idx i = Some s" for s
  proof -
    obtain b where b: "map_of ?m s = Some b" "i \<in> fst ` set b" using reg_ok_index[OF ok] s by blast
    then obtain x where x: "map_of b i = Some x" by (metis map_of_eq_None_iff not_None_eq)
    have bo: "bucket_ok s b" by (rule bs[OF b(1)])
    have g: "um_get [] ?m s = b" using b by (simp add: um_get_def)
    have mb: "mset b = add_mset (i, x) (mset (AList.delete i b))"
      using bo x by (intro mset_delete) (simp_all add: bucket_ok_def)
    have r': "r' = r\<lparr>waiting_by_symbol := AList.update s (AList.delete i b) ?m,
        order_symbol_index := AList.delete i ?idx\<rparr>"
      using c s b by (simp add: reg_cancel_def)
    have "bucket_ok s (AList.delete i b)"
      using bo by (auto simp: bucket_ok_def dest: in_set_dropD simp: AList.delete_eq distinct_map_filter)
    moreover have "mset (waiting_keys ?m) = mset (waiting_keys (AList.update s (AList.delete i b) ?m)) + mset [(i, s)]"
      using waiting_keys_update[OF um, of s "AList.delete i b"] mb g by simp
    moreover have "AList.delete i ?idx = filter (\<lambda>(j, _). j \<notin> fst ` set [(i, s)]) ?idx"
      by (auto simp: AList.delete_eq intro!: filter_cong)
    ultimately have "reg_ok r'" unfolding r'
      using ok um by (intro reg_ok_shrink[where gone = "[(i, s)]"] buckets_update_ok) (simp_all add: reg_ok_def)
    moreover have "mset (all_waiting r) = add_mset x (mset (all_waiting r'))"
      using all_waiting_update[OF um, of s "AList.delete i b"] mb g by (simp add: all_waiting_simps r')
    moreover have "oid x = i" using bo x by (auto simp: bucket_ok_def dest: map_of_SomeD)
    ultimately show ?thesis by blast
  qed
  show "reg_ok r'"
    using * ok c by (cases "map_of ?idx i") (auto simp: reg_cancel_def)
  show "found \<Longrightarrow> \<exists>x. oid x = i \<and> mset (all_waiting r) = add_mset x (mset (all_waiting r'))"
    using * c by (cases "map_of ?idx i") (auto simp: reg_cancel_def)
qed


section \<open>What a scan releases, drops and keeps\<close>

definition releasable :: "time \<Rightarrow> price \<Rightarrow> order \<Rightarrow> bool" where
  "releasable now ref x \<longleftrightarrow> \<not> expired_at now x \<and> started_at now x \<and> release_band_contains x ref"

definition keeps_waiting :: "time \<Rightarrow> price \<Rightarrow> order \<Rightarrow> bool" where
  "keeps_waiting now ref x \<longleftrightarrow> \<not> expired_at now x \<and> \<not> (started_at now x \<and> release_band_contains x ref)"

lemma scan_trichotomy:
  "keeps_waiting now ref x \<longleftrightarrow> \<not> expired_at now x \<and> \<not> releasable now ref x"
  by (auto simp: keeps_waiting_def releasable_def)

lemma scan_bucket_eq:
  "scan_bucket_locked now ref b idx =
     (filter (releasable now ref) (map snd b), filter (expired_at now) (map snd b),
      filter (\<lambda>e. keeps_waiting now ref (snd e)) b,
      filter (\<lambda>(i, _). i \<notin> fst ` set (filter (\<lambda>e. \<not> keeps_waiting now ref (snd e)) b)) idx)"
proof (induction b arbitrary: idx)
  case Nil
  have "(\<lambda>(i, s :: symbol). True) = (\<lambda>_. True)" by auto
  then show ?case by simp
next
  case (Cons e b)
  obtain i x where e: "e = (i, x)" by (cases e)
  show ?case
    by (cases "expired_at now x"; cases "started_at now x \<and> release_band_contains x ref")
      (auto simp: e Cons releasable_def keeps_waiting_def AList.delete_eq intro!: filter_cong)
qed

abbreviation kept_buckets :: "time \<Rightarrow> (symbol \<Rightarrow> price) \<Rightarrow> (symbol \<times> bucket) list \<Rightarrow> (symbol \<times> bucket) list" where
  "kept_buckets now ref m \<equiv> map (\<lambda>(s, b). (s, filter (\<lambda>e. keeps_waiting now (ref s) (snd e)) b)) m"

abbreviation gone_buckets :: "time \<Rightarrow> (symbol \<Rightarrow> price) \<Rightarrow> (symbol \<times> bucket) list \<Rightarrow> (symbol \<times> bucket) list" where
  "gone_buckets now ref m \<equiv> map (\<lambda>(s, b). (s, filter (\<lambda>e. \<not> keeps_waiting now (ref s) (snd e)) b)) m"

lemma scan_buckets_eq:
  "scan_buckets now ref m idx =
     (concat (map (\<lambda>(s, b). filter (releasable now (ref s)) (map snd b)) m),
      concat (map (\<lambda>(s, b). filter (expired_at now) (map snd b)) m),
      kept_buckets now ref m,
      filter (\<lambda>(i, _). i \<notin> fst ` set (waiting_keys (gone_buckets now ref m))) idx)"
proof (induction m arbitrary: idx)
  case Nil
  have "(\<lambda>(i, s :: symbol). True) = (\<lambda>_. True)" by auto
  then show ?case by simp
next
  case (Cons p m)
  obtain s b where p: "p = (s, b)" by (cases p)
  show ?case
    by (simp add: p Cons scan_bucket_eq image_Un image_image) (auto intro!: filter_cong)
qed

lemma filter_keys_split:
  "mset (waiting_keys m) = mset (waiting_keys (kept_buckets now ref m)) + mset (waiting_keys (gone_buckets now ref m))"
proof (induction m)
  case (Cons p m)
  obtain s b where p: "p = (s, b)" by (cases p)
  have "mset (map (\<lambda>e. (fst e, s)) b) =
      mset (map (\<lambda>e. (fst e, s)) (filter (\<lambda>e. keeps_waiting now (ref s) (snd e)) b)) +
      mset (map (\<lambda>e. (fst e, s)) (filter (\<lambda>e. \<not> keeps_waiting now (ref s) (snd e)) b))"
    by (induction b) auto
  then show ?case using Cons p by (simp add: ac_simps)
qed simp

text \<open>The reference price a waiting order is measured against is its own symbol's.\<close>

lemma scan_orders:
  assumes "\<forall>(s, b) \<in> set m. bucket_ok s b"
  shows "concat (map (\<lambda>(s, b). filter (\<lambda>x. P (ref s) x) (map snd b)) m) =
    filter (\<lambda>x. P (ref (osymbol x)) x) (concat (map (map snd \<circ> snd) m))"
  using assms
proof (induction m)
  case (Cons p m)
  obtain s b where p: "p = (s, b)" by (cases p)
  have "filter (\<lambda>x. P (ref s) x) (map snd b) = filter (\<lambda>x. P (ref (osymbol x)) x) (map snd b)"
    using Cons.prems p by (intro filter_cong) (auto simp: bucket_ok_def)
  then show ?case using Cons p by simp
qed simp

lemma bucket_ok_filter: "bucket_ok s b \<Longrightarrow> bucket_ok s (filter P b)"
  by (auto simp: bucket_ok_def distinct_map_filter)

lemma scan_and_release_exact:
  assumes ok: "reg_ok r" and s: "scan_and_release now ref r = (rel, ex, r')"
  shows "reg_ok r'"
    and "rel = filter (\<lambda>x. releasable now (ref (osymbol x)) x) (all_waiting r)"
    and "ex = filter (expired_at now) (all_waiting r)"
    and "all_waiting r' = filter (\<lambda>x. keeps_waiting now (ref (osymbol x)) x) (all_waiting r)"
proof -
  let ?m = "waiting_by_symbol r"
  have bs: "\<forall>(s, b) \<in> set ?m. bucket_ok s b" and um: "um_ok ?m" using ok by (simp_all add: reg_ok_def)
  have rel: "rel = concat (map (\<lambda>(s, b). filter (releasable now (ref s)) (map snd b)) ?m)"
    and ex: "ex = concat (map (\<lambda>(s, b). filter (expired_at now) (map snd b)) ?m)"
    and r': "r' = r\<lparr>waiting_by_symbol := kept_buckets now ref ?m, order_symbol_index :=
      filter (\<lambda>(i, _). i \<notin> fst ` set (waiting_keys (gone_buckets now ref ?m))) (order_symbol_index r)\<rparr>"
    using s by (simp_all add: scan_and_release_def scan_buckets_eq)
  show "rel = filter (\<lambda>x. releasable now (ref (osymbol x)) x) (all_waiting r)"
    using scan_orders[OF bs, of "\<lambda>p x. releasable now p x" ref] by (simp add: rel all_waiting_simps)
  show "ex = filter (expired_at now) (all_waiting r)"
    using scan_orders[OF bs, of "\<lambda>_ x. expired_at now x" ref] by (simp add: ex all_waiting_simps)
  have "map snd (filter (\<lambda>e. P (snd e)) b) = filter P (map snd b)" for P and b :: bucket
    by (induction b) auto
  then have "concat (map (map snd \<circ> snd) (kept_buckets now ref m)) =
      concat (map (\<lambda>(s, b). filter (\<lambda>x. keeps_waiting now (ref s) x) (map snd b)) m)" for m
    by (induction m) auto
  then show "all_waiting r' = filter (\<lambda>x. keeps_waiting now (ref (osymbol x)) x) (all_waiting r)"
    using scan_orders[OF bs, of "\<lambda>p x. keeps_waiting now p x" ref] by (simp add: r' all_waiting_simps)
  have keys: "map fst (kept_buckets now ref ?m) = map fst ?m" by auto
  have "um_ok (kept_buckets now ref ?m)" by (subst keys) (rule um)
  moreover have "\<forall>(s, b) \<in> set (kept_buckets now ref ?m). bucket_ok s b"
    using bs by (auto intro: bucket_ok_filter)
  ultimately show "reg_ok r'" unfolding r' by (rule reg_ok_shrink[OF ok _ _ filter_keys_split refl])
qed

lemma mset_rebalance:
  "A + B = C + K \<Longrightarrow> B = R + E + K \<Longrightarrow> C = R + E + (A :: 'a multiset)"
  by (metis add.assoc add.commute add_left_cancel)

text \<open>A scan of one symbol does to that symbol's orders what a full scan does, and nothing else.\<close>

lemma scan_symbol_exact:
  assumes ok: "reg_ok r" and s: "scan_and_release_symbol s now ref r = (rel, ex, r')"
  shows "reg_ok r'"
    and "mset rel = mset (filter (\<lambda>x. osymbol x = s \<and> releasable now (ref s) x) (all_waiting r))"
    and "mset ex = mset (filter (\<lambda>x. osymbol x = s \<and> expired_at now x) (all_waiting r))"
    and "mset (all_waiting r) = mset rel + mset ex + mset (all_waiting r')"
    and "\<forall>x \<in> set (all_waiting r'). osymbol x = s \<longrightarrow> keeps_waiting now (ref s) x"
proof -
  let ?m = "waiting_by_symbol r"
  have bs: "\<forall>(s, b) \<in> set ?m. bucket_ok s b" and um: "um_ok ?m" using ok by (simp_all add: reg_ok_def)
  have own: "filter (\<lambda>x. osymbol x = s \<and> P x) (concat (map (map snd \<circ> snd) m)) =
      filter P (map snd (um_get [] m s))" if "um_ok m" "\<forall>(s, b) \<in> set m. bucket_ok s b" for P m
    using that
  proof (induction m)
    case (Cons p m)
    obtain s' b where p: "p = (s', b)" by (cases p)
    have b: "\<forall>x \<in> set (map snd b). osymbol x = s'" using Cons.prems p by (auto simp: bucket_ok_def)
    show ?case
    proof (cases "s' = s")
      case True
      then have "map_of m s = None" using Cons.prems p by (simp add: map_of_eq_None_iff)
      moreover have "um_ok m" "\<forall>(s, b) \<in> set m. bucket_ok s b" using Cons.prems p by auto
      ultimately have "filter (\<lambda>x. osymbol x = s \<and> P x) (concat (map (map snd \<circ> snd) m)) = []"
        using Cons.IH by (simp add: um_get_def comp_def)
      moreover have "filter (\<lambda>x. osymbol x = s \<and> P x) (map snd b) = filter P (map snd b)"
        using b True by (intro filter_cong) auto
      ultimately show ?thesis using True p by (simp add: um_get_def comp_def)
    next
      case False
      then have "filter (\<lambda>x. osymbol x = s \<and> P x) (map snd b) = []" using b by (auto simp: filter_empty_conv)
      then show ?thesis using Cons p False by (simp add: um_get_def comp_def)
    qed
  qed (simp add: um_get_def)
  note mine = own[OF um bs, folded all_waiting_simps]
  let ?b = "um_get [] ?m s"
  have rel: "rel = filter (releasable now (ref s)) (map snd ?b)"
    and ex: "ex = filter (expired_at now) (map snd ?b)"
    using s by (auto simp: scan_and_release_symbol_def um_get_def scan_bucket_eq split: option.splits)
  show "mset rel = mset (filter (\<lambda>x. osymbol x = s \<and> releasable now (ref s) x) (all_waiting r))"
    by (simp only: mine rel)
  show "mset ex = mset (filter (\<lambda>x. osymbol x = s \<and> expired_at now x) (all_waiting r))"
    by (simp only: mine ex)
  let ?k = "filter (\<lambda>e. keeps_waiting now (ref s) (snd e)) ?b"
  let ?g = "filter (\<lambda>e. \<not> keeps_waiting now (ref s) (snd e)) ?b"
  show *: "mset (all_waiting r) = mset rel + mset ex + mset (all_waiting r')"
  proof (cases "map_of ?m s")
    case None
    then show ?thesis using s by (simp add: scan_and_release_symbol_def)
  next
    case (Some b)
    have split: "mset (map snd b) = mset (filter (releasable now (ref s)) (map snd b)) +
        mset (filter (expired_at now) (map snd b)) + mset (map snd (filter (\<lambda>e. keeps_waiting now (ref s) (snd e)) b))" for b :: bucket
      by (induction b) (auto simp: scan_trichotomy releasable_def)
    have r': "waiting_by_symbol r' = AList.update s ?k ?m"
      using s Some by (auto simp: scan_and_release_symbol_def um_get_def scan_bucket_eq)
    show ?thesis
      unfolding all_waiting_simps r' rel ex by (rule mset_rebalance[OF all_waiting_update[OF um] split])
  qed
  show rok: "reg_ok r'"
  proof (cases "map_of ?m s")
    case None
    then show ?thesis using s ok by (simp add: scan_and_release_symbol_def)
  next
    case (Some b)
    have r': "r' = r\<lparr>waiting_by_symbol := AList.update s ?k ?m, order_symbol_index :=
        filter (\<lambda>(i, _). i \<notin> fst ` set (map (\<lambda>e. (fst e, s)) ?g)) (order_symbol_index r)\<rparr>"
      using s Some by (simp add: scan_and_release_symbol_def um_get_def scan_bucket_eq image_image)
    have "mset (map (\<lambda>e. (fst e, s)) b) = mset (map (\<lambda>e. (fst e, s)) (filter Q b)) +
        mset (map (\<lambda>e. (fst e, s)) (filter (\<lambda>e. \<not> Q e) b))" for Q and b :: bucket
      by (induction b) auto
    from this[of ?b "\<lambda>e. keeps_waiting now (ref s) (snd e)"]
    have "mset (waiting_keys ?m) = mset (waiting_keys (AList.update s ?k ?m)) + mset (map (\<lambda>e. (fst e, s)) ?g)"
      using waiting_keys_update[OF um, of s ?k] by simp
    moreover have "bucket_ok s ?k" by (intro bucket_ok_filter bucket_of_ok[OF ok])
    ultimately show ?thesis unfolding r'
      using reg_ok_shrink[OF ok um_ok_update[OF um] buckets_update_ok[OF um bs]] by blast
  qed
  show "\<forall>x \<in> set (all_waiting r'). osymbol x = s \<longrightarrow> keeps_waiting now (ref s) x"
  proof -
    have bs': "\<forall>(s, b) \<in> set (waiting_by_symbol r'). bucket_ok s b" and um': "um_ok (waiting_by_symbol r')"
      using rok by (simp_all add: reg_ok_def)
    have "um_get [] (waiting_by_symbol r') s = ?k"
      using s by (auto simp: scan_and_release_symbol_def um_get_def scan_bucket_eq split: option.splits)
    then have "filter (\<lambda>x. osymbol x = s \<and> \<not> keeps_waiting now (ref s) x) (all_waiting r') = []"
      using own[OF um' bs', of "\<lambda>x. \<not> keeps_waiting now (ref s) x"] by (simp add: all_waiting_simps filter_map)
    then show ?thesis by (auto simp: filter_empty_conv)
  qed
qed

lemma reg_size_count: "reg_ok r \<Longrightarrow> reg_size r = length (all_waiting r)"
proof -
  assume "reg_ok r"
  then have "length (order_symbol_index r) = length (waiting_keys (waiting_by_symbol r))"
    unfolding reg_ok_def by (metis size_mset)
  also have "\<dots> = length (concat (map (map snd \<circ> snd) m))" if "m = waiting_by_symbol r" for m
    unfolding that by (simp add: waiting_keys_def length_concat comp_def case_prod_unfold)
  finally show ?thesis by (simp add: reg_size_def all_waiting_simps)
qed

section \<open>The contract of a waiting pool\<close>

text \<open>
  What the matching engine relies on: orders are added under fresh ids, cancelled by id and
  counted; the pool is the multiset of its pending orders.
\<close>

locale waiting_pool =
  fixes add :: "order \<Rightarrow> 'r \<Rightarrow> 'r"
    and cancel :: "order_id \<Rightarrow> 'r \<Rightarrow> bool \<times> 'r"
    and count_of :: "'r \<Rightarrow> nat"
    and pending :: "'r \<Rightarrow> order multiset"
    and ok :: "'r \<Rightarrow> bool"
  assumes pending_add: "ok r \<Longrightarrow> \<forall>x \<in># pending r. oid x \<noteq> oid y \<Longrightarrow> pending (add y r) = add_mset y (pending r)"
    and ok_add: "ok r \<Longrightarrow> \<forall>x \<in># pending r. oid x \<noteq> oid y \<Longrightarrow> ok (add y r)"
    and cancel_found: "ok r \<Longrightarrow> fst (cancel i r) \<longleftrightarrow> (\<exists>x \<in># pending r. oid x = i)"
    and cancel_pending: "ok r \<Longrightarrow> fst (cancel i r) \<Longrightarrow>
      \<exists>x. oid x = i \<and> pending r = add_mset x (pending (snd (cancel i r)))"
    and ok_cancel: "ok r \<Longrightarrow> ok (snd (cancel i r))"
    and count_pending: "ok r \<Longrightarrow> count_of r = size (pending r)"
begin

lemma cancel_undoes_add:
  assumes "ok r" "\<forall>x \<in># pending r. oid x \<noteq> oid y"
  shows "fst (cancel (oid y) (add y r))" "pending (snd (cancel (oid y) (add y r))) = pending r"
proof -
  show f: "fst (cancel (oid y) (add y r))"
    using cancel_found[OF ok_add[OF assms]] pending_add[OF assms] by auto
  obtain x where x: "oid x = oid y" "pending (add y r) = add_mset x (pending (snd (cancel (oid y) (add y r))))"
    using cancel_pending[OF ok_add[OF assms] f] by blast
  then have "add_mset x (pending (snd (cancel (oid y) (add y r)))) = add_mset y (pending r)"
    using pending_add[OF assms] by simp
  then show "pending (snd (cancel (oid y) (add y r))) = pending r"
    using x(1) assms(2) by (metis add_mset_add_mset_same_iff insert_noteq_member)
qed

lemma count_add: "ok r \<Longrightarrow> \<forall>x \<in># pending r. oid x \<noteq> oid y \<Longrightarrow> count_of (add y r) = Suc (count_of r)"
  by (simp add: count_pending ok_add pending_add)

end

lemma fresh_in_index:
  assumes "reg_ok r" "\<forall>x \<in># mset (all_waiting r). oid x \<noteq> i"
  shows "map_of (order_symbol_index r) i = None"
proof -
  obtain f r' where c: "reg_cancel i r = (f, r')" by (cases "reg_cancel i r")
  then have "\<not> f" using reg_cancel_ok(2)[OF assms(1) c] assms(2) by simp
  then show ?thesis using c by (auto simp: reg_cancel_def split: option.splits)
qed

interpretation pool: waiting_pool reg_add reg_cancel reg_size "\<lambda>r. mset (all_waiting r)" reg_ok
proof (unfold_locales, goal_cases)
  case (3 r i) then show ?case using reg_cancel_ok(2)[of r i] by (cases "reg_cancel i r") auto
next
  case (4 r i) then show ?case using reg_cancel_ok(3)[of r i] by (cases "reg_cancel i r") auto
next
  case (5 r i) then show ?case using reg_cancel_ok(1)[of r i] by (cases "reg_cancel i r") auto
qed (use reg_add_ok fresh_in_index reg_size_count in auto)

end
