(* ===== verification/Metrics.thy ===== *)
theory Metrics
  imports Types
begin

text \<open>
  The counters and the latency histogram of \<open>Src_Simulation/include/metrics.hpp\<close>. Every counter is
  a 64-bit atomic, so it is a 64-bit word whose additions wrap; the sum and the maximum of the
  histogram are signed and compared as signed words. The relaxed atomic operations are modelled as
  the sequence of their effects.
\<close>

definition bucket_bounds_us :: "int list" where
  "bucket_bounds_us = [10, 50, 100, 500, 1000, 5000, 50000]"

record latency_histogram =
  hist_count :: "64 word"
  hist_sum_us :: "64 word"
  hist_max_us :: "64 word"
  hist_buckets :: "64 word list"
  hist_overflow :: "64 word"

definition new_histogram :: latency_histogram where
  "new_histogram = \<lparr>hist_count = 0, hist_sum_us = 0, hist_max_us = 0,
     hist_buckets = replicate 7 0, hist_overflow = 0\<rparr>"

text \<open>The loop over the bounds: the first bucket whose bound is above the duration.\<close>

fun find_bucket :: "int \<Rightarrow> nat \<Rightarrow> int list \<Rightarrow> nat option" where
  "find_bucket us i [] = None"
| "find_bucket us i (b # bs) = (if us < b then Some i else find_bucket us (Suc i) bs)"

definition record_latency :: "64 word \<Rightarrow> latency_histogram \<Rightarrow> latency_histogram" where
  "record_latency us h =
     (let h1 = h\<lparr>hist_count := hist_count h + 1, hist_sum_us := hist_sum_us h + us,
                 hist_max_us := (if sint (hist_max_us h) < sint us then us else hist_max_us h)\<rparr>
      in case find_bucket (sint us) 0 bucket_bounds_us of
           Some i \<Rightarrow> h1\<lparr>hist_buckets := (hist_buckets h1)[i := hist_buckets h1 ! i + 1]\<rparr>
         | None \<Rightarrow> h1\<lparr>hist_overflow := hist_overflow h1 + 1\<rparr>)"

definition mean_us :: "latency_histogram \<Rightarrow> double" where
  "mean_us h = (if hist_count h = 0 then 0
     else dbl_of_int (sint (hist_sum_us h)) div dbl_of_int (uint (hist_count h)))"

definition reset_histogram :: "latency_histogram \<Rightarrow> latency_histogram" where
  "reset_histogram h = h\<lparr>hist_count := 0, hist_sum_us := 0, hist_max_us := 0,
     hist_buckets := map (\<lambda>_. 0) (hist_buckets h), hist_overflow := 0\<rparr>"

record metrics =
  orders_submitted :: "64 word"
  orders_accepted :: "64 word"
  orders_rejected :: "64 word"
  orders_queued :: "64 word"
  orders_expired :: "64 word"
  trades_executed :: "64 word"
  volume_traded :: "64 word"
  submit_latency :: latency_histogram

definition new_metrics :: metrics where
  "new_metrics = \<lparr>orders_submitted = 0, orders_accepted = 0, orders_rejected = 0, orders_queued = 0,
     orders_expired = 0, trades_executed = 0, volume_traded = 0, submit_latency = new_histogram\<rparr>"

definition order_submitted :: "metrics \<Rightarrow> metrics" where
  "order_submitted m = m\<lparr>orders_submitted := orders_submitted m + 1\<rparr>"

definition order_accepted :: "metrics \<Rightarrow> metrics" where
  "order_accepted m = m\<lparr>orders_accepted := orders_accepted m + 1\<rparr>"

definition order_rejected :: "metrics \<Rightarrow> metrics" where
  "order_rejected m = m\<lparr>orders_rejected := orders_rejected m + 1\<rparr>"

definition order_queued :: "metrics \<Rightarrow> metrics" where
  "order_queued m = m\<lparr>orders_queued := orders_queued m + 1\<rparr>"

definition order_expired :: "metrics \<Rightarrow> metrics" where
  "order_expired m = m\<lparr>orders_expired := orders_expired m + 1\<rparr>"

definition add_trades_executed :: "64 word \<Rightarrow> metrics \<Rightarrow> metrics" where
  "add_trades_executed n m = m\<lparr>trades_executed := trades_executed m + n\<rparr>"

definition add_volume_traded :: "64 word \<Rightarrow> metrics \<Rightarrow> metrics" where
  "add_volume_traded q m = m\<lparr>volume_traded := volume_traded m + q\<rparr>"

definition record_submit_latency :: "64 word \<Rightarrow> metrics \<Rightarrow> metrics" where
  "record_submit_latency us m = m\<lparr>submit_latency := record_latency us (submit_latency m)\<rparr>"

definition reset_metrics :: "metrics \<Rightarrow> metrics" where
  "reset_metrics m = m\<lparr>orders_submitted := 0, orders_accepted := 0, orders_rejected := 0,
     orders_queued := 0, orders_expired := 0, trades_executed := 0, volume_traded := 0,
     submit_latency := reset_histogram (submit_latency m)\<rparr>"

lemmas metrics_ops = order_submitted_def order_accepted_def order_rejected_def order_queued_def
  order_expired_def add_trades_executed_def add_volume_traded_def record_submit_latency_def

section \<open>The histogram counts every sample once\<close>

definition hist_ok :: "latency_histogram \<Rightarrow> bool" where
  "hist_ok h \<longleftrightarrow> length (hist_buckets h) = length bucket_bounds_us \<and>
     hist_count h = sum_list (hist_buckets h) + hist_overflow h"

lemma find_bucket_Some:
  "find_bucket us i bs = Some j \<Longrightarrow>
     i \<le> j \<and> j < i + length bs \<and> us < bs ! (j - i) \<and> (\<forall>l < j - i. bs ! l \<le> us)"
proof (induction bs arbitrary: i)
  case (Cons b bs)
  show ?case
  proof (cases "us < b")
    case False
    then have *: "Suc i \<le> j \<and> j < Suc i + length bs \<and> us < bs ! (j - Suc i) \<and> (\<forall>l < j - Suc i. bs ! l \<le> us)"
      using Cons.IH[of "Suc i"] Cons.prems False by simp
    then obtain d where d: "j - i = Suc d" "j - Suc i = d" by (metis Suc_diff_Suc Suc_le_eq)
    have "\<forall>l < Suc d. (b # bs) ! l \<le> us" using * d False by (auto simp: less_Suc_eq_0_disj)
    then show ?thesis using * d by auto
  qed (use Cons in auto)
qed simp

lemma find_bucket_None: "find_bucket us i bs = None \<longleftrightarrow> (\<forall>b \<in> set bs. b \<le> us)"
  by (induction bs arbitrary: i) auto

lemma sum_list_incr:
  fixes xs :: "'a::comm_ring_1 list"
  shows "i < length xs \<Longrightarrow> sum_list (xs[i := xs ! i + 1]) = sum_list xs + 1"
  by (induction xs arbitrary: i) (auto split: nat.split)

lemma new_histogram_ok: "hist_ok new_histogram"
  by (simp add: hist_ok_def new_histogram_def bucket_bounds_us_def sum_list_replicate)

lemma record_latency_ok: "hist_ok h \<Longrightarrow> hist_ok (record_latency us h)"
proof -
  assume ok: "hist_ok h"
  show ?thesis
  proof (cases "find_bucket (sint us) 0 bucket_bounds_us")
    case None
    then show ?thesis using ok by (simp add: record_latency_def hist_ok_def Let_def)
  next
    case (Some i)
    then have "i < length (hist_buckets h)" using find_bucket_Some[OF Some] ok by (simp add: hist_ok_def)
    then show ?thesis using ok Some by (simp add: record_latency_def hist_ok_def Let_def sum_list_incr)
  qed
qed

lemma reset_histogram_ok: "hist_ok h \<Longrightarrow> hist_ok (reset_histogram h)"
  by (simp add: hist_ok_def reset_histogram_def)

lemma reset_histogram_new: "hist_ok h \<Longrightarrow> reset_histogram h = new_histogram"
  by (cases h) (simp add: hist_ok_def reset_histogram_def new_histogram_def bucket_bounds_us_def
    map_replicate_const eval_nat_numeral)

lemma record_latency_bucket:
  assumes "hist_ok h" "i < 7"
  shows "hist_buckets (record_latency us h) ! i = hist_buckets h ! i +
    (if (if i = 0 then True else bucket_bounds_us ! (i - 1) \<le> sint us) \<and> sint us < bucket_bounds_us ! i then 1 else 0)"
proof -
  have "i \<in> {0, 1, 2, 3, 4, 5, 6}" using assms(2) by auto
  then show ?thesis using assms(1)
    by (auto simp: record_latency_def bucket_bounds_us_def hist_ok_def Let_def nth_list_update split: option.splits if_splits)
qed

lemma record_latency_max:
  "sint (hist_max_us (record_latency us h)) = max (sint (hist_max_us h)) (sint us)"
  by (auto simp: record_latency_def Let_def max_def split: option.splits)

end
