(* ===== verification/Notification.thy ===== *)
theory Notification
  imports Types
begin

text \<open>
  The asynchronous event bus of \<open>Src_Simulation/include/notification.hpp\<close>: publishers append to a
  queue, one worker thread pops events and calls every subscriber, \<open>flush\<close> waits for the queue to
  be empty with nothing in flight.

  The threads are modelled by a step relation whose steps are the critical sections of the code.
  A subscriber is the list of the events its callback was given, with the number of events that
  were already dispatched when it subscribed; the two lists \<open>history\<close> and \<open>dispatched\<close> record what
  was published and what was fully delivered and are read by no step.
\<close>

datatype event =
    TradeEvent trade
  | OrderRejectedEvent order_id client_id string
  | OrderAcceptedEvent order_id client_id symbol
  | OrderQueuedEvent order_id client_id symbol
  | OrderExpiredEvent order_id client_id symbol

type_synonym subscription_id = "64 word"

record subscriber =
  joined :: nat
  received :: "event list"

text \<open>
  Where the worker is: waiting for work, holding a popped event before it takes
  \<open>subscribers_mutex_\<close>, inside the dispatch loop (with the subscriptions still to call), or after
  \<open>return\<close>.
\<close>

datatype worker = Waiting | Popped event | Calling event "subscription_id list" | Returned

record bus =
  queue :: "event list"
  stopping :: bool
  in_flight :: nat
  subscribers :: "(subscription_id \<times> subscriber) list"
  next_subscription_id :: subscription_id
  worker :: worker
  history :: "event list"
  dispatched :: "event list"

definition new_bus :: bus where
  "new_bus = \<lparr>queue = [], stopping = False, in_flight = 0, subscribers = [],
     next_subscription_id = 1, worker = Waiting, history = [], dispatched = []\<rparr>"

text \<open>\<open>subscribers_mutex_\<close> is held by the worker during the dispatch loop.\<close>

fun dispatching :: "worker \<Rightarrow> bool" where
  "dispatching (Calling _ _) = True"
| "dispatching _ = False"

definition bus_subscribe :: "bus \<Rightarrow> subscription_id \<times> bus" where
  "bus_subscribe b =
     (next_subscription_id b,
      b\<lparr>next_subscription_id := next_subscription_id b + 1,
        subscribers := um_emplace (next_subscription_id b) \<lparr>joined = length (dispatched b), received = []\<rparr>
          (subscribers b)\<rparr>)"

definition bus_unsubscribe :: "subscription_id \<Rightarrow> bus \<Rightarrow> bus" where
  "bus_unsubscribe i b = b\<lparr>subscribers := AList.delete i (subscribers b)\<rparr>"

definition bus_publish :: "event \<Rightarrow> bus \<Rightarrow> bus" where
  "bus_publish e b = b\<lparr>queue := queue b @ [e], history := history b @ [e]\<rparr>"

definition bus_pending :: "bus \<Rightarrow> nat" where
  "bus_pending b = length (queue b)"

text \<open>The condition \<open>flush\<close> returns under.\<close>

definition flush_returns :: "bus \<Rightarrow> bool" where
  "flush_returns b \<longleftrightarrow> queue b = [] \<and> in_flight b = 0"

definition bus_stop :: "bus \<Rightarrow> bus" where
  "bus_stop b = b\<lparr>stopping := True\<rparr>"

text \<open>One step of \<open>run()\<close>; \<open>None\<close> when the worker is blocked or has returned.\<close>

fun worker_step :: "bus \<Rightarrow> bus option" where
  "worker_step b =
     (case worker b of
        Waiting \<Rightarrow>
          (case queue b of
             [] \<Rightarrow> if stopping b then Some (b\<lparr>worker := Returned\<rparr>) else None
           | e # q \<Rightarrow> Some (b\<lparr>queue := q, in_flight := in_flight b + 1, worker := Popped e\<rparr>))
      | Popped e \<Rightarrow> Some (b\<lparr>worker := Calling e (map fst (subscribers b))\<rparr>)
      | Calling e (i # ids) \<Rightarrow>
          Some (b\<lparr>subscribers := map_ran (\<lambda>j s. if j = i then s\<lparr>received := received s @ [e]\<rparr> else s) (subscribers b),
                  worker := Calling e ids\<rparr>)
      | Calling e [] \<Rightarrow>
          Some (b\<lparr>in_flight := in_flight b - 1, worker := Waiting, dispatched := dispatched b @ [e]\<rparr>)
      | Returned \<Rightarrow> None)"

inductive bus_step :: "bus \<Rightarrow> bus \<Rightarrow> bool" where
  step_publish: "bus_step b (bus_publish e b)"
| step_subscribe: "\<not> dispatching (worker b) \<Longrightarrow> bus_step b (snd (bus_subscribe b))"
| step_unsubscribe: "\<not> dispatching (worker b) \<Longrightarrow> bus_step b (bus_unsubscribe i b)"
| step_stop: "bus_step b (bus_stop b)"
| step_worker: "worker_step b = Some b' \<Longrightarrow> bus_step b b'"

inductive bus_reachable :: "bus \<Rightarrow> bool" where
  reach_new: "bus_reachable new_bus"
| reach_step: "bus_reachable b \<Longrightarrow> bus_step b b' \<Longrightarrow> bus_reachable b'"

inductive_cases bus_step_cases: "bus_step b b'"

section \<open>The invariant\<close>

fun current :: "worker \<Rightarrow> event list" where
  "current (Popped e) = [e]"
| "current (Calling e _) = [e]"
| "current _ = []"

text \<open>The event under dispatch, for the subscribers that were already called with it.\<close>

fun already_given :: "subscription_id \<Rightarrow> worker \<Rightarrow> event list" where
  "already_given i (Calling e ids) = (if i \<in> set ids then [] else [e])"
| "already_given i _ = []"

definition bus_ok :: "bus \<Rightarrow> bool" where
  "bus_ok b \<longleftrightarrow>
     history b = dispatched b @ current (worker b) @ queue b \<and>
     in_flight b = length (current (worker b)) \<and>
     um_ok (subscribers b) \<and>
     (\<forall>(i, s) \<in> set (subscribers b). joined s \<le> length (dispatched b) \<and>
        received s = drop (joined s) (dispatched b) @ already_given i (worker b)) \<and>
     (\<forall>e ids. worker b = Calling e ids \<longrightarrow> distinct ids \<and> set ids \<subseteq> fst ` set (subscribers b)) \<and>
     (worker b = Returned \<longrightarrow> stopping b)"

lemma new_bus_ok: "bus_ok new_bus"
  by (simp add: bus_ok_def new_bus_def)

lemma publish_ok: "bus_ok b \<Longrightarrow> bus_ok (bus_publish e b)"
  by (auto simp: bus_ok_def bus_publish_def)

lemma stop_ok: "bus_ok b \<Longrightarrow> bus_ok (bus_stop b)"
  by (auto simp: bus_ok_def bus_stop_def)

lemma given_not_dispatching: "\<not> dispatching w \<Longrightarrow> already_given i w = []"
  by (cases w) auto

lemma subscribe_ok:
  assumes "bus_ok b" "\<not> dispatching (worker b)"
  shows "bus_ok (snd (bus_subscribe b))"
  using assms unfolding bus_ok_def bus_subscribe_def
  by (auto simp: given_not_dispatching um_emplace_def map_of_eq_None_iff split: option.splits)

lemma set_delete: "set (AList.delete k m) = {p \<in> set m. fst p \<noteq> k}"
  by (auto simp: AList.delete_eq)

lemma unsubscribe_ok:
  assumes "bus_ok b" "\<not> dispatching (worker b)"
  shows "bus_ok (bus_unsubscribe i b)"
  using assms unfolding bus_ok_def bus_unsubscribe_def
  by (cases "worker b") (auto simp: set_delete)

lemma set_map_ran: "set (map_ran f m) = (\<lambda>(k, v). (k, f k v)) ` set m"
  by (induction m) auto

lemma keys_map_ran: "map fst (map_ran f m) = map fst m"
  by (induction m) auto

lemma worker_step_ok:
  assumes ok: "bus_ok b" and st: "worker_step b = Some b'"
  shows "bus_ok b'"
proof (cases "worker b")
  case Waiting
  then show ?thesis using ok st by (cases "queue b") (auto simp: bus_ok_def split: if_splits)
next
  case (Popped e)
  then have "b' = b\<lparr>worker := Calling e (map fst (subscribers b))\<rparr>" using st by simp
  then show ?thesis using ok Popped by (force simp: bus_ok_def)
next
  case (Calling e ids)
  show ?thesis
  proof (cases "ids")
    case Nil
    have "b' = b\<lparr>in_flight := in_flight b - 1, worker := Waiting, dispatched := dispatched b @ [e]\<rparr>"
      using st Calling Nil by simp
    then show ?thesis using ok Calling Nil by (auto simp: bus_ok_def)
  next
    case (Cons i ids')
    then have b': "b' = b\<lparr>subscribers := map_ran (\<lambda>j s. if j = i then s\<lparr>received := received s @ [e]\<rparr> else s) (subscribers b),
        worker := Calling e ids'\<rparr>"
      using st Calling by simp
    have "distinct (i # ids')" "set (i # ids') \<subseteq> fst ` set (subscribers b)"
      using ok Calling Cons by (auto simp: bus_ok_def)
    then show ?thesis using ok Calling Cons unfolding bus_ok_def b'
      by (auto simp: set_map_ran keys_map_ran image_image case_prod_unfold)
  qed
next
  case Returned
  then show ?thesis using st by simp
qed

lemma bus_step_ok: "bus_step b b' \<Longrightarrow> bus_ok b \<Longrightarrow> bus_ok b'"
  by (erule bus_step_cases) (auto intro: publish_ok subscribe_ok unsubscribe_ok stop_ok worker_step_ok)

lemma reachable_ok: "bus_reachable b \<Longrightarrow> bus_ok b"
  by (induction rule: bus_reachable.induct) (auto intro: new_bus_ok bus_step_ok)

section \<open>Draining\<close>

text \<open>
  A measure that every worker step lowers; a worker that is not blocked by an empty queue always
  has a step, so left alone it delivers everything that was published.
\<close>

definition worker_left :: "bus \<Rightarrow> nat" where
  "worker_left b = length (queue b) * (length (subscribers b) + 3) +
     (case worker b of Waiting \<Rightarrow> 0 | Popped _ \<Rightarrow> length (subscribers b) + 2
      | Calling _ ids \<Rightarrow> length ids + 1 | Returned \<Rightarrow> 0)"

lemma worker_step_decreases:
  assumes "bus_ok b" "worker_step b = Some b'" "worker b' \<noteq> Returned"
  shows "worker_left b' < worker_left b"
  using assms by (auto simp: worker_left_def length_map_ran split: worker.splits list.splits if_splits)

lemma worker_progress:
  assumes "bus_ok b" "\<not> flush_returns b" "worker b \<noteq> Returned"
  shows "\<exists>b'. worker_step b = Some b' \<and> worker b' \<noteq> Returned"
  using assms by (auto simp: flush_returns_def bus_ok_def split: worker.splits list.splits)

text \<open>\<open>n\<close> steps of the worker alone.\<close>

fun worker_run :: "nat \<Rightarrow> bus \<Rightarrow> bus" where
  "worker_run 0 b = b"
| "worker_run (Suc n) b =
     (if flush_returns b then b else case worker_step b of None \<Rightarrow> b | Some b' \<Rightarrow> worker_run n b')"

declare worker_step.simps [simp del]

lemma worker_step_history: "worker_step b = Some b' \<Longrightarrow> history b' = history b"
  by (auto simp: worker_step.simps split: worker.splits list.splits if_splits)

lemma worker_run_drains:
  assumes "bus_ok b" "worker b \<noteq> Returned" "worker_left b \<le> n"
  shows "flush_returns (worker_run n b) \<and> bus_ok (worker_run n b) \<and> history (worker_run n b) = history b"
  using assms
proof (induction n arbitrary: b)
  case 0
  then have "flush_returns b"
    using worker_progress[OF 0(1) _ 0(2)] worker_step_decreases[OF 0(1)] by fastforce
  then show ?case using 0 by simp
next
  case (Suc n)
  show ?case
  proof (cases "flush_returns b")
    case False
    then obtain b' where b': "worker_step b = Some b'" "worker b' \<noteq> Returned"
      using worker_progress[OF Suc.prems(1) _ Suc.prems(2)] by blast
    have "worker_left b' \<le> n" using worker_step_decreases[OF Suc.prems(1) b'] Suc.prems(3) by simp
    then show ?thesis using Suc.IH[OF worker_step_ok[OF Suc.prems(1) b'(1)] b'(2)] b' False
      by (simp add: worker_step_history[OF b'(1)])
  qed (use Suc.prems in simp)
qed

lemma flush_all_dispatched: "bus_ok b \<Longrightarrow> flush_returns b \<Longrightarrow> dispatched b = history b"
  by (cases "worker b") (auto simp: bus_ok_def flush_returns_def)

lemma returned_all_dispatched:
  assumes "bus_ok b" "worker_step b = Some b'" "worker b' = Returned"
  shows "dispatched b' = history b'"
  using assms by (auto simp: bus_ok_def worker_step.simps split: worker.splits list.splits if_splits)

end
