(* ===== verification/MatchingEngine.thy ===== *)
theory MatchingEngine
  imports BookThms Portfolio OrderRegistry Metrics Notification
begin

text \<open>
  The matching engine of \<open>Src_Simulation/src/matching_engine.cpp\<close> and \<open>matching_engine.hpp\<close>: books
  per symbol, last prices, portfolios, the pool of waiting orders, the set of symbols that traded
  since the last scan, the id counter, the metrics and the events it published, in order.

  An operation takes the readings of the clock it makes as arguments: \<open>now\<close> for its own time stamp,
  \<open>clk k\<close> for the k-th trade of a match, \<open>lat\<close> for the measured latency in microseconds. The locks
  make every operation a sequence of atomic accesses; the model is one operation at a time.
  \<open>book_for\<close> throws for an unknown symbol: operations that call it return an option.
\<close>

record engine =
  books :: "(symbol \<times> order_book) list"
  last_prices :: "(symbol \<times> price) list"
  portfolios :: portfolios
  registry :: order_registry
  dirty_symbols :: "symbol list"
  next_order_id :: order_id
  eng_metrics :: metrics
  published :: "event list"

definition new_engine :: engine where
  "new_engine = \<lparr>books = [], last_prices = [], portfolios = [], registry = empty_registry,
     dirty_symbols = [], next_order_id = 1, eng_metrics = new_metrics, published = []\<rparr>"

definition kMarketOrderCashSafetyFactor :: double where
  "kMarketOrderCashSafetyFactor = rnd (11 / 10)"

section \<open>Set-up and views\<close>

definition register_symbol :: "symbol \<Rightarrow> price \<Rightarrow> engine \<Rightarrow> engine" where
  "register_symbol s initial_price e =
     e\<lparr>books := um_emplace s (new_book s) (books e),
       last_prices := AList.update s initial_price (last_prices e)\<rparr>"

definition ensure_client :: "client_id \<Rightarrow> double \<Rightarrow> engine \<Rightarrow> engine" where
  "ensure_client c initial_cash e = e\<lparr>portfolios := ensure_portfolio c initial_cash (portfolios e)\<rparr>"

definition grant_initial_holdings :: "client_id \<Rightarrow> symbol \<Rightarrow> quantity \<Rightarrow> engine \<Rightarrow> engine" where
  "grant_initial_holdings c s n e = e\<lparr>portfolios := grant_holdings c s n (portfolios e)\<rparr>"

definition book_for :: "engine \<Rightarrow> symbol \<Rightarrow> order_book option" where
  "book_for e s = map_of (books e) s"

definition symbol_exists :: "engine \<Rightarrow> symbol \<Rightarrow> bool" where
  "symbol_exists e s \<longleftrightarrow> um_contains (books e) s"

definition last_price :: "engine \<Rightarrow> symbol \<Rightarrow> price" where
  "last_price e s = um_get 0 (last_prices e) s"

definition engine_snapshot :: "engine \<Rightarrow> symbol \<Rightarrow> nat \<Rightarrow> book_snapshot option" where
  "engine_snapshot e s depth =
     (if \<not> symbol_exists e s then Some \<lparr>snap_bids = [], snap_asks = []\<rparr>
      else case book_for e s of None \<Rightarrow> None | Some b \<Rightarrow> Some (book_snapshot_of depth b))"

definition portfolio_snapshot :: "engine \<Rightarrow> client_id \<Rightarrow> portfolio" where
  "portfolio_snapshot e c = um_get empty_portfolio (portfolios e) c"

definition engine_symbols :: "engine \<Rightarrow> symbol list" where
  "engine_symbols e = map fst (books e)"

definition waiting_order_count :: "engine \<Rightarrow> nat" where
  "waiting_order_count e = reg_size (registry e)"

definition engine_resting_orders :: "engine \<Rightarrow> symbol \<Rightarrow> order list option" where
  "engine_resting_orders e s =
     (if \<not> symbol_exists e s then Some []
      else case book_for e s of None \<Rightarrow> None | Some b \<Rightarrow> Some (resting_orders b))"

section \<open>Risk check and order construction\<close>

definition passes_risk_check ::
  "engine \<Rightarrow> client_id \<Rightarrow> side \<Rightarrow> order_kind \<Rightarrow> symbol \<Rightarrow> quantity \<Rightarrow> price \<Rightarrow> bool" where
  "passes_risk_check e c sd k s q p =
     (case map_of (portfolios e) c of
        None \<Rightarrow> False
      | Some pf \<Rightarrow>
          if sd = SELL then q \<le> holding pf s
          else (let reference = (if k = MARKET then last_price e s * kMarketOrderCashSafetyFactor else p)
                in dbl_of_int q * reference \<le> cash pf))"

text \<open>\<open>std::chrono::seconds\<close> added to a time point of the nanosecond clock.\<close>

definition after_seconds :: "time \<Rightarrow> int option \<Rightarrow> time option" where
  "after_seconds now d = map_option (\<lambda>s. now + s * 10 ^ 9) d"

definition release_bounds :: "order_request \<Rightarrow> price \<times> price" where
  "release_bounds rq =
     (case rq_kind rq of
        STOP \<Rightarrow>
          (let trigger = value_or (trigger_upper rq) (rq_price rq)
           in if rq_side rq = BUY then (trigger, PosInf) else (NegInf, trigger))
      | _ \<Rightarrow> (value_or (trigger_lower rq) NegInf, value_or (trigger_upper rq) PosInf))"

definition build_order :: "order_request \<Rightarrow> order_id \<Rightarrow> time \<Rightarrow> order" where
  "build_order rq i now =
     \<lparr>oid = i, client = rq_client rq, side = rq_side rq, kind = rq_kind rq, osymbol = rq_symbol rq,
      qty = rq_quantity rq, price = rq_price rq,
      release_lower = fst (release_bounds rq), release_upper = snd (release_bounds rq),
      submitted_at = now, not_before = after_seconds now (not_before_in rq),
      expires_at = after_seconds now (expires_in rq)\<rparr>"

section \<open>Matching and settlement\<close>

definition mark_dirty :: "symbol \<Rightarrow> engine \<Rightarrow> engine" where
  "mark_dirty s e = e\<lparr>dirty_symbols := List.insert s (dirty_symbols e)\<rparr>"

definition drain_dirty_symbols :: "engine \<Rightarrow> symbol list \<times> engine" where
  "drain_dirty_symbols e = (dirty_symbols e, e\<lparr>dirty_symbols := []\<rparr>)"

definition publish :: "event \<Rightarrow> engine \<Rightarrow> engine" where
  "publish ev e = e\<lparr>published := published e @ [ev]\<rparr>"

definition upd_metrics :: "(metrics \<Rightarrow> metrics) \<Rightarrow> engine \<Rightarrow> engine" where
  "upd_metrics f e = e\<lparr>eng_metrics := f (eng_metrics e)\<rparr>"

definition settle :: "trade \<Rightarrow> engine \<Rightarrow> engine" where
  "settle t e = e\<lparr>portfolios := settle_trade t (portfolios e)\<rparr>"

text \<open>The body of the loop over the trades of a match.\<close>

definition apply_trade :: "trade \<Rightarrow> engine \<Rightarrow> engine" where
  "apply_trade t e =
     (let e1 = settle t e;
          e2 = e1\<lparr>last_prices := AList.update (tsymbol t) (tprice t) (last_prices e1)\<rparr>
      in publish (TradeEvent t) (mark_dirty (tsymbol t) e2))"

definition match_and_settle ::
  "(nat \<Rightarrow> time) \<Rightarrow> 64 word \<Rightarrow> order \<Rightarrow> engine \<Rightarrow> (submit_result \<times> engine) option" where
  "match_and_settle clk lat ord e =
     (case book_for e (osymbol ord) of
        None \<Rightarrow> None
      | Some b \<Rightarrow>
          let (ts, b') = book_match clk ord b;
              e1 = e\<lparr>books := AList.update (osymbol ord) b' (books e)\<rparr>;
              e2 = publish (OrderAcceptedEvent (oid ord) (client ord) (osymbol ord)) (upd_metrics order_accepted e1);
              e3 = foldl (\<lambda>e t. apply_trade t e) e2 ts;
              e4 = upd_metrics (add_trades_executed (of_nat (length ts))) e3;
              e5 = upd_metrics (\<lambda>m. foldl (\<lambda>m t. add_volume_traded (word_of_int (tqty t)) m) m ts) e4;
              e6 = upd_metrics (record_submit_latency lat) e5
          in Some (empty_result\<lparr>accepted := True, result_order_id := oid ord,
                     filled_quantity := trade_volume ts, trades := ts\<rparr>, e6))"

section \<open>Submitting\<close>

definition reject_text :: "order_request \<Rightarrow> engine \<Rightarrow> string" where
  "reject_text rq e =
     (if rq_quantity rq \<le> 0 then ''quantity must be positive''
      else if rq_kind rq \<noteq> MARKET \<and> rq_price rq \<le> 0
        then ''LIMIT/STOP/LIMIT_STOP order requires a positive price''
      else if \<not> symbol_exists e (rq_symbol rq) then ''unknown symbol''
      else [])"

definition reject_with ::
  "string \<Rightarrow> order_request \<Rightarrow> order_id \<Rightarrow> engine \<Rightarrow> submit_result \<times> engine" where
  "reject_with reason rq i e =
     (empty_result\<lparr>result_order_id := i, reject_reason := reason\<rparr>,
      publish (OrderRejectedEvent i (rq_client rq) reason) (upd_metrics order_rejected e))"

definition submit_order ::
  "time \<Rightarrow> (nat \<Rightarrow> time) \<Rightarrow> 64 word \<Rightarrow> order_request \<Rightarrow> engine \<Rightarrow> (submit_result \<times> engine) option" where
  "submit_order now clk lat rq e0 =
     (let e1 = upd_metrics order_submitted e0;
          i = next_order_id e1;
          e = e1\<lparr>next_order_id := i + 1\<rparr>
      in if reject_text rq e \<noteq> [] then Some (reject_with (reject_text rq e) rq i e)
         else if \<not> passes_risk_check e (rq_client rq) (rq_side rq) (rq_kind rq) (rq_symbol rq)
                     (rq_quantity rq) (rq_price rq)
           then Some (reject_with (if rq_side rq = BUY then ''insufficient cash'' else ''insufficient holdings'') rq i e)
         else
           let ord = build_order rq i now
           in if started_at now ord \<and> release_band_contains ord (last_price e (osymbol ord))
              then match_and_settle clk lat ord e
              else Some (empty_result\<lparr>result_order_id := i, accepted := True, queued := True\<rparr>,
                     publish (OrderQueuedEvent i (rq_client rq) (rq_symbol rq))
                       (let e' = upd_metrics order_queued e in e'\<lparr>registry := reg_add ord (registry e')\<rparr>)))"

section \<open>Releasing\<close>

text \<open>The scan of each drained symbol in turn, appending to the released and the expired lists.\<close>

fun scan_dirty ::
  "symbol list \<Rightarrow> time \<Rightarrow> (symbol \<Rightarrow> price) \<Rightarrow> order_registry \<Rightarrow> order list \<times> order list \<times> order_registry" where
  "scan_dirty [] now ref r = ([], [], r)"
| "scan_dirty (s # ss) now ref r =
     (let (rel, ex, r1) = scan_and_release_symbol s now ref r;
          (rel', ex', r2) = scan_dirty ss now ref r1
      in (rel @ rel', ex @ ex', r2))"

fun match_released ::
  "(nat \<Rightarrow> nat \<Rightarrow> time) \<Rightarrow> (nat \<Rightarrow> 64 word) \<Rightarrow> nat \<Rightarrow> order list \<Rightarrow> engine \<Rightarrow> (submit_result list \<times> engine) option" where
  "match_released clk lat k [] e = Some ([], e)"
| "match_released clk lat k (x # xs) e =
     (case match_and_settle (clk k) (lat k) x e of
        None \<Rightarrow> None
      | Some (r, e1) \<Rightarrow>
          (case match_released clk lat (Suc k) xs e1 of
             None \<Rightarrow> None
           | Some (rs, e2) \<Rightarrow> Some (r # rs, e2)))"

definition expire_one :: "order \<Rightarrow> engine \<Rightarrow> engine" where
  "expire_one x e = publish (OrderExpiredEvent (oid x) (client x) (osymbol x)) (upd_metrics order_expired e)"

record release_summary =
  released :: "submit_result list"
  expired :: "order list"

definition try_release_waiting_orders ::
  "bool \<Rightarrow> time \<Rightarrow> (nat \<Rightarrow> nat \<Rightarrow> time) \<Rightarrow> (nat \<Rightarrow> 64 word) \<Rightarrow> engine \<Rightarrow> (release_summary \<times> engine) option" where
  "try_release_waiting_orders full_scan now clk lat e =
     (let (rel, ex, e1) =
            (if full_scan then
               let (rel, ex, r) = scan_and_release now (last_price e) (registry e)
               in (rel, ex, e\<lparr>registry := r\<rparr>)
             else
               let (ds, e0) = drain_dirty_symbols e;
                   (rel, ex, r) = scan_dirty ds now (last_price e0) (registry e0)
               in (rel, ex, e0\<lparr>registry := r\<rparr>))
      in case match_released clk lat 0 rel e1 of
           None \<Rightarrow> None
         | Some (rs, e2) \<Rightarrow>
             Some (\<lparr>released = rs, expired = ex\<rparr>, foldl (\<lambda>e x. expire_one x e) e2 ex))"

section \<open>Cancelling\<close>

definition cancel_order_at ::
  "symbol \<Rightarrow> side \<Rightarrow> price \<Rightarrow> order_id \<Rightarrow> engine \<Rightarrow> (bool \<times> engine) option" where
  "cancel_order_at s sd p i e =
     (if \<not> symbol_exists e s then Some (False, e)
      else case book_for e s of
             None \<Rightarrow> None
           | Some b \<Rightarrow> let (found, b') = book_cancel_at sd p i b
                      in Some (found, e\<lparr>books := AList.update s b' (books e)\<rparr>))"

definition cancel_order :: "symbol \<Rightarrow> order_id \<Rightarrow> engine \<Rightarrow> (bool \<times> engine) option" where
  "cancel_order s i e =
     (if \<not> symbol_exists e s then Some (False, e)
      else case book_for e s of
             None \<Rightarrow> None
           | Some b \<Rightarrow> let (found, b') = book_cancel i b
                      in Some (found, e\<lparr>books := AList.update s b' (books e)\<rparr>))"

definition cancel_waiting_order :: "order_id \<Rightarrow> engine \<Rightarrow> bool \<times> engine" where
  "cancel_waiting_order i e =
     (let (found, r) = reg_cancel i (registry e) in (found, e\<lparr>registry := r\<rparr>))"

end
