(* ===== verification/EngineFacts.thy ===== *)
theory EngineFacts
  imports MatchingEngine
begin

text \<open>
  What each engine operation does, component by component of its state, and the invariant of the
  engine with its preservation: books stored under their own symbol, well formed and uncrossed,
  the waiting pool consistent with its index, every waiting order fit to be matched later.
\<close>

section \<open>The trades of one match\<close>

abbreviation settle_all :: "trade list \<Rightarrow> portfolios \<Rightarrow> portfolios" where
  "settle_all ts ps \<equiv> foldl (\<lambda>ps t. settle_trade t ps) ps ts"

abbreviation price_all :: "trade list \<Rightarrow> (symbol \<times> price) list \<Rightarrow> (symbol \<times> price) list" where
  "price_all ts m \<equiv> foldl (\<lambda>m t. AList.update (tsymbol t) (tprice t) m) m ts"

lemma apply_trades [engine_simps]:
  "foldl (\<lambda>e t. apply_trade t e) e ts =
     e\<lparr>portfolios := settle_all ts (portfolios e), last_prices := price_all ts (last_prices e),
       dirty_symbols := foldl (\<lambda>d t. List.insert (tsymbol t) d) (dirty_symbols e) ts,
       published := published e @ map TradeEvent ts\<rparr>"
  by (induction ts arbitrary: e) (simp_all add: apply_trade_def settle_def mark_dirty_def publish_def)

lemma dirty_all:
  "set (foldl (\<lambda>d t. List.insert (tsymbol t) d) d ts) = set d \<union> tsymbol ` set ts"
  "distinct d \<Longrightarrow> distinct (foldl (\<lambda>d t. List.insert (tsymbol t) d) d ts)"
  by (induction ts arbitrary: d) auto

lemma um_ok_settle_all [simp]: "um_ok ps \<Longrightarrow> um_ok (settle_all ts ps)"
  by (induction ts arbitrary: ps) auto

lemma um_ok_price_all [simp]: "um_ok m \<Longrightarrow> um_ok (price_all ts m)"
  by (induction ts arbitrary: m) auto

lemma shares_settle_all [simp]: "um_ok ps \<Longrightarrow> shares s (settle_all ts ps) = shares s ps"
  by (induction ts arbitrary: ps) auto

lemma price_all_own:
  "\<forall>t \<in> set ts. tsymbol t = s \<Longrightarrow>
     map_of (price_all ts m) = (if ts = [] then map_of m else (map_of m)(s \<mapsto> tprice (last ts)))"
  by (induction ts arbitrary: m) auto

text \<open>The result of a match and the state it leaves, written out.\<close>

lemma match_and_settle_eq [engine_simps]:
  assumes "map_of (books e) (osymbol ord) = Some b" "book_match clk ord b = (ts, b')"
  shows "match_and_settle clk lat ord e = Some
    (empty_result\<lparr>accepted := True, result_order_id := oid ord, filled_quantity := trade_volume ts, trades := ts\<rparr>,
     e\<lparr>books := AList.update (osymbol ord) b' (books e),
       portfolios := settle_all ts (portfolios e), last_prices := price_all ts (last_prices e),
       dirty_symbols := foldl (\<lambda>d t. List.insert (tsymbol t) d) (dirty_symbols e) ts,
       eng_metrics := record_submit_latency lat
         (foldl (\<lambda>m t. add_volume_traded (word_of_int (tqty t)) m)
           (add_trades_executed (of_nat (length ts)) (order_accepted (eng_metrics e))) ts),
       published := published e @ OrderAcceptedEvent (oid ord) (client ord) (osymbol ord) # map TradeEvent ts\<rparr>)"
  using assms
  by (simp add: match_and_settle_def book_for_def Let_def apply_trades publish_def upd_metrics_def)

section \<open>The invariant\<close>

definition books_ok :: "(symbol \<times> order_book) list \<Rightarrow> bool" where
  "books_ok m \<longleftrightarrow> um_ok m \<and> (\<forall>(s, b) \<in> set m. bk_symbol b = s \<and> book_ok b \<and> uncrossed b)"

text \<open>An order the engine can match now or later.\<close>

definition ready :: "engine \<Rightarrow> order \<Rightarrow> bool" where
  "ready e x \<longleftrightarrow> symbol_exists e (osymbol x) \<and> (kind x = MARKET \<or> price x \<noteq> NaN) \<and> 0 < qty x"

definition engine_ok :: "engine \<Rightarrow> bool" where
  "engine_ok e \<longleftrightarrow> books_ok (books e) \<and> um_ok (last_prices e) \<and> um_ok (portfolios e) \<and>
     reg_ok (registry e) \<and> (\<forall>x \<in> set (all_waiting (registry e)). ready e x) \<and> distinct (dirty_symbols e)"

lemma new_engine_ok: "engine_ok new_engine"
  by (simp add: engine_ok_def new_engine_def books_ok_def)

lemma books_okD: "books_ok m \<Longrightarrow> map_of m s = Some b \<Longrightarrow> bk_symbol b = s \<and> book_ok b \<and> uncrossed b"
  by (auto simp: books_ok_def dest: map_of_SomeD)

lemma books_ok_update:
  assumes "books_ok m" "bk_symbol b = s" "book_ok b" "uncrossed b"
  shows "books_ok (AList.update s b m)"
proof -
  have um: "um_ok m" using assms(1) by (simp add: books_ok_def)
  have "bk_symbol b' = s' \<and> book_ok b' \<and> uncrossed b'" if "(s', b') \<in> set (AList.update s b m)" for s' b'
  proof -
    have "map_of (AList.update s b m) s' = Some b'" by (rule map_of_is_SomeI[OF um_ok_update[OF um] that])
    then show ?thesis using assms books_okD[OF assms(1)] by (auto split: if_splits)
  qed
  then show ?thesis using um by (auto simp: books_ok_def)
qed

text \<open>Readiness only looks at which symbols have a book, and no operation removes one.\<close>

lemma ready_mono: "ready e x \<Longrightarrow> dom (map_of (books e)) \<subseteq> dom (map_of (books e')) \<Longrightarrow> ready e' x"
  by (auto simp: ready_def symbol_exists_def)

lemma ready_matchable:
  assumes "engine_ok e" "ready e x"
  obtains b where "map_of (books e) (osymbol x) = Some b" "bk_symbol b = osymbol x"
    "book_ok b" "uncrossed b" "matchable x b"
  using assms books_okD[of "books e" "osymbol x"]
  by (auto simp: ready_def symbol_exists_def engine_ok_def matchable_def)

text \<open>
  A match of a ready order succeeds. The rule gives the book, the trades and every state component
  it leaves; the properties below are read off it.
\<close>

lemma match_and_settle_run:
  assumes ok: "engine_ok e" and r: "ready e ord"
  obtains b ts b' res e' where
    "map_of (books e) (osymbol ord) = Some b" "bk_symbol b = osymbol ord" "book_ok b" "uncrossed b" "matchable ord b"
    "book_match clk ord b = (ts, b')" "book_ok b'" "uncrossed b'" "bk_symbol b' = osymbol ord"
    "\<forall>t \<in> set ts. fair_trade ord b t"
    "match_and_settle clk lat ord e = Some (res, e')"
    "res = empty_result\<lparr>accepted := True, result_order_id := oid ord, filled_quantity := trade_volume ts, trades := ts\<rparr>"
    "books e' = AList.update (osymbol ord) b' (books e)"
    "portfolios e' = settle_all ts (portfolios e)"
    "last_prices e' = price_all ts (last_prices e)"
    "registry e' = registry e"
    "dirty_symbols e' = foldl (\<lambda>d t. List.insert (tsymbol t) d) (dirty_symbols e) ts"
    "next_order_id e' = next_order_id e"
    "eng_metrics e' = record_submit_latency lat (foldl (\<lambda>m t. add_volume_traded (word_of_int (tqty t)) m)
       (add_trades_executed (of_nat (length ts)) (order_accepted (eng_metrics e))) ts)"
    "published e' = published e @ OrderAcceptedEvent (oid ord) (client ord) (osymbol ord) # map TradeEvent ts"
proof -
  obtain b where b: "map_of (books e) (osymbol ord) = Some b" "bk_symbol b = osymbol ord"
    "book_ok b" "uncrossed b" "matchable ord b"
    by (rule ready_matchable[OF ok r])
  obtain ts b' where bm: "book_match clk ord b = (ts, b')" by (cases "book_match clk ord b")
  have "book_ok b'" "uncrossed b'" "bk_symbol b' = osymbol ord"
    using book_match_ok[OF b(3,5), of clk] book_match_uncrossed[OF b(3,5,4), of clk]
      bk_symbol_match[of clk ord b] bm b(2) by simp_all
  moreover have "\<forall>t \<in> set ts. fair_trade ord b t" using book_match_fair[OF b(3,5)] bm by (metis fst_conv)
  ultimately show thesis using that[OF b bm _ _ _ _ match_and_settle_eq[OF b(1) bm] refl] by simp
qed

lemma fair_trades_symbol: "\<forall>t \<in> set ts. fair_trade ord b t \<Longrightarrow> bk_symbol b = s \<Longrightarrow> \<forall>t \<in> set ts. tsymbol t = s"
  by (auto simp: fair_trade_def)

lemma match_and_settle_ok:
  assumes ok: "engine_ok e" and r: "ready e ord" and m: "match_and_settle clk lat ord e = Some (res, e')"
  shows "engine_ok e'" "dom (map_of (books e')) = dom (map_of (books e))" "registry e' = registry e"
proof -
  obtain b ts b' res' e'' where run: "map_of (books e) (osymbol ord) = Some b"
    "book_ok b'" "uncrossed b'" "bk_symbol b' = osymbol ord"
    "match_and_settle clk lat ord e = Some (res', e'')"
    "books e'' = AList.update (osymbol ord) b' (books e)"
    "portfolios e'' = settle_all ts (portfolios e)" "last_prices e'' = price_all ts (last_prices e)"
    "registry e'' = registry e" "dirty_symbols e'' = foldl (\<lambda>d t. List.insert (tsymbol t) d) (dirty_symbols e) ts"
    by (rule match_and_settle_run[OF ok r, of clk lat]) blast
  have e'': "e'' = e'" using m run(5) by simp
  show dom: "dom (map_of (books e')) = dom (map_of (books e))" using run(1,6) e'' by auto
  show reg: "registry e' = registry e" using run(9) e'' by simp
  show "engine_ok e'"
    using ok run e'' dom reg books_ok_update[of "books e" b' "osymbol ord"] dirty_all(2)
    by (auto simp: engine_ok_def intro: ready_mono)
qed

lemma match_and_settle_total:
  assumes "engine_ok e" "ready e ord"
  shows "\<exists>res e'. match_and_settle clk lat ord e = Some (res, e') \<and> accepted res"
  by (rule match_and_settle_run[OF assms, of clk lat]) auto

section \<open>Submitting\<close>

text \<open>The order of a request with a legal price: the only prices left out are NaN.\<close>

definition sane_price :: "order_request \<Rightarrow> bool" where
  "sane_price rq \<longleftrightarrow> rq_kind rq = MARKET \<or> rq_price rq \<noteq> NaN"

text \<open>No live order has the id that the next submission will take.\<close>

definition fresh_next :: "engine \<Rightarrow> bool" where
  "fresh_next e \<longleftrightarrow> (\<forall>x \<in> set (all_waiting (registry e)). oid x \<noteq> next_order_id e)"

text \<open>The state after the counters of a submission are drawn.\<close>

definition drawn :: "engine \<Rightarrow> engine" where
  "drawn e = (upd_metrics order_submitted e)\<lparr>next_order_id := next_order_id e + 1\<rparr>"

lemma drawn_sel [simp, frame_simps]:
  "books (drawn e) = books e" "last_prices (drawn e) = last_prices e" "portfolios (drawn e) = portfolios e"
  "registry (drawn e) = registry e" "dirty_symbols (drawn e) = dirty_symbols e"
  "next_order_id (drawn e) = next_order_id e + 1" "published (drawn e) = published e"
  "eng_metrics (drawn e) = order_submitted (eng_metrics e)"
  by (simp_all add: drawn_def upd_metrics_def)

lemma drawn_simps [simp]:
  "symbol_exists (drawn e) s = symbol_exists e s" "last_price (drawn e) s = last_price e s"
  "reject_text rq (drawn e) = reject_text rq e"
  "passes_risk_check (drawn e) c sd k s q p = passes_risk_check e c sd k s q p"
  "ready (drawn e) = ready e" "engine_ok (drawn e) = engine_ok e"
  by (simp_all add: symbol_exists_def last_price_def reject_text_def passes_risk_check_def
      engine_ok_def ready_def fun_eq_iff Let_def split: option.split)

text \<open>The four ways a submission ends.\<close>

definition risk_text :: "order_request \<Rightarrow> string" where
  "risk_text rq = (if rq_side rq = BUY then ''insufficient cash'' else ''insufficient holdings'')"

definition risk_ok :: "order_request \<Rightarrow> engine \<Rightarrow> bool" where
  "risk_ok rq e \<longleftrightarrow> passes_risk_check e (rq_client rq) (rq_side rq) (rq_kind rq) (rq_symbol rq)
     (rq_quantity rq) (rq_price rq)"

definition released_at_once :: "time \<Rightarrow> order_request \<Rightarrow> engine \<Rightarrow> bool" where
  "released_at_once now rq e \<longleftrightarrow> (let ord = build_order rq (next_order_id e) now in
     started_at now ord \<and> release_band_contains ord (last_price e (rq_symbol rq)))"

lemma build_order_sel [simp]:
  "oid (build_order rq i now) = i" "client (build_order rq i now) = rq_client rq"
  "side (build_order rq i now) = rq_side rq" "kind (build_order rq i now) = rq_kind rq"
  "osymbol (build_order rq i now) = rq_symbol rq" "qty (build_order rq i now) = rq_quantity rq"
  "price (build_order rq i now) = rq_price rq"
  by (simp_all add: build_order_def)

lemma submit_order_eq:
  "submit_order now clk lat rq e =
     (if reject_text rq e \<noteq> [] then Some (reject_with (reject_text rq e) rq (next_order_id e) (drawn e))
      else if \<not> risk_ok rq e then Some (reject_with (risk_text rq) rq (next_order_id e) (drawn e))
      else if released_at_once now rq e
        then match_and_settle clk lat (build_order rq (next_order_id e) now) (drawn e)
      else Some (empty_result\<lparr>result_order_id := next_order_id e, accepted := True, queued := True\<rparr>,
       publish (OrderQueuedEvent (next_order_id e) (rq_client rq) (rq_symbol rq))
         ((upd_metrics order_queued (drawn e))\<lparr>registry := reg_add (build_order rq (next_order_id e) now) (registry e)\<rparr>)))"
proof -
  have d: "(upd_metrics order_submitted e)\<lparr>next_order_id := next_order_id (upd_metrics order_submitted e) + 1\<rparr> = drawn e"
    and n: "next_order_id (upd_metrics order_submitted e) = next_order_id e"
    and r: "registry (upd_metrics f e) = registry e" for f e
    by (simp_all add: drawn_def upd_metrics_def)
  show ?thesis
    unfolding submit_order_def Let_def d
    by (simp add: n r risk_ok_def risk_text_def released_at_once_def Let_def)
qed

lemma submit_cases:
  obtains (invalid) "reject_text rq e \<noteq> []"
    | (no_funds) "reject_text rq e = []" "\<not> risk_ok rq e"
    | (match) "reject_text rq e = []" "risk_ok rq e" "released_at_once now rq e"
    | (queue) "reject_text rq e = []" "risk_ok rq e" "\<not> released_at_once now rq e"
  by blast

lemma valid_request: "reject_text rq e = [] \<Longrightarrow> sane_price rq \<Longrightarrow> ready e (build_order rq i now)"
  by (auto simp: reject_text_def ready_def sane_price_def split: if_splits)

lemma reject_outcome:
  "\<exists>res e'. reject_with r rq i e = (res, e') \<and> engine_ok e' = engine_ok e \<and> \<not> accepted res \<and> \<not> queued res \<and>
     trades res = [] \<and> filled_quantity res = 0 \<and> reject_reason res = r \<and> result_order_id res = i \<and>
     e' = e\<lparr>eng_metrics := order_rejected (eng_metrics e),
            published := published e @ [OrderRejectedEvent i (rq_client rq) r]\<rparr>"
  by (simp add: reject_with_def publish_def upd_metrics_def engine_ok_def empty_result_def ready_def symbol_exists_def)

lemma submit_order_ok:
  assumes ok: "engine_ok e" and p: "sane_price rq" and fr: "fresh_next e"
  shows "\<exists>res e'. submit_order now clk lat rq e = Some (res, e') \<and> engine_ok e'"
proof (rule submit_cases[where rq = rq and e = e and now = now])
  assume "reject_text rq e \<noteq> []"
  then show ?thesis using ok reject_outcome by (simp add: submit_order_eq) (metis drawn_simps(6))
next
  assume "reject_text rq e = []" "\<not> risk_ok rq e"
  then show ?thesis using ok reject_outcome by (simp add: submit_order_eq) (metis drawn_simps(6))
next
  assume c: "reject_text rq e = []" "risk_ok rq e" "released_at_once now rq e"
  have r: "ready (drawn e) (build_order rq (next_order_id e) now)" using valid_request[OF c(1) p] by simp
  have d: "engine_ok (drawn e)" using ok by simp
  obtain res e' where m: "match_and_settle clk lat (build_order rq (next_order_id e) now) (drawn e) = Some (res, e')"
    using match_and_settle_total[OF d r] by blast
  then show ?thesis using match_and_settle_ok(1)[OF d r m] c by (simp add: submit_order_eq)
next
  assume c: "reject_text rq e = []" "risk_ok rq e" "\<not> released_at_once now rq e"
  let ?x = "build_order rq (next_order_id e) now"
  have "map_of (order_symbol_index (registry e)) (oid ?x) = None"
    by (rule fresh_in_index) (use ok fr in \<open>auto simp: engine_ok_def fresh_next_def\<close>)
  then have "reg_ok (reg_add ?x (registry e))"
    "mset (all_waiting (reg_add ?x (registry e))) = add_mset ?x (mset (all_waiting (registry e)))"
    using reg_add_ok ok by (auto simp: engine_ok_def)
  moreover from this(2) have "set (all_waiting (reg_add ?x (registry e))) = insert ?x (set (all_waiting (registry e)))"
    by (metis set_mset_add_mset_insert set_mset_mset)
  ultimately show ?thesis using ok valid_request[OF c(1) p]
    by (simp add: submit_order_eq c engine_ok_def publish_def upd_metrics_def ready_def symbol_exists_def)
qed

end
