(* ===== verification/EngineInv.thy ===== *)
theory EngineInv
  imports EngineFacts
begin

text \<open>
  Releasing waiting orders, cancelling, the identities of the live orders, and the engine as a
  state machine: the relation of its public operations, the reachable states and their invariant.
\<close>

section \<open>Releasing\<close>

lemma scan_dirty_exact:
  assumes "reg_ok r" "scan_dirty ds now ref r = (rel, ex, r')"
  shows "reg_ok r' \<and> mset (all_waiting r) = mset rel + mset ex + mset (all_waiting r') \<and>
    (\<forall>x \<in> set rel. releasable now (ref (osymbol x)) x) \<and> (\<forall>x \<in> set ex. expired_at now x) \<and>
    (\<forall>x \<in> set (all_waiting r'). osymbol x \<in> set ds \<longrightarrow> keeps_waiting now (ref (osymbol x)) x)"
  using assms
proof (induction ds arbitrary: r rel ex r')
  case (Cons s ds)
  obtain rel1 ex1 r1 where 1: "scan_and_release_symbol s now ref r = (rel1, ex1, r1)" by (metis prod_cases3)
  obtain rel2 ex2 r2 where 2: "scan_dirty ds now ref r1 = (rel2, ex2, r2)" by (metis prod_cases3)
  note e = scan_symbol_exact[OF Cons.prems(1) 1]
  note IH = Cons.IH[OF e(1) 2]
  have eq: "rel = rel1 @ rel2" "ex = ex1 @ ex2" "r' = r2" using Cons.prems(2) 1 2 by auto
  have s1: "set rel1 = {x \<in> set (all_waiting r). osymbol x = s \<and> releasable now (ref s) x}"
    "set ex1 = {x \<in> set (all_waiting r). osymbol x = s \<and> expired_at now x}"
    using arg_cong[OF e(2), of set_mset] arg_cong[OF e(3), of set_mset] by auto
  have m: "mset (all_waiting r1) = mset rel2 + mset ex2 + mset (all_waiting r')" using IH eq by simp
  have sub: "set (all_waiting r') \<subseteq> set (all_waiting r1)" using arg_cong[OF m, of set_mset] by auto
  have "mset (all_waiting r) = mset rel + mset ex + mset (all_waiting r')" using e(4) m eq by simp
  moreover have "\<forall>x \<in> set rel. releasable now (ref (osymbol x)) x" "\<forall>x \<in> set ex. expired_at now x"
    using IH s1 eq by auto
  moreover have "\<forall>x \<in> set (all_waiting r'). osymbol x \<in> set (s # ds) \<longrightarrow> keeps_waiting now (ref (osymbol x)) x"
    using IH e(5) sub eq by auto
  ultimately show ?case using IH eq by blast
qed auto

text \<open>What the two kinds of scan have in common.\<close>

definition engine_scan :: "bool \<Rightarrow> time \<Rightarrow> engine \<Rightarrow> order list \<times> order list \<times> engine" where
  "engine_scan full_scan now e =
     (if full_scan then
        let (rel, ex, r) = scan_and_release now (last_price e) (registry e)
        in (rel, ex, e\<lparr>registry := r\<rparr>)
      else
        let (ds, e0) = drain_dirty_symbols e;
            (rel, ex, r) = scan_dirty ds now (last_price e0) (registry e0)
        in (rel, ex, e0\<lparr>registry := r\<rparr>))"

lemma try_release_eq:
  "try_release_waiting_orders f now clk lat e =
     (let (rel, ex, e1) = engine_scan f now e
      in case match_released clk lat 0 rel e1 of
           None \<Rightarrow> None
         | Some (rs, e2) \<Rightarrow> Some (\<lparr>released = rs, expired = ex\<rparr>, foldl (\<lambda>e x. expire_one x e) e2 ex))"
  by (simp add: try_release_waiting_orders_def engine_scan_def)

lemma engine_scan_exact:
  assumes ok: "engine_ok e" and s: "engine_scan f now e = (rel, ex, e1)"
  shows "engine_ok e1"
    and "mset (all_waiting (registry e)) = mset rel + mset ex + mset (all_waiting (registry e1))"
    and "\<forall>x \<in> set rel. ready e1 x \<and> releasable now (last_price e (osymbol x)) x"
    and "\<forall>x \<in> set ex. expired_at now x"
    and "\<forall>x \<in> set (all_waiting (registry e1)). f \<or> osymbol x \<in> set (dirty_symbols e) \<longrightarrow>
           keeps_waiting now (last_price e (osymbol x)) x"
    and "e1 = e\<lparr>registry := registry e1, dirty_symbols := (if f then dirty_symbols e else [])\<rparr>"
proof -
  have rok: "reg_ok (registry e)" using ok by (simp add: engine_ok_def)
  have lp: "last_price (e\<lparr>dirty_symbols := []\<rparr>) = last_price e" by (simp add: last_price_def fun_eq_iff)
  obtain r where e1: "e1 = e\<lparr>registry := r, dirty_symbols := (if f then dirty_symbols e else [])\<rparr>"
    and sc: "if f then scan_and_release now (last_price e) (registry e) = (rel, ex, r)
      else scan_dirty (dirty_symbols e) now (last_price e) (registry e) = (rel, ex, r)"
    using s by (cases f) (auto simp: engine_scan_def drain_dirty_symbols_def lp split: prod.splits)
  have facts: "reg_ok r" "mset (all_waiting (registry e)) = mset rel + mset ex + mset (all_waiting r)"
    "\<forall>x \<in> set rel. releasable now (last_price e (osymbol x)) x" "\<forall>x \<in> set ex. expired_at now x"
    "\<forall>x \<in> set (all_waiting r). f \<or> osymbol x \<in> set (dirty_symbols e) \<longrightarrow>
       keeps_waiting now (last_price e (osymbol x)) x"
  proof -
    have "reg_ok r \<and> mset (all_waiting (registry e)) = mset rel + mset ex + mset (all_waiting r) \<and>
      (\<forall>x \<in> set rel. releasable now (last_price e (osymbol x)) x) \<and> (\<forall>x \<in> set ex. expired_at now x) \<and>
      (\<forall>x \<in> set (all_waiting r). f \<or> osymbol x \<in> set (dirty_symbols e) \<longrightarrow>
         keeps_waiting now (last_price e (osymbol x)) x)"
    proof (cases f)
      case True
      then have s': "scan_and_release now (last_price e) (registry e) = (rel, ex, r)" using sc by simp
      note x = scan_and_release_exact[OF rok s']
      have "mset xs = mset (filter (\<lambda>x. releasable now (g x) x) xs) + mset (filter (expired_at now) xs) +
          mset (filter (\<lambda>x. keeps_waiting now (g x) x) xs)" for xs and g :: "order \<Rightarrow> price"
        by (induction xs) (auto simp: scan_trichotomy releasable_def)
      then show ?thesis using x by auto
    next
      case False
      then have s': "scan_dirty (dirty_symbols e) now (last_price e) (registry e) = (rel, ex, r)" using sc by simp
      then show ?thesis using scan_dirty_exact[OF rok s'] False by blast
    qed
    then show "reg_ok r" "mset (all_waiting (registry e)) = mset rel + mset ex + mset (all_waiting r)"
      "\<forall>x \<in> set rel. releasable now (last_price e (osymbol x)) x" "\<forall>x \<in> set ex. expired_at now x"
      "\<forall>x \<in> set (all_waiting r). f \<or> osymbol x \<in> set (dirty_symbols e) \<longrightarrow>
         keeps_waiting now (last_price e (osymbol x)) x" by blast+
  qed
  have sub: "set rel \<subseteq> set (all_waiting (registry e))" "set (all_waiting r) \<subseteq> set (all_waiting (registry e))"
    using arg_cong[OF facts(2), of set_mset] by auto
  have rd: "ready e1 = ready e" by (simp add: fun_eq_iff ready_def symbol_exists_def e1)
  show "engine_ok e1" using ok facts(1) sub(2) rd by (auto simp: engine_ok_def e1)
  show "\<forall>x \<in> set rel. ready e1 x \<and> releasable now (last_price e (osymbol x)) x"
    using ok facts(3) sub(1) by (auto simp: rd engine_ok_def)
  show "e1 = e\<lparr>registry := registry e1, dirty_symbols := (if f then dirty_symbols e else [])\<rparr>" by (simp add: e1)
  show "mset (all_waiting (registry e)) = mset rel + mset ex + mset (all_waiting (registry e1))"
    "\<forall>x \<in> set ex. expired_at now x"
    "\<forall>x \<in> set (all_waiting (registry e1)). f \<or> osymbol x \<in> set (dirty_symbols e) \<longrightarrow>
       keeps_waiting now (last_price e (osymbol x)) x"
    using facts by (simp_all add: e1)
qed

text \<open>Matching the released orders one after the other keeps whatever one match keeps.\<close>

lemma match_released_run:
  assumes "engine_ok e" "\<forall>x \<in> set xs. ready e x" "P e"
    and step: "\<And>k e x res e'. engine_ok e \<Longrightarrow> ready e x \<Longrightarrow> x \<in> set xs \<Longrightarrow> P e \<Longrightarrow>
      match_and_settle (clk k) (lat k) x e = Some (res, e') \<Longrightarrow> P e'"
  shows "\<exists>rs e'. match_released clk lat k xs e = Some (rs, e') \<and> P e' \<and> engine_ok e' \<and> registry e' = registry e"
  using assms
proof (induction xs arbitrary: k e)
  case (Cons x xs)
  obtain res e1 where m: "match_and_settle (clk k) (lat k) x e = Some (res, e1)"
    using match_and_settle_total[OF Cons.prems(1)] Cons.prems(2) by (meson list.set_intros(1))
  have x: "ready e x" using Cons.prems(2) by simp
  note ok1 = match_and_settle_ok[OF Cons.prems(1) x m]
  have P1: "P e1" by (rule Cons.prems(4)[OF Cons.prems(1) x _ Cons.prems(3) m]) simp
  have r1: "\<forall>x \<in> set xs. ready e1 x"
    using Cons.prems(2) ready_mono[of e _ e1] ok1(2) by auto
  have "\<exists>rs e'. match_released clk lat (Suc k) xs e1 = Some (rs, e') \<and> P e' \<and> engine_ok e' \<and> registry e' = registry e1"
    by (rule Cons.IH[OF ok1(1) r1 P1]) (rule Cons.prems(4), auto)
  then show ?case using m ok1(3) by auto
qed simp

lemma expire_all:
  "foldl (\<lambda>e x. expire_one x e) e xs =
     e\<lparr>eng_metrics := foldl (\<lambda>m x. order_expired m) (eng_metrics e) xs,
       published := published e @ map (\<lambda>x. OrderExpiredEvent (oid x) (client x) (osymbol x)) xs\<rparr>"
  by (induction xs arbitrary: e) (simp_all add: expire_one_def publish_def upd_metrics_def)

text \<open>
  The release as one rule: it succeeds, and a state predicate that the scan and every match keep,
  and that does not look at metrics and events, holds at the end.
\<close>

lemma try_release_run:
  assumes ok: "engine_ok e" and scan: "engine_scan f now e = (rel, ex, e1)" and P: "P e1"
    and step: "\<And>k e x res e'. engine_ok e \<Longrightarrow> ready e x \<Longrightarrow> x \<in> set rel \<Longrightarrow> P e \<Longrightarrow>
      match_and_settle (clk k) (lat k) x e = Some (res, e') \<Longrightarrow> P e'"
    and frame: "\<And>e m p. P e \<Longrightarrow> P (e\<lparr>eng_metrics := m, published := p\<rparr>)"
  obtains rs e' where "try_release_waiting_orders f now clk lat e = Some (\<lparr>released = rs, expired = ex\<rparr>, e')"
    "engine_ok e'" "P e'" "registry e' = registry e1"
proof -
  note s = engine_scan_exact[OF ok scan]
  have "\<exists>rs e'. match_released clk lat 0 rel e1 = Some (rs, e') \<and> P e' \<and> engine_ok e' \<and> registry e' = registry e1"
    by (rule match_released_run[where P = P, OF s(1) _ P]) (use s(3) step in auto)
  then obtain rs e2 where m: "match_released clk lat 0 rel e1 = Some (rs, e2)" "P e2" "engine_ok e2"
    "registry e2 = registry e1" by blast
  let ?e = "foldl (\<lambda>e x. expire_one x e) e2 ex"
  have "ready ?e = ready e2" by (simp add: fun_eq_iff ready_def symbol_exists_def expire_all)
  then have "engine_ok ?e" using m(3) by (simp add: engine_ok_def expire_all)
  moreover have "P ?e" using frame[OF m(2)] by (simp add: expire_all)
  ultimately show thesis using that[of rs ?e] m scan by (simp add: try_release_eq expire_all)
qed

lemma try_release_ok:
  assumes "engine_ok e"
  shows "\<exists>s e'. try_release_waiting_orders f now clk lat e = Some (s, e') \<and> engine_ok e'"
proof -
  obtain rel ex e1 where s: "engine_scan f now e = (rel, ex, e1)" by (metis prod_cases3)
  show ?thesis by (rule try_release_run[where P = "\<lambda>_. True", OF assms s, of clk lat]) auto
qed

end
