(* ===== verification/EngineMachine.thy ===== *)
theory EngineMachine
  imports EngineInv
begin

text \<open>
  Cancellation, the identities and clients of the live orders, the tracking of triggers, and the
  engine as a state machine with the invariant of its reachable states.
\<close>

section \<open>Cancelling by side and price\<close>

lemma cancel_at_shrinks:
  "levels_ok before good lv \<Longrightarrow>
     levels_ok before good (snd (cancel_at before p i lv)) \<and> prices_of (snd (cancel_at before p i lv)) \<subseteq> prices_of lv \<and>
     mset (concat (map snd (snd (cancel_at before p i lv)))) \<subseteq># mset (concat (map snd lv))"
proof (induction before p i lv rule: cancel_at.induct)
  case (2 before p i k q lv)
  have tl: "levels_ok before good lv" using "2.prems" by (auto simp: levels_ok_def)
  have rm: "mset (remove_first P q) \<subseteq># mset q" for P
    by (induction q) (auto intro: subset_mset.order_trans)
  consider (a) "before k p" | (b) "\<not> before k p" "before p k \<or> \<not> (\<exists>x \<in> set q. oid x = i)"
    | (c) "\<not> before k p" "\<not> before p k" "\<exists>x \<in> set q. oid x = i" by blast
  then show ?case
  proof cases
    case a
    obtain f lv' where c: "cancel_at before p i lv = (f, lv')" by (cases "cancel_at before p i lv")
    have IH: "levels_ok before good lv'" "prices_of lv' \<subseteq> prices_of lv"
      "mset (concat (map snd lv')) \<subseteq># mset (concat (map snd lv))"
      using "2.IH"[OF a tl] c by auto
    have "\<forall>p \<in> prices_of lv'. before k p"
      using IH(2) "2.prems" by (auto simp: levels_ok_def prices_of_def dest!: subsetD)
    then show ?thesis using a c IH "2.prems" by (auto simp: levels_ok_def prices_of_def)
  next
    case b
    then show ?thesis using "2.prems" by auto
  next
    case c
    then show ?thesis using "2.prems" set_remove_first[of "\<lambda>x. oid x = i" q] rm
      by (auto simp: levels_ok_def prices_of_def Let_def subset_iff)
  qed
qed (simp add: prices_of_def)

lemma book_cancel_at_ok:
  assumes "book_ok b"
  shows "book_ok (snd (book_cancel_at sd p i b))"
    "uncrossed b \<Longrightarrow> uncrossed (snd (book_cancel_at sd p i b))"
    "mset (resting_orders (snd (book_cancel_at sd p i b))) \<subseteq># mset (resting_orders b)"
    "bk_symbol (snd (book_cancel_at sd p i b)) = bk_symbol b"
proof -
  have ok: "levels_ok bid_before (good_bid (bk_symbol b)) (bids b)" "levels_ok ask_before (good_ask (bk_symbol b)) (asks b)"
    using assms by (simp_all add: book_ok_def)
  note x = cancel_at_shrinks[OF ok(1), of p i] and y = cancel_at_shrinks[OF ok(2), of p i]
  show "book_ok (snd (book_cancel_at sd p i b))" "bk_symbol (snd (book_cancel_at sd p i b)) = bk_symbol b"
    using x y ok by (auto simp: book_cancel_at_def book_ok_def split: prod.splits)
  show "uncrossed b \<Longrightarrow> uncrossed (snd (book_cancel_at sd p i b))"
    using x y by (auto simp: book_cancel_at_def uncrossed_def split: prod.splits)
  show "mset (resting_orders (snd (book_cancel_at sd p i b))) \<subseteq># mset (resting_orders b)"
    using x y by (auto simp: book_cancel_at_def resting_orders_def split: prod.splits)
qed

lemma remove_first_sub: "mset (remove_first P xs) \<subseteq># mset xs"
  by (induction xs) (auto intro: subset_mset.order_trans)

lemma book_cancel_sub: "mset (resting_orders (snd (book_cancel i b))) \<subseteq># mset (resting_orders b)"
  by (simp add: book_cancel_orders remove_first_sub)

text \<open>Replacing a book by one with the same symbol that is well formed and uncrossed.\<close>

lemma replace_book_ok:
  assumes "engine_ok e" "map_of (books e) s = Some b" "bk_symbol b' = s" "book_ok b'" "uncrossed b'"
  shows "engine_ok (e\<lparr>books := AList.update s b' (books e)\<rparr>)"
  using assms books_ok_update[of "books e" b' s]
  by (auto simp: engine_ok_def ready_def symbol_exists_def)

lemma cancel_order_run:
  assumes "engine_ok e"
  obtains (unknown) "map_of (books e) s = None" "cancel_order s i e = Some (False, e)"
  | (book) b where "map_of (books e) s = Some b" "bk_symbol b = s" "book_ok b" "uncrossed b"
    "cancel_order s i e = Some (fst (book_cancel i b), e\<lparr>books := AList.update s (snd (book_cancel i b)) (books e)\<rparr>)"
    "engine_ok (e\<lparr>books := AList.update s (snd (book_cancel i b)) (books e)\<rparr>)"
proof (cases "map_of (books e) s")
  case None
  then show ?thesis using unknown by (simp add: cancel_order_def symbol_exists_def)
next
  case (Some b)
  then have b: "bk_symbol b = s" "book_ok b" "uncrossed b"
    using assms books_okD[of "books e" s b] by (auto simp: engine_ok_def)
  show ?thesis
    by (rule book[OF Some b])
      (use Some b assms in \<open>auto simp: cancel_order_def symbol_exists_def book_for_def split: prod.splits
        intro!: replace_book_ok book_cancel_ok book_cancel_uncrossed\<close>)
qed

lemma cancel_order_at_run:
  assumes "engine_ok e"
  obtains (unknown) "map_of (books e) s = None" "cancel_order_at s sd p i e = Some (False, e)"
  | (book) b where "map_of (books e) s = Some b" "bk_symbol b = s" "book_ok b" "uncrossed b"
    "cancel_order_at s sd p i e =
       Some (fst (book_cancel_at sd p i b), e\<lparr>books := AList.update s (snd (book_cancel_at sd p i b)) (books e)\<rparr>)"
    "engine_ok (e\<lparr>books := AList.update s (snd (book_cancel_at sd p i b)) (books e)\<rparr>)"
proof (cases "map_of (books e) s")
  case None
  then show ?thesis using unknown by (simp add: cancel_order_at_def symbol_exists_def)
next
  case (Some b)
  then have b: "bk_symbol b = s" "book_ok b" "uncrossed b"
    using assms books_okD[of "books e" s b] by (auto simp: engine_ok_def)
  show ?thesis
    by (rule book[OF Some b])
      (use Some b assms book_cancel_at_ok in \<open>auto simp: cancel_order_at_def symbol_exists_def book_for_def split: prod.splits
        intro!: replace_book_ok\<close>)
qed

section \<open>Identities and clients of the live orders\<close>

definition book_tags :: "(order \<Rightarrow> 'a) \<Rightarrow> (symbol \<times> order_book) list \<Rightarrow> 'a multiset" where
  "book_tags f m = sum_list (map (\<lambda>(s, b). tags_of f b) m)"

definition live_tags :: "(order \<Rightarrow> 'a) \<Rightarrow> engine \<Rightarrow> 'a multiset" where
  "live_tags f e = book_tags f (books e) + image_mset f (mset (all_waiting (registry e)))"

lemma book_tags_update:
  assumes "um_ok m" "map_of m s = Some b"
  shows "book_tags f (AList.update s b' m) + tags_of f b = book_tags f m + tags_of f b'"
  using um_sum_update[OF assms(1), of "\<lambda>(s, b). tags_of f b" s b'] assms(2) by (simp add: book_tags_def)

lemma book_tags_sub:
  assumes "um_ok m" "map_of m s = Some b" "tags_of f b' \<subseteq># A + tags_of f b"
  shows "book_tags f (AList.update s b' m) \<subseteq># A + book_tags f m"
proof -
  have "book_tags f (AList.update s b' m) + tags_of f b \<subseteq># (A + book_tags f m) + tags_of f b"
    unfolding book_tags_update[OF assms(1,2)] using assms(3) by (simp add: ac_simps)
  then show ?thesis by (simp only: mset_subset_eq_mono_add_right_cancel)
qed

lemma tags_of_sub: "mset (resting_orders b') \<subseteq># mset (resting_orders b) \<Longrightarrow> tags_of f b' \<subseteq># tags_of f b"
  using image_mset_subseteq_mono[of "mset (resting_orders b')" "mset (resting_orders b)" f]
  by (simp add: tags_of_def)

lemma match_and_settle_tags:
  assumes ok: "engine_ok e" and r: "ready e ord" and m: "match_and_settle clk lat ord e = Some (res, e')"
    and blind: "quantity_blind f"
  shows "live_tags f e' \<subseteq># add_mset (f ord) (live_tags f e)"
proof (rule match_and_settle_run[OF ok r, of clk lat])
  fix b ts b' res' e''
  assume h: "map_of (books e) (osymbol ord) = Some b" "book_ok b" "matchable ord b" "book_match clk ord b = (ts, b')"
    "match_and_settle clk lat ord e = Some (res', e'')"
    "books e'' = AList.update (osymbol ord) b' (books e)" "registry e'' = registry e"
  have "tags_of f b' \<subseteq># {#f ord#} + tags_of f b"
    using book_match_tags[OF h(2,3) blind, of clk] h(4) by simp
  then have "book_tags f (books e'') \<subseteq># {#f ord#} + book_tags f (books e)"
    unfolding h(6) by (intro book_tags_sub) (use ok h in \<open>auto simp: engine_ok_def books_ok_def\<close>)
  then show ?thesis using m h(5,7) by (simp add: live_tags_def subset_mset.add_mono)
qed


lemma match_released_tags:
  assumes "engine_ok e" "\<forall>x \<in> set xs. ready e x" "match_released clk lat k xs e = Some (rs, e')" "quantity_blind f"
  shows "live_tags f e' \<subseteq># image_mset f (mset xs) + live_tags f e"
  using assms(1-3)
proof (induction xs arbitrary: k e rs)
  case (Cons x xs)
  obtain res e1 rs1 where m: "match_and_settle (clk k) (lat k) x e = Some (res, e1)"
    "match_released clk lat (Suc k) xs e1 = Some (rs1, e')"
    using Cons.prems(3) by (auto split: option.splits)
  have x: "ready e x" using Cons.prems(2) by simp
  note ok1 = match_and_settle_ok[OF Cons.prems(1) x m(1)]
  have "\<forall>x \<in> set xs. ready e1 x" using Cons.prems(2) ready_mono[of e _ e1] ok1(2) by auto
  then have "live_tags f e' \<subseteq># image_mset f (mset xs) + live_tags f e1" by (rule Cons.IH[OF ok1(1) _ m(2)])
  also have "\<dots> \<subseteq># image_mset f (mset xs) + add_mset (f x) (live_tags f e)"
    using match_and_settle_tags[OF Cons.prems(1) x m(1) assms(4)] by simp
  finally show ?case by simp
qed simp

lemma try_release_tags:
  assumes ok: "engine_ok e" and t: "try_release_waiting_orders fs now clk lat e = Some (s, e')" and "quantity_blind f"
  shows "live_tags f e' \<subseteq># live_tags f e"
proof -
  obtain rel ex e1 where sc: "engine_scan fs now e = (rel, ex, e1)" by (metis prod_cases3)
  note s = engine_scan_exact[OF ok sc]
  obtain rs e2 where m: "match_released clk lat 0 rel e1 = Some (rs, e2)" and e': "e' = foldl (\<lambda>e x. expire_one x e) e2 ex"
    using t sc by (auto simp: try_release_eq split: option.splits)
  have b: "books e1 = books e" using s(6) by (metis engine.surjective engine.update_convs(4,5) engine.select_convs(1))
  have "live_tags f e' = live_tags f e2" by (simp add: e' live_tags_def expire_all)
  also have "\<dots> \<subseteq># image_mset f (mset rel) + live_tags f e1"
    by (rule match_released_tags[OF s(1) _ m assms(3)]) (use s(3) in blast)
  also have "\<dots> \<subseteq># live_tags f e" by (simp add: live_tags_def b s(2) ac_simps)
  finally show ?thesis .
qed

lemma submit_tags:
  assumes ok: "engine_ok e" and p: "sane_price rq" and fr: "fresh_next e"
    and m: "submit_order now clk lat rq e = Some (res, e')" and blind: "quantity_blind f"
  shows "live_tags f e' \<subseteq># live_tags f e \<or>
    risk_ok rq e \<and> live_tags f e' \<subseteq># add_mset (f (build_order rq (next_order_id e) now)) (live_tags f e)"
    and "next_order_id e' = next_order_id e + 1"
proof -
  let ?x = "build_order rq (next_order_id e) now"
  have d: "live_tags f (drawn e) = live_tags f e" by (simp add: live_tags_def)
  have rej: "live_tags f e' = live_tags f e \<and> next_order_id e' = next_order_id e + 1"
    if "reject_with r rq (next_order_id e) (drawn e) = (res, e')" for r
    using that by (auto simp: reject_with_def publish_def upd_metrics_def live_tags_def)
  have "(live_tags f e' \<subseteq># live_tags f e \<or> risk_ok rq e \<and> live_tags f e' \<subseteq># add_mset (f ?x) (live_tags f e)) \<and>
    next_order_id e' = next_order_id e + 1"
  proof (rule submit_cases[where rq = rq and e = e and now = now])
    assume "reject_text rq e \<noteq> []"
    then show ?thesis using m rej by (simp add: submit_order_eq)
  next
    assume "reject_text rq e = []" "\<not> risk_ok rq e"
    then show ?thesis using m rej by (simp add: submit_order_eq)
  next
    assume c: "reject_text rq e = []" "risk_ok rq e" "released_at_once now rq e"
    have r: "ready (drawn e) ?x" using valid_request[OF c(1) p] by simp
    have o: "engine_ok (drawn e)" using ok by simp
    have m': "match_and_settle clk lat ?x (drawn e) = Some (res, e')" using m c by (simp add: submit_order_eq)
    have "next_order_id e' = next_order_id (drawn e)"
      by (rule match_and_settle_run[OF o r, of clk lat]) (use m' in auto)
    then show ?thesis using match_and_settle_tags[OF o r m' blind] d c(2) by auto
  next
    assume c: "reject_text rq e = []" "risk_ok rq e" "\<not> released_at_once now rq e"
    have "map_of (order_symbol_index (registry e)) (oid ?x) = None"
      by (rule fresh_in_index) (use ok fr in \<open>auto simp: engine_ok_def fresh_next_def\<close>)
    then have "mset (all_waiting (reg_add ?x (registry e))) = add_mset ?x (mset (all_waiting (registry e)))"
      using reg_add_ok(2) ok by (auto simp: engine_ok_def)
    then show ?thesis using m c by (auto simp: submit_order_eq live_tags_def publish_def upd_metrics_def)
  qed
  then show "live_tags f e' \<subseteq># live_tags f e \<or> risk_ok rq e \<and> live_tags f e' \<subseteq># add_mset (f ?x) (live_tags f e)"
    "next_order_id e' = next_order_id e + 1" by blast+
qed

section \<open>Triggers\<close>

text \<open>
  A waiting order without a start date whose band contains the last price is on a symbol that the
  next dirty scan visits: no price-triggered order is forgotten between two full scans.
\<close>

definition triggers_tracked :: "engine \<Rightarrow> bool" where
  "triggers_tracked e \<longleftrightarrow> (\<forall>x \<in> set (all_waiting (registry e)).
     not_before x = None \<and> release_band_contains x (last_price e (osymbol x)) \<longrightarrow> osymbol x \<in> set (dirty_symbols e))"

lemma match_and_settle_tracked:
  assumes ok: "engine_ok e" and r: "ready e ord" and m: "match_and_settle clk lat ord e = Some (res, e')"
    and t: "triggers_tracked e"
  shows "triggers_tracked e'"
proof (rule match_and_settle_run[OF ok r, of clk lat])
  fix b ts b' res' e''
  assume h: "bk_symbol b = osymbol ord" "\<forall>t \<in> set ts. fair_trade ord b t"
    "match_and_settle clk lat ord e = Some (res', e'')" "last_prices e'' = price_all ts (last_prices e)"
    "registry e'' = registry e"
    "dirty_symbols e'' = foldl (\<lambda>d t. List.insert (tsymbol t) d) (dirty_symbols e) ts"
  have own: "\<forall>t \<in> set ts. tsymbol t = osymbol ord" by (rule fair_trades_symbol[OF h(2,1)])
  have d: "set (dirty_symbols e'') = set (dirty_symbols e) \<union> tsymbol ` set ts" using h(6) dirty_all(1) by simp
  show ?thesis
  proof (cases "ts = []")
    case True
    then show ?thesis using m h t by (simp add: triggers_tracked_def last_price_def)
  next
    case False
    have "last_price e'' s = last_price e s" if "s \<noteq> osymbol ord" for s
      using that by (simp add: last_price_def um_get_def h(4) price_all_own[OF own])
    moreover have "osymbol ord \<in> set (dirty_symbols e'')" using False own d by (cases ts) auto
    ultimately have "osymbol x \<in> set (dirty_symbols e'')"
      if "x \<in> set (all_waiting (registry e))" "not_before x = None" "release_band_contains x (last_price e'' (osymbol x))" for x
      using that t d by (cases "osymbol x = osymbol ord") (auto simp: triggers_tracked_def)
    then show ?thesis using m h(3,5) by (auto simp: triggers_tracked_def)
  qed
qed

lemma scan_tracked:
  assumes ok: "engine_ok e" and s: "engine_scan f now e = (rel, ex, e1)" and t: "triggers_tracked e"
  shows "\<forall>x \<in> set (all_waiting (registry e1)).
    not_before x = None \<longrightarrow> \<not> release_band_contains x (last_price e1 (osymbol x))"
proof (intro ballI impI)
  fix x assume x: "x \<in> set (all_waiting (registry e1))" and nb: "not_before x = None"
  note sc = engine_scan_exact[OF ok s]
  have lp: "last_price e1 = last_price e"
    by (subst sc(6)) (simp add: fun_eq_iff last_price_def)
  have old: "x \<in> set (all_waiting (registry e))" using x arg_cong[OF sc(2), of set_mset] by auto
  show "\<not> release_band_contains x (last_price e1 (osymbol x))"
  proof (cases "f \<or> osymbol x \<in> set (dirty_symbols e)")
    case True
    then have "keeps_waiting now (last_price e (osymbol x)) x" using sc(5) x by blast
    then show ?thesis using nb by (simp add: keeps_waiting_def started_at_def lp)
  next
    case False
    then show ?thesis using t old nb by (auto simp: triggers_tracked_def lp)
  qed
qed

lemma try_release_tracked:
  assumes ok: "engine_ok e" and t: "try_release_waiting_orders f now clk lat e = Some (s, e')" and tr: "triggers_tracked e"
  shows "triggers_tracked e'"
proof -
  obtain rel ex e1 where sc: "engine_scan f now e = (rel, ex, e1)" by (metis prod_cases3)
  have "triggers_tracked e1" using scan_tracked[OF ok sc tr] by (auto simp: triggers_tracked_def)
  then obtain rs e'' where r: "try_release_waiting_orders f now clk lat e = Some (rs, e'')" "triggers_tracked e''"
    by (rule try_release_run[where P = triggers_tracked, OF ok sc, of clk lat])
      (erule (3) match_and_settle_tracked[rotated -1], auto simp: triggers_tracked_def last_price_def)
  then show ?thesis using t by simp
qed


lemma submit_tracked:
  assumes ok: "engine_ok e" and p: "sane_price rq" and fr: "fresh_next e"
    and m: "submit_order now clk lat rq e = Some (res, e')" and t: "triggers_tracked e"
  shows "triggers_tracked e'"
proof -
  let ?x = "build_order rq (next_order_id e) now"
  have d: "triggers_tracked (drawn e)" using t by (simp add: triggers_tracked_def)
  have rej: "triggers_tracked e'" if "reject_with r rq (next_order_id e) (drawn e) = (res, e')" for r
    using that d by (auto simp: reject_with_def publish_def upd_metrics_def triggers_tracked_def last_price_def)
  show ?thesis
  proof (rule submit_cases[where rq = rq and e = e and now = now])
    assume "reject_text rq e \<noteq> []"
    then show ?thesis using m rej by (simp add: submit_order_eq)
  next
    assume "reject_text rq e = []" "\<not> risk_ok rq e"
    then show ?thesis using m rej by (simp add: submit_order_eq)
  next
    assume c: "reject_text rq e = []" "risk_ok rq e" "released_at_once now rq e"
    have "ready (drawn e) ?x" using valid_request[OF c(1) p] by simp
    moreover have "match_and_settle clk lat ?x (drawn e) = Some (res, e')" using m c by (simp add: submit_order_eq)
    ultimately show ?thesis using match_and_settle_tracked[of "drawn e" ?x clk lat res e'] ok d by simp
  next
    assume c: "reject_text rq e = []" "risk_ok rq e" "\<not> released_at_once now rq e"
    have "map_of (order_symbol_index (registry e)) (oid ?x) = None"
      by (rule fresh_in_index) (use ok fr in \<open>auto simp: engine_ok_def fresh_next_def\<close>)
    then have "mset (all_waiting (reg_add ?x (registry e))) = add_mset ?x (mset (all_waiting (registry e)))"
      using reg_add_ok(2) ok by (auto simp: engine_ok_def)
    then have w: "set (all_waiting (reg_add ?x (registry e))) = insert ?x (set (all_waiting (registry e)))"
      by (metis set_mset_add_mset_insert set_mset_mset)
    have "\<not> (not_before ?x = None \<and> release_band_contains ?x (last_price e (osymbol ?x)))"
      using c(3) by (auto simp: released_at_once_def Let_def started_at_def)
    moreover have "registry e' = reg_add ?x (registry e)" "last_price e' = last_price e" "dirty_symbols e' = dirty_symbols e"
      using m c by (auto simp: submit_order_eq publish_def upd_metrics_def last_price_def fun_eq_iff)
    ultimately show ?thesis using t by (auto simp: triggers_tracked_def w)
  qed
qed

section \<open>The engine as a state machine\<close>

text \<open>
  Every client of a live order has a portfolio; the ids of live orders are distinct and below the
  counter.
\<close>

definition ids_ok :: "engine \<Rightarrow> bool" where
  "ids_ok e \<longleftrightarrow> (\<forall>i. count (live_tags oid e) i \<le> 1) \<and> (\<forall>i \<in># live_tags oid e. i < next_order_id e)"

definition clients_known :: "engine \<Rightarrow> bool" where
  "clients_known e \<longleftrightarrow> (\<forall>c \<in># live_tags client e. um_contains (portfolios e) c)"

definition engine_inv :: "engine \<Rightarrow> bool" where
  "engine_inv e \<longleftrightarrow> engine_ok e \<and> ids_ok e \<and> clients_known e \<and> triggers_tracked e"

lemma ids_fresh: "ids_ok e \<Longrightarrow> fresh_next e"
  unfolding fresh_next_def
proof (intro ballI)
  fix x assume "ids_ok e" "x \<in> set (all_waiting (registry e))"
  then have "oid x < next_order_id e" by (simp add: ids_ok_def live_tags_def)
  then show "oid x \<noteq> next_order_id e" by simp
qed

lemma ids_ok_shrink: "ids_ok e \<Longrightarrow> live_tags oid e' \<subseteq># live_tags oid e \<Longrightarrow> next_order_id e' = next_order_id e \<Longrightarrow> ids_ok e'"
  using mset_subset_eq_count[of "live_tags oid e'" "live_tags oid e"] mset_subset_eqD[of "live_tags oid e'" "live_tags oid e"]
  unfolding ids_ok_def by (auto intro: order_trans)

lemma ids_ok_add:
  assumes "ids_ok e" "live_tags oid e' \<subseteq># add_mset (next_order_id e) (live_tags oid e)"
    "next_order_id e' = next_order_id e + 1" "next_order_id e + 1 \<noteq> 0"
  shows "ids_ok e'"
proof -
  let ?n = "next_order_id e"
  have "unat (?n + 1) = Suc (unat ?n)" using unatSuc[of ?n] assms(4) by (simp add: add.commute)
  then have up: "i < ?n \<Longrightarrow> i < ?n + 1" "?n < ?n + 1" for i by (simp_all add: word_less_nat_alt)
  have "?n \<notin># live_tags oid e" using assms(1) by (auto simp: ids_ok_def)
  then have "count (live_tags oid e') i \<le> 1" for i
    using mset_subset_eq_count[OF assms(2), of i] assms(1)
    by (cases "i = ?n") (auto simp: ids_ok_def not_in_iff intro: order_trans)
  moreover have "\<forall>i \<in># live_tags oid e'. i < next_order_id e'"
    using mset_subset_eqD[OF assms(2)] assms(1,3) up by (auto simp: ids_ok_def)
  ultimately show ?thesis by (simp add: ids_ok_def)
qed

lemma clients_known_shrink:
  assumes "clients_known e" "live_tags client e' \<subseteq># live_tags client e"
    "dom (map_of (portfolios e)) \<subseteq> dom (map_of (portfolios e'))"
  shows "clients_known e'"
  using assms unfolding clients_known_def by (meson domIff mset_subset_eqD subsetD)

lemma clients_known_add:
  assumes "clients_known e" "live_tags client e' \<subseteq># add_mset c (live_tags client e)" "um_contains (portfolios e) c"
    "dom (map_of (portfolios e)) \<subseteq> dom (map_of (portfolios e'))"
  shows "clients_known e'"
  unfolding clients_known_def
proof (intro ballI)
  fix d assume "d \<in># live_tags client e'"
  then have "d = c \<or> d \<in># live_tags client e" using mset_subset_eqD[OF assms(2)] by auto
  then show "um_contains (portfolios e') d" using assms unfolding clients_known_def by (meson domIff subsetD)
qed

lemma dom_settle_all: "dom (map_of ps) \<subseteq> dom (map_of (settle_all ts ps))"
proof (induction ts arbitrary: ps)
  case (Cons t ts)
  have "dom (map_of ps) \<subseteq> dom (map_of (settle_trade t ps))"
    by (auto simp: settle_trade_def Let_def map_of_modify)
  then show ?case using Cons[of "settle_trade t ps"] by simp
qed simp

lemma match_and_settle_portfolios:
  assumes "match_and_settle clk lat ord e = Some (res, e')"
  shows "portfolios e' = settle_all (trades res) (portfolios e)" "next_order_id e' = next_order_id e"
    "result_order_id res = oid ord" "accepted res"
proof -
  obtain b where b: "map_of (books e) (osymbol ord) = Some b"
    using assms by (cases "map_of (books e) (osymbol ord)") (auto simp: match_and_settle_def book_for_def)
  obtain ts b' where bm: "book_match clk ord b = (ts, b')" by (cases "book_match clk ord b")
  show "portfolios e' = settle_all (trades res) (portfolios e)" "next_order_id e' = next_order_id e"
    "result_order_id res = oid ord" "accepted res"
    using assms match_and_settle_eq[OF b bm, of lat] by auto
qed

lemma risk_ok_known: "risk_ok rq e \<Longrightarrow> um_contains (portfolios e) (rq_client rq)"
  by (auto simp: risk_ok_def passes_risk_check_def split: option.splits)

lemma submit_portfolios:
  assumes m: "submit_order now clk lat rq e = Some (res, e')"
  shows "portfolios e' = settle_all (trades res) (portfolios e)"
proof (rule submit_cases[where rq = rq and e = e and now = now])
  assume c: "reject_text rq e = []" "risk_ok rq e" "released_at_once now rq e"
  have "match_and_settle clk lat (build_order rq (next_order_id e) now) (drawn e) = Some (res, e')"
    using m c by (simp add: submit_order_eq)
  then show ?thesis using match_and_settle_portfolios(1) by fastforce
qed (use m in \<open>auto simp: submit_order_eq reject_with_def publish_def upd_metrics_def empty_result_def\<close>)

inductive engine_step :: "engine \<Rightarrow> engine \<Rightarrow> bool" where
  step_register: "\<not> symbol_exists e s \<Longrightarrow> engine_step e (register_symbol s p e)"
| step_ensure: "engine_step e (ensure_client c x e)"
| step_grant: "engine_step e (grant_initial_holdings c s n e)"
| step_submit: "sane_price rq \<Longrightarrow> next_order_id e + 1 \<noteq> 0 \<Longrightarrow>
    submit_order now clk lat rq e = Some (res, e') \<Longrightarrow> engine_step e e'"
| step_release: "try_release_waiting_orders f now clk2 lat2 e = Some (sm, e') \<Longrightarrow> engine_step e e'"
| step_cancel: "cancel_order s i e = Some (found, e') \<Longrightarrow> engine_step e e'"
| step_cancel_at: "cancel_order_at s sd p i e = Some (found, e') \<Longrightarrow> engine_step e e'"
| step_cancel_waiting: "cancel_waiting_order i e = (found, e') \<Longrightarrow> engine_step e e'"

inductive engine_reachable :: "engine \<Rightarrow> bool" where
  reach_new_engine: "engine_reachable new_engine"
| reach_engine_step: "engine_reachable e \<Longrightarrow> engine_step e e' \<Longrightarrow> engine_reachable e'"

inductive_cases engine_step_cases: "engine_step e e'"

lemma new_engine_inv: "engine_inv new_engine"
  using new_engine_ok
  by (simp add: engine_inv_def ids_ok_def clients_known_def triggers_tracked_def live_tags_def book_tags_def new_engine_def)

lemma register_inv: "engine_inv e \<Longrightarrow> \<not> symbol_exists e s \<Longrightarrow> engine_inv (register_symbol s p e)"
proof -
  assume inv: "engine_inv e" and s: "\<not> symbol_exists e s"
  let ?e = "register_symbol s p e"
  have um: "um_emplace s (new_book s) (books e) = books e @ [(s, new_book s)]"
    using s by (simp add: um_emplace_def symbol_exists_def)
  have ns: "s \<notin> fst ` set (books e)" using s by (simp add: symbol_exists_def map_of_eq_None_iff)
  have tags: "live_tags f ?e = live_tags f e" for f :: "order \<Rightarrow> 'a"
  proof -
    have "tags_of f (new_book s) = {#}" by (simp add: tags_of_def new_book_def resting_orders_def)
    then show ?thesis by (simp add: live_tags_def book_tags_def register_symbol_def um)
  qed
  have w: "\<forall>x \<in> set (all_waiting (registry e)). osymbol x \<noteq> s"
    using inv s by (auto simp: engine_inv_def engine_ok_def ready_def)
  have r: "ready e x \<Longrightarrow> ready ?e x" for x
    by (rule ready_mono) (auto simp: register_symbol_def um map_add_def split: option.splits)
  have "books_ok (books e @ [(s, new_book s)])"
    using inv ns new_book_ok[of s] by (auto simp: engine_inv_def engine_ok_def books_ok_def new_book_def)
  then have "engine_ok ?e" using inv r unfolding engine_inv_def engine_ok_def by (simp add: register_symbol_def um)
  moreover have "triggers_tracked ?e"
    using inv w by (auto simp: engine_inv_def triggers_tracked_def register_symbol_def last_price_def um_get_update)
  moreover have "ids_ok ?e" "clients_known ?e"
    using inv by (auto simp: engine_inv_def ids_ok_def clients_known_def tags) (simp_all add: register_symbol_def)
  ultimately show ?thesis by (simp add: engine_inv_def)
qed

text \<open>Operations on the portfolios alone, which never remove one.\<close>

lemma portfolios_only_inv:
  assumes "engine_inv e" "um_ok ps" "dom (map_of (portfolios e)) \<subseteq> dom (map_of ps)"
  shows "engine_inv (e\<lparr>portfolios := ps\<rparr>)"
proof -
  let ?e = "e\<lparr>portfolios := ps\<rparr>"
  have l: "live_tags f ?e = live_tags f e" for f :: "order \<Rightarrow> 'a" by (simp add: live_tags_def)
  have "engine_ok ?e" "triggers_tracked ?e" "ids_ok ?e"
    using assms by (simp_all add: l engine_inv_def engine_ok_def ids_ok_def triggers_tracked_def
      ready_def symbol_exists_def last_price_def)
  moreover have "clients_known ?e"
    by (rule clients_known_shrink[of e]) (use assms in \<open>auto simp: l engine_inv_def\<close>)
  ultimately show ?thesis by (simp add: engine_inv_def)
qed

lemma ensure_inv: "engine_inv e \<Longrightarrow> engine_inv (ensure_client c x e)"
  unfolding ensure_client_def
  by (rule portfolios_only_inv) (auto simp: ensure_portfolio_def engine_inv_def engine_ok_def map_of_emplace)

lemma grant_inv: "engine_inv e \<Longrightarrow> engine_inv (grant_initial_holdings c s n e)"
  unfolding grant_initial_holdings_def
  by (rule portfolios_only_inv) (auto simp: grant_holdings_def engine_inv_def engine_ok_def map_of_modify)

lemma submit_inv:
  assumes inv: "engine_inv e" and p: "sane_price rq" and n: "next_order_id e + 1 \<noteq> 0"
    and m: "submit_order now clk lat rq e = Some (res, e')"
  shows "engine_inv e'"
proof -
  have ok: "engine_ok e" and fr: "fresh_next e" using inv ids_fresh by (auto simp: engine_inv_def)
  note t = submit_tags[OF ok p fr m]
  have ids: "ids_ok e'"
  proof (cases "live_tags oid e' \<subseteq># live_tags oid e")
    case True
    then have "live_tags oid e' \<subseteq># add_mset (next_order_id e) (live_tags oid e)"
      by (metis add_mset_add_single mset_subset_eq_add_left subset_mset.order_trans)
    then show ?thesis using ids_ok_add[of e e'] inv t(2)[OF quantity_blind_views(1)] n by (simp add: engine_inv_def)
  next
    case False
    then have "live_tags oid e' \<subseteq># add_mset (next_order_id e) (live_tags oid e)"
      using t(1)[OF quantity_blind_views(1)] by simp
    then show ?thesis using ids_ok_add[of e e'] inv t(2)[OF quantity_blind_views(1)] n by (simp add: engine_inv_def)
  qed
  have dom: "dom (map_of (portfolios e)) \<subseteq> dom (map_of (portfolios e'))"
    using dom_settle_all[of "portfolios e" "trades res"] submit_portfolios[OF m] by simp
  have cl: "clients_known e" using inv by (simp add: engine_inv_def)
  from t(1)[OF quantity_blind_views(2)] have "clients_known e'"
  proof
    assume "live_tags client e' \<subseteq># live_tags client e"
    then show ?thesis by (rule clients_known_shrink[OF cl _ dom])
  next
    assume a: "risk_ok rq e \<and> live_tags client e' \<subseteq>#
      add_mset (client (build_order rq (next_order_id e) now)) (live_tags client e)"
    then show ?thesis using clients_known_add[OF cl _ risk_ok_known dom, of rq] by simp
  qed
  moreover have "engine_ok e'" using submit_order_ok[OF ok p fr, of now clk lat] m by auto
  moreover have "triggers_tracked e'" using submit_tracked[OF ok p fr m] inv by (simp add: engine_inv_def)
  ultimately show ?thesis using ids by (simp add: engine_inv_def)
qed

lemma release_inv:
  assumes inv: "engine_inv e" and m: "try_release_waiting_orders f now clk lat e = Some (sm, e')"
  shows "engine_inv e'"
proof -
  have ok: "engine_ok e" using inv by (simp add: engine_inv_def)
  obtain rel ex e1 where sc: "engine_scan f now e = (rel, ex, e1)" by (metis prod_cases3)
  note s = engine_scan_exact[OF ok sc]
  let ?P = "\<lambda>x. dom (map_of (portfolios e)) \<subseteq> dom (map_of (portfolios x)) \<and> next_order_id x = next_order_id e"
  have P1: "?P e1" using arg_cong[OF s(6), of portfolios] arg_cong[OF s(6), of next_order_id] by simp
  have "?P e'"
  proof (rule try_release_run[where P = ?P and clk = clk and lat = lat, OF ok sc P1])
    fix k x y res z
    assume a: "engine_ok x" "ready x y" and P: "?P x" and m: "match_and_settle (clk k) (lat k) y x = Some (res, z)"
    show "?P z" using P dom_settle_all[of "portfolios x" "trades res"]
      by (simp only: match_and_settle_portfolios[OF m]) (meson subset_trans)
  next
    fix rs e2
    assume "try_release_waiting_orders f now clk lat e = Some (\<lparr>released = rs, expired = ex\<rparr>, e2)" "?P e2"
    then show ?thesis using m by simp
  qed simp
  moreover have "engine_ok e'" using try_release_ok[OF ok, of f now clk lat] m by auto
  moreover have "triggers_tracked e'" using try_release_tracked[OF ok m] inv by (simp add: engine_inv_def)
  ultimately show ?thesis
    using inv ids_ok_shrink[OF _ try_release_tags[OF ok m]] clients_known_shrink[OF _ try_release_tags[OF ok m]]
    by (simp add: engine_inv_def)
qed

text \<open>Replacing a book by one whose orders were there before.\<close>

lemma shrink_book_inv:
  assumes inv: "engine_inv e" and b: "map_of (books e) s = Some b"
    and ok: "engine_ok (e\<lparr>books := AList.update s b' (books e)\<rparr>)"
    and sub: "mset (resting_orders b') \<subseteq># mset (resting_orders b)"
  shows "engine_inv (e\<lparr>books := AList.update s b' (books e)\<rparr>)"
proof -
  let ?e = "e\<lparr>books := AList.update s b' (books e)\<rparr>"
  have um: "um_ok (books e)" using inv by (simp add: engine_inv_def engine_ok_def books_ok_def)
  have t: "live_tags f ?e \<subseteq># live_tags f e" for f :: "order \<Rightarrow> 'a"
    using book_tags_sub[OF um b, of f b' "{#}"] tags_of_sub[OF sub, of f] by (simp add: live_tags_def)
  have "ids_ok ?e" by (rule ids_ok_shrink[OF _ t]) (use inv in \<open>auto simp: engine_inv_def\<close>)
  moreover have "clients_known ?e" by (rule clients_known_shrink[OF _ t]) (use inv in \<open>auto simp: engine_inv_def\<close>)
  moreover have "triggers_tracked ?e" using inv by (simp add: engine_inv_def triggers_tracked_def last_price_def)
  ultimately show ?thesis using ok by (simp add: engine_inv_def)
qed

lemma cancel_inv:
  assumes inv: "engine_inv e" and c: "cancel_order s i e = Some (found, e')"
  shows "engine_inv e'"
proof -
  have ok: "engine_ok e" using inv by (simp add: engine_inv_def)
  show ?thesis
    by (rule cancel_order_run[OF ok, of s i]) (use inv c shrink_book_inv book_cancel_sub in auto)
qed

lemma cancel_at_inv:
  assumes inv: "engine_inv e" and c: "cancel_order_at s sd p i e = Some (found, e')"
  shows "engine_inv e'"
proof -
  have ok: "engine_ok e" using inv by (simp add: engine_inv_def)
  show ?thesis
    by (rule cancel_order_at_run[OF ok, of s sd p i]) (use inv c shrink_book_inv book_cancel_at_ok(3) in auto)
qed

lemma cancel_waiting_inv:
  assumes inv: "engine_inv e" and c: "cancel_waiting_order i e = (found, e')"
  shows "engine_inv e'"
proof -
  have reg: "reg_ok (registry e)" using inv by (simp add: engine_inv_def engine_ok_def)
  obtain r where r: "reg_cancel i (registry e) = (found, r)" "e' = e\<lparr>registry := r\<rparr>"
    using c by (auto simp: cancel_waiting_order_def split: prod.splits)
  note rc = reg_cancel_ok[OF reg r(1)]
  have sub: "mset (all_waiting r) \<subseteq># mset (all_waiting (registry e))"
  proof (cases found)
    case True
    then show ?thesis using rc(3) by auto
  next
    case False
    then show ?thesis using r(1) by (auto simp: reg_cancel_def split: option.splits)
  qed
  then have s: "set (all_waiting r) \<subseteq> set (all_waiting (registry e))" by (metis set_mset_mono set_mset_mset)
  have t: "live_tags f e' \<subseteq># live_tags f e" for f :: "order \<Rightarrow> 'a"
    using image_mset_subseteq_mono[OF sub, of f] by (simp add: live_tags_def r(2))
  have "ready e' = ready e" by (simp add: r(2) fun_eq_iff ready_def symbol_exists_def)
  then have "engine_ok e'" using inv rc(1) s by (auto simp: engine_inv_def engine_ok_def r(2))
  moreover have "triggers_tracked e'" using inv s by (auto simp: engine_inv_def triggers_tracked_def r(2) last_price_def)
  moreover have "ids_ok e'" by (rule ids_ok_shrink[OF _ t]) (use inv in \<open>auto simp: engine_inv_def r(2)\<close>)
  moreover have "clients_known e'" by (rule clients_known_shrink[OF _ t]) (use inv in \<open>auto simp: engine_inv_def r(2)\<close>)
  ultimately show ?thesis by (simp add: engine_inv_def)
qed

lemma engine_step_inv: "engine_step e e' \<Longrightarrow> engine_inv e \<Longrightarrow> engine_inv e'"
  by (erule engine_step_cases)
    (auto intro: register_inv ensure_inv grant_inv submit_inv release_inv cancel_inv cancel_at_inv cancel_waiting_inv)

lemma engine_reachable_inv: "engine_reachable e \<Longrightarrow> engine_inv e"
  by (induction rule: engine_reachable.induct) (auto intro: new_engine_inv engine_step_inv)

section \<open>Results of a submission\<close>

lemma trade_volume_bound:
  assumes "\<forall>t \<in> set ts. fair_trade inc b t"
  shows "0 \<le> trade_volume ts"
  using assms by (intro sum_list_nonneg_int) (auto simp: fair_trade_def)

lemma submit_result_shape:
  assumes ok: "engine_ok e" and p: "sane_price rq" and m: "submit_order now clk lat rq e = Some (res, e')"
  shows "result_order_id res = next_order_id e \<and> filled_quantity res = trade_volume (trades res) \<and>
    (if accepted res \<and> \<not> queued res then 0 \<le> filled_quantity res \<and> filled_quantity res \<le> rq_quantity rq
     else trades res = [])"
proof (rule submit_cases[where rq = rq and e = e and now = now])
  assume c: "reject_text rq e = []" "risk_ok rq e" "released_at_once now rq e"
  let ?x = "build_order rq (next_order_id e) now"
  have r: "ready (drawn e) ?x" using valid_request[OF c(1) p] by simp
  have o: "engine_ok (drawn e)" using ok by simp
  have m': "match_and_settle clk lat ?x (drawn e) = Some (res, e')" using m c by (simp add: submit_order_eq)
  show ?thesis
  proof (rule match_and_settle_run[OF o r, of clk lat])
    fix b ts b' res' e''
    assume h: "book_ok b" "matchable ?x b" "book_match clk ?x b = (ts, b')" "\<forall>t \<in> set ts. fair_trade ?x b t"
      "match_and_settle clk lat ?x (drawn e) = Some (res', e'')"
      "res' = empty_result\<lparr>accepted := True, result_order_id := oid ?x, filled_quantity := trade_volume ts, trades := ts\<rparr>"
    have "0 \<le> qty ?x" using r by (simp add: ready_def)
    then have "trade_volume ts \<le> qty ?x" using book_match_volume[OF h(1,2), of clk] h(3) by simp
    then show ?thesis using m' h(5,6) trade_volume_bound[OF h(4)] by (auto simp: empty_result_def)
  qed
qed (use m in \<open>auto simp: submit_order_eq reject_with_def empty_result_def\<close>)

text \<open>The portfolios after a list of trades, client by client.\<close>

definition net_bought :: "client_id \<Rightarrow> symbol \<Rightarrow> trade list \<Rightarrow> quantity" where
  "net_bought c s ts = sum_list (map (\<lambda>t. if tsymbol t = s
     then (if buyer t = c then tqty t else 0) - (if seller t = c then tqty t else 0) else 0) ts)"

fun cash_after :: "client_id \<Rightarrow> double \<Rightarrow> trade list \<Rightarrow> double" where
  "cash_after c x [] = x"
| "cash_after c x (t # ts) =
     (let n = dbl_of_int (tqty t) * tprice t;
          x1 = (if buyer t = c then x - n else x);
          x2 = (if seller t = c then x1 + n else x1)
      in cash_after c x2 ts)"

lemma settle_trade_view:
  "holding (um_get empty_portfolio (settle_trade t ps) c) s =
     holding (um_get empty_portfolio ps c) s + net_bought c s [t]"
  "cash (um_get empty_portfolio (settle_trade t ps) c) = cash_after c (cash (um_get empty_portfolio ps c)) [t]"
  by (auto simp: settle_trade_def Let_def um_get_modify net_bought_def)

lemma settle_all_view:
  "holding (um_get empty_portfolio (settle_all ts ps) c) s =
     holding (um_get empty_portfolio ps c) s + net_bought c s ts"
  "cash (um_get empty_portfolio (settle_all ts ps) c) = cash_after c (cash (um_get empty_portfolio ps c)) ts"
proof (induction ts arbitrary: ps)
  case (Cons t ts)
  {
    case 1
    show ?case using Cons(1)[of "settle_trade t ps"] by (simp add: settle_trade_view net_bought_def)
  next
    case 2
    show ?case using Cons(2)[of "settle_trade t ps"] by (simp add: settle_trade_view Let_def)
  }
qed (simp_all add: net_bought_def)

text \<open>Counters after the trades of a match.\<close>

lemma volume_metrics:
  "foldl (\<lambda>m t. add_volume_traded (word_of_int (tqty t)) m) m ts =
     m\<lparr>volume_traded := volume_traded m + word_of_int (trade_volume ts)\<rparr>"
  by (induction ts arbitrary: m) (simp_all add: add_volume_traded_def add.assoc)

text \<open>Everything a submission records, in one statement.\<close>

lemma submit_bookkeeping_full:
  assumes ok: "engine_ok e" and p: "sane_price rq" and m: "submit_order now clk lat rq e = Some (res, e')"
  shows "last_price e' s = (if s = rq_symbol rq \<and> trades res \<noteq> [] then tprice (last (trades res)) else last_price e s)"
    and "set (dirty_symbols e') = set (dirty_symbols e) \<union> tsymbol ` set (trades res)"
    and "published e' = published e @
      (if \<not> accepted res then [OrderRejectedEvent (next_order_id e) (rq_client rq) (reject_reason res)]
       else if queued res then [OrderQueuedEvent (next_order_id e) (rq_client rq) (rq_symbol rq)]
       else OrderAcceptedEvent (next_order_id e) (rq_client rq) (rq_symbol rq) # map TradeEvent (trades res))"
    and "(let m = eng_metrics e; m' = eng_metrics e' in
      orders_submitted m' = orders_submitted m + 1 \<and>
      orders_rejected m' = orders_rejected m + (if accepted res then 0 else 1) \<and>
      orders_queued m' = orders_queued m + (if queued res then 1 else 0) \<and>
      orders_accepted m' = orders_accepted m + (if accepted res \<and> \<not> queued res then 1 else 0) \<and>
      orders_expired m' = orders_expired m \<and>
      trades_executed m' = trades_executed m + of_nat (length (trades res)) \<and>
      volume_traded m' = volume_traded m + word_of_int (filled_quantity res))"
proof -
  let ?E = "if \<not> accepted res then [OrderRejectedEvent (next_order_id e) (rq_client rq) (reject_reason res)]
       else if queued res then [OrderQueuedEvent (next_order_id e) (rq_client rq) (rq_symbol rq)]
       else OrderAcceptedEvent (next_order_id e) (rq_client rq) (rq_symbol rq) # map TradeEvent (trades res)"
  let ?L = "last_price e' s = (if s = rq_symbol rq \<and> trades res \<noteq> [] then tprice (last (trades res)) else last_price e s)"
  let ?D = "set (dirty_symbols e') = set (dirty_symbols e) \<union> tsymbol ` set (trades res)"
  let ?M = "let m = eng_metrics e; m' = eng_metrics e' in
      orders_submitted m' = orders_submitted m + 1 \<and>
      orders_rejected m' = orders_rejected m + (if accepted res then 0 else 1) \<and>
      orders_queued m' = orders_queued m + (if queued res then 1 else 0) \<and>
      orders_accepted m' = orders_accepted m + (if accepted res \<and> \<not> queued res then 1 else 0) \<and>
      orders_expired m' = orders_expired m \<and>
      trades_executed m' = trades_executed m + of_nat (length (trades res)) \<and>
      volume_traded m' = volume_traded m + word_of_int (filled_quantity res)"
  have "?L \<and> ?D \<and> published e' = published e @ ?E \<and> ?M"
  proof (rule submit_cases[where rq = rq and e = e and now = now])
    assume c: "reject_text rq e = []" "risk_ok rq e" "released_at_once now rq e"
    let ?x = "build_order rq (next_order_id e) now"
    have r: "ready (drawn e) ?x" using valid_request[OF c(1) p] by simp
    have o: "engine_ok (drawn e)" using ok by simp
    have m': "match_and_settle clk lat ?x (drawn e) = Some (res, e')" using m c by (simp add: submit_order_eq)
    show ?thesis
    proof (rule match_and_settle_run[OF o r, of clk lat])
      fix b ts b' res' e''
      assume h: "bk_symbol b = osymbol ?x" "\<forall>t \<in> set ts. fair_trade ?x b t"
        "match_and_settle clk lat ?x (drawn e) = Some (res', e'')"
        "res' = empty_result\<lparr>accepted := True, result_order_id := oid ?x, filled_quantity := trade_volume ts, trades := ts\<rparr>"
        "last_prices e'' = price_all ts (last_prices (drawn e))"
        "dirty_symbols e'' = foldl (\<lambda>d t. List.insert (tsymbol t) d) (dirty_symbols (drawn e)) ts"
        "eng_metrics e'' = record_submit_latency lat (foldl (\<lambda>m t. add_volume_traded (word_of_int (tqty t)) m)
           (add_trades_executed (of_nat (length ts)) (order_accepted (eng_metrics (drawn e)))) ts)"
        "published e'' = published (drawn e) @ OrderAcceptedEvent (oid ?x) (client ?x) (osymbol ?x) # map TradeEvent ts"
      have own: "\<forall>t \<in> set ts. tsymbol t = rq_symbol rq" using fair_trades_symbol[OF h(2,1)] by simp
      have eq: "res' = res" "e'' = e'" using m' h(3) by simp_all
      have res: "trades res = ts" "accepted res" "\<not> queued res" "filled_quantity res = trade_volume ts"
        using h(4) eq by (auto simp: empty_result_def)
      have "?L" using h(5) eq res price_all_own[OF own] by (simp add: last_price_def um_get_def)
      moreover have "?D" using h(6) eq res dirty_all(1) by simp
      moreover have "?M" using h(7) eq res
        by (simp add: volume_metrics record_submit_latency_def add_trades_executed_def order_accepted_def
            order_submitted_def Let_def)
      ultimately show ?thesis using h(8) eq res by simp
    qed
  qed (use m in \<open>auto simp: submit_order_eq reject_with_def publish_def upd_metrics_def empty_result_def last_price_def
      order_rejected_def order_queued_def order_submitted_def Let_def\<close>)
  then show "?L" "?D" "published e' = published e @ ?E" "?M" by blast+
qed

text \<open>Releasing: what the list of results says, and that a match without trades moves no price.\<close>

lemma match_and_settle_quiet:
  assumes "match_and_settle clk lat ord e = Some (res, e')" "trades res = []"
  shows "last_prices e' = last_prices e"
proof -
  obtain b where b: "map_of (books e) (osymbol ord) = Some b"
    using assms by (cases "map_of (books e) (osymbol ord)") (auto simp: match_and_settle_def book_for_def)
  obtain ts b' where bm: "book_match clk ord b = (ts, b')" by (cases "book_match clk ord b")
  show ?thesis using assms match_and_settle_eq[OF b bm, of lat] by auto
qed

lemma match_released_results:
  assumes "match_released clk lat k xs e = Some (rs, e')"
  shows "map result_order_id rs = map oid xs" "\<forall>r \<in> set rs. accepted r"
    "\<forall>r \<in> set rs. trades r = [] \<Longrightarrow> last_prices e' = last_prices e"
    "portfolios e' = settle_all (concat (map trades rs)) (portfolios e)"
proof -
  have "map result_order_id rs = map oid xs \<and> (\<forall>r \<in> set rs. accepted r) \<and>
    ((\<forall>r \<in> set rs. trades r = []) \<longrightarrow> last_prices e' = last_prices e) \<and>
    portfolios e' = settle_all (concat (map trades rs)) (portfolios e)"
    using assms
  proof (induction xs arbitrary: k e rs)
    case (Cons x xs)
    obtain res e1 rs1 where m: "match_and_settle (clk k) (lat k) x e = Some (res, e1)"
      "match_released clk lat (Suc k) xs e1 = Some (rs1, e')" "rs = res # rs1"
      using Cons.prems by (auto split: option.splits)
    show ?case using Cons.IH[OF m(2)] match_and_settle_portfolios[OF m(1)] match_and_settle_quiet[OF m(1)] m(3) by simp
  qed auto
  then show "map result_order_id rs = map oid xs" "\<forall>r \<in> set rs. accepted r"
    "\<forall>r \<in> set rs. trades r = [] \<Longrightarrow> last_prices e' = last_prices e"
    "portfolios e' = settle_all (concat (map trades rs)) (portfolios e)" by blast+
qed

text \<open>A release in terms of the scan it starts with.\<close>

lemma release_effect:
  assumes ok: "engine_ok e" and r: "try_release_waiting_orders f now clk lat e = Some (sm, e')"
  shows "engine_scan f now e = (rel, ex, e1) \<Longrightarrow> map result_order_id (released sm) = map oid rel"
    and "portfolios e' = settle_all (concat (map trades (released sm))) (portfolios e)"
    and "\<forall>r \<in> set (released sm). accepted r"
    and "engine_scan f now e = (rel, ex, e1) \<Longrightarrow> expired sm = ex"
    and "engine_scan f now e = (rel, ex, e1) \<Longrightarrow> registry e' = registry e1"
    and "\<forall>r \<in> set (released sm). trades r = [] \<Longrightarrow> engine_scan f now e = (rel, ex, e1) \<Longrightarrow> last_prices e' = last_prices e1"
proof -
  obtain rel1 ex1 e2 where sc: "engine_scan f now e = (rel1, ex1, e2)" by (metis prod_cases3)
  obtain rs e3 where m: "match_released clk lat 0 rel1 e2 = Some (rs, e3)" and sm: "sm = \<lparr>released = rs, expired = ex1\<rparr>"
    and e': "e' = foldl (\<lambda>e x. expire_one x e) e3 ex1"
    using r sc by (auto simp: try_release_eq split: option.splits)
  note s = engine_scan_exact[OF ok sc] and mr = match_released_results[OF m]
  have reg: "registry e' = registry e2"
    by (rule try_release_run[where P = "\<lambda>_. True", OF ok sc, of clk lat]) (use r in auto)
  have pf: "portfolios e2 = portfolios e" using arg_cong[OF s(6), of portfolios] by simp
  show "engine_scan f now e = (rel, ex, e1) \<Longrightarrow> map result_order_id (released sm) = map oid rel"
    using sc sm mr(1) by simp
  show "portfolios e' = settle_all (concat (map trades (released sm))) (portfolios e)"
    using mr(4) by (simp add: e' sm pf expire_all)
  show "\<forall>r \<in> set (released sm). accepted r" using mr(2) sm by simp
  show "engine_scan f now e = (rel, ex, e1) \<Longrightarrow> expired sm = ex" using sc sm by simp
  show "engine_scan f now e = (rel, ex, e1) \<Longrightarrow> registry e' = registry e1" using sc reg by simp
  show "\<forall>r \<in> set (released sm). trades r = [] \<Longrightarrow> engine_scan f now e = (rel, ex, e1) \<Longrightarrow> last_prices e' = last_prices e1"
    using sc sm mr(3) by (simp add: e' expire_all)
qed

lemma cancel_waiting_effect:
  assumes inv: "engine_inv e"
  shows "let (found, e') = cancel_waiting_order i e in
      (found \<longleftrightarrow> (\<exists>x \<in> set (all_waiting (registry e)). oid x = i)) \<and>
      mset (all_waiting (registry e')) = filter_mset (\<lambda>x. oid x \<noteq> i) (mset (all_waiting (registry e))) \<and>
      e' = e\<lparr>registry := registry e'\<rparr>"
proof -
  let ?W = "mset (all_waiting (registry e))"
  have reg: "reg_ok (registry e)" using inv by (simp add: engine_inv_def engine_ok_def)
  obtain found r where c: "reg_cancel i (registry e) = (found, r)" by (cases "reg_cancel i (registry e)")
  note rc = reg_cancel_ok[OF reg c]
  have ids: "count (image_mset oid ?W) i \<le> 1"
  proof -
    have "count (live_tags oid e) i \<le> 1" using inv by (simp add: engine_inv_def ids_ok_def)
    then show ?thesis by (simp add: live_tags_def)
  qed
  have "mset (all_waiting r) = filter_mset (\<lambda>x. oid x \<noteq> i) ?W"
  proof (cases found)
    case True
    then obtain x where x: "oid x = i" "?W = add_mset x (mset (all_waiting r))" using rc(3) by blast
    then have "count (image_mset oid (mset (all_waiting r))) i = 0" using ids by simp
    then have "\<forall>y \<in># mset (all_waiting r). oid y \<noteq> i" by (auto simp: count_eq_zero_iff)
    then have "filter_mset (\<lambda>x. oid x \<noteq> i) (mset (all_waiting r)) = filter_mset (\<lambda>_. True) (mset (all_waiting r))"
      by (intro filter_mset_cong) auto
    then show ?thesis using x by simp
  next
    case False
    then have "r = registry e" using c by (auto simp: reg_cancel_def split: option.splits)
    moreover have "filter_mset (\<lambda>x. oid x \<noteq> i) ?W = filter_mset (\<lambda>_. True) ?W"
      using False rc(2) by (intro filter_mset_cong) auto
    ultimately show ?thesis by simp
  qed
  then show ?thesis using rc(2) c by (simp add: cancel_waiting_order_def)
qed

end
