(* ===== verification/EngineProps.thy ===== *)
theory EngineProps
  imports EngineMachine
begin

text \<open>
  The properties of the matching engine, over the lemmas of \<open>EngineFacts\<close>, \<open>EngineInv\<close> and
  \<open>EngineMachine\<close>, and the concrete engine their hypotheses are shown to hold on: one symbol, a
  seller with ten shares, a buyer with a thousand, a resting sell and a waiting buy stop.
\<close>

section \<open>A concrete engine\<close>

lemma seven_zeros: "replicate 7 x = [x, x, x, x, x, x, x]"
  by (simp add: eval_nat_numeral)

lemmas engine_eval = submit_order_def match_and_settle_def passes_risk_check_def reject_text_def reject_with_def
  build_order_def release_bounds_def after_seconds_def started_at_def expired_at_def release_band_contains_def
  apply_trade_def settle_def mark_dirty_def publish_def upd_metrics_def book_for_def symbol_exists_def last_price_def
  register_symbol_def ensure_client_def grant_initial_holdings_def new_engine_def
  um_emplace_def um_get_def um_modify_def ensure_portfolio_def grant_holdings_def add_holding_def empty_portfolio_def
  holding_def settle_trade_def book_match_def match_incoming_buy_def match_incoming_sell_def buy_trade_def sell_trade_def
  new_book_def empty_result_def default_request_def value_or_def dbl_of_int_def bid_before_def ask_before_def
  fill_queue.simps(2) match_levels.simps(2) Let_def empty_registry_def metrics_ops record_latency_def
  bucket_bounds_us_def new_metrics_def new_histogram_def seven_zeros reg_add_def

definition demo_start :: engine where
  "demo_start = grant_initial_holdings 1 ''AAA'' 10
     (ensure_client 2 (Fin 1000) (ensure_client 1 0 (register_symbol ''AAA'' (Fin 100) new_engine)))"

definition demo_sell :: order_request where
  "demo_sell = default_request\<lparr>rq_client := 1, rq_side := SELL, rq_symbol := ''AAA'', rq_quantity := 5, rq_price := Fin 100\<rparr>"

definition demo_stop :: order_request where
  "demo_stop = default_request\<lparr>rq_client := 2, rq_kind := STOP, rq_symbol := ''AAA'', rq_quantity := 1, rq_price := Fin 105\<rparr>"

definition demo_take :: order_request where
  "demo_take = default_request\<lparr>rq_client := 2, rq_symbol := ''AAA'', rq_quantity := 3, rq_price := Fin 101\<rparr>"

definition demo_engine :: engine where
  "demo_engine = snd (the (submit_order 0 (\<lambda>_. 0) 5 demo_stop (snd (the (submit_order 0 (\<lambda>_. 0) 5 demo_sell demo_start)))))"

lemmas demo_requests = demo_sell_def demo_stop_def demo_take_def

lemma demo_engine_eq:
  "demo_engine =
     \<lparr>books = [(''AAA'', \<lparr>bk_symbol = ''AAA'', bids = [], asks = [(Fin 100, [build_order demo_sell 1 0])]\<rparr>)],
      last_prices = [(''AAA'', Fin 100)],
      portfolios = [(1, \<lparr>cash = Fin 0, holdings = [(''AAA'', 10)]\<rparr>), (2, \<lparr>cash = Fin 1000, holdings = []\<rparr>)],
      registry = \<lparr>waiting_by_symbol = [(''AAA'', [(2, build_order demo_stop 2 0)])], order_symbol_index = [(2, ''AAA'')]\<rparr>,
      dirty_symbols = [], next_order_id = 3,
      eng_metrics = new_metrics\<lparr>orders_submitted := 2, orders_accepted := 1, orders_queued := 1,
        submit_latency := new_histogram\<lparr>hist_count := 1, hist_sum_us := 5, hist_max_us := 5,
          hist_buckets := [1, 0, 0, 0, 0, 0, 0]\<rparr>\<rparr>,
      published = [OrderAcceptedEvent 1 1 ''AAA'', OrderQueuedEvent 2 2 ''AAA'']\<rparr>"
  by (simp add: demo_engine_def demo_start_def demo_requests engine_eval)

lemma demo_sell_step: "submit_order 0 (\<lambda>_. 0) 5 demo_sell demo_start \<noteq> None"
  by (simp add: demo_start_def demo_requests engine_eval)

lemma demo_stop_step:
  "submit_order 0 (\<lambda>_. 0) 5 demo_stop (snd (the (submit_order 0 (\<lambda>_. 0) 5 demo_sell demo_start))) \<noteq> None"
  by (simp add: demo_start_def demo_requests engine_eval)

lemma demo_sane: "sane_price demo_sell" "sane_price demo_stop" "sane_price demo_take"
  by (simp_all add: sane_price_def demo_requests default_request_def)

lemma demo_start_reachable: "engine_reachable demo_start"
  unfolding demo_start_def
  by (intro reach_engine_step[OF _ step_grant] reach_engine_step[OF _ step_ensure]
      reach_engine_step[OF _ step_register] reach_new_engine) (simp add: symbol_exists_def new_engine_def)

lemma reach_submit:
  assumes "engine_reachable e" "sane_price rq" "next_order_id e + 1 \<noteq> 0" "submit_order now clk lat rq e \<noteq> None"
  shows "engine_reachable (snd (the (submit_order now clk lat rq e)))"
proof -
  obtain res e' where "submit_order now clk lat rq e = Some (res, e')" using assms(4) by auto
  then show ?thesis using reach_engine_step[OF assms(1) step_submit[OF assms(2,3)]] by simp
qed

lemma demo_engine_reachable: "engine_reachable demo_engine"
  unfolding demo_engine_def
  by (intro reach_submit demo_start_reachable demo_sane demo_sell_step demo_stop_step)
    (simp_all add: demo_start_def demo_requests engine_eval)

lemma demo_take_eval:
  "submit_order 0 (\<lambda>_. 9) 5 demo_take demo_engine = Some
    (empty_result\<lparr>accepted := True, result_order_id := 3, filled_quantity := 3,
       trades := [\<lparr>buy_order_id = 3, sell_order_id = 1, buyer = 2, seller = 1, tsymbol = ''AAA'', tqty = 3,
         tprice = Fin 100, timestamp = 9\<rparr>]\<rparr>,
     snd (the (submit_order 0 (\<lambda>_. 9) 5 demo_take demo_engine)))"
  by (simp add: demo_engine_eq demo_requests engine_eval)

section \<open>Invariants and totality\<close>

text \<open>C5. In every state the engine can reach by its public operations (with fewer than 2^64 - 1
submissions and no NaN limit price) the books are well formed, stored under their own symbol and
uncrossed, the pool of waiting orders agrees with its index, every waiting order can be matched, all
live order ids are distinct and below the id counter, and every live order's client has a portfolio.\<close>

theorem reachable_engine_sound:
  assumes "engine_reachable e"
  shows "engine_ok e \<and> ids_ok e \<and> clients_known e"
  using engine_reachable_inv[OF assms] by (simp add: engine_inv_def)

theorem reachable_engine_sound_witness:
  "engine_reachable demo_engine \<and> engine_ok demo_engine \<and> ids_ok demo_engine \<and>
   length (all_waiting (registry demo_engine)) = 1"
  using reachable_engine_sound[OF demo_engine_reachable] demo_engine_reachable
  by (simp add: demo_engine_eq all_waiting_def)

text \<open>C6. Submitting never throws in a reachable state: it returns a result with the next order id, whose
filled quantity is the volume of its trades, not negative and at most the requested quantity, and
an order that waits or is rejected has traded nothing.\<close>

theorem submit_returns:
  assumes "engine_reachable e" "sane_price rq"
  shows "\<exists>res e'. submit_order now clk lat rq e = Some (res, e') \<and> result_order_id res = next_order_id e \<and>
    next_order_id e' = next_order_id e + 1 \<and> filled_quantity res = trade_volume (trades res) \<and>
    (if accepted res \<and> \<not> queued res then 0 \<le> filled_quantity res \<and> filled_quantity res \<le> rq_quantity rq
     else trades res = [])"
proof -
  have inv: "engine_ok e" "fresh_next e"
    using engine_reachable_inv[OF assms(1)] ids_fresh by (auto simp: engine_inv_def)
  obtain res e' where s: "submit_order now clk lat rq e = Some (res, e')"
    using submit_order_ok[OF inv(1) assms(2) inv(2)] by blast
  have n: "next_order_id e' = next_order_id e + 1"
    by (rule submit_tags(2)[OF inv(1) assms(2) inv(2) s quantity_blind_views(1)])
  have "result_order_id res = next_order_id e \<and> filled_quantity res = trade_volume (trades res) \<and>
    (if accepted res \<and> \<not> queued res then 0 \<le> filled_quantity res \<and> filled_quantity res \<le> rq_quantity rq
     else trades res = [])"
    by (rule submit_result_shape[OF inv(1) assms(2) s])
  then show ?thesis using s n by blast
qed

theorem submit_returns_witness:
  "engine_reachable demo_engine \<and> sane_price demo_take \<and>
   (\<exists>res e'. submit_order 0 (\<lambda>_. 9) 5 demo_take demo_engine = Some (res, e') \<and> result_order_id res = 3 \<and>
      next_order_id e' = 4)"
  using submit_returns[OF demo_engine_reachable demo_sane(3), of 0 "\<lambda>_. 9" 5] demo_engine_reachable demo_sane(3)
  by (auto simp: demo_engine_eq)

section \<open>Submitting\<close>

lemma submit_verdict:
  "(case submit_order now clk lat rq e of
      None \<Rightarrow> False
    | Some (res, e') \<Rightarrow>
        accepted res = (reject_text rq e = [] \<and> risk_ok rq e) \<and>
        (if accepted res then reject_reason res = []
         else reject_reason res = (if reject_text rq e \<noteq> [] then reject_text rq e else risk_text rq) \<and>
           trades res = [] \<and> \<not> queued res \<and> books e' = books e \<and> registry e' = registry e \<and>
           portfolios e' = portfolios e \<and> last_prices e' = last_prices e \<and> dirty_symbols e' = dirty_symbols e))"
proof (rule submit_cases[where rq = rq and e = e and now = now])
  assume c: "reject_text rq e = []" "risk_ok rq e" "released_at_once now rq e"
  then obtain b where b: "map_of (books (drawn e)) (osymbol (build_order rq (next_order_id e) now)) = Some b"
    by (auto simp: reject_text_def symbol_exists_def split: if_splits)
  obtain ts b' where bm: "book_match clk (build_order rq (next_order_id e) now) b = (ts, b')" by fastforce
  show ?thesis using c by (simp add: submit_order_eq match_and_settle_eq[OF b bm] empty_result_def)
qed (simp_all add: submit_order_eq reject_with_def publish_def upd_metrics_def empty_result_def risk_text_def)

lemma reject_text_Nil:
  "reject_text rq e = [] \<longleftrightarrow> 0 < rq_quantity rq \<and> \<not> (rq_kind rq \<noteq> MARKET \<and> rq_price rq \<le> 0) \<and>
     rq_symbol rq \<in> fst ` set (books e)"
  by (auto simp: reject_text_def symbol_exists_def map_of_eq_None_iff)

lemma risk_ok_iff:
  "risk_ok rq e \<longleftrightarrow> (\<exists>pf. map_of (portfolios e) (rq_client rq) = Some pf \<and>
     (case rq_side rq of
        SELL \<Rightarrow> rq_quantity rq \<le> um_get 0 (holdings pf) (rq_symbol rq)
      | BUY \<Rightarrow> dbl_of_int (rq_quantity rq) *
          (if rq_kind rq = MARKET then um_get 0 (last_prices e) (rq_symbol rq) * rnd (11 / 10) else rq_price rq) \<le> cash pf))"
  by (auto simp: risk_ok_def passes_risk_check_def holding_def last_price_def kMarketOrderCashSafetyFactor_def Let_def
      split: option.splits side.splits)

text \<open>C7. A submission is accepted exactly when its quantity is positive, its price is not at or below zero
(a MARKET order may have any), the engine has a book for its symbol, its client has a portfolio, and
the client can pay for it: for a SELL the portfolio holds at least the quantity of the symbol, for a
BUY its cash is at least quantity times price in binary64, a MARKET order being charged 1.1 times the
symbol's last price. A rejected one reports the first of these checks that failed, in this order, and
leaves books, waiting pool, portfolios, prices and the dirty set as they were.\<close>

theorem submit_rejects_cleanly:
  "(case submit_order now clk lat rq e of
      None \<Rightarrow> False
    | Some (res, e') \<Rightarrow>
        (accepted res \<longleftrightarrow>
           0 < rq_quantity rq \<and> \<not> (rq_kind rq \<noteq> MARKET \<and> rq_price rq \<le> 0) \<and> rq_symbol rq \<in> fst ` set (books e) \<and>
           (\<exists>pf. map_of (portfolios e) (rq_client rq) = Some pf \<and>
              (case rq_side rq of
                 SELL \<Rightarrow> rq_quantity rq \<le> um_get 0 (holdings pf) (rq_symbol rq)
               | BUY \<Rightarrow> dbl_of_int (rq_quantity rq) *
                   (if rq_kind rq = MARKET then um_get 0 (last_prices e) (rq_symbol rq) * rnd (11 / 10) else rq_price rq)
                   \<le> cash pf))) \<and>
        (if accepted res then reject_reason res = []
         else reject_reason res =
             (if rq_quantity rq \<le> 0 then ''quantity must be positive''
              else if rq_kind rq \<noteq> MARKET \<and> rq_price rq \<le> 0 then ''LIMIT/STOP/LIMIT_STOP order requires a positive price''
              else if rq_symbol rq \<notin> fst ` set (books e) then ''unknown symbol''
              else if rq_side rq = BUY then ''insufficient cash'' else ''insufficient holdings'') \<and>
           trades res = [] \<and> \<not> queued res \<and> books e' = books e \<and> registry e' = registry e \<and>
           portfolios e' = portfolios e \<and> last_prices e' = last_prices e \<and> dirty_symbols e' = dirty_symbols e))"
proof -
  have reason: "(if reject_text rq e \<noteq> [] then reject_text rq e else risk_text rq) =
      (if rq_quantity rq \<le> 0 then ''quantity must be positive''
       else if rq_kind rq \<noteq> MARKET \<and> rq_price rq \<le> 0 then ''LIMIT/STOP/LIMIT_STOP order requires a positive price''
       else if rq_symbol rq \<notin> fst ` set (books e) then ''unknown symbol''
       else if rq_side rq = BUY then ''insufficient cash'' else ''insufficient holdings'')"
    by (simp add: reject_text_def risk_text_def symbol_exists_def map_of_eq_None_iff)
  show ?thesis
    by (rule submit_verdict[where now = now and clk = clk and lat = lat and rq = rq and e = e,
          unfolded reason, unfolded reject_text_Nil risk_ok_iff conj_assoc])
qed

text \<open>C8. Every submission leaves an exact trace: the symbol's last price becomes the price of its last
trade (other prices stay), the traded symbol is marked for the next scan of waiting orders, the
published events are one rejection, one queueing, or one acceptance followed by the trades in order,
and each counter moves by what happened.\<close>

theorem submit_bookkeeping:
  assumes "engine_reachable e" "sane_price rq" "submit_order now clk lat rq e = Some (res, e')"
  shows "last_price e' s = (if s = rq_symbol rq \<and> trades res \<noteq> [] then tprice (last (trades res)) else last_price e s) \<and>
    set (dirty_symbols e') = set (dirty_symbols e) \<union> tsymbol ` set (trades res) \<and>
    published e' = published e @
      (if \<not> accepted res then [OrderRejectedEvent (next_order_id e) (rq_client rq) (reject_reason res)]
       else if queued res then [OrderQueuedEvent (next_order_id e) (rq_client rq) (rq_symbol rq)]
       else OrderAcceptedEvent (next_order_id e) (rq_client rq) (rq_symbol rq) # map TradeEvent (trades res)) \<and>
    (let m = eng_metrics e; m' = eng_metrics e' in
      orders_submitted m' = orders_submitted m + 1 \<and>
      orders_rejected m' = orders_rejected m + (if accepted res then 0 else 1) \<and>
      orders_queued m' = orders_queued m + (if queued res then 1 else 0) \<and>
      orders_accepted m' = orders_accepted m + (if accepted res \<and> \<not> queued res then 1 else 0) \<and>
      orders_expired m' = orders_expired m \<and>
      trades_executed m' = trades_executed m + of_nat (length (trades res)) \<and>
      volume_traded m' = volume_traded m + word_of_int (filled_quantity res))"
proof -
  have "engine_ok e" using engine_reachable_inv[OF assms(1)] by (simp add: engine_inv_def)
  then show ?thesis using submit_bookkeeping_full[OF _ assms(2,3)] by blast
qed

theorem submit_bookkeeping_witness:
  "engine_reachable demo_engine \<and> sane_price demo_take \<and>
   last_price (snd (the (submit_order 0 (\<lambda>_. 9) 5 demo_take demo_engine))) ''AAA'' = Fin 100 \<and>
   set (dirty_symbols (snd (the (submit_order 0 (\<lambda>_. 9) 5 demo_take demo_engine)))) = {''AAA''}"
  using submit_bookkeeping[OF demo_engine_reachable demo_sane(3) demo_take_eval, of "''AAA''"]
    demo_engine_reachable demo_sane(3)
  by (simp add: empty_result_def demo_take_def default_request_def) (simp add: demo_engine_eq)

text \<open>C9. Settlement is exact per client: a submission changes a client's holding of a symbol by what the
client bought minus what it sold in the trades of the result, and its cash by the same trades in
order, each paid or received as quantity times price in binary64.\<close>

theorem submit_settles:
  assumes "submit_order now clk lat rq e = Some (res, e')"
  shows "holding (portfolio_snapshot e' c) s = holding (portfolio_snapshot e c) s + net_bought c s (trades res) \<and>
    cash (portfolio_snapshot e' c) = cash_after c (cash (portfolio_snapshot e c)) (trades res)"
  using settle_all_view[where ts = "trades res" and ps = "portfolios e" and c = c] submit_portfolios[OF assms]
  by (simp add: portfolio_snapshot_def)

theorem submit_settles_witness:
  "holding (portfolio_snapshot (snd (the (submit_order 0 (\<lambda>_. 9) 5 demo_take demo_engine))) 1) ''AAA'' = 10 + - 3 \<and>
   cash (portfolio_snapshot (snd (the (submit_order 0 (\<lambda>_. 9) 5 demo_take demo_engine))) 2) = Fin 700"
  using submit_settles[OF demo_take_eval, of 1 "''AAA''"] submit_settles[OF demo_take_eval, of 2 "''AAA''"]
  by (simp add: empty_result_def net_bought_def Let_def)
    (simp add: demo_engine_eq portfolio_snapshot_def um_get_def holding_def dbl_of_int_def)

text \<open>C10. No operation on orders creates or destroys shares: over all portfolios together the holdings of
every symbol are the same before and after a submission and before and after a release of waiting
orders.\<close>

theorem shares_conserved:
  assumes "engine_reachable e"
  shows "(case submit_order now clk lat rq e of None \<Rightarrow> True
      | Some (_, e') \<Rightarrow> shares s (portfolios e') = shares s (portfolios e)) \<and>
    (case try_release_waiting_orders f now clk2 lat2 e of None \<Rightarrow> True
      | Some (_, e') \<Rightarrow> shares s (portfolios e') = shares s (portfolios e))"
proof
  have ok: "engine_ok e" "um_ok (portfolios e)"
    using engine_reachable_inv[OF assms] by (simp_all add: engine_inv_def engine_ok_def)
  show "case submit_order now clk lat rq e of None \<Rightarrow> True | Some (_, e') \<Rightarrow> shares s (portfolios e') = shares s (portfolios e)"
    using submit_portfolios[of now clk lat rq e] ok by (auto split: option.split)
  have "portfolios e' = settle_all (concat (map trades (released sm))) (portfolios e)"
    if r: "try_release_waiting_orders f now clk2 lat2 e = Some (sm, e')" for sm e'
    by (rule release_effect(2)[OF ok(1) r])
  then show "case try_release_waiting_orders f now clk2 lat2 e of None \<Rightarrow> True
      | Some (_, e') \<Rightarrow> shares s (portfolios e') = shares s (portfolios e)"
    using ok(2) by (auto split: option.split)
qed

theorem shares_conserved_witness:
  "engine_reachable demo_engine \<and> shares ''AAA'' (portfolios demo_engine) = 10 \<and>
   shares ''AAA'' (portfolios (snd (the (submit_order 0 (\<lambda>_. 9) 5 demo_take demo_engine)))) = 10"
  using shares_conserved[OF demo_engine_reachable, where now = 0 and clk = "\<lambda>_. 9" and lat = 5 and rq = demo_take and s = "''AAA''"]
    demo_engine_reachable
  by (subst (asm) demo_take_eval) (simp add: demo_engine_eq shares_def um_get_def holding_def)

text \<open>C11. A STOP order is side aware: it enters the book exactly when its symbol's price is at or above the
trigger for a BUY, at or below it for a SELL; the trigger is the request's upper trigger when given
and its price otherwise. The other kinds are held to the band of their two optional triggers.\<close>

theorem stop_trigger_side_aware:
  "release_band_contains (build_order rq i now) p =
     (case rq_kind rq of
        STOP \<Rightarrow> (let trigger = value_or (trigger_upper rq) (rq_price rq)
                 in if rq_side rq = BUY then trigger \<le> p else p \<le> trigger)
      | _ \<Rightarrow> p \<noteq> NaN \<and> (case trigger_lower rq of None \<Rightarrow> True | Some l \<Rightarrow> l \<le> p) \<and>
               (case trigger_upper rq of None \<Rightarrow> True | Some u \<Rightarrow> p \<le> u))"
proof -
  have inf: "NegInf \<le> p \<longleftrightarrow> p \<noteq> NaN" "p \<le> PosInf \<longleftrightarrow> p \<noteq> NaN" "l \<le> p \<Longrightarrow> p \<noteq> NaN" "p \<le> l \<Longrightarrow> p \<noteq> NaN" for l
    by (cases p; auto)+
  show ?thesis
    using inf by (auto simp: release_band_contains_def build_order_def release_bounds_def Let_def value_or_def
        split: order_kind.split option.split)
qed

section \<open>Releasing\<close>

text \<open>C12. A full scan is exact: it expires the waiting orders whose expiry date has come, releases those
that are not expired, have started and whose band contains their symbol's price at the scan, each
with an accepted result, in pool order, and keeps all the others waiting.\<close>

theorem full_scan_exact:
  assumes "engine_reachable e" "try_release_waiting_orders True now clk lat e = Some (sm, e')"
  shows "map result_order_id (released sm) =
      map oid (filter (\<lambda>x. releasable now (last_price e (osymbol x)) x) (all_waiting (registry e))) \<and>
    list_all accepted (released sm) \<and>
    expired sm = filter (expired_at now) (all_waiting (registry e)) \<and>
    all_waiting (registry e') = filter (\<lambda>x. keeps_waiting now (last_price e (osymbol x)) x) (all_waiting (registry e))"
proof -
  have ok: "engine_ok e" using engine_reachable_inv[OF assms(1)] by (simp add: engine_inv_def)
  then have reg: "reg_ok (registry e)" by (simp add: engine_ok_def)
  obtain rel ex r where sc: "scan_and_release now (last_price e) (registry e) = (rel, ex, r)" by (metis prod_cases3)
  note x = scan_and_release_exact[OF reg sc]
  have es: "engine_scan True now e = (rel, ex, e\<lparr>registry := r\<rparr>)" by (simp add: engine_scan_def sc)
  note f = release_effect[OF ok assms(2)]
  show ?thesis using f(1,3,4,5) es x by (simp add: list_all_iff)
qed

theorem full_scan_exact_witness:
  "engine_reachable demo_engine \<and>
   (\<exists>sm e'. try_release_waiting_orders True 0 (\<lambda>_ _. 0) (\<lambda>_. 0) demo_engine = Some (sm, e') \<and>
      expired sm = [] \<and> released sm = [] \<and> length (all_waiting (registry e')) = 1)"
proof -
  have ok: "engine_ok demo_engine" using engine_reachable_inv[OF demo_engine_reachable] by (simp add: engine_inv_def)
  obtain sm e' where r: "try_release_waiting_orders True 0 (\<lambda>_ _. 0) (\<lambda>_. 0) demo_engine = Some (sm, e')"
    using try_release_ok[OF ok] by blast
  have w: "all_waiting (registry demo_engine) = [build_order demo_stop 2 0]"
    by (simp add: demo_engine_eq all_waiting_def)
  have "expired sm = [] \<and> released sm = [] \<and> length (all_waiting (registry e')) = 1"
    using full_scan_exact[OF demo_engine_reachable r]
    by (simp add: w releasable_def keeps_waiting_def)
      (simp add: demo_engine_eq demo_requests engine_eval)
  then show ?thesis using r demo_engine_reachable by blast
qed



section \<open>Cancelling\<close>

text \<open>Cancelling at the engine: by id on a symbol's book it reports whether such an order rests there,
removes that order and touches neither the other books nor anything else; a waiting order is
cancelled exactly when it is in the pool, and then leaves it.\<close>

theorem engine_cancel_exact:
  assumes "engine_reachable e"
  shows "(\<exists>found e'. cancel_order s i e = Some (found, e') \<and>
      (found \<longleftrightarrow> (\<exists>b. map_of (books e) s = Some b \<and> (\<exists>x \<in> set (resting_orders b). oid x = i))) \<and>
      (\<forall>s'. engine_resting_orders e' s' = map_option (if s' = s then remove_first (\<lambda>x. oid x = i) else id) (engine_resting_orders e s')) \<and>
      e' = e\<lparr>books := books e'\<rparr>) \<and>
    (let (found, e') = cancel_waiting_order i e in
      (found \<longleftrightarrow> (\<exists>x \<in> set (all_waiting (registry e)). oid x = i)) \<and>
      mset (all_waiting (registry e')) = filter_mset (\<lambda>x. oid x \<noteq> i) (mset (all_waiting (registry e))) \<and>
      e' = e\<lparr>registry := registry e'\<rparr>)"
proof
  have inv: "engine_inv e" and ok: "engine_ok e" using engine_reachable_inv[OF assms] by (simp_all add: engine_inv_def)
  show "\<exists>found e'. cancel_order s i e = Some (found, e') \<and>
      (found \<longleftrightarrow> (\<exists>b. map_of (books e) s = Some b \<and> (\<exists>x \<in> set (resting_orders b). oid x = i))) \<and>
      (\<forall>s'. engine_resting_orders e' s' = map_option (if s' = s then remove_first (\<lambda>x. oid x = i) else id) (engine_resting_orders e s')) \<and>
      e' = e\<lparr>books := books e'\<rparr>"
    by (rule cancel_order_run[OF ok, of s i])
      (auto simp: engine_resting_orders_def symbol_exists_def book_for_def book_cancel_found book_cancel_orders
        option.map_id split: option.splits)
  show "let (found, e') = cancel_waiting_order i e in
      (found \<longleftrightarrow> (\<exists>x \<in> set (all_waiting (registry e)). oid x = i)) \<and>
      mset (all_waiting (registry e')) = filter_mset (\<lambda>x. oid x \<noteq> i) (mset (all_waiting (registry e))) \<and>
      e' = e\<lparr>registry := registry e'\<rparr>"
    by (rule cancel_waiting_effect[OF inv])
qed

theorem engine_cancel_exact_witness:
  "engine_reachable demo_engine \<and> fst (the (cancel_order ''AAA'' 1 demo_engine)) \<and>
   fst (cancel_waiting_order 2 demo_engine)"
  using engine_cancel_exact[OF demo_engine_reachable, of "''AAA''" 1]
    engine_cancel_exact[OF demo_engine_reachable, of "''AAA''" 2] demo_engine_reachable
  by (auto simp: Let_def split: prod.splits) (auto simp: demo_engine_eq resting_orders_def all_waiting_def)

section \<open>What the risk check does not guarantee\<close>

definition overdraw_engine :: engine where
  "overdraw_engine = snd (the (submit_order 0 (\<lambda>_. 0) 5
     (demo_sell\<lparr>rq_quantity := 1, rq_price := Fin 5000\<rparr>)
     (grant_initial_holdings 1 ''AAA'' 1
       (ensure_client 2 (Fin 200) (ensure_client 1 0 (register_symbol ''AAA'' (Fin 64) new_engine))))))"

lemma market_buffer_at_64:
  obtains v where "Fin 64 * kMarketOrderCashSafetyFactor = Fin v" "rnd v = Fin v" "v \<le> 200"
proof (rule that)
  have r: "rnd (of_int 2476979795053773 * 2 powi (- 45)) = Fin (of_int 2476979795053773 * 2 powi (- 45))"
    by (rule rnd_exact[of 2476979795053773 "- 45"]) auto
  then show "rnd (2476979795053773 * 2 powi (- 45)) = Fin (2476979795053773 * 2 powi (- 45))" by simp
  show "Fin 64 * kMarketOrderCashSafetyFactor = Fin (2476979795053773 * 2 powi (- 45))"
    using r by (simp add: kMarketOrderCashSafetyFactor_def rnd_eleven_tenths power_int_def power_divide)
  show "(2476979795053773 :: rat) * 2 powi (- 45) \<le> 200" by (simp add: power_int_def power_divide)
qed

lemma overdraw_engine_eq:
  "portfolios overdraw_engine = [(1, \<lparr>cash = Fin 0, holdings = [(''AAA'', 1)]\<rparr>), (2, \<lparr>cash = Fin 200, holdings = []\<rparr>)]"
  "last_prices overdraw_engine = [(''AAA'', Fin 64)]"
  "books overdraw_engine = [(''AAA'', \<lparr>bk_symbol = ''AAA'', bids = [],
     asks = [(Fin 5000, [build_order (demo_sell\<lparr>rq_quantity := 1, rq_price := Fin 5000\<rparr>) 1 0])]\<rparr>)]"
  by (simp_all add: overdraw_engine_def demo_requests engine_eval)

text \<open>The cash check of a MARKET BUY bounds the price by 1.1 times the last price, not by the book: with
one share resting at 5000 and a last price of 64, a client with 200 in cash buys it and is left with
a balance of -4800.\<close>

theorem market_buy_overdraws:
  "cash (portfolio_snapshot overdraw_engine 2) = Fin 200 \<and>
   cash (portfolio_snapshot (snd (the (submit_order 0 (\<lambda>_. 0) 5
     (default_request\<lparr>rq_client := 2, rq_kind := MARKET, rq_symbol := ''AAA'', rq_quantity := 1\<rparr>) overdraw_engine))) 2) = Fin (- 4800)"
proof -
  obtain v where v: "Fin 64 * kMarketOrderCashSafetyFactor = Fin v" "rnd v = Fin v" "v \<le> 200" by (rule market_buffer_at_64)
  let ?rq = "default_request\<lparr>rq_client := 2, rq_kind := MARKET, rq_symbol := ''AAA'', rq_quantity := 1\<rparr>"
  have "reject_text ?rq overdraw_engine = []"
    by (simp add: reject_text_def symbol_exists_def overdraw_engine_eq default_request_def)
  moreover have "risk_ok ?rq overdraw_engine"
    using v(3) by (auto simp: risk_ok_def passes_risk_check_def overdraw_engine_eq default_request_def last_price_def
        um_get_def Let_def dbl_of_int_def v(1,2))
  moreover have "released_at_once 0 ?rq overdraw_engine"
    by (simp add: released_at_once_def build_order_def release_bounds_def started_at_def after_seconds_def
        default_request_def value_or_def Let_def release_band_contains_def last_price_def um_get_def overdraw_engine_eq)
  ultimately have s: "submit_order 0 (\<lambda>_. 0) 5 ?rq overdraw_engine =
    match_and_settle (\<lambda>_. 0) 5 (build_order ?rq (next_order_id overdraw_engine) 0) (drawn overdraw_engine)"
    by (simp add: submit_order_eq)
  show ?thesis unfolding s
    by (simp add: match_and_settle_def overdraw_engine_eq book_for_def default_request_def book_match_def
        match_incoming_buy_def match_levels.simps(2) fill_queue.simps(2) demo_sell_def Let_def apply_trades
        portfolio_snapshot_def publish_def upd_metrics_def settle_trade_def um_modify_def um_get_def buy_trade_def
        dbl_of_int_def add_holding_def)
qed

end
