(* ===== verification/ComponentProps.thy ===== *)
theory ComponentProps
  imports Portfolio OrderRegistry Metrics Notification
begin

text \<open>
  The properties of the components the engine is built from: the waiting pool, portfolios, the
  metrics and the notification bus, over the lemmas of their theories.
\<close>

section \<open>The waiting pool\<close>

definition sample_wait :: "order_id \<Rightarrow> symbol \<Rightarrow> price \<Rightarrow> time option \<Rightarrow> order" where
  "sample_wait i s p e = \<lparr>oid = i, client = 1, side = BUY, kind = STOP, osymbol = s, qty = 1, price = p,
     release_lower = p, release_upper = PosInf, submitted_at = 0, not_before = None, expires_at = e\<rparr>"

definition sample_registry :: order_registry where
  "sample_registry = reg_add (sample_wait 3 ''BBB'' (Fin 7) None)
     (reg_add (sample_wait 2 ''AAA'' (Fin 110) (Some 50)) (reg_add (sample_wait 1 ''AAA'' (Fin 105) None) empty_registry))"

lemma sample_registry_eq:
  "sample_registry = \<lparr>waiting_by_symbol = [(''AAA'', [(1, sample_wait 1 ''AAA'' (Fin 105) None),
       (2, sample_wait 2 ''AAA'' (Fin 110) (Some 50))]), (''BBB'', [(3, sample_wait 3 ''BBB'' (Fin 7) None)])],
     order_symbol_index = [(1, ''AAA''), (2, ''AAA''), (3, ''BBB'')]\<rparr>"
  by (simp add: sample_registry_def reg_add_def sample_wait_def empty_registry_def um_modify_def um_get_def um_emplace_def)

lemma sample_registry_ok: "reg_ok sample_registry"
  by (simp add: sample_registry_eq reg_ok_def bucket_ok_def sample_wait_def)

text \<open>A scan of one symbol decides that symbol's waiting orders and no others: every order of the pool
ends up exactly once released, expired or still waiting; the released ones are that symbol's orders
that are not expired, have started and whose band contains the reference price, the expired ones
those whose expiry date has come; none of that symbol's remaining orders could have gone; and the
index still agrees with the buckets.\<close>

theorem symbol_scan_exact:
  assumes "reg_ok r"
  shows "(let (rel, ex, r') = scan_and_release_symbol s now ref r in
    reg_ok r' \<and>
    mset (all_waiting r) = mset rel + mset ex + mset (all_waiting r') \<and>
    mset rel = mset (filter (\<lambda>x. osymbol x = s \<and> releasable now (ref s) x) (all_waiting r)) \<and>
    mset ex = mset (filter (\<lambda>x. osymbol x = s \<and> expired_at now x) (all_waiting r)) \<and>
    (\<forall>x \<in> set (all_waiting r'). osymbol x \<noteq> s \<or> keeps_waiting now (ref s) x))"
proof -
  obtain rel ex r' where s: "scan_and_release_symbol s now ref r = (rel, ex, r')" by (metis prod_cases3)
  note x = scan_symbol_exact[OF assms s]
  have "\<forall>x \<in> set (all_waiting r'). osymbol x \<noteq> s \<or> keeps_waiting now (ref s) x" using x(5) by blast
  then show ?thesis unfolding s Let_def prod.case by (intro conjI x)
qed

theorem symbol_scan_exact_witness:
  "reg_ok sample_registry \<and>
   (let (rel, ex, r') = scan_and_release_symbol ''AAA'' 60 (\<lambda>_. Fin 106) sample_registry in
      map oid rel = [1] \<and> map oid ex = [2] \<and> reg_ok r')"
  using symbol_scan_exact[OF sample_registry_ok, of "''AAA''" 60 "\<lambda>_. Fin 106"] sample_registry_ok
  by (simp add: scan_and_release_symbol_def sample_registry_eq Let_def)
    (simp add: sample_wait_def expired_at_def started_at_def release_band_contains_def)

text \<open>Adding an order under a fresh id and cancelling it by that id brings the pool back to the same
orders and the same size, and the cancel reports success.\<close>

theorem registry_add_cancel:
  assumes "reg_ok r" "\<forall>x \<in> set (all_waiting r). oid x \<noteq> oid y"
  shows "fst (reg_cancel (oid y) (reg_add y r)) \<and>
    mset (all_waiting (snd (reg_cancel (oid y) (reg_add y r)))) = mset (all_waiting r) \<and>
    reg_size (reg_add y r) = Suc (reg_size r)"
  using pool.cancel_undoes_add[of r y] pool.count_add[of r y] assms by simp

theorem registry_add_cancel_witness:
  "reg_ok sample_registry \<and> fst (reg_cancel 9 (reg_add (sample_wait 9 ''AAA'' (Fin 1) None) sample_registry))"
  using registry_add_cancel[OF sample_registry_ok, of "sample_wait 9 ''AAA'' (Fin 1) None"] sample_registry_ok
  by (simp add: sample_registry_eq all_waiting_def sample_wait_def)

section \<open>Money\<close>

text \<open>Settlement pays the seller what it charges the buyer: the total cash of all clients changes at
most by the rounding of one subtraction and one addition (half a unit in the last place each), the
shares of every symbol not at all.\<close>

theorem settlement_conserves:
  assumes "um_ok ps" "buyer t \<noteq> seller t"
    and "dbl_of_int (tqty t) * tprice t = Fin n"
    and "cash (um_get empty_portfolio ps (buyer t)) = Fin cb" "cash (um_get empty_portfolio ps (seller t)) = Fin cs"
    and "rnd (cb - n) = Fin rb" "rnd (cs + n) = Fin rs"
  shows "\<bar>total_cash (settle_trade t ps) - total_cash ps\<bar> \<le> half_ulp (cb - n) + half_ulp (cs + n) \<and>
    shares s (settle_trade t ps) = shares s ps"
  using settle_cash_error[OF assms] assms(1) by simp

definition sample_portfolios :: portfolios where
  "sample_portfolios = [(1, \<lparr>cash = Fin 0, holdings = [(''AAA'', 10)]\<rparr>), (2, \<lparr>cash = Fin 1000, holdings = []\<rparr>)]"

definition sample_trade :: trade where
  "sample_trade = \<lparr>buy_order_id = 2, sell_order_id = 1, buyer = 2, seller = 1, tsymbol = ''AAA'', tqty = 3,
     tprice = Fin 100, timestamp = 0\<rparr>"

theorem settlement_conserves_witness:
  "um_ok sample_portfolios \<and> shares ''AAA'' (settle_trade sample_trade sample_portfolios) = 10"
  using settlement_conserves[of sample_portfolios sample_trade 300 1000 0 700 300 "''AAA''"]
  by (simp add: sample_portfolios_def sample_trade_def um_get_def dbl_of_int_def shares_def holding_def)

section \<open>Metrics\<close>

definition record_all :: "64 word list \<Rightarrow> latency_histogram" where
  "record_all us = foldl (\<lambda>h u. record_latency u h) new_histogram us"

text \<open>The half-open range of microseconds the code counts in bucket \<open>i\<close>.\<close>

definition in_bucket :: "nat \<Rightarrow> 64 word \<Rightarrow> bool" where
  "in_bucket i u \<longleftrightarrow> (if i = 0 then True else bucket_bounds_us ! (i - 1) \<le> sint u) \<and> sint u < bucket_bounds_us ! i"

lemma fold_record_ok: "hist_ok h \<Longrightarrow> hist_ok (foldl (\<lambda>h u. record_latency u h) h us)"
  by (induction us arbitrary: h) (auto intro: record_latency_ok)

lemma fold_record_bucket:
  "hist_ok h \<Longrightarrow> i < 7 \<Longrightarrow> hist_buckets (foldl (\<lambda>h u. record_latency u h) h us) ! i =
     hist_buckets h ! i + of_nat (length (filter (in_bucket i) us))"
proof (induction us arbitrary: h)
  case (Cons u us)
  then show ?case using Cons.IH[OF record_latency_ok[OF Cons.prems(1), of u]]
      record_latency_bucket[OF Cons.prems, of u] by (simp add: in_bucket_def)
qed simp

lemma fold_record_count:
  "hist_count (foldl (\<lambda>h u. record_latency u h) h us) = hist_count h + of_nat (length us)"
  by (induction us arbitrary: h) (auto simp: record_latency_def Let_def split: option.splits)

text \<open>The latency histogram counts every sample once: after any samples the count is their number
(modulo 2^64), bucket \<open>i\<close> holds the number of samples in its range, and the buckets with the
overflow bucket sum to the count.\<close>

theorem histogram_counts:
  "hist_count (record_all us) = of_nat (length us) \<and>
   list_all (\<lambda>i. hist_buckets (record_all us) ! i = of_nat (length (filter (in_bucket i) us))) [0..<7] \<and>
   hist_count (record_all us) = sum_list (hist_buckets (record_all us)) + hist_overflow (record_all us)"
proof (intro conjI)
  show "hist_count (record_all us) = of_nat (length us)"
    unfolding record_all_def fold_record_count by (simp add: new_histogram_def)
  have "hist_buckets (record_all us) ! i = of_nat (length (filter (in_bucket i) us))" if "i < 7" for i
    unfolding record_all_def fold_record_bucket[OF new_histogram_ok that] using that by (simp add: new_histogram_def)
  then show "list_all (\<lambda>i. hist_buckets (record_all us) ! i = of_nat (length (filter (in_bucket i) us))) [0..<7]"
    by (simp add: list_all_iff)
  show "hist_count (record_all us) = sum_list (hist_buckets (record_all us)) + hist_overflow (record_all us)"
    using fold_record_ok[OF new_histogram_ok, of us] by (simp add: record_all_def hist_ok_def)
qed

section \<open>The notification bus\<close>

text \<open>C14. No event is lost, duplicated or reordered on the bus: in every reachable interleaving of
publishers, subscribers and the worker, what was published is what was fully dispatched, then the
event in the worker's hands, then the queue; and every subscriber has received, in order, exactly the
events dispatched since it subscribed (and the current one once it was called with it).\<close>

theorem bus_delivers_in_order:
  assumes "bus_reachable b"
  shows "history b = dispatched b @ current (worker b) @ queue b \<and>
    in_flight b = length (current (worker b)) \<and>
    list_all (\<lambda>(i, s). received s = drop (joined s) (dispatched b) @ already_given i (worker b)) (subscribers b)"
  using reachable_ok[OF assms] by (auto simp: bus_ok_def list_all_iff)

definition sample_bus :: bus where
  "sample_bus = bus_publish (OrderAcceptedEvent 1 1 ''AAA'') (snd (bus_subscribe new_bus))"

lemma sample_bus_reachable: "bus_reachable sample_bus"
  unfolding sample_bus_def
  by (intro reach_step[OF _ step_publish] reach_step[OF _ step_subscribe] reach_new) (simp add: new_bus_def)

theorem bus_delivers_in_order_witness:
  "bus_reachable sample_bus \<and> history sample_bus = [OrderAcceptedEvent 1 1 ''AAA''] \<and>
   history sample_bus = dispatched sample_bus @ current (worker sample_bus) @ queue sample_bus"
  using bus_delivers_in_order[OF sample_bus_reachable] sample_bus_reachable
  by (simp add: sample_bus_def bus_publish_def bus_subscribe_def new_bus_def)

text \<open>When \<open>flush\<close> returns, every event published so far was delivered to every subscriber that was
there for it; and when the worker thread ends, at destruction, nothing is left undelivered either.\<close>

theorem flush_means_delivered:
  assumes "bus_reachable b"
  shows "(if flush_returns b then dispatched b = history b \<and>
       list_all (\<lambda>(i, s). received s = drop (joined s) (history b)) (subscribers b) else True) \<and>
    (case worker_step b of None \<Rightarrow> True
     | Some b' \<Rightarrow> if worker b' = Returned then dispatched b' = history b' else True)"
proof -
  have ok: "bus_ok b" by (rule reachable_ok[OF assms])
  have given: "already_given i (worker b) = []" if "flush_returns b" for i
    using that ok by (cases "worker b") (auto simp: bus_ok_def flush_returns_def)
  have "list_all (\<lambda>(i, s). received s = drop (joined s) (history b)) (subscribers b)" if f: "flush_returns b"
    using ok given[OF f] flush_all_dispatched[OF ok f] by (auto simp: bus_ok_def list_all_iff)
  then show ?thesis
    using flush_all_dispatched[OF ok] returned_all_dispatched[OF ok] by (auto split: option.split)
qed

theorem flush_means_delivered_witness:
  "bus_reachable sample_bus \<and> \<not> flush_returns sample_bus \<and> worker_step sample_bus \<noteq> None"
  using flush_means_delivered[OF sample_bus_reachable] sample_bus_reachable
  by (simp add: sample_bus_def bus_publish_def bus_subscribe_def new_bus_def flush_returns_def worker_step.simps)

text \<open>\<open>flush\<close> cannot wait for ever while nobody publishes: from every reachable state in which the
worker has not returned, the worker alone reaches a state in which \<open>flush\<close> returns, in at most
\<open>worker_left\<close> steps, having dispatched everything that was published.\<close>

theorem bus_drains:
  assumes "bus_reachable b" "worker b \<noteq> Returned"
  shows "flush_returns (worker_run (worker_left b) b) \<and> dispatched (worker_run (worker_left b) b) = history b"
  using worker_run_drains[OF reachable_ok[OF assms(1)] assms(2) order_refl] flush_all_dispatched by metis

theorem bus_drains_witness:
  "bus_reachable sample_bus \<and> worker sample_bus \<noteq> Returned \<and>
   dispatched (worker_run (worker_left sample_bus) sample_bus) = [OrderAcceptedEvent 1 1 ''AAA'']"
  using bus_drains[OF sample_bus_reachable] sample_bus_reachable
  by (simp add: sample_bus_def bus_publish_def bus_subscribe_def new_bus_def)

end
