(* ===== verification/Text.thy ===== *)
theory Text
  imports Types
begin

text \<open>
  Strings as the code reads and writes them: whitespace-separated tokens (\<open>istringstream >> token\<close>),
  delimiter-separated fields (\<open>getline\<close>), \<open>KEY=VALUE\<close> cuts, the standard library's conversions from
  text to numbers (\<open>stoi\<close>, \<open>stoll\<close>, \<open>stoull\<close>, \<open>stod\<close>) and from numbers to text (\<open>operator<<\<close> of
  integers, and of doubles at a precision). A conversion that throws is \<open>None\<close>. Characters are those
  of the C locale.
\<close>

section \<open>Characters, tokens and fields\<close>

definition is_space :: "char \<Rightarrow> bool" where
  "is_space c \<longleftrightarrow> of_char c = (32 :: nat) \<or> 9 \<le> (of_char c :: nat) \<and> of_char c \<le> (13 :: nat)"

lemma is_space_blank [simp]: "is_space CHR '' ''"
  by (simp add: is_space_def)

definition newline :: char where "newline = CHR 0x0A"

fun words_from :: "string \<Rightarrow> string \<Rightarrow> string list" where
  "words_from w [] = (if w = [] then [] else [w])"
| "words_from w (c # cs) =
     (if is_space c then (if w = [] then words_from [] cs else w # words_from [] cs)
      else words_from (w @ [c]) cs)"

text \<open>The loop \<open>while (iss >> token) tokens.push_back(token)\<close>.\<close>

definition split :: "string \<Rightarrow> string list" where
  "split line = words_from [] line"

fun join_words :: "string list \<Rightarrow> string" where
  "join_words [] = []"
| "join_words [w] = w"
| "join_words (w # ws) = w @ '' '' @ join_words ws"

definition is_word :: "string \<Rightarrow> bool" where
  "is_word w \<longleftrightarrow> w \<noteq> [] \<and> (\<forall>c \<in> set w. \<not> is_space c)"

lemma words_from_word: "\<forall>c \<in> set w. \<not> is_space c \<Longrightarrow> words_from v (w @ cs) = words_from (v @ w) cs"
  by (induction w arbitrary: v) auto

lemma split_join: "\<forall>w \<in> set ws. is_word w \<Longrightarrow> split (join_words ws) = ws"
proof (induction ws rule: join_words.induct)
  case (2 w)
  then show ?case using words_from_word[of w "[]" "[]"] by (simp add: split_def is_word_def)
next
  case (3 w v vs)
  have "words_from [] (w @ '' '' @ join_words (v # vs)) = w # words_from [] (join_words (v # vs))"
    using 3 by (subst words_from_word) (auto simp: is_word_def)
  then show ?case using 3 by (simp add: split_def)
qed (simp add: split_def)

lemma words_from_are_words:
  "(\<forall>c \<in> set v. \<not> is_space c) \<Longrightarrow> w \<in> set (words_from v cs) \<Longrightarrow> is_word w"
proof (induction v cs rule: words_from.induct)
  case (1 v)
  then show ?case by (simp add: is_word_def split: if_splits)
next
  case (2 v c cs)
  show ?case
  proof (cases "is_space c")
    case True
    then show ?thesis using 2 by (cases "v = []") (auto simp: is_word_def)
  next
    case False
    then show ?thesis using 2 by simp
  qed
qed

lemma split_words: "w \<in> set (split line) \<Longrightarrow> is_word w"
  unfolding split_def by (rule words_from_are_words) auto

text \<open>
  \<open>while (getline(stream, field, sep))\<close>: the fields between separators; a separator at the end of
  the input does not open another field.
\<close>

fun split_on_from :: "char \<Rightarrow> string \<Rightarrow> string \<Rightarrow> string list" where
  "split_on_from sep w [] = (if w = [] then [] else [w])"
| "split_on_from sep w (c # cs) = (if c = sep then w # split_on_from sep [] cs else split_on_from sep (w @ [c]) cs)"

definition split_on :: "char \<Rightarrow> string \<Rightarrow> string list" where
  "split_on sep line = split_on_from sep [] line"

lemma split_on_from_field: "sep \<notin> set w \<Longrightarrow> split_on_from sep v (w @ cs) = split_on_from sep (v @ w) cs"
  by (induction w arbitrary: v) auto

lemma split_on_cons: "sep \<notin> set w \<Longrightarrow> split_on sep (w @ sep # cs) = w # split_on sep cs"
  by (simp add: split_on_def split_on_from_field)

lemma split_on_lines: "\<forall>w \<in> set ws. sep \<notin> set w \<Longrightarrow> split_on sep (concat (map (\<lambda>w. w @ [sep]) ws)) = ws"
  by (induction ws) (auto simp: split_on_cons, simp add: split_on_def)

text \<open>\<open>find\<close> and the two \<open>substr\<close> around a separator.\<close>

fun cut_at :: "char \<Rightarrow> string \<Rightarrow> (string \<times> string) option" where
  "cut_at sep [] = None"
| "cut_at sep (c # cs) =
     (if c = sep then Some ([], cs)
      else case cut_at sep cs of None \<Rightarrow> None | Some (k, v) \<Rightarrow> Some (c # k, v))"

lemma cut_at_append: "sep \<notin> set k \<Longrightarrow> cut_at sep (k @ sep # v) = Some (k, v)"
  by (induction k) auto

lemma cut_at_None: "cut_at sep s = None \<longleftrightarrow> sep \<notin> set s"
  by (induction s) (auto split: option.splits)

lemma cut_at_Some: "cut_at sep s = Some (k, v) \<Longrightarrow> s = k @ sep # v \<and> sep \<notin> set k"
  by (induction s arbitrary: k) (auto split: option.splits if_splits)

section \<open>Integers\<close>

definition is_digit :: "char \<Rightarrow> bool" where
  "is_digit c \<longleftrightarrow> 48 \<le> (of_char c :: nat) \<and> of_char c \<le> (57 :: nat)"

definition digit_val :: "char \<Rightarrow> int" where
  "digit_val c = int (of_char c) - 48"

definition digits_val :: "string \<Rightarrow> int" where
  "digits_val ds = foldl (\<lambda>n c. 10 * n + digit_val c) 0 ds"

definition digit_char :: "nat \<Rightarrow> char" where
  "digit_char n = char_of (48 + n)"

fun show_nat :: "nat \<Rightarrow> string" where
  "show_nat n = (if n < 10 then [digit_char n] else show_nat (n div 10) @ [digit_char (n mod 10)])"

declare show_nat.simps [simp del]

definition show_int :: "int \<Rightarrow> string" where
  "show_int n = (if n < 0 then ''-'' @ show_nat (nat (- n)) else show_nat (nat n))"

definition show_word :: "'a::len word \<Rightarrow> string" where
  "show_word w = show_nat (unat w)"

text \<open>Leading white space, an optional sign, and at least one digit; whatever follows is ignored.\<close>

definition scan_sign :: "string \<Rightarrow> bool \<times> string" where
  "scan_sign s = (case s of [] \<Rightarrow> (False, s)
     | c # cs \<Rightarrow> if c = CHR ''-'' then (True, cs) else if c = CHR ''+'' then (False, cs) else (False, s))"

definition scan_int :: "string \<Rightarrow> (bool \<times> int \<times> string) option" where
  "scan_int s =
     (let (neg, r) = scan_sign (dropWhile is_space s); ds = takeWhile is_digit r
      in if ds = [] then None else Some (neg, digits_val ds, dropWhile is_digit r))"

definition signed_in :: "nat \<Rightarrow> string \<Rightarrow> int option" where
  "signed_in w s = (case scan_int s of None \<Rightarrow> None
     | Some (neg, n, _) \<Rightarrow>
         (let v = (if neg then - n else n) in if - (2 ^ (w - 1)) \<le> v \<and> v < 2 ^ (w - 1) then Some v else None))"

abbreviation stoll :: "string \<Rightarrow> int option" where "stoll \<equiv> signed_in 64"

abbreviation stoi :: "string \<Rightarrow> int option" where "stoi \<equiv> signed_in 32"

text \<open>A minus sign negates the value modulo \<open>2 ^ 64\<close>; the range test is on the magnitude.\<close>

definition stoull :: "string \<Rightarrow> 64 word option" where
  "stoull s = (case scan_int s of None \<Rightarrow> None
     | Some (neg, n, _) \<Rightarrow> if n < 2 ^ 64 then Some (if neg then - word_of_int n else word_of_int n) else None)"

lemma digit_char_ok: "n < 10 \<Longrightarrow> is_digit (digit_char n) \<and> digit_val (digit_char n) = int n"
  by (simp add: is_digit_def digit_val_def digit_char_def)

lemma digit_char_inj: "m < 10 \<Longrightarrow> n < 10 \<Longrightarrow> digit_char m = digit_char n \<longleftrightarrow> m = n"
  by (metis digit_char_ok of_nat_eq_iff)

lemma is_digit_facts: "is_digit c \<Longrightarrow> \<not> is_space c \<and> c \<noteq> CHR ''-'' \<and> c \<noteq> CHR ''+'' \<and> c \<noteq> CHR ''.'' \<and> c \<noteq> CHR ''=''"
  by (auto simp: is_digit_def is_space_def)

lemma is_digit_nonsign [simp]: "\<not> is_digit CHR ''-''" "\<not> is_space CHR ''-''"
  by (simp_all add: is_digit_def is_space_def)

lemma digits_val_snoc: "digits_val (ds @ [c]) = 10 * digits_val ds + digit_val c"
  by (simp add: digits_val_def)

lemma digits_val_Nil [simp]: "digits_val [] = 0"
  by (simp add: digits_val_def)

lemma show_nat_ne [simp]: "show_nat n \<noteq> []"
  by (subst show_nat.simps) simp

lemma show_nat_ok: "(\<forall>c \<in> set (show_nat n). is_digit c) \<and> digits_val (show_nat n) = int n"
proof (induction n rule: show_nat.induct)
  case (1 n)
  show ?case
  proof (cases "n < 10")
    case True
    then show ?thesis using digit_char_ok[of n] digits_val_snoc[of "[]"] by (simp add: show_nat.simps[of n])
  next
    case False
    then show ?thesis using 1 digit_char_ok[of "n mod 10"]
      by (simp add: show_nat.simps[of n] digits_val_snoc ball_Un zmod_int zdiv_int)
  qed
qed

lemma takeWhile_show_nat:
  assumes "rest = [] \<or> \<not> is_digit (hd rest)"
  shows "takeWhile is_digit (show_nat n @ rest) = show_nat n \<and> dropWhile is_digit (show_nat n @ rest) = rest"
proof -
  have "\<forall>c \<in> set (show_nat n). is_digit c" using show_nat_ok by blast
  then show ?thesis using assms
    by (cases rest) (simp_all add: takeWhile_append2 dropWhile_append2 takeWhile_eq_all_conv)
qed

lemma hd_show_nat: "is_digit (hd (show_nat n))"
  using show_nat_ok[of n] by (simp add: hd_in_set)

lemma scan_int_show_int:
  assumes "rest = [] \<or> \<not> is_digit (hd rest)"
  shows "scan_int (show_int n @ rest) = Some (n < 0, \<bar>n\<bar>, rest)"
proof (cases "n < 0")
  case True
  then show ?thesis using takeWhile_show_nat[OF assms, of "nat (- n)"] show_nat_ok[of "nat (- n)"]
    by (simp add: scan_int_def show_int_def scan_sign_def)
next
  case False
  obtain c cs where cs: "show_nat (nat n) = c # cs" "is_digit c"
    using hd_show_nat[of "nat n"] by (cases "show_nat (nat n)") auto
  then have "scan_sign (dropWhile is_space (show_nat (nat n) @ rest)) = (False, show_nat (nat n) @ rest)"
    using is_digit_facts[OF cs(2)] by (simp add: scan_sign_def)
  then show ?thesis using False takeWhile_show_nat[OF assms, of "nat n"] show_nat_ok[of "nat n"]
    by (simp add: scan_int_def show_int_def)
qed

lemma stoll_show_int:
  assumes "- (2 ^ 63) \<le> n" "n < 2 ^ 63" "rest = [] \<or> \<not> is_digit (hd rest)"
  shows "stoll (show_int n @ rest) = Some n"
  using assms(1,2) scan_int_show_int[OF assms(3), of n] by (simp add: signed_in_def Let_def abs_if split: if_splits)

lemma stoull_show_word:
  assumes "rest = [] \<or> \<not> is_digit (hd rest)"
  shows "stoull (show_word (w :: 64 word) @ rest) = Some w"
proof -
  have "show_word w = show_int (int (unat w))" by (simp add: show_word_def show_int_def)
  moreover have "int (unat w) < 2 ^ 64" using unsigned_less[of w, where 'a = int] by simp
  ultimately show ?thesis using scan_int_show_int[OF assms, of "int (unat w)"]
    by (simp add: stoull_def)
qed

lemma is_word_show_nat: "is_word (show_nat n)"
  using show_nat_ok[of n] is_digit_facts by (auto simp: is_word_def)

lemma is_word_show_int: "is_word (show_int n)"
  using is_word_show_nat by (auto simp: show_int_def is_word_def)

lemma show_int_inject: "show_int m = show_int n \<longleftrightarrow> m = n"
proof
  assume "show_int m = show_int n"
  then have "scan_int (show_int m @ []) = scan_int (show_int n @ [])" by simp
  then have "(m < 0, \<bar>m\<bar>) = (n < 0, \<bar>n\<bar>)"
    using scan_int_show_int[of "[]" m] scan_int_show_int[of "[]" n] by simp
  then show "m = n" by (auto simp: abs_if split: if_splits)
qed simp

section \<open>Doubles from text\<close>

definition lower :: "char \<Rightarrow> char" where
  "lower c = (case map_of (zip ''ABCDEFGHIJKLMNOPQRSTUVWXYZ'' ''abcdefghijklmnopqrstuvwxyz'') c of
     None \<Rightarrow> c | Some d \<Rightarrow> d)"

definition has_prefix :: "string \<Rightarrow> string \<Rightarrow> bool" where
  "has_prefix p s \<longleftrightarrow> map lower (take (length p) s) = p"

definition hex_digits :: string where "hex_digits = ''0123456789abcdef''"

definition hex_val :: "char \<Rightarrow> int" where
  "hex_val c = int (length (takeWhile (\<lambda>d. d \<noteq> lower c) hex_digits))"

definition is_hex :: "char \<Rightarrow> bool" where
  "is_hex c \<longleftrightarrow> lower c \<in> set hex_digits"

text \<open>An exponent: its marker, an optional sign and at least one digit, or nothing.\<close>

definition scan_exponent :: "char \<Rightarrow> string \<Rightarrow> int \<times> string" where
  "scan_exponent mark s = (case s of [] \<Rightarrow> (0, s)
     | c # cs \<Rightarrow>
         if lower c \<noteq> mark then (0, s)
         else (let (neg, r) = scan_sign cs; ds = takeWhile is_digit r
               in if ds = [] then (0, s)
                  else ((if neg then - digits_val ds else digits_val ds), dropWhile is_digit r)))"

text \<open>Digits with an optional point: the digits before and after it, and what follows.\<close>

definition scan_mantissa :: "(char \<Rightarrow> bool) \<Rightarrow> string \<Rightarrow> string \<times> string \<times> string" where
  "scan_mantissa D s =
     (let ip = takeWhile D s; r = dropWhile D s
      in case r of c # cs \<Rightarrow> if c = CHR ''.'' then (ip, takeWhile D cs, dropWhile D cs) else (ip, [], r)
         | [] \<Rightarrow> (ip, [], r))"

definition scan_decimal :: "string \<Rightarrow> (rat \<times> string) option" where
  "scan_decimal s =
     (let (ip, fp, r) = scan_mantissa is_digit s
      in if ip @ fp = [] then None
         else (let (x, r') = scan_exponent CHR ''e'' r
               in Some (of_int (digits_val (ip @ fp)) * 10 powi (x - int (length fp)), r')))"

definition scan_hex :: "string \<Rightarrow> (rat \<times> string) option" where
  "scan_hex s =
     (let (ip, fp, r) = scan_mantissa is_hex s
      in if ip @ fp = [] then None
         else (let (x, r') = scan_exponent CHR ''p'' r
               in Some (of_int (foldl (\<lambda>n c. 16 * n + hex_val c) 0 (ip @ fp)) * 2 powi (x - 4 * int (length fp)), r')))"

text \<open>The unsigned part of what \<open>strtod\<close> accepts: infinities, NaN, hexadecimal and decimal numbers.\<close>

datatype scanned = Inf_text | NaN_text | Number rat

definition scan_unsigned :: "string \<Rightarrow> (scanned \<times> string) option" where
  "scan_unsigned s =
     (if has_prefix ''infinity'' s then Some (Inf_text, drop 8 s)
      else if has_prefix ''inf'' s then Some (Inf_text, drop 3 s)
      else if has_prefix ''nan'' s then Some (NaN_text, drop 3 s)
      else case (if has_prefix ''0x'' s then scan_hex (drop 2 s) else None) of
             Some (x, r) \<Rightarrow> Some (Number x, r)
           | None \<Rightarrow> (case scan_decimal s of None \<Rightarrow> None | Some (x, r) \<Rightarrow> Some (Number x, r)))"

text \<open>
  \<open>std::stod\<close>: the value correctly rounded; it throws when there is no number, when the result
  overflows, and when it is inexact in the subnormal range (glibc reports both through \<open>ERANGE\<close>).
\<close>

definition in_range :: "rat \<Rightarrow> bool" where
  "in_range x \<longleftrightarrow> (case rnd x of Fin r \<Rightarrow> r = x \<or> 2 powi (-1022) \<le> \<bar>r\<bar> | _ \<Rightarrow> False)"

definition stod :: "string \<Rightarrow> double option" where
  "stod s =
     (let (neg, r) = scan_sign (dropWhile is_space s)
      in case scan_unsigned r of
           None \<Rightarrow> None
         | Some (Inf_text, _) \<Rightarrow> Some (if neg then NegInf else PosInf)
         | Some (NaN_text, _) \<Rightarrow> Some NaN
         | Some (Number x, _) \<Rightarrow>
             (let y = (if neg then - x else x) in if in_range y then Some (rnd y) else None))"

section \<open>Doubles to text\<close>

text \<open>The decimal exponent of a positive number, from the digits of its integer part or reciprocal.\<close>

definition flog10 :: "rat \<Rightarrow> int" where
  "flog10 x = (if 1 \<le> x then int (length (show_nat (nat \<lfloor>x\<rfloor>))) - 1
     else - int (length (show_nat (nat (\<lceil>1 / x\<rceil> - 1)))))"

text \<open>\<open>p\<close> significant digits, rounded half to even, with the exponent of the first digit.\<close>

definition significant :: "nat \<Rightarrow> rat \<Rightarrow> nat \<times> int" where
  "significant p x =
     (let e = flog10 x; d = nat (round_even (x / 10 powi (e - int p + 1)))
      in if d = 10 ^ p then (10 ^ (p - 1), e + 1) else (d, e))"

definition strip_zeros :: "string \<Rightarrow> string" where
  "strip_zeros s = rev (dropWhile (\<lambda>c. c = CHR ''0'') (rev s))"

definition with_fraction :: "string \<Rightarrow> string \<Rightarrow> string" where
  "with_fraction ip fp = (if fp = [] then ip else ip @ ''.'' @ fp)"

definition show_exponent :: "int \<Rightarrow> string" where
  "show_exponent e = ''e'' @ (if e < 0 then ''-'' else ''+'') @
     (let ds = show_nat (nat \<bar>e\<bar>) in if length ds < 2 then ''0'' @ ds else ds)"

definition layout :: "nat \<Rightarrow> string \<Rightarrow> int \<Rightarrow> string" where
  "layout p ds e =
     (if - 4 \<le> e \<and> e < int p
      then if 0 \<le> e then with_fraction (take (nat e + 1) ds) (strip_zeros (drop (nat e + 1) ds))
           else with_fraction ''0'' (replicate (nat (- e - 1)) CHR ''0'' @ strip_zeros ds)
      else with_fraction (take 1 ds) (strip_zeros (drop 1 ds)) @ show_exponent e)"

text \<open>\<open>out << setprecision(p) << x\<close> in the default format (the \<open>%g\<close> of \<open>printf\<close>); 6 if never set.\<close>

fun show_double :: "nat \<Rightarrow> double \<Rightarrow> string" where
  "show_double p NaN = ''nan''"
| "show_double p PosInf = ''inf''"
| "show_double p NegInf = ''-inf''"
| "show_double p (Fin x) =
     (if x = 0 then ''0''
      else (if x < 0 then ''-'' else []) @
        (let (d, e) = significant p \<bar>x\<bar> in layout p (show_nat d) e))"

end
