(* ===== verification/Sha256.thy ===== *)
theory Sha256
  imports Text
begin

unbundle bit_operations_syntax

text \<open>
  The in-tree SHA-256 of \<open>Src_Simulation/include/net/sha256.hpp\<close>: the state of the hasher with its
  64-byte buffer, the compression of one block, \<open>update\<close>, \<open>finalize\<close> and \<open>to_hex\<close>, on 32-bit and
  8-bit words. The reference is the standard's description: pad the message to whole blocks, compress
  block after block. The two loops of the code run on a fuel that their bodies always leave unused:
  every pass of \<open>update\<close> takes at least a byte, and the padding loop ends within 64 passes; the
  equality with the reference shows that both run to their exit conditions.
\<close>

type_synonym byte = "8 word"

record sha256 =
  sha_h :: "32 word list"
  sha_buffer :: "byte list"
  buffer_len :: nat
  total_len :: "64 word"

definition sha_init_h :: "32 word list" where
  "sha_init_h = [0x6a09e667, 0xbb67ae85, 0x3c6ef372, 0xa54ff53a, 0x510e527f, 0x9b05688c, 0x1f83d9ab, 0x5be0cd19]"

definition new_sha :: sha256 where
  "new_sha = \<lparr>sha_h = sha_init_h, sha_buffer = replicate 64 0, buffer_len = 0, total_len = 0\<rparr>"

text \<open>The table is written by rows, as the code lists it.\<close>

definition sha_k :: "32 word list" where
  "sha_k = concat [
     [0x428a2f98, 0x71374491, 0xb5c0fbcf, 0xe9b5dba5, 0x3956c25b, 0x59f111f1, 0x923f82a4, 0xab1c5ed5],
     [0xd807aa98, 0x12835b01, 0x243185be, 0x550c7dc3, 0x72be5d74, 0x80deb1fe, 0x9bdc06a7, 0xc19bf174],
     [0xe49b69c1, 0xefbe4786, 0x0fc19dc6, 0x240ca1cc, 0x2de92c6f, 0x4a7484aa, 0x5cb0a9dc, 0x76f988da],
     [0x983e5152, 0xa831c66d, 0xb00327c8, 0xbf597fc7, 0xc6e00bf3, 0xd5a79147, 0x06ca6351, 0x14292967],
     [0x27b70a85, 0x2e1b2138, 0x4d2c6dfc, 0x53380d13, 0x650a7354, 0x766a0abb, 0x81c2c92e, 0x92722c85],
     [0xa2bfe8a1, 0xa81a664b, 0xc24b8b70, 0xc76c51a3, 0xd192e819, 0xd6990624, 0xf40e3585, 0x106aa070],
     [0x19a4c116, 0x1e376c08, 0x2748774c, 0x34b0bcb5, 0x391c0cb3, 0x4ed8aa4a, 0x5b9cca4f, 0x682e6ff3],
     [0x748f82ee, 0x78a5636f, 0x84c87814, 0x8cc70208, 0x90befffa, 0xa4506ceb, 0xbef9a3f7, 0xc67178f2]]"

definition rotr :: "32 word \<Rightarrow> nat \<Rightarrow> 32 word" where
  "rotr x n = drop_bit n x OR push_bit (32 - n) x"

definition block_word :: "byte list \<Rightarrow> nat \<Rightarrow> 32 word" where
  "block_word block i =
     push_bit 24 (ucast (block ! (i * 4))) OR push_bit 16 (ucast (block ! (i * 4 + 1))) OR
     push_bit 8 (ucast (block ! (i * 4 + 2))) OR ucast (block ! (i * 4 + 3))"

definition next_w :: "32 word list \<Rightarrow> nat \<Rightarrow> 32 word" where
  "next_w w i =
     (let s0 = rotr (w ! (i - 15)) 7 XOR rotr (w ! (i - 15)) 18 XOR drop_bit 3 (w ! (i - 15));
          s1 = rotr (w ! (i - 2)) 17 XOR rotr (w ! (i - 2)) 19 XOR drop_bit 10 (w ! (i - 2))
      in w ! (i - 16) + s0 + w ! (i - 7) + s1)"

definition schedule :: "byte list \<Rightarrow> 32 word list" where
  "schedule block = foldl (\<lambda>w i. w @ [next_w w i]) (map (block_word block) [0..<16]) [16..<64]"

type_synonym sha_regs = "32 word \<times> 32 word \<times> 32 word \<times> 32 word \<times> 32 word \<times> 32 word \<times> 32 word \<times> 32 word"

fun sha_round :: "sha_regs \<Rightarrow> 32 word \<times> 32 word \<Rightarrow> sha_regs" where
  "sha_round (a, b, c, d, e, f, g, hh) (ki, wi) =
     (let s1 = rotr e 6 XOR rotr e 11 XOR rotr e 25;
          ch = (e AND f) XOR (NOT e AND g);
          temp1 = hh + s1 + ch + ki + wi;
          s0 = rotr a 2 XOR rotr a 13 XOR rotr a 22;
          maj = (a AND b) XOR (a AND c) XOR (b AND c);
          temp2 = s0 + maj
      in (temp1 + temp2, a, b, c, d + temp1, e, f, g))"

definition compress :: "32 word list \<Rightarrow> byte list \<Rightarrow> 32 word list" where
  "compress h block =
     (let (a, b, c, d, e, f, g, hh) =
            foldl sha_round (h ! 0, h ! 1, h ! 2, h ! 3, h ! 4, h ! 5, h ! 6, h ! 7) (zip sha_k (schedule block))
      in [h ! 0 + a, h ! 1 + b, h ! 2 + c, h ! 3 + d, h ! 4 + e, h ! 5 + f, h ! 6 + g, h ! 7 + hh])"

definition process_block :: "byte list \<Rightarrow> sha256 \<Rightarrow> sha256" where
  "process_block block st = st\<lparr>sha_h := compress (sha_h st) block\<rparr>"

text \<open>\<open>memcpy\<close> into the buffer at an offset.\<close>

definition copy_into :: "'a list \<Rightarrow> nat \<Rightarrow> 'a list \<Rightarrow> 'a list" where
  "copy_into buf k xs = take k buf @ xs @ drop (k + length xs) buf"

definition update_pass :: "byte list \<Rightarrow> sha256 \<Rightarrow> byte list \<times> sha256" where
  "update_pass data st =
     (let n = min (length data) (64 - buffer_len st);
          st1 = st\<lparr>sha_buffer := copy_into (sha_buffer st) (buffer_len st) (take n data),
                   buffer_len := buffer_len st + n\<rparr>
      in (drop n data,
          if buffer_len st1 = 64 then (process_block (sha_buffer st1) st1)\<lparr>buffer_len := 0\<rparr> else st1))"

fun update_loop :: "nat \<Rightarrow> byte list \<Rightarrow> sha256 \<Rightarrow> sha256" where
  "update_loop 0 data st = st"
| "update_loop (Suc fuel) data st =
     (if data = [] then st else (case update_pass data st of (data', st') \<Rightarrow> update_loop fuel data' st'))"

definition sha_update :: "byte list \<Rightarrow> sha256 \<Rightarrow> sha256" where
  "sha_update data st = update_loop (length data) data (st\<lparr>total_len := total_len st + of_nat (length data)\<rparr>)"

fun pad_loop :: "nat \<Rightarrow> sha256 \<Rightarrow> sha256" where
  "pad_loop 0 st = st"
| "pad_loop (Suc fuel) st = (if buffer_len st = 56 then st else pad_loop fuel (sha_update [0] st))"

definition len_bytes :: "64 word \<Rightarrow> byte list" where
  "len_bytes n = map (\<lambda>i. ucast (drop_bit (8 * (7 - i)) n AND 0xFF)) [0..<8]"

definition word_bytes :: "32 word \<Rightarrow> byte list" where
  "word_bytes x = [ucast (drop_bit 24 x AND 0xFF), ucast (drop_bit 16 x AND 0xFF),
     ucast (drop_bit 8 x AND 0xFF), ucast (x AND 0xFF)]"

definition finalize :: "sha256 \<Rightarrow> byte list" where
  "finalize st =
     (let bit_len = total_len st * 8;
          st1 = pad_loop 64 (sha_update [0x80] st);
          buf = copy_into (sha_buffer st1) (buffer_len st1) (len_bytes bit_len);
          st2 = process_block buf st1
      in concat (map (\<lambda>i. word_bytes (sha_h st2 ! i)) [0..<8]))"

definition string_bytes :: "string \<Rightarrow> byte list" where
  "string_bytes s = map (\<lambda>c. of_nat (of_char c)) s"

definition sha256_hash :: "string \<Rightarrow> byte list" where
  "sha256_hash input = finalize (sha_update (string_bytes input) new_sha)"

definition to_hex :: "byte list \<Rightarrow> string" where
  "to_hex bytes = concat (map (\<lambda>b. [hex_digits ! unat (drop_bit 4 b), hex_digits ! unat (b AND 0x0F)]) bytes)"

section \<open>The reference: padding and blocks\<close>

fun chunks :: "'a list \<Rightarrow> 'a list list" where
  "chunks xs = (if length xs < 64 then [] else take 64 xs # chunks (drop 64 xs))"

declare chunks.simps [simp del]

definition sha_padding :: "byte list \<Rightarrow> byte list" where
  "sha_padding m = 0x80 # replicate ((120 - Suc (length m) mod 64) mod 64) 0 @ len_bytes (of_nat (length m) * 8)"

definition sha256_spec :: "byte list \<Rightarrow> byte list" where
  "sha256_spec m = concat (map word_bytes (foldl compress sha_init_h (chunks (m @ sha_padding m))))"

section \<open>The hasher follows the reference\<close>

text \<open>What the hasher holds after it was fed \<open>m\<close>: whole blocks \<open>u\<close> compressed, the rest buffered.\<close>

definition sha_fed :: "byte list \<Rightarrow> sha256 \<Rightarrow> bool" where
  "sha_fed m st \<longleftrightarrow> length (sha_buffer st) = 64 \<and> buffer_len st < 64 \<and>
     (\<exists>u. m = u @ take (buffer_len st) (sha_buffer st) \<and> length u mod 64 = 0 \<and>
        sha_h st = foldl compress sha_init_h (chunks u))"

lemma chunks_append: "length xs mod 64 = 0 \<Longrightarrow> chunks (xs @ ys) = chunks xs @ chunks ys"
proof (induction xs rule: chunks.induct)
  case (1 xs)
  show ?case
  proof (cases "length xs < 64")
    case True
    then have "xs = []" using 1(2) by simp
    then show ?thesis by (simp add: chunks.simps[of "[]"])
  next
    case False
    then have "length (drop 64 xs) mod 64 = 0" using 1(2) by (simp add: mod_eq_0_iff_dvd)
    then show ?thesis using False 1(1) by (subst (1 2) chunks.simps) simp
  qed
qed

lemma chunks_short: "length xs < 64 \<Longrightarrow> chunks xs = []"
  by (subst chunks.simps) simp

lemma chunks_one: "length xs = 64 \<Longrightarrow> chunks xs = [xs]"
  by (subst chunks.simps) (simp add: chunks_short)

lemma length_copy_into: "k + length xs \<le> length buf \<Longrightarrow> length (copy_into buf k xs) = length buf"
  by (simp add: copy_into_def)

lemma take_copy_into: "k \<le> length buf \<Longrightarrow> take (k + length xs) (copy_into buf k xs) = take k buf @ xs"
  by (simp add: copy_into_def)

lemma length_compress: "length (compress h b) = 8"
  by (simp add: compress_def split: prod.splits)

lemma fed_new: "sha_fed [] new_sha"
  by (simp add: sha_fed_def new_sha_def chunks_short)

lemma sha_fedE:
  assumes "sha_fed m st"
  obtains u where "m = u @ take (buffer_len st) (sha_buffer st)" "length u mod 64 = 0"
    "sha_h st = foldl compress sha_init_h (chunks u)" "length (sha_buffer st) = 64" "buffer_len st < 64"
  using assms unfolding sha_fed_def by (elim conjE exE) (rule that)

lemma sha_fedI:
  assumes "m = u @ take (buffer_len st) (sha_buffer st)" "length u mod 64 = 0"
    "sha_h st = foldl compress sha_init_h (chunks u)" "length (sha_buffer st) = 64" "buffer_len st < 64"
  shows "sha_fed m st"
  unfolding sha_fed_def by (intro conjI exI[of _ u]) (rule assms)+

lemma fed_len: "sha_fed m st \<Longrightarrow> buffer_len st = length m mod 64"
proof -
  assume "sha_fed m st"
  then obtain u where u: "m = u @ take (buffer_len st) (sha_buffer st)" "length u mod 64 = 0"
    and len: "length (sha_buffer st) = 64" "buffer_len st < 64" by (rule sha_fedE)
  have "length m = length u + buffer_len st" using arg_cong[OF u(1), of length] len by simp
  also have "\<dots> mod 64 = (length u mod 64 + buffer_len st) mod 64" by (simp only: mod_add_left_eq)
  also have "\<dots> = buffer_len st" using len(2) by (simp only: u(2) add_0 mod_less)
  finally show ?thesis by (rule sym)
qed

lemma mod_64_add: "a mod 64 = (0::nat) \<Longrightarrow> (a + 64) mod 64 = 0"
  by simp

lemma fed_pass:
  assumes fed: "sha_fed m st" and ne: "data \<noteq> []" and p: "update_pass data st = (data', st')"
  shows "\<exists>x. data = x @ data' \<and> x \<noteq> [] \<and> sha_fed (m @ x) st' \<and> total_len st' = total_len st"
proof -
  let ?n = "min (length data) (64 - buffer_len st)"
  let ?x = "take ?n data"
  let ?b = "copy_into (sha_buffer st) (buffer_len st) ?x"
  obtain u where u: "m = u @ take (buffer_len st) (sha_buffer st)" "length u mod 64 = 0"
    "sha_h st = foldl compress sha_init_h (chunks u)"
    and len: "length (sha_buffer st) = 64" "buffer_len st < 64" using fed by (rule sha_fedE)
  have lx: "length ?x = ?n" by simp
  have lb: "length ?b = 64" using len by (simp add: length_copy_into)
  have tb: "take (buffer_len st + ?n) ?b = take (buffer_len st) (sha_buffer st) @ ?x"
    using take_copy_into[of "buffer_len st" "sha_buffer st" ?x] len lx by simp
  have mx: "m @ ?x = u @ take (buffer_len st + ?n) ?b" unfolding tb using u(1) by simp
  have d: "data = ?x @ data'" using p by (auto simp: update_pass_def Let_def)
  have x: "?x \<noteq> []" using ne len by simp
  have "sha_fed (m @ ?x) st' \<and> total_len st' = total_len st"
  proof (cases "buffer_len st + ?n = 64")
    case True
    then have b: "m @ ?x = u @ ?b" using mx lb by simp
    have st': "st' = st\<lparr>sha_buffer := ?b, buffer_len := 0, sha_h := compress (sha_h st) ?b\<rparr>"
      using p True by (auto simp: update_pass_def Let_def process_block_def)
    have "chunks (u @ ?b) = chunks u @ [?b]" using chunks_append[OF u(2)] chunks_one[OF lb] by simp
    moreover have "length (u @ ?b) mod 64 = 0"
      unfolding length_append lb using u(2) by (rule mod_64_add)
    moreover have sel: "sha_buffer st' = ?b" "buffer_len st' = 0" "sha_h st' = compress (sha_h st) ?b"
      "total_len st' = total_len st" unfolding st' by simp_all
    ultimately have "sha_fed (m @ ?x) st'"
      by (intro sha_fedI[of _ "u @ ?b"]) (simp_all only: sel b u(3) lb, simp_all)
    then show ?thesis using sel(4) by (rule conjI)
  next
    case False
    then have lt: "buffer_len st + ?n < 64" using len by simp
    have st': "st' = st\<lparr>sha_buffer := ?b, buffer_len := buffer_len st + ?n\<rparr>"
      using p False by (auto simp: update_pass_def Let_def)
    have sel: "sha_buffer st' = ?b" "buffer_len st' = buffer_len st + ?n" "sha_h st' = sha_h st"
      "total_len st' = total_len st" unfolding st' by simp_all
    have "sha_fed (m @ ?x) st'" by (rule sha_fedI[of _ u]) (simp_all only: sel mx u(2,3) lb lt)
    then show ?thesis using sel(4) by (rule conjI)
  qed
  then show ?thesis using d x by blast
qed

lemma fed_loop:
  "sha_fed m st \<Longrightarrow> length data \<le> fuel \<Longrightarrow>
     sha_fed (m @ data) (update_loop fuel data st) \<and> total_len (update_loop fuel data st) = total_len st"
proof (induction fuel arbitrary: m data st)
  case (Suc fuel)
  show ?case
  proof (cases "data = []")
    case False
    obtain data' st' where p: "update_pass data st = (data', st')" by (cases "update_pass data st")
    then obtain x where x: "data = x @ data'" "x \<noteq> []" "sha_fed (m @ x) st'" "total_len st' = total_len st"
      using fed_pass[OF Suc.prems(1) False] by blast
    then have "length data' \<le> fuel" using Suc.prems(2) by (cases x) auto
    then show ?thesis using Suc.IH[OF x(3)] x p False by simp
  qed (use Suc in simp)
qed simp

lemma fed_update:
  assumes "sha_fed m st"
  shows "sha_fed (m @ data) (sha_update data st) \<and>
    total_len (sha_update data st) = total_len st + of_nat (length data)"
proof -
  let ?st = "st\<lparr>total_len := total_len st + of_nat (length data)\<rparr>"
  have "sha_fed m ?st" using assms by (simp add: sha_fed_def)
  from fed_loop[OF this order_refl, of data] show ?thesis unfolding sha_update_def by simp
qed

text \<open>The padding loop stops at the first length that leaves eight bytes of a block.\<close>

definition zeros_after :: "nat \<Rightarrow> nat" where
  "zeros_after n = (120 - n mod 64) mod 64"

lemma zeros_after_cases:
  "zeros_after n = (if n mod 64 \<le> 56 then 56 - n mod 64 else 120 - n mod 64)"
proof (cases "n mod 64 \<le> 56")
  case True
  then have "120 - n mod 64 = 64 + (56 - n mod 64)" by simp
  then show ?thesis using True unfolding zeros_after_def by (simp only: mod_add_self1) simp
qed (simp add: zeros_after_def)

lemma zeros_after_Suc:
  assumes "n mod 64 \<noteq> 56"
  shows "zeros_after n = Suc (zeros_after (Suc n))"
proof -
  define k where "k = n mod 64"
  have s: "Suc n mod 64 = (if Suc k = 64 then 0 else Suc k)" unfolding k_def by (rule mod_Suc)
  have k: "k < 64" "k \<noteq> 56" using assms unfolding k_def by simp_all
  show ?thesis unfolding zeros_after_cases s k_def[symmetric] using k by (auto split: if_splits)
qed

lemma fed_pad:
  assumes "sha_fed m st" "zeros_after (length m) < fuel"
  shows "sha_fed (m @ replicate (zeros_after (length m)) 0) (pad_loop fuel st)"
  using assms
proof (induction fuel arbitrary: m st)
  case (Suc fuel)
  show ?case
  proof (cases "length m mod 64 = 56")
    case True
    then show ?thesis using Suc.prems(1) fed_len[OF Suc.prems(1)] by (simp add: zeros_after_def)
  next
    case False
    note z = zeros_after_Suc[OF False]
    have "sha_fed ((m @ [0]) @ replicate (zeros_after (length (m @ [0::byte]))) 0) (pad_loop fuel (sha_update [0] st))"
      by (rule Suc.IH) (use fed_update[OF Suc.prems(1), of "[0]"] z Suc.prems(2) in auto)
    then show ?thesis using False fed_len[OF Suc.prems(1)] z by simp
  qed
qed simp

lemma zeros_after_aligns: "(n + zeros_after n) mod 64 = 56"
proof -
  have "n mod 64 + zeros_after n = 56 \<or> n mod 64 + zeros_after n = 120"
    using mod_less_divisor[of 64 n] by (simp add: zeros_after_cases)
  then have "(n mod 64 + zeros_after n) mod 64 = 56" by auto
  then show ?thesis by (simp add: mod_add_left_eq)
qed

lemma zeros_after_less: "zeros_after n < 64"
  by (simp add: zeros_after_def)

lemma length_len_bytes [simp]: "length (len_bytes n) = 8"
  by (simp add: len_bytes_def)

lemma finalize_spec:
  assumes "sha_fed m st" "total_len st = of_nat (length m)"
  shows "finalize st = sha256_spec m"
proof -
  let ?m1 = "m @ [0x80]"
  let ?z = "replicate (zeros_after (length ?m1)) 0"
  define st1 where "st1 = pad_loop 64 (sha_update [0x80] st)"
  have fed: "sha_fed (?m1 @ ?z) st1"
    unfolding st1_def by (rule fed_pad[OF conjunct1[OF fed_update[OF assms(1)]] zeros_after_less])
  have bl: "buffer_len st1 = 56" using fed_len[OF fed] zeros_after_aligns[of "length ?m1"] by simp
  obtain u where u: "?m1 @ ?z = u @ take 56 (sha_buffer st1)" "length u mod 64 = 0"
    "sha_h st1 = foldl compress sha_init_h (chunks u)" "length (sha_buffer st1) = 64"
    by (rule sha_fedE[OF fed, unfolded bl])
  let ?L = "len_bytes (of_nat (length m) * 8)"
  let ?buf = "copy_into (sha_buffer st1) 56 ?L"
  have buf: "?buf = take 56 (sha_buffer st1) @ ?L" using u(4) by (simp add: copy_into_def)
  have "m @ sha_padding m = (?m1 @ ?z) @ ?L"
    by (simp add: sha_padding_def zeros_after_def)
  also have "\<dots> = u @ ?buf" unfolding u(1) buf by simp
  finally have "chunks (m @ sha_padding m) = chunks u @ [?buf]"
    using chunks_append[OF u(2)] chunks_one[of ?buf] u(4) buf by simp
  then have h: "sha_h (process_block ?buf st1) = foldl compress sha_init_h (chunks (m @ sha_padding m))"
    using u(3) by (simp add: process_block_def)
  have l: "length (sha_h (process_block ?buf st1)) = 8" by (simp add: process_block_def length_compress)
  have "map (\<lambda>i. word_bytes (h ! i)) [0..<8] = map word_bytes h" if "length h = 8" for h :: "32 word list"
    using that by (metis map_map map_nth comp_def map_eq_conv)
  then show ?thesis using h l assms(2) bl
    by (simp add: finalize_def sha256_spec_def Let_def st1_def[symmetric])
qed

lemma sha256_hash_spec: "sha256_hash input = sha256_spec (string_bytes input)"
proof -
  have "sha_fed (string_bytes input) (sha_update (string_bytes input) new_sha)"
    "total_len (sha_update (string_bytes input) new_sha) = of_nat (length (string_bytes input))"
    using fed_update[OF fed_new, of "string_bytes input"] by (simp_all add: new_sha_def)
  then show ?thesis unfolding sha256_hash_def by (rule finalize_spec)
qed

end
