(* ===== verification/Auth.thy ===== *)
theory Auth
  imports Sha256
begin

text \<open>
  The client directory of \<open>Src_Simulation/src/net/auth.cpp\<close>: accounts by user name, session tokens,
  the id counter. What the code draws from its random generators is an argument: two 64-bit draws for
  a salt, four for a token, printed in hexadecimal without padding.
\<close>

record account =
  acc_id :: client_id
  salt_hex :: string
  password_hash_hex :: string

record account_record =
  rec_username :: string
  rec_id :: client_id
  rec_salt :: string
  rec_hash :: string

record directory =
  accounts :: "(string \<times> account) list"
  dir_tokens :: "(string \<times> client_id) list"
  next_client_id :: client_id

definition new_directory :: directory where
  "new_directory = \<lparr>accounts = [], dir_tokens = [], next_client_id = 1\<rparr>"

datatype register_outcome = Registered client_id string | UsernameTaken

datatype auth_outcome = Authenticated client_id string | UnknownUsername | WrongPassword

fun show_hex :: "nat \<Rightarrow> string" where
  "show_hex n = (if n < 16 then [hex_digits ! n] else show_hex (n div 16) @ [hex_digits ! (n mod 16)])"

declare show_hex.simps [simp del]

definition generate_salt :: "64 word \<Rightarrow> 64 word \<Rightarrow> string" where
  "generate_salt r1 r2 = show_hex (unat r1) @ show_hex (unat r2)"

definition generate_token :: "64 word \<Rightarrow> 64 word \<Rightarrow> 64 word \<Rightarrow> 64 word \<Rightarrow> string" where
  "generate_token r1 r2 r3 r4 = show_hex (unat r1) @ show_hex (unat r2) @ show_hex (unat r3) @ show_hex (unat r4)"

definition hash_password :: "string \<Rightarrow> string \<Rightarrow> string" where
  "hash_password salt password = to_hex (sha256_hash (salt @ password))"

text \<open>The draws of one call: for a salt (used by a registration only) and for a token.\<close>

type_synonym draws = "(64 word \<times> 64 word) \<times> (64 word \<times> 64 word \<times> 64 word \<times> 64 word)"

definition drawn_salt :: "draws \<Rightarrow> string" where
  "drawn_salt draw = (case fst draw of (r1, r2) \<Rightarrow> generate_salt r1 r2)"

definition drawn_token :: "draws \<Rightarrow> string" where
  "drawn_token draw = (case snd draw of (r1, r2, r3, r4) \<Rightarrow> generate_token r1 r2 r3 r4)"

definition register_client ::
  "draws \<Rightarrow> string \<Rightarrow> string \<Rightarrow> directory \<Rightarrow> register_outcome \<times> directory" where
  "register_client draw username password d =
     (if um_contains (accounts d) username then (UsernameTaken, d)
      else
        (let salt = drawn_salt draw;
             token = drawn_token draw;
             i = next_client_id d;
             account = \<lparr>acc_id = i, salt_hex = salt, password_hash_hex = hash_password salt password\<rparr>
         in (Registered i token,
             d\<lparr>next_client_id := i + 1, dir_tokens := um_emplace token i (dir_tokens d),
               accounts := um_emplace username account (accounts d)\<rparr>)))"

definition authenticate ::
  "draws \<Rightarrow> string \<Rightarrow> string \<Rightarrow> directory \<Rightarrow> auth_outcome \<times> directory" where
  "authenticate draw username password d =
     (case map_of (accounts d) username of
        None \<Rightarrow> (UnknownUsername, d)
      | Some a \<Rightarrow>
          if hash_password (salt_hex a) password \<noteq> password_hash_hex a then (WrongPassword, d)
          else (Authenticated (acc_id a) (drawn_token draw), d\<lparr>dir_tokens := um_emplace (drawn_token draw) (acc_id a) (dir_tokens d)\<rparr>))"

definition resolve_token :: "string \<Rightarrow> directory \<Rightarrow> client_id option" where
  "resolve_token token d = map_of (dir_tokens d) token"

definition client_count :: "directory \<Rightarrow> nat" where
  "client_count d = length (accounts d)"

definition export_accounts :: "directory \<Rightarrow> account_record list" where
  "export_accounts d = map (\<lambda>(u, a). \<lparr>rec_username = u, rec_id = acc_id a, rec_salt = salt_hex a,
     rec_hash = password_hash_hex a\<rparr>) (accounts d)"

definition import_account :: "account_record \<Rightarrow> directory \<Rightarrow> directory" where
  "import_account r d =
     (let d1 = d\<lparr>accounts := AList.update (rec_username r)
            \<lparr>acc_id = rec_id r, salt_hex = rec_salt r, password_hash_hex = rec_hash r\<rparr> (accounts d)\<rparr>
      in if next_client_id d1 \<le> rec_id r then d1\<lparr>next_client_id := rec_id r + 1\<rparr> else d1)"

section \<open>The invariant of the directory\<close>

definition dir_ok :: "directory \<Rightarrow> bool" where
  "dir_ok d \<longleftrightarrow> um_ok (accounts d) \<and> um_ok (dir_tokens d) \<and>
     distinct (map (\<lambda>(_, a). acc_id a) (accounts d)) \<and>
     (\<forall>(_, a) \<in> set (accounts d). acc_id a < next_client_id d) \<and>
     (\<forall>(_, i) \<in> set (dir_tokens d). \<exists>(_, a) \<in> set (accounts d). acc_id a = i)"

lemma new_directory_ok: "dir_ok new_directory"
  by (simp add: dir_ok_def new_directory_def)

lemma emplace_new: "map_of m k = None \<Longrightarrow> um_emplace k v m = m @ [(k, v)]"
  by (simp add: um_emplace_def)

lemma set_emplace: "set (um_emplace k v m) \<subseteq> insert (k, v) (set m)"
  by (auto simp: um_emplace_def split: option.splits)

lemma register_ok: "dir_ok d \<Longrightarrow> dir_ok (snd (register_client draw u p d))"
proof -
  assume ok: "dir_ok d"
  show ?thesis
  proof (cases "map_of (accounts d) u")
    case None
    let ?i = "next_client_id d"
    have t: "(k, i) \<in> set (um_emplace (drawn_token draw) ?i (dir_tokens d)) \<Longrightarrow> i = ?i \<or> (k, i) \<in> set (dir_tokens d)" for k i
      using set_emplace[of "drawn_token draw" ?i "dir_tokens d"] by auto
    have "\<forall>(_, a) \<in> set (accounts d). acc_id a \<noteq> ?i" using ok by (fastforce simp: dir_ok_def)
    then show ?thesis using ok None
      by (fastforce simp: dir_ok_def register_client_def Let_def emplace_new map_of_eq_None_iff dest: t)
  qed (use ok in \<open>simp add: register_client_def\<close>)
qed

lemma authenticate_ok: "dir_ok d \<Longrightarrow> dir_ok (snd (authenticate draw u p d))"
proof -
  assume ok: "dir_ok d"
  show ?thesis
  proof (cases "map_of (accounts d) u")
    case (Some a)
    have t: "(k, i) \<in> set (um_emplace (drawn_token draw) (acc_id a) (dir_tokens d)) \<Longrightarrow>
        i = acc_id a \<or> (k, i) \<in> set (dir_tokens d)" for k i
      using set_emplace[of "drawn_token draw" "acc_id a" "dir_tokens d"] by auto
    show ?thesis using ok Some map_of_SomeD[OF Some]
      by (fastforce simp: dir_ok_def authenticate_def dest: t)
  qed (use ok in \<open>simp add: authenticate_def\<close>)
qed

text \<open>Importing keeps the map a map and the counter above every id it has seen.\<close>

lemma import_next: "next_client_id d \<le> next_client_id (import_account r d) \<and> rec_id r < next_client_id (import_account r d)"
  by (simp add: import_account_def Let_def)

lemma import_accounts: "map_of (accounts (import_account r d)) =
    (map_of (accounts d))(rec_username r \<mapsto>
       \<lparr>acc_id = rec_id r, salt_hex = rec_salt r, password_hash_hex = rec_hash r\<rparr>)"
  by (simp add: import_account_def Let_def)

lemma import_keeps: "dir_tokens (import_account r d) = dir_tokens d"
  and import_um_ok: "um_ok (accounts d) \<Longrightarrow> um_ok (accounts (import_account r d))"
  by (simp_all add: import_account_def Let_def)

definition import_all :: "account_record list \<Rightarrow> directory \<Rightarrow> directory" where
  "import_all rs d = foldl (\<lambda>d r. import_account r d) d rs"

lemma import_all_next:
  "next_client_id d \<le> next_client_id (import_all rs d) \<and>
     (\<forall>r \<in> set rs. rec_id r < next_client_id (import_all rs d))"
proof (induction rs rule: rev_induct)
  case (snoc r rs)
  then show ?case using import_next[of "import_all rs d" r] by (auto simp: import_all_def)
qed (simp add: import_all_def)

lemma update_fresh: "k \<notin> fst ` set m \<Longrightarrow> AList.update k v m = m @ [(k, v)]"
  by (induction m) auto

lemma import_export:
  assumes "um_ok (m @ ms)" "accounts d = m"
  shows "accounts (import_all (export_accounts \<lparr>accounts = ms, dir_tokens = ts, next_client_id = n\<rparr>) d) = m @ ms"
  using assms
proof (induction ms arbitrary: m d)
  case (Cons x ms)
  obtain u a where x: "x = (u, a)" by (cases x)
  have "u \<notin> fst ` set m" using Cons.prems(1) x by auto
  then have "accounts (import_account \<lparr>rec_username = u, rec_id = acc_id a, rec_salt = salt_hex a,
      rec_hash = password_hash_hex a\<rparr> d) = m @ [x]"
    using Cons.prems(2) x by (simp add: import_account_def Let_def update_fresh)
  from Cons.IH[OF _ this] show ?case using Cons.prems(1) x by (simp add: import_all_def export_accounts_def)
qed (simp add: import_all_def export_accounts_def)

end
