(* ===== verification/MarketData.thy ===== *)
theory MarketData
  imports Notification "HOL-Library.Signed_Division"
begin

text \<open>
  The market data feed of \<open>Src_Simulation/src/market_data.cpp\<close>: a subscriber of the event bus that
  keeps, per symbol, the last price, the traded volume, the traded notional and fixed-width candles.
  The bucket width is in milliseconds, the time stamps in nanoseconds; C++ division truncates.
\<close>

record candle =
  bucket_start :: time
  c_open :: price
  c_high :: price
  c_low :: price
  c_close :: price
  c_volume :: quantity

record symbol_state =
  md_last :: price
  md_total :: quantity
  md_notional :: double
  md_candles :: "candle list"

type_synonym market_data = "(symbol \<times> symbol_state) list"

definition empty_symbol_state :: symbol_state where
  "empty_symbol_state = \<lparr>md_last = 0, md_total = 0, md_notional = 0, md_candles = []\<rparr>"

text \<open>The start of the window a time stamp falls into.\<close>

definition bucket_of :: "int \<Rightarrow> time \<Rightarrow> time" where
  "bucket_of bucket_ms ts = (ts sdiv (bucket_ms * 10 ^ 6)) * (bucket_ms * 10 ^ 6)"

definition new_candle :: "time \<Rightarrow> trade \<Rightarrow> candle" where
  "new_candle start t = \<lparr>bucket_start = start, c_open = tprice t, c_high = tprice t, c_low = tprice t,
     c_close = tprice t, c_volume = tqty t\<rparr>"

definition extend_candle :: "trade \<Rightarrow> candle \<Rightarrow> candle" where
  "extend_candle t c = c\<lparr>c_high := dmax (c_high c) (tprice t), c_low := dmin (c_low c) (tprice t),
     c_close := tprice t, c_volume := c_volume c + tqty t\<rparr>"

definition add_to_candles :: "int \<Rightarrow> trade \<Rightarrow> candle list \<Rightarrow> candle list" where
  "add_to_candles bucket_ms t cs =
     (let start = bucket_of bucket_ms (timestamp t)
      in if cs = [] \<or> bucket_start (last cs) \<noteq> start then cs @ [new_candle start t]
         else butlast cs @ [extend_candle t (last cs)])"

definition on_trade :: "int \<Rightarrow> trade \<Rightarrow> market_data \<Rightarrow> market_data" where
  "on_trade bucket_ms t =
     um_modify empty_symbol_state (tsymbol t)
       (\<lambda>st. st\<lparr>md_last := tprice t, md_total := md_total st + tqty t,
          md_notional := md_notional st + dbl_of_int (tqty t) * tprice t,
          md_candles := add_to_candles bucket_ms t (md_candles st)\<rparr>)"

fun md_on_event :: "int \<Rightarrow> event \<Rightarrow> market_data \<Rightarrow> market_data" where
  "md_on_event bucket_ms (TradeEvent t) m = on_trade bucket_ms t m"
| "md_on_event bucket_ms _ m = m"

definition md_last_price :: "market_data \<Rightarrow> symbol \<Rightarrow> price" where
  "md_last_price m s = (case map_of m s of None \<Rightarrow> 0 | Some st \<Rightarrow> md_last st)"

definition md_total_volume :: "market_data \<Rightarrow> symbol \<Rightarrow> quantity" where
  "md_total_volume m s = (case map_of m s of None \<Rightarrow> 0 | Some st \<Rightarrow> md_total st)"

definition md_vwap :: "market_data \<Rightarrow> symbol \<Rightarrow> double" where
  "md_vwap m s = (case map_of m s of None \<Rightarrow> 0
     | Some st \<Rightarrow> if md_total st = 0 then 0 else md_notional st div dbl_of_int (md_total st))"

definition recent_candles :: "market_data \<Rightarrow> symbol \<Rightarrow> nat \<Rightarrow> candle list" where
  "recent_candles m s n = (case map_of m s of None \<Rightarrow> []
     | Some st \<Rightarrow> (let k = min n (length (md_candles st))
                  in drop (length (md_candles st) - k) (md_candles st)))"

text \<open>The feed after the bus handed it a sequence of events.\<close>

definition md_run :: "int \<Rightarrow> event list \<Rightarrow> market_data" where
  "md_run w evs = foldl (\<lambda>m ev. md_on_event w ev m) [] evs"

section \<open>What the feed should hold\<close>

text \<open>
  The reference: the trades of one symbol in the order they were delivered, cut into maximal runs
  with the same window; each run is summarised by its first, last, highest and lowest price and its
  volume.
\<close>

fun trades_of :: "symbol \<Rightarrow> event list \<Rightarrow> trade list" where
  "trades_of s [] = []"
| "trades_of s (TradeEvent t # evs) = (if tsymbol t = s then t # trades_of s evs else trades_of s evs)"
| "trades_of s (_ # evs) = trades_of s evs"

fun runs_by :: "('a \<Rightarrow> 'b) \<Rightarrow> 'a list \<Rightarrow> 'a list list" where
  "runs_by k [] = []"
| "runs_by k (x # xs) =
     (case runs_by k xs of [] \<Rightarrow> [[x]]
      | g # gs \<Rightarrow> if k (hd g) = k x then (x # g) # gs else [x] # g # gs)"

definition summary_candle :: "int \<Rightarrow> trade list \<Rightarrow> candle" where
  "summary_candle w ts =
     \<lparr>bucket_start = bucket_of w (timestamp (hd ts)), c_open = tprice (hd ts),
      c_high = foldl dmax (tprice (hd ts)) (map tprice (tl ts)),
      c_low = foldl dmin (tprice (hd ts)) (map tprice (tl ts)),
      c_close = tprice (last ts), c_volume = trade_volume ts\<rparr>"

definition spec_candles :: "int \<Rightarrow> trade list \<Rightarrow> candle list" where
  "spec_candles w ts = map (summary_candle w) (runs_by (\<lambda>t. bucket_of w (timestamp t)) ts)"

lemma trades_of_append: "trades_of s (evs @ evs') = trades_of s evs @ trades_of s evs'"
  by (induction evs rule: trades_of.induct) auto

lemma runs_ne: "[] \<notin> set (runs_by k xs)"
  by (induction xs) (auto split: list.splits)

lemma runs_Nil_iff [simp]: "runs_by k xs = [] \<longleftrightarrow> xs = []"
  by (cases xs) (auto split: list.splits)

lemma concat_runs: "concat (runs_by k xs) = xs"
  by (induction xs) (auto split: list.splits)

lemma runs_uniform: "g \<in> set (runs_by k xs) \<Longrightarrow> x \<in> set g \<Longrightarrow> k x = k (hd g)"
  by (induction xs arbitrary: g) (fastforce split: list.splits if_splits)+

lemma hd_hd_runs: "xs \<noteq> [] \<Longrightarrow> hd (hd (runs_by k xs)) = hd xs"
  by (cases xs) (auto split: list.splits)

lemma runs_snoc:
  "runs_by k (xs @ [x]) =
     (if xs \<noteq> [] \<and> k (hd (last (runs_by k xs))) = k x
      then butlast (runs_by k xs) @ [last (runs_by k xs) @ [x]]
      else runs_by k xs @ [[x]])"
proof (induction xs)
  case (Cons y ys)
  show ?case
  proof (cases "ys = []")
    case False
    then obtain g gs where g: "runs_by k ys = g # gs" by (cases "runs_by k ys") auto
    have "g \<noteq> []" using runs_ne[of k ys] g by auto
    then show ?thesis using Cons g False by (cases gs) auto
  qed simp
qed simp

lemma runs_strict:
  fixes k :: "'a \<Rightarrow> 'b::linorder"
  shows "sorted (map k xs) \<Longrightarrow> sorted_wrt (<) (map (\<lambda>g. k (hd g)) (runs_by k xs))"
proof (induction xs)
  case (Cons x xs)
  show ?case
  proof (cases "runs_by k xs")
    case (Cons g gs)
    have "g \<noteq> []" using runs_ne[of k xs] Cons by auto
    then have "hd g \<in> set xs" using concat_runs[of k xs] Cons by (metis UnCI concat.simps(2) hd_in_set set_append)
    then have "k x \<le> k (hd g)" using Cons.prems by auto
    moreover have "sorted_wrt (<) (map (\<lambda>g. k (hd g)) (g # gs))" using Cons.IH Cons.prems Cons by simp
    moreover have "k (hd g) \<noteq> k x \<Longrightarrow> k x < k (hd g)" using calculation(1) by simp
    moreover have "k x < k (hd g) \<Longrightarrow> \<forall>h \<in> set gs. k x < k (hd h)"
      using calculation(2) by (auto intro: less_trans)
    ultimately show ?thesis using Cons by (cases "k (hd g) = k x") auto
  qed simp
qed simp

lemma summary_snoc: "ts \<noteq> [] \<Longrightarrow> summary_candle w (ts @ [t]) = extend_candle t (summary_candle w ts)"
  by (simp add: summary_candle_def extend_candle_def hd_append)

lemma add_to_candles_spec: "add_to_candles w t (spec_candles w ts) = spec_candles w (ts @ [t])"
proof (cases "ts = []")
  case True
  then show ?thesis by (simp add: spec_candles_def add_to_candles_def new_candle_def summary_candle_def Let_def)
next
  case False
  let ?k = "\<lambda>t. bucket_of w (timestamp t)"
  have ne: "runs_by ?k ts \<noteq> []" using False by simp
  then have "last (runs_by ?k ts) \<noteq> []" using runs_ne[of ?k ts] last_in_set by metis
  moreover have "bucket_start (last (spec_candles w ts)) = ?k (hd (last (runs_by ?k ts)))"
    using ne by (simp add: spec_candles_def last_map summary_candle_def)
  ultimately show ?thesis using False ne
    by (simp add: add_to_candles_def spec_candles_def runs_snoc Let_def map_butlast last_map summary_snoc)
       (simp add: new_candle_def summary_candle_def)
qed

definition spec_notional :: "trade list \<Rightarrow> double" where
  "spec_notional ts = foldl (\<lambda>n t. n + dbl_of_int (tqty t) * tprice t) 0 ts"

lemma md_run_snoc: "md_run w (evs @ [ev]) = md_on_event w ev (md_run w evs)"
  by (simp add: md_run_def)

lemma md_state:
  "map_of (md_run w evs) s =
     (if trades_of s evs = [] then None
      else Some \<lparr>md_last = tprice (last (trades_of s evs)), md_total = trade_volume (trades_of s evs),
             md_notional = spec_notional (trades_of s evs), md_candles = spec_candles w (trades_of s evs)\<rparr>)"
proof (induction evs rule: rev_induct)
  case Nil
  then show ?case by (simp add: md_run_def)
next
  case (snoc ev evs)
  have e: "spec_candles w [] = []" by (simp add: spec_candles_def)
  show ?case
  proof (cases ev)
    case (TradeEvent t)
    show ?thesis
    proof (cases "tsymbol t = s")
      case True
      have "md_candles (um_get empty_symbol_state (md_run w evs) s) = spec_candles w (trades_of s evs)"
        "md_total (um_get empty_symbol_state (md_run w evs) s) = trade_volume (trades_of s evs)"
        "md_notional (um_get empty_symbol_state (md_run w evs) s) = spec_notional (trades_of s evs)"
        using snoc by (auto simp: um_get_def empty_symbol_state_def e spec_notional_def)
      then show ?thesis using TradeEvent True
        by (simp add: md_run_snoc on_trade_def map_of_modify trades_of_append add_to_candles_spec spec_notional_def)
    next
      case False
      then show ?thesis using TradeEvent snoc
        by (simp add: md_run_snoc on_trade_def map_of_modify trades_of_append)
    qed
  qed (use snoc in \<open>simp_all add: md_run_snoc trades_of_append\<close>)
qed

section \<open>Bounds of a candle\<close>

lemma dmax_ge: "a \<noteq> NaN \<Longrightarrow> b \<noteq> NaN \<Longrightarrow> a \<le> dmax a b \<and> b \<le> dmax a b \<and> dmax a b \<noteq> NaN"
  by (cases a; cases b) (auto simp: dmax_def)

lemma dmin_le: "a \<noteq> NaN \<Longrightarrow> b \<noteq> NaN \<Longrightarrow> dmin a b \<le> a \<and> dmin a b \<le> b \<and> dmin a b \<noteq> NaN"
  by (cases a; cases b) (auto simp: dmin_def)

lemma dle_trans: "(a::double) \<le> b \<Longrightarrow> b \<le> c \<Longrightarrow> a \<le> c"
  by (cases a; cases b; cases c) auto

lemma dle_refl: "(a::double) \<noteq> NaN \<Longrightarrow> a \<le> a"
  by (cases a) auto

lemma foldl_dmax: "a \<noteq> NaN \<Longrightarrow> NaN \<notin> set bs \<Longrightarrow>
    (\<forall>b \<in> insert a (set bs). b \<le> foldl dmax a bs) \<and> foldl dmax a bs \<in> insert a (set bs)"
proof (induction bs arbitrary: a)
  case (Cons b bs)
  have "dmax a b \<noteq> NaN" "a \<le> dmax a b" "b \<le> dmax a b" "dmax a b \<in> {a, b}"
    using Cons.prems dmax_ge[of a b] by (auto simp: dmax_def)
  then show ?case using Cons.IH[of "dmax a b"] Cons.prems by (auto intro: dle_trans)
qed (simp add: dle_refl)

lemma foldl_dmin: "a \<noteq> NaN \<Longrightarrow> NaN \<notin> set bs \<Longrightarrow>
    (\<forall>b \<in> insert a (set bs). foldl dmin a bs \<le> b) \<and> foldl dmin a bs \<in> insert a (set bs)"
proof (induction bs arbitrary: a)
  case (Cons b bs)
  have "dmin a b \<noteq> NaN" "dmin a b \<le> a" "dmin a b \<le> b" "dmin a b \<in> {a, b}"
    using Cons.prems dmin_le[of a b] by (auto simp: dmin_def)
  then show ?case using Cons.IH[of "dmin a b"] Cons.prems by (auto intro: dle_trans)
qed (simp add: dle_refl)

lemma summary_bounds:
  assumes "ts \<noteq> []" "t \<in> set ts" "\<forall>t \<in> set ts. tprice t \<noteq> NaN"
  shows "c_low (summary_candle w ts) \<le> tprice t \<and> tprice t \<le> c_high (summary_candle w ts)"
proof -
  have ts: "ts = hd ts # tl ts" and hd: "tprice (hd ts) \<noteq> NaN" using assms by simp_all
  have tl: "NaN \<notin> set (map tprice (tl ts))" using assms by (metis (mono_tags, lifting) image_iff list.set_map list.set_sel(2))
  have "tprice t \<in> insert (tprice (hd ts)) (set (map tprice (tl ts)))"
    using assms(2) ts by (metis imageI list.set_map list.simps(15,9))
  then show ?thesis using foldl_dmax[OF hd tl] foldl_dmin[OF hd tl]
    unfolding summary_candle_def by (metis candle.select_convs(3,4))
qed

lemma spec_candles_volume: "sum_list (map c_volume (spec_candles w ts)) = trade_volume ts"
proof -
  have "sum_list (map c_volume (map (summary_candle w) gs)) = trade_volume (concat gs)" for gs
    by (induction gs) (simp_all add: summary_candle_def)
  then show ?thesis unfolding spec_candles_def by (metis concat_runs)
qed

lemma bucket_of_bounds:
  assumes "0 < w" "0 \<le> ts"
  shows "bucket_of w ts \<le> ts \<and> ts < bucket_of w ts + w * 10 ^ 6"
proof -
  have d: "ts sdiv (w * 10 ^ 6) = ts div (w * 10 ^ 6)"
    using assms by (simp add: signed_divide_int_def sgn_if)
  have p: "0 < w * 10 ^ 6" using assms(1) by simp
  show ?thesis unfolding bucket_of_def d
    using div_mult_mod_eq[of ts "w * 10 ^ 6"] pos_mod_bound[OF p, of ts] pos_mod_sign[OF p, of ts] by linarith
qed

lemma bucket_of_mono: "0 < w \<Longrightarrow> 0 \<le> a \<Longrightarrow> a \<le> b \<Longrightarrow> bucket_of w a \<le> bucket_of w b"
  by (auto simp: bucket_of_def signed_divide_int_def sgn_if zdiv_mono1 mult_right_mono pos_imp_zdiv_nonneg_iff)

lemma sorted_buckets:
  assumes "0 < w" "sorted (map timestamp ts)" "\<forall>t \<in> set ts. 0 \<le> timestamp t"
  shows "sorted (map (\<lambda>t. bucket_of w (timestamp t)) ts)"
  using assms(2,3) by (induction ts) (auto intro: bucket_of_mono[OF assms(1)])

end
