(* ===== verification/Reports.thy ===== *)
theory Reports
  imports Metrics MarketData Text
begin

text \<open>
  The text the simulation prints about itself: the log lines of \<open>Src_Simulation/include/logger.hpp\<close>
  (threshold, prefix, sinks), the reports of \<open>metrics.hpp\<close>, and the log line of an engine event
  (\<open>SimulationServer::log_engine_events\<close>). The wall clock's \<open>%H:%M:%S\<close> text and the thread id are
  arguments.
\<close>

section \<open>Logger\<close>

datatype log_level = DEBUG | INFO | WARN | ERROR

fun level_num :: "log_level \<Rightarrow> int" where
  "level_num DEBUG = 0"
| "level_num INFO = 1"
| "level_num WARN = 2"
| "level_num ERROR = 3"

fun level_to_string :: "log_level \<Rightarrow> string" where
  "level_to_string DEBUG = ''DEBUG''"
| "level_to_string INFO = ''INFO''"
| "level_to_string WARN = ''WARN''"
| "level_to_string ERROR = ''ERROR''"

record logger =
  min_level :: log_level
  file_open :: bool
  std_out :: "string list"
  std_err :: "string list"
  log_file :: "string list"

definition new_logger :: logger where
  "new_logger = \<lparr>min_level = INFO, file_open = False, std_out = [], std_err = [], log_file = []\<rparr>"

text \<open>\<open>setfill('0') << setw(3)\<close>.\<close>

definition pad_left :: "nat \<Rightarrow> char \<Rightarrow> string \<Rightarrow> string" where
  "pad_left w c s = replicate (w - length s) c @ s"

definition log_line :: "string \<Rightarrow> nat \<Rightarrow> string \<Rightarrow> log_level \<Rightarrow> string \<Rightarrow> string" where
  "log_line hms ms tid level body =
     ''['' @ hms @ ''.'' @ pad_left 3 CHR ''0'' (show_nat (ms mod 1000)) @ ''] ['' @ level_to_string level @
     ''] [tid '' @ tid @ ''] '' @ body"

definition log_at :: "string \<Rightarrow> nat \<Rightarrow> string \<Rightarrow> log_level \<Rightarrow> string \<Rightarrow> logger \<Rightarrow> logger" where
  "log_at hms ms tid level body lg =
     (if level_num level < level_num (min_level lg) then lg
      else
        (let line = log_line hms ms tid level body;
             lg1 = (if level = ERROR \<or> level = WARN then lg\<lparr>std_err := std_err lg @ [line]\<rparr>
                    else lg\<lparr>std_out := std_out lg @ [line]\<rparr>)
         in if file_open lg1 then lg1\<lparr>log_file := log_file lg1 @ [line]\<rparr> else lg1))"

type_synonym log_entry = "log_level \<times> string"

section \<open>Metrics reports\<close>

fun buckets_text :: "int list \<Rightarrow> 64 word list \<Rightarrow> string" where
  "buckets_text [] _ = []"
| "buckets_text _ [] = []"
| "buckets_text (b # bs) (n # ns) =
     show_int b @ '':'' @ show_word n @ (if bs = [] then [] else '', '' @ buckets_text bs ns)"

definition histogram_report :: "latency_histogram \<Rightarrow> string" where
  "histogram_report h =
     ''count='' @ show_word (hist_count h) @ '' mean_us='' @ show_double 6 (mean_us h) @
     '' max_us='' @ show_int (sint (hist_max_us h)) @ '' buckets(<us:count)=['' @
     buckets_text bucket_bounds_us (hist_buckets h) @ '', overflow:'' @ show_word (hist_overflow h) @ '']''"

definition dbl_of_word :: "64 word \<Rightarrow> double" where
  "dbl_of_word w = dbl_of_int (uint w)"

definition metrics_report :: "double \<Rightarrow> metrics \<Rightarrow> string" where
  "metrics_report elapsed_seconds m =
     ''orders_submitted='' @ show_word (orders_submitted m) @ '' orders_accepted='' @ show_word (orders_accepted m) @
     '' orders_rejected='' @ show_word (orders_rejected m) @ '' orders_queued='' @ show_word (orders_queued m) @
     '' orders_expired='' @ show_word (orders_expired m) @ '' trades_executed='' @ show_word (trades_executed m) @
     '' volume_traded='' @ show_word (volume_traded m) @
     (if 0 < elapsed_seconds
      then '' orders_per_sec='' @ show_double 6 (dbl_of_word (orders_submitted m) div elapsed_seconds) @
           '' trades_per_sec='' @ show_double 6 (dbl_of_word (trades_executed m) div elapsed_seconds)
      else []) @
     '' | submit_latency: '' @ histogram_report (submit_latency m)"

section \<open>Engine events in the log\<close>

fun event_log :: "event \<Rightarrow> log_entry option" where
  "event_log (TradeEvent t) = Some (INFO,
     ''TRADE '' @ tsymbol t @ '' qty='' @ show_int (tqty t) @ '' price='' @ show_double 6 (tprice t) @
     '' buyer='' @ show_int (buyer t) @ '' seller='' @ show_int (seller t))"
| "event_log (OrderRejectedEvent i c reason) = Some (WARN,
     ''ORDER_REJECTED order_id='' @ show_word i @ '' client='' @ show_int c @ '' reason='' @ reason)"
| "event_log (OrderQueuedEvent i c s) = Some (INFO,
     ''ORDER_QUEUED order_id='' @ show_word i @ '' client='' @ show_int c @ '' symbol='' @ s)"
| "event_log (OrderExpiredEvent i c s) = Some (INFO,
     ''ORDER_EXPIRED order_id='' @ show_word i @ '' client='' @ show_int c @ '' symbol='' @ s)"
| "event_log (OrderAcceptedEvent i c s) = None"

section \<open>Facts\<close>

lemma log_at_frame:
  "min_level (log_at hms ms tid level body lg) = min_level lg \<and> file_open (log_at hms ms tid level body lg) = file_open lg"
  by (simp add: log_at_def Let_def)

end
