(* ===== verification/Protocol.thy ===== *)
theory Protocol
  imports Text
begin

unbundle bit_operations_syntax

text \<open>
  The framing of \<open>Src_Simulation/src/net/protocol.cpp\<close>: an 8-byte big-endian length, then the
  payload. The peer's side of a socket is the list of the pieces in which the kernel will hand the
  bytes out: one \<open>recv\<close> returns at most the bytes of the first piece; an empty piece, or no piece, is a
  call that returns zero or less (end of stream, error, timeout). For sending, the kernel's answers
  are a list of counts. Both loops end because every pass moves at least one byte.
\<close>

definition kMaxMessageBytes :: "64 word" where
  "kMaxMessageBytes = push_bit 20 1"

section \<open>Receiving\<close>

fun recv_exact :: "nat \<Rightarrow> string list \<Rightarrow> string option \<times> string list" where
  "recv_exact n pieces =
     (if n = 0 then (Some [], pieces)
      else case pieces of
             [] \<Rightarrow> (None, [])
           | p # ps \<Rightarrow>
               if p = [] then (None, ps)
               else if length p \<le> n
                 then (case recv_exact (n - length p) ps of (r, ps') \<Rightarrow> (map_option (\<lambda>x. p @ x) r, ps'))
               else (Some (take n p), drop n p # ps))"

declare recv_exact.simps [simp del]

definition decode_length :: "string \<Rightarrow> 64 word" where
  "decode_length header = foldl (\<lambda>l c. push_bit 8 l OR of_nat (of_char c)) 0 header"

definition recv_framed :: "string list \<Rightarrow> string option \<times> string list" where
  "recv_framed pieces =
     (case recv_exact 8 pieces of
        (None, ps) \<Rightarrow> (None, ps)
      | (Some header, ps) \<Rightarrow>
          (let len = decode_length header
           in if kMaxMessageBytes < len then (None, ps)
              else if 0 < len then recv_exact (unat len) ps
              else (Some [], ps)))"

section \<open>Sending\<close>

definition encode_length :: "64 word \<Rightarrow> string" where
  "encode_length len = map (\<lambda>i. char_of (unat (drop_bit (8 * (7 - i)) len AND 0xFF))) [0..<8]"

text \<open>The kernel takes at least one byte of the rest, or fails (a count of zero or less, or no answer).\<close>

fun send_exact :: "string \<Rightarrow> int list \<Rightarrow> bool \<times> string \<times> int list" where
  "send_exact buf answers =
     (if buf = [] then (True, [], answers)
      else case answers of
             [] \<Rightarrow> (False, [], [])
           | n # ns \<Rightarrow>
               if n \<le> 0 then (False, [], ns)
               else (case send_exact (drop (nat n) buf) ns of
                       (ok, out, ns') \<Rightarrow> (ok, take (nat n) buf @ out, ns')))"

declare send_exact.simps [simp del]

text \<open>The bytes that reached the wire, and whether the whole frame did.\<close>

definition send_framed :: "string \<Rightarrow> int list \<Rightarrow> bool \<times> string \<times> int list" where
  "send_framed payload answers =
     (case send_exact (encode_length (of_nat (length payload))) answers of
        (False, out, ns) \<Rightarrow> (False, out, ns)
      | (True, out, ns) \<Rightarrow>
          if payload = [] then (True, out, ns)
          else (case send_exact payload ns of (ok, out', ns') \<Rightarrow> (ok, out @ out', ns')))"

definition frame :: "string \<Rightarrow> string" where
  "frame payload = encode_length (of_nat (length payload)) @ payload"

text \<open>\<open>ClientConnection::send_command\<close>: one request, then one response.\<close>

definition send_command :: "string \<Rightarrow> int list \<Rightarrow> string list \<Rightarrow> string option \<times> string \<times> string list" where
  "send_command line answers pieces =
     (case send_framed line answers of
        (False, out, _) \<Rightarrow> (None, out, pieces)
      | (True, out, _) \<Rightarrow> (case recv_framed pieces of (r, ps) \<Rightarrow> (r, out, ps)))"

section \<open>Facts\<close>

lemma recv_exact_ok:
  "[] \<notin> set ps \<Longrightarrow> concat ps = x @ y \<Longrightarrow> length x = n \<Longrightarrow>
     fst (recv_exact n ps) = Some x \<and> concat (snd (recv_exact n ps)) = y \<and> [] \<notin> set (snd (recv_exact n ps))"
proof (induction n ps arbitrary: x rule: recv_exact.induct)
  case (1 n ps)
  show ?case
  proof (cases "n = 0")
    case False
    then obtain p qs where ps: "ps = p # qs" using 1(3,4) by (cases ps) auto
    show ?thesis
    proof (cases "length p \<le> n")
      case True
      have x: "x = p @ drop (length p) x"
      proof -
        have "take (length p) (p @ concat qs) = take (length p) (x @ y)" using 1(3) ps by simp
        then have "p = take (length p) x" using True 1(4) by simp
        then show ?thesis using append_take_drop_id[of "length p" x] by simp
      qed
      have c: "concat qs = drop (length p) x @ y"
        using 1(3) ps x by (metis append.assoc concat.simps(2) same_append_eq)
      have "fst (recv_exact (n - length p) qs) = Some (drop (length p) x) \<and>
        concat (snd (recv_exact (n - length p) qs)) = y \<and> [] \<notin> set (snd (recv_exact (n - length p) qs))"
        using 1(1)[OF False ps _ True _ c] 1(2,4) ps by auto
      then show ?thesis using False ps True x 1(2)
        by (subst (1 2 3) recv_exact.simps) (auto split: prod.splits)
    next
      case long: False
      have "take n (p @ concat qs) = take n (x @ y)" "drop n (p @ concat qs) = drop n (x @ y)"
        using 1(3) ps by simp_all
      then show ?thesis using False ps long 1(2,4) by (subst (1 2 3) recv_exact.simps) auto
    qed
  qed (use 1 in \<open>simp add: recv_exact.simps\<close>)
qed

lemma recv_exact_short: "length (concat ps) < n \<Longrightarrow> fst (recv_exact n ps) = None"
proof (induction n ps rule: recv_exact.induct)
  case (1 n ps)
  show ?case
  proof (cases ps)
    case (Cons p qs)
    show ?thesis
    proof (cases "p = []")
      case False
      have "length p \<le> n" "n \<noteq> 0" using 1(2) Cons by auto
      moreover have "fst (recv_exact (n - length p) qs) = None"
        using 1(1)[OF \<open>n \<noteq> 0\<close> Cons False \<open>length p \<le> n\<close>] 1(2) Cons by simp
      ultimately show ?thesis using Cons False by (subst recv_exact.simps) (auto split: prod.splits)
    qed (use 1(2) Cons in \<open>simp add: recv_exact.simps\<close>)
  qed (use 1(2) in \<open>simp add: recv_exact.simps\<close>)
qed

lemma send_exact_out:
  "send_exact buf ns = (ok, out, ns') \<Longrightarrow> (\<exists>rest. buf = out @ rest) \<and> (ok \<longrightarrow> out = buf)"
proof (induction buf ns arbitrary: ok out ns' rule: send_exact.induct)
  case (1 buf ns)
  show ?case
  proof (cases "buf = []")
    case False
    show ?thesis
    proof (cases ns)
      case (Cons n ms)
      show ?thesis
      proof (cases "n \<le> 0")
        case pos: False
        obtain ok2 out2 ns2 where r: "send_exact (drop (nat n) buf) ms = (ok2, out2, ns2)"
          by (cases "send_exact (drop (nat n) buf) ms") auto
        have "ok = ok2" "out = take (nat n) buf @ out2"
          using 1(2) False Cons pos r by (simp_all add: send_exact.simps[of buf "n # ms"])
        then show ?thesis using 1(1)[OF False Cons pos r]
          by (metis append.assoc append_take_drop_id)
      qed (use 1(2) False Cons in \<open>simp add: send_exact.simps[of buf]\<close>)
    qed (use 1(2) False in \<open>simp add: send_exact.simps[of buf]\<close>)
  qed (use 1(2) in \<open>simp add: send_exact.simps\<close>)
qed

lemma length_encode [simp]: "length (encode_length n) = 8"
  by (simp add: encode_length_def)

lemma and_FF: "x AND 0xFF = take_bit 8 (x :: 64 word)"
  by (simp add: take_bit_eq_mask mask_eq_exp_minus_1)

lemma of_char_byte: "(of_nat (of_char (char_of (unat (x AND 0xFF)) :: char)) :: 64 word) = x AND 0xFF"
proof -
  have "unat (x AND 0xFF) < 256" unfolding and_FF by (simp add: unsigned_take_bit_eq take_bit_nat_less_exp[of 8, simplified])
  then show ?thesis by simp
qed

lemma join_byte: "push_bit 8 (drop_bit 8 x) OR (x AND 0xFF) = (x :: 64 word)"
  unfolding and_FF by (rule bit_word_eqI) (auto simp: bit_simps)

lemma decode_take:
  "k \<le> 8 \<Longrightarrow> decode_length (take k (encode_length n)) = drop_bit (8 * (8 - k)) n"
proof (induction k)
  case 0
  show ?case by (simp add: decode_length_def drop_bit_word_beyond)
next
  case (Suc k)
  let ?x = "drop_bit (8 * (7 - k)) n"
  have "take (Suc k) (encode_length n) = take k (encode_length n) @ [char_of (unat (?x AND 0xFF))]"
    using Suc.prems by (simp add: take_Suc_conv_app_nth encode_length_def)
  then have "decode_length (take (Suc k) (encode_length n)) =
      push_bit 8 (decode_length (take k (encode_length n))) OR (?x AND 0xFF)"
    by (simp only: decode_length_def foldl_append foldl.simps of_char_byte)
  also have "decode_length (take k (encode_length n)) = drop_bit 8 ?x"
    using Suc by (simp add: drop_bit_drop_bit Suc_diff_le algebra_simps)
  finally show ?case using Suc.prems by (simp only: join_byte) (simp add: Suc_diff_Suc)
qed

lemma decode_encode: "decode_length (encode_length n) = n"
  using decode_take[of 8 n] by simp

section \<open>Frames survive any cutting\<close>

lemma kMax_val: "unat kMaxMessageBytes = 2 ^ 20"
  by (simp add: kMaxMessageBytes_def push_bit_of_1)

lemma length_small:
  assumes "length payload \<le> 2 ^ 20"
  shows "unat (of_nat (length payload) :: 64 word) = length payload"
  using assms by (simp add: unat_of_nat)

lemma recv_frame:
  assumes ne: "[] \<notin> set ps" and c: "concat ps = frame payload @ rest" and len: "length payload \<le> 2 ^ 20"
  shows "fst (recv_framed ps) = Some payload \<and> concat (snd (recv_framed ps)) = rest \<and>
    [] \<notin> set (snd (recv_framed ps))"
proof -
  let ?n = "of_nat (length payload) :: 64 word"
  have c': "concat ps = encode_length ?n @ (payload @ rest)" using c by (simp add: frame_def)
  obtain qs where r: "recv_exact 8 ps = (Some (encode_length ?n), qs)" "concat qs = payload @ rest" "[] \<notin> set qs"
    using recv_exact_ok[OF ne c' length_encode] by (cases "recv_exact 8 ps") auto
  have small: "\<not> kMaxMessageBytes < ?n" using len by (simp add: word_less_nat_alt kMax_val length_small)
  show ?thesis
  proof (cases "payload = []")
    case False
    then have "0 < ?n" using len by (simp add: word_less_nat_alt length_small)
    then show ?thesis using r small recv_exact_ok[OF r(3,2), of "length payload"] len
      by (simp add: recv_framed_def decode_encode length_small)
  qed (use r small in \<open>simp add: recv_framed_def decode_encode\<close>)
qed

lemma recv_oversized:
  assumes ne: "[] \<notin> set ps" and c: "concat ps = encode_length n @ rest" and big: "kMaxMessageBytes < n"
  shows "recv_framed ps = (None, snd (recv_framed ps)) \<and> concat (snd (recv_framed ps)) = rest"
  using recv_exact_ok[OF ne c length_encode] big
  by (cases "recv_exact 8 ps") (auto simp: recv_framed_def decode_encode)

lemma recv_truncated: "length (concat ps) < 8 \<Longrightarrow> fst (recv_framed ps) = None"
  using recv_exact_short[of ps 8] by (cases "recv_exact 8 ps") (simp add: recv_framed_def)

text \<open>Messages read one after the other.\<close>

fun recv_many :: "nat \<Rightarrow> string list \<Rightarrow> string list option \<times> string list" where
  "recv_many 0 ps = (Some [], ps)"
| "recv_many (Suc k) ps =
     (case recv_framed ps of
        (None, qs) \<Rightarrow> (None, qs)
      | (Some m, qs) \<Rightarrow> (case recv_many k qs of (r, rs) \<Rightarrow> (map_option (\<lambda>ms. m # ms) r, rs)))"

lemma recv_many_frames:
  "[] \<notin> set ps \<Longrightarrow> concat ps = concat (map frame msgs) @ rest \<Longrightarrow> \<forall>m \<in> set msgs. length m \<le> 2 ^ 20 \<Longrightarrow>
     fst (recv_many (length msgs) ps) = Some msgs \<and> concat (snd (recv_many (length msgs) ps)) = rest"
proof (induction msgs arbitrary: ps)
  case (Cons m msgs)
  have c: "concat ps = frame m @ (concat (map frame msgs) @ rest)" using Cons.prems(2) by simp
  obtain qs where "recv_framed ps = (Some m, qs)" "concat qs = concat (map frame msgs) @ rest" "[] \<notin> set qs"
    using recv_frame[OF Cons.prems(1) c] Cons.prems(3) by (cases "recv_framed ps") auto
  then show ?case using Cons.IH[of qs] Cons.prems(3) by (auto split: prod.splits)
qed simp

lemma send_framed_frame:
  assumes "send_framed payload ns = (ok, out, ns')"
  shows "(\<exists>rest. frame payload = out @ rest) \<and> (ok \<longrightarrow> out = frame payload)"
proof -
  obtain ok1 o1 ns1 where h: "send_exact (encode_length (of_nat (length payload))) ns = (ok1, o1, ns1)"
    by (cases "send_exact (encode_length (of_nat (length payload))) ns") auto
  obtain ok2 o2 ns2 where b: "send_exact payload ns1 = (ok2, o2, ns2)" by (cases "send_exact payload ns1") auto
  show ?thesis using assms send_exact_out[OF h] send_exact_out[OF b] h b
    by (auto simp: send_framed_def frame_def split: bool.splits if_splits)
qed

end
