(* ===== verification/Server.thy ===== *)
theory Server
  imports EngineMachine Auth Reports Protocol
begin

text \<open>
  The server of \<open>Src_Simulation/src/net/simulation_server.cpp\<close>: the parser of command lines, the
  dispatcher of an authenticated client's commands, the per-connection loop with its three ways to
  authenticate, the release watcher and the rows of the metrics file. The engine, the market data
  feed and the client directory are the models of their own theories.

  A command takes the clock readings of the engine operation it may make (\<open>readings\<close>), a message the
  random draws of the directory operation it may make. \<open>None\<close> for a reply is an exception that left
  \<open>dispatch_command\<close>; \<open>what\<close> is its text. The feed is handed published events one at a time by the
  bus; \<open>srv_seen\<close> counts them.
\<close>

section \<open>Parsing commands\<close>

definition parse_kv_token :: "(string \<times> string) list \<Rightarrow> string \<Rightarrow> (string \<times> string) list" where
  "parse_kv_token kv token =
     (case cut_at CHR ''='' token of None \<Rightarrow> kv | Some (k, v) \<Rightarrow> AList.update k v kv)"

definition parse_kv :: "string list \<Rightarrow> nat \<Rightarrow> (string \<times> string) list" where
  "parse_kv tokens start = foldl parse_kv_token [] (drop start tokens)"

definition kv_double :: "(string \<times> string) list \<Rightarrow> string \<Rightarrow> double option" where
  "kv_double kv key = (case map_of kv key of None \<Rightarrow> None | Some v \<Rightarrow> stod v)"

definition kv_int :: "(string \<times> string) list \<Rightarrow> string \<Rightarrow> int option" where
  "kv_int kv key = (case map_of kv key of None \<Rightarrow> None | Some v \<Rightarrow> stoll v)"

definition parse_kind :: "string \<Rightarrow> order_kind option" where
  "parse_kind t =
     (if t = ''MARKET'' then Some MARKET else if t = ''LIMIT'' then Some LIMIT
      else if t = ''STOP'' then Some STOP else if t = ''LIMIT_STOP'' then Some LIMIT_STOP else None)"

text \<open>The optional fields of an order request, applied in the order of the code.\<close>

definition if_some :: "'a option \<Rightarrow> ('a \<Rightarrow> 'b \<Rightarrow> 'b) \<Rightarrow> 'b \<Rightarrow> 'b" where
  "if_some x f y = (case x of None \<Rightarrow> y | Some v \<Rightarrow> f v y)"

definition apply_kv :: "(string \<times> string) list \<Rightarrow> order_request \<Rightarrow> order_request" where
  "apply_kv kv rq0 =
     (let rq1 = if_some (kv_double kv ''PRICE'') (\<lambda>p r. r\<lparr>rq_price := p\<rparr>) rq0;
          rq2 = if_some (kv_double kv ''TRIGGER'') (\<lambda>p r. r\<lparr>trigger_upper := Some p\<rparr>) rq1;
          rq3 = if_some (kv_double kv ''TRIGGER_LOWER'') (\<lambda>p r. r\<lparr>trigger_lower := Some p\<rparr>) rq2;
          rq4 = if_some (kv_double kv ''TRIGGER_UPPER'') (\<lambda>p r. r\<lparr>trigger_upper := Some p\<rparr>) rq3;
          rq5 = if_some (kv_int kv ''EXPIRES'') (\<lambda>s r. r\<lparr>expires_in := Some s\<rparr>) rq4
      in if_some (kv_int kv ''NOT_BEFORE'') (\<lambda>s r. r\<lparr>not_before_in := Some s\<rparr>) rq5)"

definition default_stop_price :: "order_request \<Rightarrow> order_request" where
  "default_stop_price rq =
     (if rq_kind rq = STOP \<and> rq_price rq \<le> 0
      then (case trigger_upper rq of None \<Rightarrow> rq | Some t \<Rightarrow> rq\<lparr>rq_price := t\<rparr>) else rq)"

definition parse_order :: "string list \<Rightarrow> client_id \<Rightarrow> string + order_request" where
  "parse_order tokens c =
     (if length tokens < 5 then Inl ''ERR ORDER reason=usage:_ORDER_<BUY|SELL>_<SYMBOL>_<QTY>_<KIND>_[KEY=VALUE...]''
      else if tokens ! 1 \<noteq> ''BUY'' \<and> tokens ! 1 \<noteq> ''SELL'' then Inl ''ERR ORDER reason=side_must_be_BUY_or_SELL''
      else case stoll (tokens ! 3) of
             None \<Rightarrow> Inl ''ERR ORDER reason=invalid_quantity''
           | Some q \<Rightarrow>
               (case parse_kind (tokens ! 4) of
                  None \<Rightarrow> Inl ''ERR ORDER reason=kind_must_be_MARKET_LIMIT_STOP_or_LIMIT_STOP''
                | Some k \<Rightarrow>
                    Inr (default_stop_price (apply_kv (parse_kv tokens 5)
                      (default_request\<lparr>rq_client := c, rq_side := (if tokens ! 1 = ''BUY'' then BUY else SELL),
                         rq_symbol := tokens ! 2, rq_quantity := q, rq_kind := k\<rparr>)))))"

definition order_reply :: "order_request \<Rightarrow> submit_result \<Rightarrow> string" where
  "order_reply rq res =
     (if \<not> accepted res then ''ERR ORDER order_id='' @ show_word (result_order_id res) @ '' reason='' @ reject_reason res
      else if queued res then ''OK ORDER order_id='' @ show_word (result_order_id res) @ '' status=QUEUED''
      else if 0 < filled_quantity res
        then ''OK ORDER order_id='' @ show_word (result_order_id res) @ '' status=FILLED filled='' @
             show_int (filled_quantity res) @ '' trades='' @ show_nat (length (trades res))
      else if rq_kind rq = MARKET
        then ''OK ORDER order_id='' @ show_word (result_order_id res) @ '' status=NO_LIQUIDITY filled=0''
      else ''OK ORDER order_id='' @ show_word (result_order_id res) @ '' status=RESTING filled=0'')"

section \<open>The server's state and the dispatcher\<close>

record server =
  srv_engine :: engine
  srv_market :: market_data
  srv_seen :: nat
  srv_dir :: directory
  log_commands :: bool
  srv_log :: "log_entry list"

type_synonym readings = "time \<times> (nat \<Rightarrow> time) \<times> 64 word"

definition handle_order_command ::
  "readings \<Rightarrow> string list \<Rightarrow> client_id \<Rightarrow> engine \<Rightarrow> string option \<times> engine" where
  "handle_order_command rd tokens c e =
     (case parse_order tokens c of
        Inl err \<Rightarrow> (Some err, e)
      | Inr rq \<Rightarrow>
          (case rd of (now, clk, lat) \<Rightarrow>
             (case submit_order now clk lat rq e of
                None \<Rightarrow> (None, e)
              | Some (res, e') \<Rightarrow> (Some (order_reply rq res), e'))))"

definition cancel_command :: "string list \<Rightarrow> engine \<Rightarrow> string option \<times> engine" where
  "cancel_command tokens e =
     (case stoull (tokens ! 1) of
        None \<Rightarrow> (Some ''ERR INVALID_ARGUMENTS'', e)
      | Some i \<Rightarrow>
          (case cancel_order (tokens ! 2) i e of
             None \<Rightarrow> (Some ''ERR INVALID_ARGUMENTS'', e)
           | Some (True, e1) \<Rightarrow> (Some ''OK CANCELLED'', e1)
           | Some (False, e1) \<Rightarrow>
               (case cancel_waiting_order i e1 of
                  (found, e2) \<Rightarrow> (Some (if found then ''OK CANCELLED'' else ''ERR NOT_FOUND''), e2))))"

definition cancel_waiting_command :: "string list \<Rightarrow> engine \<Rightarrow> string option \<times> engine" where
  "cancel_waiting_command tokens e =
     (case stoull (tokens ! 1) of
        None \<Rightarrow> (Some ''ERR INVALID_ORDER_ID'', e)
      | Some i \<Rightarrow>
          (case cancel_waiting_order i e of
             (found, e1) \<Rightarrow> (Some (if found then ''OK CANCELLED'' else ''ERR NOT_FOUND''), e1)))"

definition cancel_book_command :: "string list \<Rightarrow> engine \<Rightarrow> string option \<times> engine" where
  "cancel_book_command tokens e =
     (case stoull (tokens ! 1) of
        None \<Rightarrow> (Some ''ERR INVALID_ARGUMENTS'', e)
      | Some i \<Rightarrow>
          (let sd = (if tokens ! 3 = ''BUY'' then BUY else SELL)
           in case stod (tokens ! 4) of
                None \<Rightarrow> (Some ''ERR INVALID_ARGUMENTS'', e)
              | Some p \<Rightarrow>
                  (case cancel_order_at (tokens ! 2) sd p i e of
                     None \<Rightarrow> (Some ''ERR INVALID_ARGUMENTS'', e)
                   | Some (found, e1) \<Rightarrow> (Some (if found then ''OK CANCELLED'' else ''ERR NOT_FOUND''), e1))))"

definition portfolio_reply :: "portfolio \<Rightarrow> string" where
  "portfolio_reply pf = ''OK PORTFOLIO cash='' @ show_double 15 (cash pf) @
     concat (map (\<lambda>(s, q). '' '' @ s @ ''='' @ show_int q) (holdings pf))"

definition market_reply :: "symbol \<Rightarrow> engine \<Rightarrow> market_data \<Rightarrow> string option" where
  "market_reply s e md =
     (case engine_snapshot e s 1 of
        None \<Rightarrow> None
      | Some snap \<Rightarrow>
          (let last0 = md_last_price md s;
               lst = (if last0 \<le> 0 then last_price e s else last0)
           in Some (''OK MARKET '' @ s @ '' last='' @ show_double 15 lst @ '' vwap='' @ show_double 15 (md_vwap md s) @
                '' volume='' @ show_int (md_total_volume md s) @
                (if snap_bids snap \<noteq> [] then '' bid='' @ show_double 15 (lv_price (hd (snap_bids snap))) else []) @
                (if snap_asks snap \<noteq> [] then '' ask='' @ show_double 15 (lv_price (hd (snap_asks snap))) else []))))"

definition symbols_reply :: "engine \<Rightarrow> string" where
  "symbols_reply e = ''OK SYMBOLS'' @ concat (map (\<lambda>s. '' '' @ s) (engine_symbols e))"

definition metrics_reply :: "engine \<Rightarrow> string" where
  "metrics_reply e = ''OK METRICS '' @ metrics_report 0 (eng_metrics e) @ '' waiting_orders='' @
     show_nat (waiting_order_count e)"

definition dispatch_command ::
  "readings \<Rightarrow> string \<Rightarrow> client_id \<Rightarrow> market_data \<Rightarrow> engine \<Rightarrow> string option \<times> engine" where
  "dispatch_command rd line c md e =
     (let tokens = split line; command = tokens ! 0
      in if command = ''ORDER'' then handle_order_command rd tokens c e
         else if command = ''CANCEL'' \<and> length tokens = 3 then cancel_command tokens e
         else if command = ''CANCEL_WAITING'' \<and> length tokens = 2 then cancel_waiting_command tokens e
         else if command = ''CANCEL_BOOK'' \<and> length tokens = 5 then cancel_book_command tokens e
         else if command = ''PORTFOLIO'' then (Some (portfolio_reply (portfolio_snapshot e c)), e)
         else if command = ''MARKET'' \<and> length tokens = 2 then (market_reply (tokens ! 1) e md, e)
         else if command = ''SYMBOLS'' then (Some (symbols_reply e), e)
         else if command = ''METRICS'' then (Some (metrics_reply e), e)
         else (Some ''ERR UNKNOWN_COMMAND'', e))"

section \<open>A connection\<close>

record session =
  sess_client :: client_id
  sess_auth :: bool
  sess_open :: bool

definition new_session :: session where
  "new_session = \<lparr>sess_client = 0, sess_auth = False, sess_open = True\<rparr>"

definition log_if :: "bool \<Rightarrow> log_level \<Rightarrow> string \<Rightarrow> server \<Rightarrow> server" where
  "log_if b level body v = (if b then v\<lparr>srv_log := srv_log v @ [(level, body)]\<rparr> else v)"

definition kStartingCash :: double where "kStartingCash = Fin 100000"

definition kStartingShares :: quantity where "kStartingShares = 50"

text \<open>A new account: starting cash, and a starting position in every symbol.\<close>

definition open_account :: "client_id \<Rightarrow> engine \<Rightarrow> engine" where
  "open_account c e =
     (let e1 = ensure_client c kStartingCash e
      in foldl (\<lambda>e s. grant_initial_holdings c s kStartingShares e) e1 (engine_symbols e1))"

definition do_register :: "draws \<Rightarrow> string list \<Rightarrow> session \<Rightarrow> server \<Rightarrow> string \<times> session \<times> server" where
  "do_register draw tokens ss v =
     (case register_client draw (tokens ! 1) (tokens ! 2) (srv_dir v) of
        (UsernameTaken, d) \<Rightarrow> (''ERR USERNAME_TAKEN'', ss, v\<lparr>srv_dir := d\<rparr>)
      | (Registered c token, d) \<Rightarrow>
          (''OK REGISTERED client_id='' @ show_int c @ '' token='' @ token,
           ss\<lparr>sess_client := c, sess_auth := True\<rparr>,
           log_if (log_commands v) INFO (''REGISTER username='' @ tokens ! 1 @ '' -> client_id='' @ show_int c)
             (v\<lparr>srv_dir := d, srv_engine := open_account c (srv_engine v)\<rparr>)))"

definition do_login :: "draws \<Rightarrow> string list \<Rightarrow> session \<Rightarrow> server \<Rightarrow> string \<times> session \<times> server" where
  "do_login draw tokens ss v =
     (case authenticate draw (tokens ! 1) (tokens ! 2) (srv_dir v) of
        (Authenticated c token, d) \<Rightarrow>
          (''OK LOGIN client_id='' @ show_int c @ '' token='' @ token,
           ss\<lparr>sess_client := c, sess_auth := True\<rparr>,
           log_if (log_commands v) INFO (''LOGIN username='' @ tokens ! 1 @ '' -> client_id='' @ show_int c)
             (v\<lparr>srv_dir := d\<rparr>))
      | (UnknownUsername, d) \<Rightarrow> (''ERR UNKNOWN_USERNAME'', ss, v\<lparr>srv_dir := d\<rparr>)
      | (WrongPassword, d) \<Rightarrow> (''ERR WRONG_PASSWORD'', ss, v\<lparr>srv_dir := d\<rparr>))"

definition do_resume :: "string list \<Rightarrow> session \<Rightarrow> server \<Rightarrow> string \<times> session \<times> server" where
  "do_resume tokens ss v =
     (case resolve_token (tokens ! 1) (srv_dir v) of
        None \<Rightarrow> (''ERR UNKNOWN_TOKEN'', ss, v)
      | Some c \<Rightarrow>
          (''OK RESUMED client_id='' @ show_int c, ss\<lparr>sess_client := c, sess_auth := True\<rparr>,
           log_if (log_commands v) INFO (''RESUME -> client_id='' @ show_int c) v))"

definition handle_unauthenticated ::
  "draws \<Rightarrow> string list \<Rightarrow> session \<Rightarrow> server \<Rightarrow> string \<times> session \<times> server" where
  "handle_unauthenticated draw tokens ss v =
     (let command = tokens ! 0
      in if command = ''REGISTER'' \<and> length tokens = 3 then do_register draw tokens ss v
         else if command = ''LOGIN'' \<and> length tokens = 3 then do_login draw tokens ss v
         else if command = ''RESUME'' \<and> length tokens = 2 then do_resume tokens ss v
         else if command = ''QUIT'' then (''OK BYE'', ss\<lparr>sess_open := False\<rparr>, v)
         else (''ERR NOT_AUTHENTICATED (send REGISTER <user> <pass>, LOGIN <user> <pass>, or RESUME <token> first)'', ss, v))"

definition handle_authenticated ::
  "string \<Rightarrow> readings \<Rightarrow> string \<Rightarrow> bool \<Rightarrow> session \<Rightarrow> server \<Rightarrow> string \<times> session \<times> server" where
  "handle_authenticated what rd msg sent ss v =
     (case dispatch_command rd msg (sess_client ss) (srv_market v) (srv_engine v) of
        (reply, e) \<Rightarrow>
          (let v1 = v\<lparr>srv_engine := e\<rparr>;
               (response, v2) =
                 (case reply of
                    Some r \<Rightarrow> (r, v1)
                  | None \<Rightarrow> (''ERR INTERNAL_ERROR '' @ what,
                      log_if True ERROR (''dispatch_command threw for client '' @ show_int (sess_client ss) @ '': '' @ what) v1));
               v3 = log_if (log_commands v2) INFO
                 (''client='' @ show_int (sess_client ss) @ '' command=['' @ msg @ ''] response=['' @ response @ '']'') v2
           in (response, (if sent then ss else ss\<lparr>sess_open := False\<rparr>), v3)))"

text \<open>
  One pass of the loop of \<open>handle_connection\<close>: what \<open>recv_framed\<close> returned, and whether the reply
  could be sent (looked at only after a dispatched command). The reply is \<open>None\<close> when nothing is sent.
\<close>

definition handle_message ::
  "string \<Rightarrow> draws \<Rightarrow> readings \<Rightarrow> string option \<Rightarrow> bool \<Rightarrow> session \<Rightarrow> server \<Rightarrow> string option \<times> session \<times> server" where
  "handle_message what draw rd inp sent ss v =
     (case inp of
        None \<Rightarrow> (None, ss\<lparr>sess_open := False\<rparr>, v)
      | Some msg \<Rightarrow>
          (let tokens = split msg
           in if tokens = [] then (Some ''ERR EMPTY_COMMAND'', ss, v)
              else if \<not> sess_auth ss then apfst Some (handle_unauthenticated draw tokens ss v)
              else if tokens ! 0 = ''QUIT'' then (Some ''OK BYE'', ss\<lparr>sess_open := False\<rparr>, v)
              else apfst Some (handle_authenticated what rd msg sent ss v)))"

section \<open>Background threads\<close>

text \<open>The bus hands the feed and the event logger the next published event.\<close>

definition deliver_event :: "int \<Rightarrow> server \<Rightarrow> server" where
  "deliver_event bucket_ms v =
     (if srv_seen v < length (published (srv_engine v))
      then (let ev = published (srv_engine v) ! srv_seen v
            in v\<lparr>srv_seen := srv_seen v + 1, srv_market := md_on_event bucket_ms ev (srv_market v),
                 srv_log := srv_log v @ (case event_log ev of None \<Rightarrow> [] | Some x \<Rightarrow> [x])\<rparr>)
      else v)"

text \<open>One tick of \<open>watcher_loop\<close>; the tick counter is a C++ \<open>int\<close>, an integer here.\<close>

definition is_full_scan :: "int \<Rightarrow> int \<Rightarrow> bool" where
  "is_full_scan every tick \<longleftrightarrow> 0 < every \<and> tick mod every = 0"

definition watcher_tick ::
  "int \<Rightarrow> int \<Rightarrow> time \<Rightarrow> (nat \<Rightarrow> nat \<Rightarrow> time) \<Rightarrow> (nat \<Rightarrow> 64 word) \<Rightarrow> server \<Rightarrow> (int \<times> server) option" where
  "watcher_tick every tick0 now clk lat v =
     (let tick = tick0 + 1; full_scan = is_full_scan every tick
      in case try_release_waiting_orders full_scan now clk lat (srv_engine v) of
           None \<Rightarrow> None
         | Some (sm, e) \<Rightarrow>
             Some (tick, log_if (released sm \<noteq> [] \<or> expired sm \<noteq> []) INFO
               (''watcher: released '' @ show_nat (length (released sm)) @ '' order(s), expired '' @
                show_nat (length (expired sm)) @ '' order(s)'' @ (if full_scan then '' (full scan)'' else []))
               (v\<lparr>srv_engine := e\<rparr>)))"

definition metrics_header :: string where
  "metrics_header = ''elapsed_ms,orders_submitted,orders_accepted,orders_rejected,orders_queued,orders_expired,trades_executed,volume_traded,waiting_orders,mean_latency_us,max_latency_us''"

definition metrics_row :: "int \<Rightarrow> engine \<Rightarrow> string" where
  "metrics_row elapsed_ms e =
     (let m = eng_metrics e
      in show_int elapsed_ms @ '','' @ show_word (orders_submitted m) @ '','' @ show_word (orders_accepted m) @ '','' @
         show_word (orders_rejected m) @ '','' @ show_word (orders_queued m) @ '','' @ show_word (orders_expired m) @ '','' @
         show_word (trades_executed m) @ '','' @ show_word (volume_traded m) @ '','' @ show_nat (waiting_order_count e) @
         '','' @ show_double 6 (mean_us (submit_latency m)) @ '','' @ show_int (sint (hist_max_us (submit_latency m))))"

end
