(* ===== verification/ServerFacts.thy ===== *)
theory ServerFacts
  imports Server
begin

text \<open>
  The invariant of the server and its preservation by every message, event delivery and watcher
  tick, and the facts about replies and parsing that the properties use.
\<close>

section \<open>Commands keep the engine sound and never throw\<close>

text \<open>An ORDER line whose price is not a NaN; other lines are harmless.\<close>

definition sane_line :: "client_id \<Rightarrow> string \<Rightarrow> bool" where
  "sane_line c line = (case parse_order (split line) c of Inl _ \<Rightarrow> True | Inr rq \<Rightarrow> sane_price rq)"

definition ids_left :: "engine \<Rightarrow> bool" where
  "ids_left e \<longleftrightarrow> next_order_id e + 1 \<noteq> 0"

lemma submit_total:
  assumes "engine_inv e" "sane_price rq"
  obtains res e' where "submit_order now clk lat rq e = Some (res, e')"
  using submit_order_ok[of e rq now clk lat] ids_fresh[of e] assms by (auto simp: engine_inv_def)

lemma order_command_inv:
  assumes inv: "engine_inv e" and sane: "\<forall>rq. parse_order tokens c = Inr rq \<longrightarrow> sane_price rq" and left: "ids_left e"
  shows "\<exists>r e'. handle_order_command rd tokens c e = (Some r, e') \<and> engine_inv e'"
proof (cases "parse_order tokens c")
  case (Inl a)
  then show ?thesis using inv by (simp add: handle_order_command_def)
next
  case (Inr rq)
  obtain now clk lat where rd: "rd = (now, clk, lat)" by (cases rd) auto
  have p: "sane_price rq" using sane Inr by blast
  obtain res e' where s: "submit_order now clk lat rq e = Some (res, e')" by (rule submit_total[OF inv p])
  have "next_order_id e + 1 \<noteq> 0" using left by (simp add: ids_left_def)
  from submit_inv[OF inv p this s] show ?thesis using Inr rd s by (simp add: handle_order_command_def)
qed

lemma cancel_command_inv:
  assumes inv: "engine_inv e"
  shows "\<exists>r e'. cancel_command tokens e = (Some r, e') \<and> engine_inv e'"
proof (cases "stoull (tokens ! 1)")
  case (Some i)
  have ok: "engine_ok e" using inv by (simp add: engine_inv_def)
  obtain found e1 where c: "cancel_order (tokens ! 2) i e = Some (found, e1)"
    by (rule cancel_order_run[OF ok, of "tokens ! 2" i]) auto
  obtain f2 e2 where w: "cancel_waiting_order i e1 = (f2, e2)" by (cases "cancel_waiting_order i e1")
  show ?thesis using Some c w cancel_inv[OF inv c] cancel_waiting_inv[OF cancel_inv[OF inv c] w]
    by (cases found) (simp_all add: cancel_command_def)
qed (use inv in \<open>simp add: cancel_command_def\<close>)

lemma cancel_waiting_command_inv:
  assumes inv: "engine_inv e"
  shows "\<exists>r e'. cancel_waiting_command tokens e = (Some r, e') \<and> engine_inv e'"
proof (cases "stoull (tokens ! 1)")
  case (Some i)
  obtain f2 e2 where w: "cancel_waiting_order i e = (f2, e2)" by (cases "cancel_waiting_order i e")
  show ?thesis using Some w cancel_waiting_inv[OF inv w] by (simp add: cancel_waiting_command_def)
qed (use inv in \<open>simp add: cancel_waiting_command_def\<close>)

lemma cancel_book_command_inv:
  assumes inv: "engine_inv e"
  shows "\<exists>r e'. cancel_book_command tokens e = (Some r, e') \<and> engine_inv e'"
proof (cases "stoull (tokens ! 1)")
  case (Some i)
  have ok: "engine_ok e" using inv by (simp add: engine_inv_def)
  show ?thesis
  proof (cases "stod (tokens ! 4)")
    case (Some p)
    let ?sd = "if tokens ! 3 = ''BUY'' then BUY else SELL"
    obtain found e1 where c: "cancel_order_at (tokens ! 2) ?sd p i e = Some (found, e1)"
      by (rule cancel_order_at_run[OF ok, of "tokens ! 2" ?sd p i]) auto
    show ?thesis using \<open>stoull (tokens ! 1) = Some i\<close> Some c cancel_at_inv[OF inv c]
      by (simp add: cancel_book_command_def Let_def)
  qed (use inv Some in \<open>simp add: cancel_book_command_def Let_def\<close>)
qed (use inv in \<open>simp add: cancel_book_command_def\<close>)

lemma market_reply_total: "market_reply s e md \<noteq> None"
  by (simp add: market_reply_def engine_snapshot_def book_for_def symbol_exists_def Let_def split: option.splits)

lemma dispatch_inv:
  assumes inv: "engine_inv e" and sane: "sane_line c line" and left: "ids_left e"
  shows "\<exists>r e'. dispatch_command rd line c md e = (Some r, e') \<and> engine_inv e'"
proof -
  have "\<forall>rq. parse_order (split line) c = Inr rq \<longrightarrow> sane_price rq" using sane by (auto simp: sane_line_def split: sum.splits)
  note order_command_inv[OF inv this left, of rd] cancel_command_inv[OF inv, of "split line"]
    cancel_waiting_command_inv[OF inv, of "split line"] cancel_book_command_inv[OF inv, of "split line"]
    market_reply_total[of "split line ! 1" e md]
  then show ?thesis using inv unfolding dispatch_command_def Let_def
    by (simp split: if_split)
qed

section \<open>Replies begin with OK or ERR\<close>

definition ok_or_err :: "string \<Rightarrow> bool" where
  "ok_or_err s \<longleftrightarrow> take 2 s = ''OK'' \<or> take 3 s = ''ERR''"

lemma ok_or_err_append: "ok_or_err (''OK '' @ s)" "ok_or_err (''ERR '' @ s)"
  by (simp_all add: ok_or_err_def)

lemma parse_order_error: "parse_order tokens c = Inl err \<Longrightarrow> ok_or_err err"
  by (auto simp: parse_order_def ok_or_err_def split: if_splits option.splits)

lemma order_reply_shape: "ok_or_err (order_reply rq res)"
  by (simp add: order_reply_def ok_or_err_def)

lemma dispatch_shape: "fst (dispatch_command rd line c md e) = Some r \<Longrightarrow> ok_or_err r"
  unfolding dispatch_command_def Let_def
  by (auto simp: handle_order_command_def cancel_command_def cancel_waiting_command_def cancel_book_command_def
      portfolio_reply_def market_reply_def symbols_reply_def metrics_reply_def Let_def order_reply_shape
      split: if_splits option.splits sum.splits prod.splits bool.splits dest: parse_order_error)
    (auto simp: ok_or_err_def)

section \<open>What only grows\<close>

text \<open>Published events and portfolios are never taken back.\<close>

definition grows :: "engine \<Rightarrow> engine \<Rightarrow> bool" where
  "grows e e' \<longleftrightarrow> (\<exists>evs. published e' = published e @ evs) \<and>
     dom (map_of (portfolios e)) \<subseteq> dom (map_of (portfolios e'))"

lemma grows_refl [simp, intro]: "grows e e"
  by (simp add: grows_def)

lemma grows_trans: "grows e1 e2 \<Longrightarrow> grows e2 e3 \<Longrightarrow> grows e1 e3"
  unfolding grows_def by (metis append.assoc subset_trans)

lemma submit_grows:
  assumes "engine_inv e" "sane_price rq" "submit_order now clk lat rq e = Some (res, e')"
  shows "grows e e'"
  unfolding grows_def
proof
  have ok: "engine_ok e" using assms(1) by (simp add: engine_inv_def)
  show "\<exists>evs. published e' = published e @ evs" using submit_bookkeeping_full(3)[OF ok assms(2,3)] by blast
  show "dom (map_of (portfolios e)) \<subseteq> dom (map_of (portfolios e'))"
    using dom_settle_all[of "portfolios e" "trades res"] submit_portfolios[OF assms(3)] by simp
qed

lemma match_and_settle_published:
  assumes "match_and_settle clk lat ord e = Some (res, e')"
  shows "\<exists>evs. published e' = published e @ evs"
proof -
  obtain b where b: "map_of (books e) (osymbol ord) = Some b"
    using assms by (cases "map_of (books e) (osymbol ord)") (auto simp: match_and_settle_def book_for_def)
  obtain ts b' where bm: "book_match clk ord b = (ts, b')" by (cases "book_match clk ord b")
  show ?thesis using assms match_and_settle_eq[OF b bm, of lat] by auto
qed

lemma match_released_published:
  "match_released clk lat k xs e = Some (rs, e') \<Longrightarrow> \<exists>evs. published e' = published e @ evs"
proof (induction xs arbitrary: k e rs)
  case (Cons x xs)
  obtain res e1 rs1 where m: "match_and_settle (clk k) (lat k) x e = Some (res, e1)"
    "match_released clk lat (Suc k) xs e1 = Some (rs1, e')" "rs = res # rs1"
    using Cons.prems by (auto split: option.splits)
  obtain evs1 evs2 where "published e1 = published e @ evs1" "published e' = published e1 @ evs2"
    using match_and_settle_published[OF m(1)] Cons.IH[OF m(2)] by blast
  then show ?case by simp
qed auto

lemma release_grows:
  assumes "engine_inv e" "try_release_waiting_orders f now clk lat e = Some (sm, e')"
  shows "grows e e'"
proof -
  have ok: "engine_ok e" using assms(1) by (simp add: engine_inv_def)
  obtain rel ex e1 where sc: "engine_scan f now e = (rel, ex, e1)" by (metis prod_cases3)
  obtain rs e2 where m: "match_released clk lat 0 rel e1 = Some (rs, e2)"
    and e': "e' = foldl (\<lambda>e x. expire_one x e) e2 ex"
    using assms(2) sc by (auto simp: try_release_eq split: option.splits)
  have "published e1 = published e" using arg_cong[OF engine_scan_exact(6)[OF ok sc], of published] by simp
  then have "\<exists>evs. published e' = published e @ evs" using match_released_published[OF m] e' by (auto simp: expire_all)
  then show ?thesis
    using dom_settle_all[of "portfolios e" "concat (map trades (released sm))"] release_effect(2)[OF ok assms(2)]
    by (simp add: grows_def)
qed

lemma cancel_grows: "cancel_order s i e = Some (found, e') \<Longrightarrow> grows e e'"
  and cancel_at_grows: "cancel_order_at s sd p i e = Some (found, e') \<Longrightarrow> grows e e'"
  and cancel_waiting_grows: "cancel_waiting_order i e = (found, e') \<Longrightarrow> grows e e'"
  by (auto simp: grows_def cancel_order_def cancel_order_at_def cancel_waiting_order_def Let_def
      split: if_splits option.splits prod.splits)

lemma dispatch_grows:
  assumes inv: "engine_inv e" and sane: "sane_line c line" and d: "dispatch_command rd line c md e = (r, e')"
  shows "grows e e'"
proof -
  have o: "handle_order_command rd (split line) c e = (r, e') \<Longrightarrow> grows e e'"
    using sane submit_grows[OF inv] unfolding handle_order_command_def sane_line_def
    by (auto split: sum.splits option.splits prod.splits)
  have "cancel_command (split line) e = (r, e') \<Longrightarrow> grows e e'"
    by (auto simp: cancel_command_def split: option.splits prod.splits bool.splits
        intro: cancel_grows cancel_waiting_grows grows_trans)
  moreover have "cancel_waiting_command (split line) e = (r, e') \<Longrightarrow> grows e e'"
    by (auto simp: cancel_waiting_command_def split: option.splits prod.splits intro: cancel_waiting_grows)
  moreover have "cancel_book_command (split line) e = (r, e') \<Longrightarrow> grows e e'"
    by (auto simp: cancel_book_command_def Let_def split: option.splits prod.splits intro: cancel_at_grows)
  ultimately show ?thesis using o d unfolding dispatch_command_def Let_def by (auto split: if_splits)
qed

text \<open>Opening an account.\<close>

lemma foldl_keeps: "P e \<Longrightarrow> (\<And>e x. P e \<Longrightarrow> P (f e x)) \<Longrightarrow> P (foldl f e xs)"
  by (induction xs arbitrary: e) auto

lemma grant_view:
  "published (grant_initial_holdings c s n e) = published e"
  "dom (map_of (portfolios (grant_initial_holdings c s n e))) = insert c (dom (map_of (portfolios e)))"
  by (auto simp: grant_initial_holdings_def grant_holdings_def map_of_modify)

lemma open_account_ok:
  assumes "engine_inv e"
  shows "engine_inv (open_account c e) \<and> grows e (open_account c e) \<and> um_contains (portfolios (open_account c e)) c"
proof -
  let ?e1 = "ensure_client c kStartingCash e"
  let ?P = "\<lambda>x. engine_inv x \<and> published x = published e \<and>
     insert c (dom (map_of (portfolios e))) \<subseteq> dom (map_of (portfolios x))"
  have "?P ?e1" using ensure_inv[OF assms]
    by (auto simp: ensure_client_def ensure_portfolio_def map_of_emplace)
  then have "?P (open_account c e)" unfolding open_account_def Let_def
    by (rule foldl_keeps) (auto intro: grant_inv simp: grant_view)
  then show ?thesis by (auto simp: grows_def)
qed

section \<open>The system: one server, many connections\<close>

record system =
  sys_server :: server
  sys_sessions :: "session list"

definition new_server :: "bool \<Rightarrow> engine \<Rightarrow> server" where
  "new_server logs e = \<lparr>srv_engine = e, srv_market = [], srv_seen = 0, srv_dir = new_directory,
     log_commands = logs, srv_log = []\<rparr>"

definition start_system :: "bool \<Rightarrow> engine \<Rightarrow> system" where
  "start_system logs e = \<lparr>sys_server = new_server logs e, sys_sessions = []\<rparr>"

text \<open>
  What can happen while the server runs: a connection is accepted, an open connection's thread makes
  one pass of its loop, the bus delivers an event, the watcher ticks. This relation leaves out an order
  line of an authenticated client with a NaN price (the parser takes it, see \<open>nan_price_trades\<close>) and a
  command sent when the id counter is about to wrap; \<open>server_run\<close> below leaves out nothing and keeps
  the lines that were sent, so that a property can say what it assumes of them.
\<close>

inductive sys_step :: "int \<Rightarrow> system \<Rightarrow> system \<Rightarrow> bool" for w where
  sys_accept: "sys_step w y (y\<lparr>sys_sessions := sys_sessions y @ [new_session]\<rparr>)"
| sys_message: "k < length (sys_sessions y) \<Longrightarrow> sess_open (sys_sessions y ! k) \<Longrightarrow>
    (\<forall>msg. sess_auth (sys_sessions y ! k) \<and> inp = Some msg \<longrightarrow>
       sane_line (sess_client (sys_sessions y ! k)) msg \<and> ids_left (srv_engine (sys_server y))) \<Longrightarrow>
    handle_message what draw rd inp sent (sys_sessions y ! k) (sys_server y) = (reply, ss, v) \<Longrightarrow>
    sys_step w y \<lparr>sys_server = v, sys_sessions = (sys_sessions y)[k := ss]\<rparr>"
| sys_deliver: "sys_step w y (y\<lparr>sys_server := deliver_event w (sys_server y)\<rparr>)"
| sys_tick: "watcher_tick every tick0 now clk lat (sys_server y) = Some (tick, v) \<Longrightarrow>
    sys_step w y (y\<lparr>sys_server := v\<rparr>)"

inductive sys_reachable :: "int \<Rightarrow> bool \<Rightarrow> engine \<Rightarrow> system \<Rightarrow> bool" for w logs e where
  sys_start: "sys_reachable w logs e (start_system logs e)"
| sys_next: "sys_reachable w logs e y \<Longrightarrow> sys_step w y y' \<Longrightarrow> sys_reachable w logs e y'"

inductive_cases sys_step_cases: "sys_step w y y'"

text \<open>A run of the server with nothing left out, and the messages its authenticated connections sent.\<close>

definition sent_by :: "session \<Rightarrow> string option \<Rightarrow> (client_id \<times> string) list" where
  "sent_by ss inp = (case inp of Some msg \<Rightarrow> if sess_auth ss then [(sess_client ss, msg)] else [] | None \<Rightarrow> [])"

inductive server_run :: "int \<Rightarrow> bool \<Rightarrow> engine \<Rightarrow> (client_id \<times> string) list \<Rightarrow> system \<Rightarrow> bool" for w logs e where
  run_start: "server_run w logs e [] (start_system logs e)"
| run_accept: "server_run w logs e lines y \<Longrightarrow>
    server_run w logs e lines (y\<lparr>sys_sessions := sys_sessions y @ [new_session]\<rparr>)"
| run_message: "server_run w logs e lines y \<Longrightarrow> k < length (sys_sessions y) \<Longrightarrow> sess_open (sys_sessions y ! k) \<Longrightarrow>
    handle_message what draw rd inp sent (sys_sessions y ! k) (sys_server y) = (reply, ss, v) \<Longrightarrow>
    server_run w logs e (lines @ sent_by (sys_sessions y ! k) inp) \<lparr>sys_server = v, sys_sessions = (sys_sessions y)[k := ss]\<rparr>"
| run_deliver: "server_run w logs e lines y \<Longrightarrow>
    server_run w logs e lines (y\<lparr>sys_server := deliver_event w (sys_server y)\<rparr>)"
| run_tick: "server_run w logs e lines y \<Longrightarrow> watcher_tick every tick0 now clk lat (sys_server y) = Some (tick, v) \<Longrightarrow>
    server_run w logs e lines (y\<lparr>sys_server := v\<rparr>)"

definition account_ids :: "directory \<Rightarrow> client_id set" where
  "account_ids d = set (map (acc_id \<circ> snd) (accounts d))"

definition feed_synced :: "int \<Rightarrow> server \<Rightarrow> bool" where
  "feed_synced w v \<longleftrightarrow> srv_seen v \<le> length (published (srv_engine v)) \<and>
     srv_market v = md_run w (take (srv_seen v) (published (srv_engine v)))"

definition server_inv :: "int \<Rightarrow> server \<Rightarrow> bool" where
  "server_inv w v \<longleftrightarrow> engine_inv (srv_engine v) \<and> dir_ok (srv_dir v) \<and> feed_synced w v \<and>
     account_ids (srv_dir v) \<subseteq> dom (map_of (portfolios (srv_engine v)))"

definition session_inv :: "session \<Rightarrow> server \<Rightarrow> bool" where
  "session_inv ss v \<longleftrightarrow> (sess_auth ss \<longrightarrow> sess_client ss \<in> account_ids (srv_dir v))"

lemma log_if_sel [simp]:
  "srv_engine (log_if b l t v) = srv_engine v" "srv_market (log_if b l t v) = srv_market v"
  "srv_seen (log_if b l t v) = srv_seen v" "srv_dir (log_if b l t v) = srv_dir v"
  "log_commands (log_if b l t v) = log_commands v"
  by (simp_all add: log_if_def)

lemma server_inv_log [simp]: "server_inv w (log_if b l t v) = server_inv w v"
  by (simp add: server_inv_def feed_synced_def)

lemma session_inv_log [simp]: "session_inv ss (log_if b l t v) = session_inv ss v"
  by (simp add: session_inv_def)

text \<open>Replacing the engine by a sound one that grew, and the directory by a sound one.\<close>

lemma feed_grows:
  assumes "feed_synced w v" "grows (srv_engine v) e"
  shows "feed_synced w (v\<lparr>srv_engine := e\<rparr>)"
proof -
  obtain evs where "published e = published (srv_engine v) @ evs" using assms(2) by (auto simp: grows_def)
  then show ?thesis using assms(1) by (simp add: feed_synced_def)
qed

lemma engine_replaced:
  assumes "server_inv w v" "engine_inv e" "grows (srv_engine v) e"
  shows "server_inv w (v\<lparr>srv_engine := e\<rparr>)"
proof -
  have "account_ids (srv_dir v) \<subseteq> dom (map_of (portfolios e))"
    using assms(1,3) unfolding server_inv_def grows_def by (meson subset_trans)
  then show ?thesis using assms feed_grows[of w v e] by (simp add: server_inv_def)
qed

lemma register_ids:
  assumes "register_client draw u p d = (r, d')"
  shows "account_ids d' = (case r of Registered c _ \<Rightarrow> insert c (account_ids d) | UsernameTaken \<Rightarrow> account_ids d)"
proof (cases "map_of (accounts d) u")
  case None
  then have "r = Registered (next_client_id d) (drawn_token draw)"
    "map (acc_id \<circ> snd) (accounts d') = map (acc_id \<circ> snd) (accounts d) @ [next_client_id d]"
    using assms by (auto simp: register_client_def Let_def emplace_new)
  then show ?thesis by (simp add: account_ids_def del: map_map)
next
  case (Some a)
  then show ?thesis using assms by (auto simp: register_client_def)
qed

lemma register_id_fresh:
  "dir_ok d \<Longrightarrow> register_client draw u p d = (Registered c t, d') \<Longrightarrow> c \<notin> account_ids d"
proof -
  assume "dir_ok d" "register_client draw u p d = (Registered c t, d')"
  then have "c = next_client_id d" "\<forall>(_, a) \<in> set (accounts d). acc_id a < next_client_id d"
    by (auto simp: register_client_def Let_def dir_ok_def split: if_splits)
  then show ?thesis by (fastforce simp: account_ids_def)
qed

lemma account_idsI: "map_of (accounts d) u = Some a \<Longrightarrow> acc_id a \<in> account_ids d"
  by (drule map_of_SomeD) (force simp: account_ids_def)

lemma account_ids_tokens: "account_ids (d\<lparr>dir_tokens := t\<rparr>) = account_ids d"
  by (simp add: account_ids_def)

lemma authenticate_ids:
  assumes "authenticate draw u p d = (r, d')"
  shows "account_ids d' = account_ids d \<and>
    (case r of Authenticated c _ \<Rightarrow> c \<in> account_ids d | _ \<Rightarrow> True)"
proof (cases "map_of (accounts d) u")
  case (Some a)
  then show ?thesis using assms account_idsI[OF Some]
    by (cases "hash_password (salt_hex a) p = password_hash_hex a") (auto simp: authenticate_def account_ids_tokens)
qed (use assms in \<open>auto simp: authenticate_def\<close>)

lemma resolve_ids: "dir_ok d \<Longrightarrow> resolve_token t d = Some c \<Longrightarrow> c \<in> account_ids d"
proof -
  assume "dir_ok d" "resolve_token t d = Some c"
  then have "\<exists>(_, a) \<in> set (accounts d). acc_id a = c"
    by (auto simp: dir_ok_def resolve_token_def dest!: map_of_SomeD)
  then show ?thesis by (force simp: account_ids_def)
qed

lemma register_inv_sys:
  assumes "server_inv w v" "do_register draw tokens ss v = (reply, ss', v')" "session_inv ss v"
  shows "server_inv w v' \<and> session_inv ss' v' \<and> account_ids (srv_dir v) \<subseteq> account_ids (srv_dir v')"
proof -
  obtain r d where r: "register_client draw (tokens ! 1) (tokens ! 2) (srv_dir v) = (r, d)"
    by (cases "register_client draw (tokens ! 1) (tokens ! 2) (srv_dir v)")
  note ids = register_ids[OF r]
  have ok: "dir_ok d" using register_ok[of "srv_dir v" draw "tokens ! 1" "tokens ! 2"] assms(1) r
    by (simp add: server_inv_def)
  show ?thesis
  proof (cases r)
    case UsernameTaken
    then have "d = srv_dir v" using r by (auto simp: register_client_def Let_def split: if_splits)
    then show ?thesis using assms UsernameTaken r by (auto simp: do_register_def)
  next
    case (Registered c token)
    have e: "engine_inv (srv_engine v)" using assms(1) by (simp add: server_inv_def)
    note oa = open_account_ok[OF e, of c]
    have "feed_synced w (v\<lparr>srv_engine := open_account c (srv_engine v)\<rparr>)"
      using assms(1) oa feed_grows by (simp add: server_inv_def)
    then have f: "feed_synced w (v\<lparr>srv_dir := d, srv_engine := open_account c (srv_engine v)\<rparr>)"
      by (simp add: feed_synced_def)
    have "account_ids d \<subseteq> dom (map_of (portfolios (open_account c (srv_engine v))))"
    proof -
      have "account_ids (srv_dir v) \<subseteq> dom (map_of (portfolios (open_account c (srv_engine v))))"
        using oa assms(1) unfolding server_inv_def grows_def by (meson subset_trans)
      moreover have "c \<in> dom (map_of (portfolios (open_account c (srv_engine v))))" using oa by auto
      ultimately show ?thesis using ids Registered by simp
    qed
    then have inv: "server_inv w (v\<lparr>srv_dir := d, srv_engine := open_account c (srv_engine v)\<rparr>)"
      using ok oa f by (simp add: server_inv_def)
    have "ss' = ss\<lparr>sess_client := c, sess_auth := True\<rparr>" and v': "v' = log_if (log_commands v) INFO
        (''REGISTER username='' @ tokens ! 1 @ '' -> client_id='' @ show_int c)
        (v\<lparr>srv_dir := d, srv_engine := open_account c (srv_engine v)\<rparr>)"
      using assms(2) r Registered by (simp_all add: do_register_def)
    then have "session_inv ss' v'" "account_ids (srv_dir v) \<subseteq> account_ids (srv_dir v')"
      using ids Registered by (auto simp: session_inv_def)
    then show ?thesis using inv v' by simp
  qed
qed

lemma directory_replaced:
  "server_inv w v \<Longrightarrow> dir_ok d \<Longrightarrow> account_ids d = account_ids (srv_dir v) \<Longrightarrow> server_inv w (v\<lparr>srv_dir := d\<rparr>)"
  by (simp add: server_inv_def feed_synced_def)

text \<open>What a step of one connection keeps, for the server, the connection and the others.\<close>

definition keeps_inv :: "int \<Rightarrow> server \<Rightarrow> session \<Rightarrow> server \<Rightarrow> bool" where
  "keeps_inv w v ss' v' \<longleftrightarrow> server_inv w v' \<and> session_inv ss' v' \<and> account_ids (srv_dir v) \<subseteq> account_ids (srv_dir v')"

lemma login_inv_sys:
  assumes "server_inv w v" "do_login draw tokens ss v = (reply, ss', v')" "session_inv ss v"
  shows "keeps_inv w v ss' v'"
proof -
  obtain r d where r: "authenticate draw (tokens ! 1) (tokens ! 2) (srv_dir v) = (r, d)"
    by (cases "authenticate draw (tokens ! 1) (tokens ! 2) (srv_dir v)")
  note ids = authenticate_ids[OF r]
  have "dir_ok d" using authenticate_ok[of "srv_dir v" draw "tokens ! 1" "tokens ! 2"] assms(1) r
    by (simp add: server_inv_def)
  then have inv: "server_inv w (v\<lparr>srv_dir := d\<rparr>)" using assms(1) ids by (simp add: directory_replaced)
  show ?thesis using assms(2,3) r ids inv
    by (cases r) (auto simp: do_login_def keeps_inv_def session_inv_def)
qed

lemma resume_inv_sys:
  assumes "server_inv w v" "do_resume tokens ss v = (reply, ss', v')" "session_inv ss v"
  shows "keeps_inv w v ss' v'"
  using assms resolve_ids[of "srv_dir v" "tokens ! 1"]
  by (auto simp: do_resume_def keeps_inv_def session_inv_def server_inv_def feed_synced_def split: option.splits)

lemma unauthenticated_inv:
  assumes "server_inv w v" "session_inv ss v" "handle_unauthenticated draw tokens ss v = (reply, ss', v')"
  shows "keeps_inv w v ss' v'"
proof -
  have k: "keeps_inv w v ss v" "keeps_inv w v (ss\<lparr>sess_open := False\<rparr>) v"
    using assms(1,2) by (simp_all add: keeps_inv_def session_inv_def)
  show ?thesis
    using assms k login_inv_sys[OF assms(1) _ assms(2)] resume_inv_sys[OF assms(1) _ assms(2)]
      register_inv_sys[OF assms(1) _ assms(2)]
    unfolding handle_unauthenticated_def Let_def by (auto simp: keeps_inv_def split: if_splits)
qed

lemma authenticated_inv:
  assumes inv: "server_inv w v" "session_inv ss v" and sane: "sane_line (sess_client ss) msg"
    and left: "ids_left (srv_engine v)" and h: "handle_authenticated what rd msg sent ss v = (reply, ss', v')"
  shows "keeps_inv w v ss' v'"
proof -
  have e: "engine_inv (srv_engine v)" using inv(1) by (simp add: server_inv_def)
  obtain r e' where d: "dispatch_command rd msg (sess_client ss) (srv_market v) (srv_engine v) = (Some r, e')"
    "engine_inv e'" using dispatch_inv[OF e sane left] by blast
  have "server_inv w (v\<lparr>srv_engine := e'\<rparr>)"
    by (rule engine_replaced[OF inv(1) d(2) dispatch_grows[OF e sane d(1)]])
  moreover have "v' = log_if (log_commands v) INFO (''client='' @ show_int (sess_client ss) @ '' command=['' @ msg @
      ''] response=['' @ r @ '']'') (v\<lparr>srv_engine := e'\<rparr>)" "ss' = (if sent then ss else ss\<lparr>sess_open := False\<rparr>)"
    using h d(1) by (auto simp: handle_authenticated_def Let_def)
  ultimately show ?thesis using inv(2) by (simp add: keeps_inv_def session_inv_def)
qed

lemma message_inv:
  assumes inv: "server_inv w v" "session_inv ss v"
    and sane: "\<forall>msg. sess_auth ss \<and> inp = Some msg \<longrightarrow> sane_line (sess_client ss) msg \<and> ids_left (srv_engine v)"
    and h: "handle_message what draw rd inp sent ss v = (reply, ss', v')"
  shows "keeps_inv w v ss' v'"
proof -
  have k: "keeps_inv w v ss v" "keeps_inv w v (ss\<lparr>sess_open := False\<rparr>) v"
    using inv by (simp_all add: keeps_inv_def session_inv_def)
  show ?thesis
  proof (cases inp)
    case (Some msg)
    obtain r1 s1 v1 where u: "handle_unauthenticated draw (split msg) ss v = (r1, s1, v1)" by (metis prod_cases3)
    obtain r2 s2 v2 where a: "handle_authenticated what rd msg sent ss v = (r2, s2, v2)" by (metis prod_cases3)
    show ?thesis
      using h Some k u a unauthenticated_inv[OF inv u] authenticated_inv[OF inv _ _ a] sane
      by (auto simp: handle_message_def Let_def split: if_splits)
  qed (use h k in \<open>simp add: handle_message_def\<close>)
qed

lemma deliver_inv:
  assumes "server_inv w v"
  shows "server_inv w (deliver_event w v) \<and> srv_dir (deliver_event w v) = srv_dir v"
proof (cases "srv_seen v < length (published (srv_engine v))")
  case True
  then have "feed_synced w (deliver_event w v)" using assms
    by (simp add: server_inv_def feed_synced_def deliver_event_def Let_def take_Suc_conv_app_nth md_run_snoc)
  then show ?thesis using assms True by (simp add: server_inv_def deliver_event_def Let_def)
qed (use assms in \<open>simp add: deliver_event_def\<close>)

lemma tick_inv:
  assumes "server_inv w v" "watcher_tick every tick0 now clk lat v = Some (tick, v')"
  shows "server_inv w v' \<and> srv_dir v' = srv_dir v"
proof -
  have e: "engine_inv (srv_engine v)" using assms(1) by (simp add: server_inv_def)
  obtain sm e' where r: "try_release_waiting_orders (is_full_scan every (tick0 + 1)) now clk lat (srv_engine v) = Some (sm, e')"
    "srv_engine v' = e'" "srv_dir v' = srv_dir v" "server_inv w v' = server_inv w (v\<lparr>srv_engine := e'\<rparr>)"
    using assms(2) by (auto simp: watcher_tick_def Let_def split: option.splits)
  then show ?thesis using engine_replaced[OF assms(1) release_inv[OF e r(1)] release_grows[OF e r(1)]] by simp
qed

definition sys_inv :: "int \<Rightarrow> system \<Rightarrow> bool" where
  "sys_inv w y \<longleftrightarrow> server_inv w (sys_server y) \<and> (\<forall>ss \<in> set (sys_sessions y). session_inv ss (sys_server y))"

lemma session_mono: "session_inv ss v \<Longrightarrow> account_ids (srv_dir v) \<subseteq> account_ids (srv_dir v') \<Longrightarrow> session_inv ss v'"
  by (auto simp: session_inv_def)

lemma sys_step_inv: "sys_step w y y' \<Longrightarrow> sys_inv w y \<Longrightarrow> sys_inv w y'"
proof (erule sys_step_cases, goal_cases)
  case 1
  then show ?case by (auto simp: sys_inv_def session_inv_def new_session_def)
next
  case (2 k inp what draw rd sent reply ss v)
  then have "server_inv w (sys_server y)" "session_inv (sys_sessions y ! k) (sys_server y)" by (simp_all add: sys_inv_def)
  from message_inv[OF this 2(5,6)] have "keeps_inv w (sys_server y) ss v" .
  then show ?case using 2(1,2) by (auto simp: sys_inv_def keeps_inv_def dest!: set_update_subset_insert[THEN subsetD]
        intro: session_mono)
next
  case 3
  then show ?case using deliver_inv[of w "sys_server y"] by (auto simp: sys_inv_def session_inv_def)
next
  case (4 every tick0 now clk lat tick v)
  then show ?case using tick_inv[OF _ 4(3)] by (auto simp: sys_inv_def session_inv_def)
qed

lemma start_inv: "engine_inv e \<Longrightarrow> sys_inv w (start_system logs e)"
proof -
  have "account_ids new_directory = {}" by (simp add: account_ids_def new_directory_def)
  then show "engine_inv e \<Longrightarrow> sys_inv w (start_system logs e)"
    by (simp add: sys_inv_def start_system_def new_server_def server_inv_def new_directory_ok feed_synced_def md_run_def)
qed

lemma sys_reachable_inv: "sys_reachable w logs e y \<Longrightarrow> engine_inv e \<Longrightarrow> sys_inv w y"
  by (induction rule: sys_reachable.induct) (auto intro: start_inv sys_step_inv)

section \<open>Runs whose lines carry no NaN price\<close>

text \<open>No message draws more than one order id, and nothing else draws one.\<close>

definition draws_at_most :: "nat \<Rightarrow> engine \<Rightarrow> engine \<Rightarrow> bool" where
  "draws_at_most n e e' \<longleftrightarrow> unat (next_order_id e') \<le> unat (next_order_id e) + n"

lemma unat_succ_le: "unat (i + 1 :: 64 word) \<le> Suc (unat i)"
  using mod_less_eq_dividend[of "unat i + 1" "2 ^ 64"] by (simp add: unat_word_ariths(1))

lemma succ_nonzero: "unat (i :: 64 word) + 1 < 2 ^ 64 \<Longrightarrow> i + 1 \<noteq> 0"
  using unat_word_ariths(1)[of i 1] by auto

lemma draws_at_most_same [simp]: "next_order_id e' = next_order_id e \<Longrightarrow> draws_at_most n e e'"
  by (simp add: draws_at_most_def)

lemma dispatch_draws:
  assumes inv: "engine_inv e" and sane: "sane_line c line" and left: "ids_left e"
    and d: "dispatch_command rd line c md e = (r, e')"
  shows "draws_at_most 1 e e'"
proof -
  have one: "draws_at_most 1 e e1" if s: "submit_order now clk lat rq e = Some (res, e1)" and p: "sane_price rq"
    for now clk lat rq res e1
  proof -
    have ok: "engine_ok e" "fresh_next e" using inv ids_fresh by (auto simp: engine_inv_def)
    have "next_order_id e1 = next_order_id e + 1"
      by (rule submit_tags(2)[OF ok(1) p ok(2) s quantity_blind_views(1)])
    then show ?thesis by (simp add: draws_at_most_def unat_succ_le)
  qed
  have o: "handle_order_command rd (split line) c e = (r, e') \<Longrightarrow> draws_at_most 1 e e'"
    using sane one unfolding handle_order_command_def sane_line_def
    by (auto split: sum.splits option.splits prod.splits)
  have same: "cancel_order s i x = Some (found, x') \<Longrightarrow> next_order_id x' = next_order_id x"
    "cancel_order_at s sd p i x = Some (found, x') \<Longrightarrow> next_order_id x' = next_order_id x"
    "cancel_waiting_order i x = (found, x') \<Longrightarrow> next_order_id x' = next_order_id x" for s i x found x' sd p
    by (auto simp: cancel_order_def cancel_order_at_def cancel_waiting_order_def Let_def
        split: if_splits option.splits prod.splits)
  have "cancel_command (split line) e = (r, e') \<Longrightarrow> next_order_id e' = next_order_id e"
    by (auto simp: cancel_command_def split: option.splits prod.splits bool.splits dest!: same)
  moreover have "cancel_waiting_command (split line) e = (r, e') \<Longrightarrow> next_order_id e' = next_order_id e"
    by (auto simp: cancel_waiting_command_def split: option.splits prod.splits dest!: same)
  moreover have "cancel_book_command (split line) e = (r, e') \<Longrightarrow> next_order_id e' = next_order_id e"
    by (auto simp: cancel_book_command_def Let_def split: option.splits prod.splits dest!: same)
  ultimately show ?thesis using o d unfolding dispatch_command_def Let_def by (auto split: if_splits)
qed

lemma open_account_id: "next_order_id (open_account c e) = next_order_id e"
  unfolding open_account_def Let_def
  by (rule foldl_keeps) (simp_all add: ensure_client_def grant_initial_holdings_def)

lemma message_draws:
  assumes inv: "engine_inv (srv_engine v)"
    and sane: "\<forall>msg. sess_auth ss \<and> inp = Some msg \<longrightarrow> sane_line (sess_client ss) msg \<and> ids_left (srv_engine v)"
    and h: "handle_message what draw rd inp sent ss v = (reply, ss', v')"
  shows "draws_at_most (length (sent_by ss inp)) (srv_engine v) (srv_engine v')"
proof (cases inp)
  case (Some msg)
  show ?thesis
  proof (cases "sess_auth ss")
    case True
    obtain r e' where d: "dispatch_command rd msg (sess_client ss) (srv_market v) (srv_engine v) = (r, e')"
      by (cases "dispatch_command rd msg (sess_client ss) (srv_market v) (srv_engine v)")
    have "draws_at_most 1 (srv_engine v) e'" by (rule dispatch_draws[OF inv _ _ d]) (use sane True Some in auto)
    then show ?thesis using h d True Some
      by (auto simp: handle_message_def handle_authenticated_def sent_by_def Let_def split: if_splits option.splits)
  next
    case False
    then have "next_order_id (srv_engine v') = next_order_id (srv_engine v)" using h Some
      by (auto simp: handle_message_def handle_unauthenticated_def do_register_def do_login_def do_resume_def Let_def
          open_account_id split: if_splits prod.splits register_outcome.splits auth_outcome.splits option.splits)
    then show ?thesis by simp
  qed
qed (use h in \<open>simp add: handle_message_def\<close>)

lemma match_and_settle_id:
  assumes "match_and_settle clk lat ord e = Some (res, e')"
  shows "next_order_id e' = next_order_id e"
proof -
  obtain b where b: "map_of (books e) (osymbol ord) = Some b"
    using assms by (cases "map_of (books e) (osymbol ord)") (auto simp: match_and_settle_def book_for_def)
  obtain ts b' where bm: "book_match clk ord b = (ts, b')" by (cases "book_match clk ord b")
  show ?thesis using assms match_and_settle_eq[OF b bm, of lat] by auto
qed

lemma match_released_id: "match_released clk lat k xs e = Some (rs, e') \<Longrightarrow> next_order_id e' = next_order_id e"
proof (induction xs arbitrary: k e rs)
  case (Cons x xs)
  obtain res e1 rs1 where m: "match_and_settle (clk k) (lat k) x e = Some (res, e1)"
    "match_released clk lat (Suc k) xs e1 = Some (rs1, e')"
    using Cons.prems by (auto split: option.splits)
  show ?case using Cons.IH[OF m(2)] match_and_settle_id[OF m(1)] by simp
qed simp

lemma tick_id:
  assumes "watcher_tick every tick0 now clk lat v = Some (tick, v')"
  shows "next_order_id (srv_engine v') = next_order_id (srv_engine v)"
proof -
  obtain sm e' where r: "try_release_waiting_orders (is_full_scan every (tick0 + 1)) now clk lat (srv_engine v) = Some (sm, e')"
    "srv_engine v' = e'" using assms by (auto simp: watcher_tick_def Let_def split: option.splits)
  obtain rel ex e1 where sc: "engine_scan (is_full_scan every (tick0 + 1)) now (srv_engine v) = (rel, ex, e1)"
    by (metis prod_cases3)
  obtain rs e2 where m: "match_released clk lat 0 rel e1 = Some (rs, e2)"
    and e': "e' = foldl (\<lambda>e x. expire_one x e) e2 ex"
    using r(1) sc by (auto simp: try_release_eq split: option.splits)
  have "next_order_id e1 = next_order_id (srv_engine v)"
    using sc by (auto simp: engine_scan_def drain_dirty_symbols_def Let_def split: if_splits prod.splits)
  then show ?thesis using match_released_id[OF m] r(2) e' by (simp add: expire_all)
qed

text \<open>A run whose lines carry no NaN price, with room for their ids, is made of the steps of \<open>sys_step\<close>.\<close>

lemma server_run_reachable:
  assumes "server_run w logs e lines y" "engine_inv e" "\<forall>(c, line) \<in> set lines. sane_line c line"
    "unat (next_order_id e) + length lines < 2 ^ 64"
  shows "sys_reachable w logs e y \<and> draws_at_most (length lines) e (srv_engine (sys_server y))"
  using assms(1,3,4)
proof (induction rule: server_run.induct)
  case run_start
  show ?case using sys_start[of w logs e] by (simp add: start_system_def new_server_def)
next
  case (run_accept lines y)
  then show ?case using sys_next[OF _ sys_accept] by simp
next
  case (run_message lines y k what draw rd inp sent reply ss v)
  let ?s = "sys_sessions y ! k" and ?e = "srv_engine (sys_server y)"
  have IH: "sys_reachable w logs e y" "draws_at_most (length lines) e ?e" using run_message by auto
  have inv: "engine_inv ?e" using sys_reachable_inv[OF IH(1) assms(2)] by (simp add: sys_inv_def server_inv_def)
  have sane: "\<forall>msg. sess_auth ?s \<and> inp = Some msg \<longrightarrow> sane_line (sess_client ?s) msg \<and> ids_left ?e"
  proof (intro allI impI conjI)
    fix msg assume m: "sess_auth ?s \<and> inp = Some msg"
    then have s: "sent_by ?s inp = [(sess_client ?s, msg)]" by (simp add: sent_by_def)
    then show "sane_line (sess_client ?s) msg" using run_message.prems(1) by auto
    have "unat (next_order_id ?e) + 1 < 2 ^ 64"
      using IH(2) run_message.prems(2) s by (simp add: draws_at_most_def)
    then show "ids_left ?e" unfolding ids_left_def by (rule succ_nonzero)
  qed
  have "sys_reachable w logs e \<lparr>sys_server = v, sys_sessions = (sys_sessions y)[k := ss]\<rparr>"
    by (rule sys_next[OF IH(1) sys_message[OF run_message.hyps(2,3) sane run_message.hyps(4)]])
  moreover have "draws_at_most (length (lines @ sent_by ?s inp)) e (srv_engine v)"
    using message_draws[OF inv sane run_message.hyps(4)] IH(2) by (simp add: draws_at_most_def)
  ultimately show ?case by simp
next
  case (run_deliver lines y)
  then show ?case using sys_next[OF _ sys_deliver] by (simp add: deliver_event_def Let_def)
next
  case (run_tick lines y every tick0 now clk lat tick v)
  then show ?case using sys_next[OF _ sys_tick[OF run_tick.hyps(2)]] tick_id[OF run_tick.hyps(2)]
    by (simp add: draws_at_most_def)
qed

end
