(* ===== verification/ServerProps.thy ===== *)
theory ServerProps
  imports ServerFacts EngineProps BookProps
begin

text \<open>The properties of the server as a whole, over the lemmas of \<open>ServerFacts\<close>.\<close>

section \<open>A concrete server\<close>

definition demo_server :: server where
  "demo_server = new_server False demo_engine"

definition demo_draw :: draws where
  "demo_draw = ((1, 2), (3, 4, 5, 6))"

lemma split_tokens_eval:
  "split ''QUIT'' = [''QUIT'']" "split ''CANCEL 1 AAA'' = [''CANCEL'', ''1'', ''AAA'']"
  "split ''REGISTER ann pw'' = [''REGISTER'', ''ann'', ''pw'']"
  by (simp_all add: split_def is_space_def)

lemma demo_inv: "engine_inv demo_engine"
  by (rule engine_reachable_inv[OF demo_engine_reachable])

section \<open>Properties\<close>

text \<open>C15. Whatever clients send, in whatever interleaving with event deliveries and watcher ticks, the
server stays sound, except after an order line with a NaN price (PRICE=nan passes the parser and the
price check, and two such orders trade at NaN: \<open>nan_price_trades\<close>) or once the 64-bit id counter has
no room for the commands sent. Both are assumed away of the lines of the run, and nothing else is: the
engine and the client directory keep their invariants, the market data feed shows exactly the events
delivered so far, and every authenticated connection acts for a registered account that has a
portfolio.\<close>

theorem server_stays_sound:
  assumes "engine_reachable e" "server_run w logs e lines y"
    and no_nan: "\<forall>(c, line) \<in> set lines. \<forall>rq. parse_order (split line) c = Inr rq \<longrightarrow> rq_kind rq = MARKET \<or> rq_price rq \<noteq> NaN"
    and room: "unat (next_order_id e) + length lines < 2 ^ 64"
  shows "engine_inv (srv_engine (sys_server y)) \<and> dir_ok (srv_dir (sys_server y)) \<and>
    srv_market (sys_server y) = md_run w (take (srv_seen (sys_server y)) (published (srv_engine (sys_server y)))) \<and>
    (\<forall>ss \<in> set (sys_sessions y). sess_auth ss \<longrightarrow>
       sess_client ss \<in> account_ids (srv_dir (sys_server y)) \<and>
       um_contains (portfolios (srv_engine (sys_server y))) (sess_client ss))"
proof -
  have e: "engine_inv e" by (rule engine_reachable_inv[OF assms(1)])
  have "\<forall>(c, line) \<in> set lines. sane_line c line"
    using no_nan by (fastforce simp: sane_line_def sane_price_def split: sum.splits)
  then have "sys_reachable w logs e y" using server_run_reachable[OF assms(2) e _ room] by blast
  then have inv: "sys_inv w y" by (rule sys_reachable_inv[OF _ e])
  have "um_contains (portfolios (srv_engine (sys_server y))) c" if "c \<in> account_ids (srv_dir (sys_server y))" for c
    using that inv by (auto simp: sys_inv_def server_inv_def dom_def)
  then show ?thesis using inv by (simp add: sys_inv_def server_inv_def feed_synced_def session_inv_def)
qed

theorem server_stays_sound_witness:
  "server_run 1000 False demo_engine []
     \<lparr>sys_server = demo_server, sys_sessions = [new_session\<lparr>sess_open := False\<rparr>]\<rparr> \<and> engine_inv demo_engine"
proof -
  let ?y = "(start_system False demo_engine)\<lparr>sys_sessions := [new_session]\<rparr>"
  have "server_run 1000 False demo_engine [] ?y"
    using run_accept[OF run_start, of 1000 False demo_engine] by (simp add: start_system_def)
  moreover have "handle_message [] demo_draw (0, \<lambda>_. 0, 0) (Some ''QUIT'') True new_session demo_server =
      (Some ''OK BYE'', new_session\<lparr>sess_open := False\<rparr>, demo_server)"
    by (simp add: handle_message_def split_tokens_eval new_session_def handle_unauthenticated_def Let_def)
  ultimately have r: "server_run 1000 False demo_engine []
      \<lparr>sys_server = demo_server, sys_sessions = [new_session\<lparr>sess_open := False\<rparr>]\<rparr>"
    using run_message[of 1000 False demo_engine "[]" ?y 0 "[]" demo_draw "(0, \<lambda>_. 0, 0)" "Some ''QUIT''" True
        "Some ''OK BYE''" "new_session\<lparr>sess_open := False\<rparr>" demo_server]
    by (simp add: start_system_def demo_server_def sent_by_def new_session_def)
  show ?thesis using server_stays_sound[OF demo_engine_reachable r] r
    by (simp add: demo_server_def new_server_def demo_engine_eq)
qed

text \<open>C16. Every reply the server sends, on every path and even when a handler throws, begins with OK or
with ERR.\<close>

theorem replies_begin_with_ok_or_err:
  "case fst (handle_message what draw rd inp sent ss v) of None \<Rightarrow> True
   | Some r \<Rightarrow> take 2 r = ''OK'' \<or> take 3 r = ''ERR''"
proof (cases inp)
  case (Some msg)
  have u: "ok_or_err (fst (handle_unauthenticated draw (split msg) ss v))"
    by (auto simp: handle_unauthenticated_def do_register_def do_login_def do_resume_def Let_def ok_or_err_def
        split: prod.splits register_outcome.splits auth_outcome.splits option.splits)
  have a: "ok_or_err (fst (handle_authenticated what rd msg sent ss v))"
    using dispatch_shape[of rd msg "sess_client ss" "srv_market v" "srv_engine v"] ok_or_err_append(2)
    by (auto simp: handle_authenticated_def Let_def split: prod.splits option.splits)
  show ?thesis using Some u a
    by (simp add: handle_message_def Let_def ok_or_err_def)
qed (simp add: handle_message_def)



text \<open>C18. No command of an authenticated client makes a handler throw: in every state the server can
reach, each line (with no NaN price) is answered by its handler, so ERR INTERNAL_ERROR is never sent,
and the engine is sound afterwards.\<close>

theorem commands_never_throw:
  assumes "engine_reachable e" "sys_reachable w logs e y" "ids_left (srv_engine (sys_server y))" "sane_line c line"
  shows "\<exists>r e'. dispatch_command rd line c (srv_market (sys_server y)) (srv_engine (sys_server y)) = (Some r, e') \<and> engine_inv e'"
proof -
  have "sys_inv w y" by (rule sys_reachable_inv[OF assms(2) engine_reachable_inv[OF assms(1)]])
  then have "engine_inv (srv_engine (sys_server y))" by (simp add: sys_inv_def server_inv_def)
  then show ?thesis by (rule dispatch_inv[OF _ assms(4,3)])
qed

lemma parse_cancel: "parse_order [''CANCEL'', i, s] c = Inl ''ERR ORDER reason=usage:_ORDER_<BUY|SELL>_<SYMBOL>_<QTY>_<KIND>_[KEY=VALUE...]''"
  by (simp add: parse_order_def)

theorem commands_never_throw_witness:
  "engine_reachable demo_engine \<and> sane_line 2 ''CANCEL 1 AAA'' \<and> ids_left demo_engine \<and>
   (\<exists>r e'. dispatch_command (0, \<lambda>_. 0, 0) ''CANCEL 1 AAA'' 2 [] demo_engine = (Some r, e') \<and> engine_inv e')"
proof -
  have s: "sane_line 2 ''CANCEL 1 AAA''" by (simp add: sane_line_def split_tokens_eval parse_cancel)
  have i: "ids_left (srv_engine (sys_server (start_system False demo_engine)))"
    by (simp add: ids_left_def start_system_def new_server_def demo_engine_eq)
  show ?thesis
    using commands_never_throw[OF demo_engine_reachable sys_start i s, where rd = "(0, \<lambda>_. 0, 0)"] demo_engine_reachable s i
    by (simp add: start_system_def new_server_def)
qed

section \<open>Cancelling\<close>

text \<open>All orders that are live in the engine, in a book or waiting.\<close>

definition live_orders :: "engine \<Rightarrow> order multiset" where
  "live_orders e = sum_list (map (\<lambda>(s, b). mset (resting_orders b)) (books e)) + mset (all_waiting (registry e))"

lemma live_orders_tags: "live_tags f e = image_mset f (live_orders e)"
proof -
  have "sum_list (map (\<lambda>(s, b). image_mset f (mset (resting_orders b))) m) =
      image_mset f (sum_list (map (\<lambda>(s, b). mset (resting_orders b)) m))" for m :: "(symbol \<times> order_book) list"
    by (induction m) auto
  then show ?thesis by (simp add: live_tags_def book_tags_def tags_of_def live_orders_def)
qed

lemma in_sum_list_mset: "x \<in># sum_list (map f m) \<longleftrightarrow> (\<exists>a \<in> set m. x \<in># f a)"
  by (induction m) auto

lemma count_image_le: "count A x \<le> count (image_mset f A) (f x)"
  by (induction A) auto

lemma books_part: "sum_list (map (\<lambda>(s, b). mset (resting_orders b)) m) = book_tags (\<lambda>x. x) m"
  by (simp add: book_tags_def tags_of_def)

lemma live_id_unique:
  assumes "engine_inv e" "x \<in># live_orders e" "y \<in># live_orders e" "oid x = oid y"
  shows "x = y"
proof (rule ccontr)
  assume "x \<noteq> y"
  then have "{#x, y#} \<subseteq># live_orders e" using assms(2,3)
    by (metis insert_subset_eq_iff insert_DiffM insert_noteq_member single_subset_iff)
  then have "image_mset oid {#x, y#} \<subseteq># image_mset oid (live_orders e)" by (rule image_mset_subseteq_mono)
  then have "2 \<le> count (image_mset oid (live_orders e)) (oid x)"
    using assms(4) mset_subset_eq_count[of "{#oid x, oid y#}" "image_mset oid (live_orders e)" "oid x"] by simp
  moreover have "count (image_mset oid (live_orders e)) (oid x) \<le> 1"
    using assms(1) by (simp add: engine_inv_def ids_ok_def live_orders_tags)
  ultimately show False by linarith
qed

lemma resting_live: "map_of (books e) s = Some b \<Longrightarrow> x \<in> set (resting_orders b) \<Longrightarrow> x \<in># live_orders e"
  by (auto simp: live_orders_def in_sum_list_mset dest!: map_of_SomeD intro!: bexI[of _ "(s, b)"])

lemma waiting_live: "x \<in> set (all_waiting (registry e)) \<Longrightarrow> x \<in># live_orders e"
  by (simp add: live_orders_def)

lemma resting_symbol: "book_ok b \<Longrightarrow> x \<in> set (resting_orders b) \<Longrightarrow> osymbol x = bk_symbol b"
  by (auto simp: book_ok_def resting_orders_def levels_ok_def good_bid_def good_ask_def)

lemma live_cases:
  assumes inv: "engine_inv e" and x: "x \<in># live_orders e"
  obtains (rests) b where "map_of (books e) (osymbol x) = Some b" "x \<in> set (resting_orders b)" "book_ok b"
  | (waits) "x \<in> set (all_waiting (registry e))"
proof (cases "x \<in> set (all_waiting (registry e))")
  case False
  then obtain s b where b: "(s, b) \<in> set (books e)" "x \<in> set (resting_orders b)"
    using x by (auto simp: live_orders_def in_sum_list_mset)
  have bo: "books_ok (books e)" using inv by (simp add: engine_inv_def engine_ok_def)
  have m: "map_of (books e) s = Some b"
    by (rule map_of_is_SomeI[OF _ b(1)]) (use bo in \<open>simp add: books_ok_def\<close>)
  show ?thesis using rests[of b] books_okD[OF bo m] resting_symbol[of b x] b(2) m by simp
qed (rule waits)

lemma remove_first_takes:
  "x \<in> set xs \<Longrightarrow> P x \<Longrightarrow> \<exists>y \<in> set xs. P y \<and> mset xs = add_mset y (mset (remove_first P xs))"
  by (induction xs) auto

text \<open>Taking an order out of its book by its id.\<close>

lemma book_cancel_takes:
  assumes inv: "engine_inv e" and b: "map_of (books e) s = Some b" and x: "x \<in> set (resting_orders b)"
  shows "live_orders e = add_mset x (live_orders (e\<lparr>books := AList.update s (snd (book_cancel (oid x) b)) (books e)\<rparr>))"
proof -
  obtain y where y: "y \<in> set (resting_orders b)" "oid y = oid x"
    "mset (resting_orders b) = add_mset y (mset (remove_first (\<lambda>z. oid z = oid x) (resting_orders b)))"
    using remove_first_takes[OF x, of "\<lambda>z. oid z = oid x"] by auto
  have "y = x" using live_id_unique[OF inv resting_live[OF b y(1)] resting_live[OF b x] y(2)] .
  then have m: "mset (resting_orders b) = add_mset x (mset (resting_orders (snd (book_cancel (oid x) b))))"
    using y(3) by (simp add: book_cancel_orders)
  have um: "um_ok (books e)" using inv by (simp add: engine_inv_def engine_ok_def books_ok_def)
  show ?thesis using book_tags_update[OF um b, of "\<lambda>x. x" "snd (book_cancel (oid x) b)"] m
    by (simp add: live_orders_def books_part tags_of_def)
qed

lemma cancel_order_takes:
  assumes inv: "engine_inv e" and b: "map_of (books e) s = Some b" and x: "x \<in> set (resting_orders b)"
  shows "\<exists>e'. cancel_order s (oid x) e = Some (True, e') \<and> live_orders e = add_mset x (live_orders e') \<and>
    e' = e\<lparr>books := books e'\<rparr>"
proof -
  have ok: "engine_ok e" using inv by (simp add: engine_inv_def)
  have f: "fst (book_cancel (oid x) b)" using x book_cancel_found by blast
  show ?thesis
  proof (rule cancel_order_run[OF ok, of s "oid x"], goal_cases)
    case (2 b')
    then have "b' = b" using b by simp
    then show ?thesis using 2(5) f book_cancel_takes[OF inv b x] by simp
  qed (use b in simp)
qed

lemma cancel_waiting_takes:
  assumes inv: "engine_inv e" and x: "x \<in> set (all_waiting (registry e))"
  shows "\<exists>e'. cancel_waiting_order (oid x) e = (True, e') \<and> live_orders e = add_mset x (live_orders e') \<and>
    e' = e\<lparr>registry := registry e'\<rparr>"
proof -
  let ?W = "mset (all_waiting (registry e))"
  obtain found e' where c: "cancel_waiting_order (oid x) e = (found, e')" by (cases "cancel_waiting_order (oid x) e")
  have eff: "found \<longleftrightarrow> (\<exists>y \<in> set (all_waiting (registry e)). oid y = oid x)"
    "mset (all_waiting (registry e')) = filter_mset (\<lambda>y. oid y \<noteq> oid x) ?W" "e' = e\<lparr>registry := registry e'\<rparr>"
    using cancel_waiting_effect[OF inv, of "oid x"] c by auto
  have "filter_mset (\<lambda>y. oid y = oid x) ?W = filter_mset (\<lambda>y. y = x) ?W"
    using live_id_unique[OF inv waiting_live waiting_live[OF x]] by (intro filter_mset_cong) auto
  moreover have "count ?W x = 1"
  proof -
    have "count (image_mset oid ?W) (oid x) \<le> count (live_tags oid e) (oid x)" by (simp add: live_tags_def)
    moreover have "count (live_tags oid e) (oid x) \<le> 1" using inv by (simp add: engine_inv_def ids_ok_def)
    moreover have "count ?W x \<le> count (image_mset oid ?W) (oid x)" by (rule count_image_le)
    moreover have "0 < count ?W x" using x by (simp add: count_greater_zero_iff)
    ultimately show ?thesis by linarith
  qed
  ultimately have "filter_mset (\<lambda>y. oid y = oid x) ?W = {#x#}" by (simp add: filter_eq_replicate_mset)
  then have w: "?W = add_mset x (mset (all_waiting (registry e')))"
    using multiset_partition[of ?W "\<lambda>y. oid y = oid x"] eff(2) by simp
  have "books e' = books e" using eff(3) by (metis engine.select_convs(1) engine.surjective engine.update_convs(4))
  then have l: "live_orders e = add_mset x (live_orders e')" using w by (simp add: live_orders_def)
  have "found" using eff(1) x by blast
  then show ?thesis using c l eff(3) by (intro exI[of _ e'] conjI) simp_all
qed

text \<open>A CANCEL that does not find the id in the named book leaves every live order where it is.\<close>

lemma cancel_order_misses:
  assumes inv: "engine_inv e" and no: "\<forall>b. map_of (books e) s = Some b \<longrightarrow> (\<forall>y \<in> set (resting_orders b). oid y \<noteq> i)"
  shows "\<exists>e'. cancel_order s i e = Some (False, e') \<and> live_orders e' = live_orders e \<and> registry e' = registry e \<and>
    engine_inv e' \<and> e' = e\<lparr>books := books e'\<rparr>"
proof -
  have ok: "engine_ok e" using inv by (simp add: engine_inv_def)
  show ?thesis
  proof (rule cancel_order_run[OF ok, of s i], goal_cases)
    case (2 b)
    let ?e = "e\<lparr>books := AList.update s (snd (book_cancel i b)) (books e)\<rparr>"
    have n: "\<forall>y \<in> set (resting_orders b). oid y \<noteq> i" using no 2(1) by blast
    then have f: "\<not> fst (book_cancel i b)" "resting_orders (snd (book_cancel i b)) = resting_orders b"
      using remove_first_none[of "resting_orders b" "\<lambda>y. oid y = i"] n book_cancel_found[of i b] by (auto simp: book_cancel_orders)
    have um: "um_ok (books e)" using ok by (simp add: engine_ok_def books_ok_def)
    have "live_orders ?e = live_orders e"
      using book_tags_update[OF um 2(1), of "\<lambda>x. x" "snd (book_cancel i b)"] f(2)
      by (simp add: live_orders_def books_part tags_of_def)
    moreover have "engine_inv ?e" using cancel_inv[OF inv 2(5)] .
    ultimately show ?thesis using 2(5) f(1) by simp
  qed (use inv in simp)
qed

lemma cancel_at_takes:
  assumes inv: "engine_inv e" and b: "map_of (books e) s = Some b" and x: "x \<in> set (resting_orders b)"
  shows "\<exists>e'. cancel_order_at s (side x) (price x) (oid x) e = Some (True, e') \<and>
    live_orders e = add_mset x (live_orders e') \<and> e' = e\<lparr>books := books e'\<rparr>"
proof -
  have ok: "engine_ok e" using inv by (simp add: engine_inv_def)
  then have bok: "book_ok b" using books_okD[OF _ b] by (simp add: engine_ok_def)
  have at: "price x \<noteq> NaN \<and> (price x, x) \<in> set (flatten (if side x = BUY then bids b else asks b))"
    using x bok by (fastforce simp: resting_orders_def book_ok_def levels_ok_def good_bid_def good_ask_def set_flatten)
  have d: "distinct (map oid (resting_orders b))"
  proof -
    have "count (image_mset oid (mset (resting_orders b))) i \<le> 1" for i
    proof -
      have "mset (resting_orders b) \<subseteq># live_orders e"
        using b by (auto simp: live_orders_def dest!: map_of_SomeD split_list intro: subset_mset.add_increasing2)
      then have "image_mset oid (mset (resting_orders b)) \<subseteq># live_tags oid e"
        unfolding live_orders_tags by (rule image_mset_subseteq_mono)
      then have "count (image_mset oid (mset (resting_orders b))) i \<le> count (live_tags oid e) i"
        by (rule mset_subset_eq_count)
      also have "\<dots> \<le> 1" using inv by (simp add: engine_inv_def ids_ok_def)
      finally show ?thesis .
    qed
    then show ?thesis by (metis distinct_count_atmost_1 less_one linorder_not_less count_mset_0_iff mset_map nle_le)
  qed
  have c: "fst (book_cancel_at (side x) (price x) (oid x) b)"
    "snd (book_cancel_at (side x) (price x) (oid x) b) = snd (book_cancel (oid x) b)"
    using cancel_at_exact[OF bok _ d, of "price x" "side x" "oid x"] at by (auto simp: Let_def split: prod.splits)
  show ?thesis
  proof (rule cancel_order_at_run[OF ok, of s "side x" "price x" "oid x"], goal_cases)
    case (2 b')
    then have "b' = b" using b by simp
    then show ?thesis using 2(5) c book_cancel_takes[OF inv b x] by simp
  qed (use b in simp)
qed

lemma cancel_demo:
  "cancel_order ''AAA'' 1 demo_engine = Some (True, demo_engine\<lparr>books := [(''AAA'', new_book ''AAA'')]\<rparr>)"
  by (simp add: demo_engine_eq cancel_order_def symbol_exists_def book_for_def book_cancel_def build_order_def new_book_def)

text \<open>The three lines that cancel the live order \<open>x\<close>, the number written as \<open>n\<close>.\<close>

lemma cancel_command_takes:
  assumes inv: "engine_inv e" and x: "x \<in># live_orders e" and n: "stoull n = Some (oid x)"
  shows "\<exists>e'. cancel_command [w, n, osymbol x] e = (Some ''OK CANCELLED'', e') \<and>
    live_orders e = add_mset x (live_orders e') \<and> e' = e\<lparr>books := books e', registry := registry e'\<rparr>"
proof (cases "\<exists>b. map_of (books e) (osymbol x) = Some b \<and> x \<in> set (resting_orders b)")
  case True
  then obtain b where b: "map_of (books e) (osymbol x) = Some b" "x \<in> set (resting_orders b)" by blast
  obtain e' where e': "cancel_order (osymbol x) (oid x) e = Some (True, e')" "live_orders e = add_mset x (live_orders e')"
    "e' = e\<lparr>books := books e'\<rparr>" using cancel_order_takes[OF inv b] by blast
  have "e' = e\<lparr>books := books e', registry := registry e'\<rparr>" by (subst e'(3), subst (2) e'(3)) simp
  then show ?thesis using e'(1,2) n by (simp add: cancel_command_def)
next
  case False
  have w: "x \<in> set (all_waiting (registry e))" by (rule live_cases[OF inv x]) (use False in blast)+
  have "\<forall>b. map_of (books e) (osymbol x) = Some b \<longrightarrow> (\<forall>y \<in> set (resting_orders b). oid y \<noteq> oid x)"
    using False live_id_unique[OF inv _ x] resting_live by metis
  from cancel_order_misses[OF inv this] obtain e1 where e1: "cancel_order (osymbol x) (oid x) e = Some (False, e1)"
    "live_orders e1 = live_orders e" "registry e1 = registry e" "engine_inv e1" "e1 = e\<lparr>books := books e1\<rparr>" by blast
  obtain e2 where e2: "cancel_waiting_order (oid x) e1 = (True, e2)" "live_orders e1 = add_mset x (live_orders e2)"
    "e2 = e1\<lparr>registry := registry e2\<rparr>" using cancel_waiting_takes[OF e1(4), of x] w e1(3) by auto
  have "e2 = e\<lparr>books := books e2, registry := registry e2\<rparr>" by (subst e2(3), subst e1(5), subst (2) e2(3)) simp
  then show ?thesis using e1(1,2) e2(1,2) n by (simp add: cancel_command_def)
qed

lemma cancel_waiting_command_takes:
  assumes inv: "engine_inv e" and x: "x \<in> set (all_waiting (registry e))" and n: "stoull n = Some (oid x)"
  shows "\<exists>e'. cancel_waiting_command [w, n] e = (Some ''OK CANCELLED'', e') \<and>
    live_orders e = add_mset x (live_orders e') \<and> e' = e\<lparr>books := books e', registry := registry e'\<rparr>"
proof -
  obtain e' where e': "cancel_waiting_order (oid x) e = (True, e')" "live_orders e = add_mset x (live_orders e')"
    "e' = e\<lparr>registry := registry e'\<rparr>" using cancel_waiting_takes[OF inv x] by blast
  have "e' = e\<lparr>books := books e', registry := registry e'\<rparr>" by (subst e'(3), subst e'(3)) simp
  then show ?thesis using e'(1,2) n by (simp add: cancel_waiting_command_def)
qed

lemma cancel_book_command_takes:
  assumes inv: "engine_inv e" and x: "x \<in># live_orders e" "x \<notin> set (all_waiting (registry e))"
    and n: "stoull n = Some (oid x)" and p: "stod p = Some (price x)"
  shows "\<exists>e'. cancel_book_command [w, n, osymbol x, side_to_string (side x), p] e = (Some ''OK CANCELLED'', e') \<and>
    live_orders e = add_mset x (live_orders e') \<and> e' = e\<lparr>books := books e', registry := registry e'\<rparr>"
proof -
  obtain b where b: "map_of (books e) (osymbol x) = Some b" "x \<in> set (resting_orders b)"
    by (rule live_cases[OF inv x(1)]) (use x(2) in auto)
  obtain e' where e': "cancel_order_at (osymbol x) (side x) (price x) (oid x) e = Some (True, e')"
    "live_orders e = add_mset x (live_orders e')" "e' = e\<lparr>books := books e'\<rparr>" using cancel_at_takes[OF inv b] by blast
  have "e' = e\<lparr>books := books e', registry := registry e'\<rparr>" by (subst e'(3), subst (2) e'(3)) simp
  moreover have "(if side_to_string (side x) = ''BUY'' then BUY else SELL) = side x" by (cases "side x") simp_all
  ultimately show ?thesis using e'(1,2) n p by (simp add: cancel_book_command_def Let_def)
qed



end
