(* ===== verification/NetProps.thy ===== *)
theory NetProps
  imports Protocol Auth MarketData
begin

text \<open>The properties of the market data feed, the framing, the hash and the client directory.\<close>

section \<open>Market data\<close>

text \<open>C20. The feed is exact: after any sequence of events, what it shows of a symbol is the price of the
symbol's last trade, the sum of the traded quantities, the notional added up in delivery order divided
by that volume, and the candles are the trades cut into maximal runs of the same time window, each
with its first, highest, lowest and last price and its volume. Of the candles the last n are returned,
oldest first, where the comment at the declaration (market_data.hpp:38) says the most recent one comes
first: the code and its comment disagree, and the property states the code.\<close>

theorem market_feed_exact:
  "let m = md_run w evs; ts = trades_of s evs in
     md_last_price m s = (if ts = [] then 0 else tprice (last ts)) \<and>
     md_total_volume m s = trade_volume ts \<and>
     md_vwap m s = (if trade_volume ts = 0 then 0 else spec_notional ts div dbl_of_int (trade_volume ts)) \<and>
     recent_candles m s n = drop (length (spec_candles w ts) - n) (spec_candles w ts)"
  by (simp add: Let_def md_last_price_def md_total_volume_def md_vwap_def recent_candles_def md_state min_def)
    (simp add: spec_candles_def)

lemma candle_list:
  "candles = spec_candles w ts \<Longrightarrow> c \<in> set candles \<Longrightarrow>
     \<exists>g \<in> set (runs_by (\<lambda>t. bucket_of w (timestamp t)) ts). c = summary_candle w g"
  by (auto simp: spec_candles_def)

text \<open>Candles are sane: fed with trades in time order and at real prices, the candles of a symbol have
strictly increasing start times, each lies around its trades (low below, high above every price in
it, every time stamp within its window) and their volumes add up to the traded volume.\<close>

theorem candles_are_sane:
  assumes "0 < w" "sorted (map timestamp (trades_of s evs))" "\<forall>t \<in> set (trades_of s evs). 0 \<le> timestamp t \<and> tprice t \<noteq> NaN"
  shows "let cs = recent_candles (md_run w evs) s (length (trades_of s evs)); ts = trades_of s evs in
     sorted_wrt (<) (map bucket_start cs) \<and> sum_list (map c_volume cs) = trade_volume ts \<and>
     (\<forall>t \<in> set ts. \<exists>c \<in> set cs. bucket_start c \<le> timestamp t \<and> timestamp t < bucket_start c + w * 10 ^ 6 \<and>
        c_low c \<le> tprice t \<and> tprice t \<le> c_high c)"
proof -
  let ?ts = "trades_of s evs"
  let ?k = "\<lambda>t. bucket_of w (timestamp t)"
  have len: "length (runs_by ?k ts) \<le> length ts" for ts by (induction ts) (auto split: list.splits)
  have cs: "recent_candles (md_run w evs) s (length ?ts) = spec_candles w ?ts"
    using len[of ?ts] by (simp add: recent_candles_def md_state spec_candles_def Let_def)
  have "map bucket_start (spec_candles w ?ts) = map (\<lambda>g. ?k (hd g)) (runs_by ?k ?ts)"
    by (simp add: spec_candles_def summary_candle_def)
  moreover have "sorted_wrt (<) (map (\<lambda>g. ?k (hd g)) (runs_by ?k ?ts))"
    by (rule runs_strict, rule sorted_buckets[OF assms(1,2)]) (use assms(3) in blast)
  moreover have "\<exists>c \<in> set (spec_candles w ?ts). bucket_start c \<le> timestamp t \<and> timestamp t < bucket_start c + w * 10 ^ 6 \<and>
        c_low c \<le> tprice t \<and> tprice t \<le> c_high c" if t: "t \<in> set ?ts" for t
  proof -
    obtain g where g: "g \<in> set (runs_by ?k ?ts)" "t \<in> set g" using concat_runs[of ?k ?ts] t by (metis UN_E set_concat)
    have sub: "set g \<subseteq> set ?ts" using concat_runs[of ?k ?ts] g(1) by (metis UN_upper set_concat)
    have "g \<noteq> []" using g(2) by auto
    from summary_bounds[OF this g(2)] have "c_low (summary_candle w g) \<le> tprice t \<and> tprice t \<le> c_high (summary_candle w g)"
      using sub assms(3) by blast
    moreover have "bucket_start (summary_candle w g) = ?k t" using runs_uniform[OF g] by (simp add: summary_candle_def)
    ultimately show ?thesis using g(1) bucket_of_bounds[OF assms(1), of "timestamp t"] assms(3) t
      by (intro bexI[of _ "summary_candle w g"]) (auto simp: spec_candles_def)
  qed
  ultimately show ?thesis by (simp add: cs spec_candles_volume)
qed

definition demo_trade :: "time \<Rightarrow> rat \<Rightarrow> quantity \<Rightarrow> event" where
  "demo_trade ts p q = TradeEvent \<lparr>buy_order_id = 1, sell_order_id = 2, buyer = 1, seller = 2, tsymbol = ''AAA'',
     tqty = q, tprice = Fin p, timestamp = ts\<rparr>"

theorem candles_are_sane_witness:
  "let evs = [demo_trade 5 10 1, demo_trade 7 12 2, demo_trade 1000000009 11 3] in
     map bucket_start (recent_candles (md_run 1000 evs) ''AAA'' 3) = [0, 1000000000] \<and>
     sorted_wrt (<) (map bucket_start (recent_candles (md_run 1000 evs) ''AAA'' 3)) \<and>
     sum_list (map c_volume (recent_candles (md_run 1000 evs) ''AAA'' 3)) = 6"
  using candles_are_sane[of 1000 "''AAA''" "[demo_trade 5 10 1, demo_trade 7 12 2, demo_trade 1000000009 11 3]"]
  by (simp add: demo_trade_def Let_def)
    (simp add: md_run_def on_trade_def um_modify_def um_get_def empty_symbol_state_def add_to_candles_def
      bucket_of_def signed_divide_int_def new_candle_def extend_candle_def recent_candles_def Let_def)

section \<open>Framing\<close>

text \<open>C21. Messages survive the stream: if the frames of some messages (each at most 1 MiB) arrive one after
the other, cut into pieces in any way, receiving as many times yields exactly these messages in order
and leaves what follows unread.\<close>

theorem frames_survive_cutting:
  assumes "[] \<notin> set pieces" "concat pieces = concat (map frame msgs) @ rest" "\<forall>m \<in> set msgs. length m \<le> 2 ^ 20"
  shows "fst (recv_many (length msgs) pieces) = Some msgs \<and> concat (snd (recv_many (length msgs) pieces)) = rest"
  by (rule recv_many_frames[OF assms])

theorem frames_survive_cutting_witness:
  "let wire = frame ''OK'' @ frame '''' @ frame ''ERR'' in
     fst (recv_many 3 [take 3 wire, drop 3 wire @ ''x'']) = Some [''OK'', '''', ''ERR''] \<and>
     concat (snd (recv_many 3 [take 3 wire, drop 3 wire @ ''x''])) = ''x''"
proof -
  let ?w = "frame ''OK'' @ frame '''' @ frame ''ERR''"
  have "?w \<noteq> []" using length_encode[of 2] by (auto simp: frame_def)
  then have ne: "[] \<notin> set [take 3 ?w, drop 3 ?w @ ''x'']" by auto
  have c: "concat [take 3 ?w, drop 3 ?w @ ''x''] = concat (map frame [''OK'', '''', ''ERR'']) @ ''x''"
    unfolding concat.simps list.map append_Nil2 by (simp only: append.assoc[symmetric] append_take_drop_id)
  have n: "length [''OK'', '''', ''ERR''] = 3" by simp
  show ?thesis unfolding Let_def
    by (rule frames_survive_cutting[OF ne c, unfolded n]) simp
qed

text \<open>What is sent is what is framed, and bad input is refused: a successful send puts exactly the frame
on the wire and a failed one a beginning of it; a stream that ends before a header, or whose header
claims more than 1 MiB, yields no message, and the claimed payload is not read.\<close>

theorem framing_errors:
  "(case send_framed payload answers of (ok, out, _) \<Rightarrow>
      (\<exists>rest. frame payload = out @ rest) \<and> (ok \<longrightarrow> out = frame payload)) \<and>
   (length (concat pieces) < 8 \<longrightarrow> fst (recv_framed pieces) = None) \<and>
   ([] \<notin> set pieces \<and> concat pieces = encode_length n @ rest \<and> kMaxMessageBytes < n \<longrightarrow>
      fst (recv_framed pieces) = None \<and> concat (snd (recv_framed pieces)) = rest)"
  using send_framed_frame[of payload answers] recv_truncated[of pieces] recv_oversized[of pieces n rest]
  by (auto split: prod.splits) (metis fst_conv)+

theorem framing_errors_witness:
  "kMaxMessageBytes < 2000000 \<and> fst (recv_framed [''abc'']) = None \<and>
   fst (recv_framed [encode_length 2000000 @ ''abc'']) = None \<and>
   concat (snd (recv_framed [encode_length 2000000 @ ''abc''])) = ''abc''"
proof -
  have k: "kMaxMessageBytes < 2000000" by (simp add: kMaxMessageBytes_def)
  have n: "[] \<notin> set [encode_length 2000000 @ ''abc'']" by simp
  show ?thesis using framing_errors[of "[]" "[]" "[encode_length 2000000 @ ''abc'']" 2000000 "''abc''"]
      framing_errors[of "[]" "[]" "[''abc'']" 0 "[]"] k n by simp
qed

section \<open>Passwords and accounts\<close>

text \<open>C22. The streaming hasher is SHA-256: for every input the buffered update and finalize of the code give
the digest of the standard's description (pad to whole blocks, compress block by block), 32 bytes
long.\<close>

theorem sha256_is_the_standard:
  "sha256_hash input = sha256_spec (string_bytes input) \<and> length (sha256_hash input) = 32"
proof -
  have l: "length (foldl compress h bs) = 8" if "length h = 8" for h bs
    using that by (induction bs arbitrary: h) (simp_all add: length_compress)
  have c: "length (concat (map word_bytes ws)) = 4 * length ws" for ws
    by (induction ws) (simp_all add: word_bytes_def)
  show ?thesis unfolding sha256_hash_spec by (simp only: sha256_spec_def c l) (simp add: l sha_init_h_def)
qed

text \<open>Two hexadecimal digits determine a byte, so the hexadecimal text determines the digest.\<close>

lemma hex_digit_inj: "i < 16 \<Longrightarrow> j < 16 \<Longrightarrow> hex_digits ! i = hex_digits ! j \<longleftrightarrow> i = j"
  by (rule nth_eq_iff_index_eq) (simp_all add: hex_digits_def)

lemma unat_word_lt: "unat (b :: byte) < 256"
  using unsigned_less[of b, where 'a = nat] by simp

lemma byte_halves: "unat (drop_bit 4 b) = unat b div 16" "unat (b AND 0x0F) = unat b mod 16" for b :: byte
proof -
  show "unat (drop_bit 4 b) = unat b div 16" by (simp only: unat_drop_bit_eq) (simp add: drop_bit_eq_div)
  have "b AND 0x0F = take_bit 4 b" by (simp add: take_bit_eq_mask mask_eq_exp_minus_1)
  then have "unat (b AND 0x0F) = take_bit 4 (unat b)" by (simp only: unsigned_take_bit_eq)
  then show "unat (b AND 0x0F) = unat b mod 16" by (simp add: take_bit_eq_mod)
qed

lemma to_hex_inj: "to_hex xs = to_hex ys \<longleftrightarrow> xs = ys"
proof (induction xs arbitrary: ys)
  case (Cons x xs)
  have lt: "unat (drop_bit 4 b) < 16" "unat (b AND 0x0F) < 16" for b :: byte
    using unat_word_lt[of b] by (simp_all add: byte_halves)
  have eq: "x = y" if "unat (drop_bit 4 x) = unat (drop_bit 4 y)" "unat (x AND 0x0F) = unat (y AND 0x0F)" for y
    using that div_mod_decomp[of "unat x" 16] div_mod_decomp[of "unat y" 16]
    unfolding byte_halves by (metis word_unat_eq_iff)
  show ?case
  proof (cases ys)
    case (Cons y zs)
    have "to_hex xs = to_hex zs \<longleftrightarrow> xs = zs" by (rule Cons.IH)
    then show ?thesis using Cons eq[of y]
      by (auto simp: to_hex_def hex_digit_inj[OF lt(1) lt(1)] hex_digit_inj[OF lt(2) lt(2)])
  qed (simp add: to_hex_def)
qed (auto simp: to_hex_def)

lemma same_password_hash:
  "hash_password salt p = hash_password salt q \<longleftrightarrow>
     sha256_spec (string_bytes (salt @ p)) = sha256_spec (string_bytes (salt @ q))"
  by (simp add: hash_password_def to_hex_inj sha256_hash_spec)

text \<open>C23. A fresh registration can log in with its password, and with another one only if the two collide
under SHA-256 behind the drawn salt: a login is compared by the digest of salt and password as the
standard computes it. The account gets an id no account had, the name is taken from then on, the other
accounts stay as they were, and the token issued resolves to the new id unless an equal token had been
issued before.\<close>

theorem register_then_login:
  assumes "dir_ok d" "register_client draw u p d = (Registered c t, d')"
  shows "dir_ok d' \<and> (\<forall>(_, a) \<in> set (accounts d). acc_id a \<noteq> c) \<and>
    (\<forall>draw2 p2. fst (authenticate draw2 u p2 d') =
       (if sha256_spec (string_bytes (drawn_salt draw @ p2)) = sha256_spec (string_bytes (drawn_salt draw @ p))
        then Authenticated c (drawn_token draw2) else WrongPassword)) \<and>
    (\<forall>draw2 p2. register_client draw2 u p2 d' = (UsernameTaken, d')) \<and>
    (\<forall>u2. u2 \<noteq> u \<longrightarrow> map_of (accounts d') u2 = map_of (accounts d) u2) \<and>
    resolve_token t d' = (case resolve_token t d of None \<Rightarrow> Some c | Some old \<Rightarrow> Some old)"
proof -
  have none: "map_of (accounts d) u = None" using assms(2) by (auto simp: register_client_def split: if_splits)
  have c: "c = next_client_id d" and t: "t = drawn_token draw"
    and d': "d' = d\<lparr>next_client_id := c + 1, dir_tokens := um_emplace t c (dir_tokens d),
      accounts := um_emplace u \<lparr>acc_id = c, salt_hex = drawn_salt draw,
        password_hash_hex = hash_password (drawn_salt draw) p\<rparr> (accounts d)\<rparr>"
    using assms(2) none by (auto simp: register_client_def Let_def)
  have "dir_ok d'" using register_ok[OF assms(1), of draw u p] assms(2) by simp
  moreover have "\<forall>(_, a) \<in> set (accounts d). acc_id a \<noteq> c" using assms(1) c by (fastforce simp: dir_ok_def)
  ultimately show ?thesis using none unfolding same_password_hash[symmetric]
    by (auto simp: d' authenticate_def register_client_def resolve_token_def map_of_emplace split: option.splits)
qed

definition demo_draw1 :: draws where
  "demo_draw1 = ((1, 2), (3, 4, 5, 6))"

theorem register_then_login_witness:
  "\<exists>c t d'. register_client demo_draw1 ''ann'' ''pw'' new_directory = (Registered c t, d') \<and>
     fst (authenticate demo_draw1 ''ann'' ''pw'' d') = Authenticated 1 t \<and> resolve_token t d' = Some 1"
proof -
  let ?d = "snd (register_client demo_draw1 ''ann'' ''pw'' new_directory)"
  have r: "register_client demo_draw1 ''ann'' ''pw'' new_directory = (Registered 1 (drawn_token demo_draw1), ?d)"
    by (simp add: register_client_def new_directory_def Let_def)
  have "resolve_token (drawn_token demo_draw1) new_directory = None" by (simp add: resolve_token_def new_directory_def)
  then show ?thesis using register_then_login[OF new_directory_ok r] r by (metis option.case(1))
qed

end
