(* ===== verification/Bots.thy ===== *)
theory Bots
  imports MatchingEngine MarketData
begin

text \<open>
  The in-process trading bots of \<open>Src_Simulation/src/bot.cpp\<close> and \<open>bot.hpp\<close>. What a bot draws from
  its generator is an argument: integers and choices as values, a real draw as the function from the
  bounds of its uniform distribution to the value drawn. \<open>None\<close> is an exception from the engine.
\<close>

type_synonym submit_readings = "time \<times> (nat \<Rightarrow> time) \<times> 64 word"

type_synonym real_draw = "double \<Rightarrow> double \<Rightarrow> double"

definition decimal :: "int \<Rightarrow> int \<Rightarrow> double" where
  "decimal n d = rnd (of_int n / of_int d)"

text \<open>\<open>std::clamp\<close>.\<close>

definition dclamp :: "double \<Rightarrow> double \<Rightarrow> double \<Rightarrow> double" where
  "dclamp v lo hi = (if v < lo then lo else if hi < v then hi else v)"

definition volatility_for :: "(symbol \<times> double) list \<Rightarrow> symbol \<Rightarrow> double" where
  "volatility_for vols s = (case map_of vols s of None \<Rightarrow> decimal 20 100 | Some v \<Rightarrow> v)"

definition pick_symbol :: "symbol list \<Rightarrow> nat \<Rightarrow> symbol" where
  "pick_symbol symbols i = symbols ! i"

text \<open>The engine's last price, or the feed's when the engine has none.\<close>

definition reference_price :: "engine \<Rightarrow> market_data \<Rightarrow> symbol \<Rightarrow> price" where
  "reference_price e md s = (let r = last_price e s in if r \<le> 0 then md_last_price md s else r)"

definition submit_for :: "submit_readings \<Rightarrow> order_request \<Rightarrow> engine \<Rightarrow> (submit_result \<times> engine) option" where
  "submit_for rd rq e = (case rd of (now, clk, lat) \<Rightarrow> submit_order now clk lat rq e)"

definition floor_price :: "double \<Rightarrow> double" where
  "floor_price x = dmax (decimal 1 100) x"

definition request_for :: "client_id \<Rightarrow> side \<Rightarrow> order_kind \<Rightarrow> symbol \<Rightarrow> quantity \<Rightarrow> order_request" where
  "request_for c sd k s q =
     default_request\<lparr>rq_client := c, rq_side := sd, rq_kind := k, rq_symbol := s, rq_quantity := q\<rparr>"

section \<open>Noise trader\<close>

record noise_draws =
  nd_symbol :: nat
  nd_buy :: bool
  nd_qty :: quantity
  nd_kind :: nat
  nd_real :: real_draw
  nd_real2 :: real_draw
  nd_expiry :: "int option"

definition noise_request ::
  "noise_draws \<Rightarrow> client_id \<Rightarrow> (symbol \<times> double) list \<Rightarrow> symbol \<Rightarrow> price \<Rightarrow> order_request" where
  "noise_request dr c vols s reference =
     (let offset_scale = dclamp (volatility_for vols s div Fin 20) (decimal 2 1000) (decimal 10 100);
          sd = (if nd_buy dr then BUY else SELL);
          rq = request_for c sd LIMIT s (nd_qty dr);
          rq1 =
            (if nd_kind dr = 0 then rq\<lparr>rq_kind := MARKET\<rparr>
             else if nd_kind dr = 1
               then rq\<lparr>rq_kind := LIMIT,
                      rq_price := floor_price (reference * (1 + nd_real dr (dneg offset_scale) offset_scale))\<rparr>
             else if nd_kind dr = 2
               then (let direction = (if sd = SELL then Fin (- 1) else 1)
                     in rq\<lparr>rq_kind := STOP,
                           rq_price := floor_price (reference * (1 + direction * nd_real dr offset_scale (offset_scale * Fin 3)))\<rparr>)
             else (let lo = reference * (1 - nd_real dr offset_scale (offset_scale * Fin (5 / 2)));
                       hi = reference * (1 + nd_real2 dr offset_scale (offset_scale * Fin (5 / 2)))
                   in rq\<lparr>rq_kind := LIMIT_STOP, rq_price := reference,
                         trigger_lower := Some (floor_price lo), trigger_upper := Some hi\<rparr>))
      in rq1\<lparr>expires_in := nd_expiry dr\<rparr>)"

definition noise_step ::
  "noise_draws \<Rightarrow> submit_readings \<Rightarrow> client_id \<Rightarrow> symbol list \<Rightarrow> (symbol \<times> double) list \<Rightarrow> market_data \<Rightarrow> engine \<Rightarrow> engine option" where
  "noise_step dr rd c symbols vols md e =
     (let s = pick_symbol symbols (nd_symbol dr); reference = reference_price e md s
      in if reference \<le> 0 then Some e
         else map_option snd (submit_for rd (noise_request dr c vols s reference) e))"

section \<open>Momentum trader\<close>

definition kWindowSize :: nat where "kWindowSize = 5"

type_synonym price_history = "(symbol \<times> double list) list"

definition push_sample :: "double \<Rightarrow> double list \<Rightarrow> double list" where
  "push_sample x h = (let h1 = h @ [x] in if kWindowSize < length h1 then tl h1 else h1)"

record momentum_draws =
  mo_symbol :: nat
  mo_qty :: quantity
  mo_real :: real_draw

definition momentum_order :: "client_id \<Rightarrow> symbol \<Rightarrow> double \<Rightarrow> quantity \<Rightarrow> order_request" where
  "momentum_order c s change q = request_for c (if 0 < change then BUY else SELL) MARKET s q"

definition momentum_stop ::
  "momentum_draws \<Rightarrow> client_id \<Rightarrow> (symbol \<times> double) list \<Rightarrow> symbol \<Rightarrow> double \<Rightarrow> price \<Rightarrow> order_request" where
  "momentum_stop dr c vols s change reference =
     (let sd = (if 0 < change then BUY else SELL);
          offset_scale = dclamp (volatility_for vols s div Fin 20) (decimal 2 1000) (decimal 5 100);
          direction = (if sd = BUY then Fin (- 1) else 1);
          offset = mo_real dr offset_scale (dmax (offset_scale * Fin 2) (offset_scale + decimal 5 1000))
      in (request_for c (if sd = BUY then SELL else BUY) STOP s (mo_qty dr))
           \<lparr>rq_price := floor_price (reference * (1 + direction * offset)), expires_in := Some 120\<rparr>)"

definition momentum_step ::
  "momentum_draws \<Rightarrow> submit_readings \<Rightarrow> submit_readings \<Rightarrow> client_id \<Rightarrow> symbol list \<Rightarrow> (symbol \<times> double) list \<Rightarrow>
   market_data \<Rightarrow> price_history \<Rightarrow> engine \<Rightarrow> (price_history \<times> engine) option" where
  "momentum_step dr rd1 rd2 c symbols vols md hist e =
     (let s = pick_symbol symbols (mo_symbol dr); reference = reference_price e md s
      in if reference \<le> 0 then Some (hist, e)
         else
           (let h = push_sample reference (um_get [] hist s);
                hist1 = AList.update s h hist;
                change = last h - hd h
            in if length h < 2 then Some (hist1, e)
               else if deq change 0 then Some (hist1, e)
               else case submit_for rd1 (momentum_order c s change (mo_qty dr)) e of
                      None \<Rightarrow> None
                    | Some (_, e1) \<Rightarrow>
                        (case submit_for rd2 (momentum_stop dr c vols s change reference) e1 of
                           None \<Rightarrow> None
                         | Some (_, e2) \<Rightarrow> Some (hist1, e2))))"

section \<open>Market maker\<close>

record maker_state =
  last_quote_symbol :: symbol
  last_buy_order :: order_id
  last_sell_order :: order_id

definition new_maker :: maker_state where
  "new_maker = \<lparr>last_quote_symbol = [], last_buy_order = 0, last_sell_order = 0\<rparr>"

definition cancel_if_set :: "symbol \<Rightarrow> order_id \<Rightarrow> engine \<Rightarrow> engine option" where
  "cancel_if_set s i e = (if i \<noteq> 0 then map_option snd (cancel_order s i e) else Some e)"

definition withdraw_quotes :: "maker_state \<Rightarrow> engine \<Rightarrow> engine option" where
  "withdraw_quotes m e =
     (case cancel_if_set (last_quote_symbol m) (last_buy_order m) e of
        None \<Rightarrow> None
      | Some e1 \<Rightarrow> cancel_if_set (last_quote_symbol m) (last_sell_order m) e1)"

definition maker_bid :: "double \<Rightarrow> price \<Rightarrow> price" where
  "maker_bid spread_fraction mid = floor_price (mid - mid * spread_fraction div Fin 2)"

definition maker_ask :: "double \<Rightarrow> price \<Rightarrow> price" where
  "maker_ask spread_fraction mid = mid + mid * spread_fraction div Fin 2"

definition maker_quote :: "client_id \<Rightarrow> side \<Rightarrow> symbol \<Rightarrow> quantity \<Rightarrow> price \<Rightarrow> order_request" where
  "maker_quote c sd s q p = (request_for c sd LIMIT s q)\<lparr>rq_price := p\<rparr>"

text \<open>The order id is remembered only when something of the order can be left.\<close>

definition remembered :: "order_request \<Rightarrow> submit_result \<Rightarrow> order_id" where
  "remembered rq res = (if accepted res \<and> filled_quantity res < rq_quantity rq then result_order_id res else 0)"

definition post_quotes ::
  "submit_readings \<Rightarrow> submit_readings \<Rightarrow> order_request \<Rightarrow> order_request \<Rightarrow> symbol \<Rightarrow> engine \<Rightarrow> (maker_state \<times> engine) option" where
  "post_quotes rd1 rd2 buy sell s e =
     (case submit_for rd1 buy e of
        None \<Rightarrow> None
      | Some (r1, e1) \<Rightarrow>
          (case submit_for rd2 sell e1 of
             None \<Rightarrow> None
           | Some (r2, e2) \<Rightarrow>
               Some (\<lparr>last_quote_symbol = s, last_buy_order = remembered buy r1, last_sell_order = remembered sell r2\<rparr>, e2)))"

record maker_draws =
  mk_symbol :: nat
  mk_buy_qty :: quantity
  mk_sell_qty :: quantity

definition maker_step ::
  "maker_draws \<Rightarrow> submit_readings \<Rightarrow> submit_readings \<Rightarrow> double \<Rightarrow> client_id \<Rightarrow> symbol list \<Rightarrow> market_data \<Rightarrow>
   maker_state \<Rightarrow> engine \<Rightarrow> (maker_state \<times> engine) option" where
  "maker_step dr rd1 rd2 spread_fraction c symbols md m e =
     (case withdraw_quotes m e of
        None \<Rightarrow> None
      | Some e1 \<Rightarrow>
          (let s = pick_symbol symbols (mk_symbol dr); mid = reference_price e1 md s
           in if mid \<le> 0 then Some (\<lparr>last_quote_symbol = s, last_buy_order = 0, last_sell_order = 0\<rparr>, e1)
              else post_quotes rd1 rd2 (maker_quote c BUY s (mk_buy_qty dr) (maker_bid spread_fraction mid))
                     (maker_quote c SELL s (mk_sell_qty dr) (maker_ask spread_fraction mid)) s e1))"

section \<open>Bot orders are well formed\<close>

text \<open>What the standard promises of the draws: quantities from one up, reals within their bounds.\<close>

definition well_formed :: "engine \<Rightarrow> order_request \<Rightarrow> bool" where
  "well_formed e rq \<longleftrightarrow> reject_text rq e = [] \<and> rq_price rq \<noteq> NaN"

lemma cent: "decimal 1 100 = Fin (5764607523034235 * 2 powi (- 59))"
proof -
  have "rnd (1 / 100) = Fin (of_int 5764607523034235 * 2 powi (- 59))"
    by (rule rnd_eval) (simp_all add: power_int_def power_divide)
  then show ?thesis by (simp add: decimal_def)
qed

lemma floor_price_ok: "floor_price x \<noteq> NaN \<and> \<not> floor_price x \<le> 0"
  by (cases x) (auto simp: floor_price_def dmax_def cent)

lemma well_formed_limit:
  "symbol_exists e (rq_symbol rq) \<Longrightarrow> 0 < rq_quantity rq \<Longrightarrow> rq_price rq \<noteq> NaN \<Longrightarrow> \<not> rq_price rq \<le> 0 \<Longrightarrow> well_formed e rq"
  by (simp add: well_formed_def reject_text_def)

lemma well_formed_market:
  "symbol_exists e (rq_symbol rq) \<Longrightarrow> 0 < rq_quantity rq \<Longrightarrow> rq_kind rq = MARKET \<Longrightarrow> rq_price rq \<noteq> NaN \<Longrightarrow> well_formed e rq"
  by (simp add: well_formed_def reject_text_def)

lemma positive_facts: "0 < (x::double) \<Longrightarrow> x \<noteq> NaN \<and> \<not> x \<le> 0"
  by (cases x) auto

lemmas bot_requests = noise_request_def momentum_order_def momentum_stop_def maker_quote_def request_for_def default_request_def

lemma noise_well_formed:
  assumes "symbol_exists e s" "1 \<le> nd_qty dr" "0 < reference"
  shows "well_formed e (noise_request dr c vols s reference)"
proof (cases "nd_kind dr = 0")
  case True
  then show ?thesis using assms by (intro well_formed_market) (simp_all add: bot_requests Let_def)
next
  case False
  then show ?thesis using assms floor_price_ok positive_facts[OF assms(3)]
    by (intro well_formed_limit) (auto simp add: bot_requests Let_def)
qed

lemma momentum_well_formed:
  assumes "symbol_exists e s" "1 \<le> mo_qty dr"
  shows "well_formed e (momentum_order c s change (mo_qty dr)) \<and> well_formed e (momentum_stop dr c vols s change reference)"
  using assms floor_price_ok
  by (intro conjI well_formed_market well_formed_limit) (auto simp: bot_requests Let_def)

lemma rnd_nonneg: "0 \<le> x \<Longrightarrow> rnd x = PosInf \<or> (\<exists>r \<ge> 0. rnd x = Fin r)"
  using round53_nonneg[of x] by (auto simp: rnd_def Let_def)

text \<open>Rounding keeps a number that is at least the smallest positive double positive.\<close>

lemma round53_positive:
  assumes "2 powi (- 1074) \<le> x"
  shows "0 < round53 x"
proof -
  have x: "0 < x" using assms powi_pos[of "- 1074"] by linarith
  let ?u = "ulp_exp x"
  have "2 powi ?u \<le> x"
  proof (cases "?u = - 1074")
    case False
    then have "?u = flog2 x - 52" using x by (simp add: ulp_exp_def)
    then have "(2::rat) powi ?u \<le> 2 powi flog2 x" by (intro power_int_increasing) auto
    then show ?thesis using flog2_bounds(1)[OF x] by linarith
  qed (use assms in simp)
  then have "1 \<le> x / 2 powi ?u" by simp
  then have "1 \<le> \<lfloor>x / 2 powi ?u\<rfloor>" by simp
  moreover have "\<lfloor>y\<rfloor> \<le> round_even y" for y by (simp add: round_even_def Let_def)
  ultimately have "1 \<le> round_even (x / 2 powi ?u)" by (rule order_trans)
  then show ?thesis using x by (simp add: round53_def)
qed

lemma rnd_positive: "2 powi (- 1074) \<le> x \<Longrightarrow> 0 < rnd x"
  using round53_positive[of x] by (auto simp: rnd_def Let_def)

lemma maker_ask_ok:
  assumes mid: "mid = PosInf \<or> (\<exists>x. mid = Fin x \<and> 2 powi (- 1074) \<le> x)" and sf: "0 < f"
  shows "maker_ask (Fin f) mid \<noteq> NaN \<and> \<not> maker_ask (Fin f) mid \<le> 0"
proof -
  have half: "mid * Fin f div Fin 2 = PosInf \<or> (\<exists>r \<ge> 0. mid * Fin f div Fin 2 = Fin r)"
  proof (cases mid)
    case (Fin x)
    then have "0 \<le> x" using mid powi_pos[of "- 1074"] by auto
    then have "rnd (x * f) = PosInf \<or> (\<exists>r \<ge> 0. rnd (x * f) = Fin r)" using sf by (intro rnd_nonneg) simp
    then show ?thesis using Fin rnd_nonneg[of "r / 2" for r] by fastforce
  qed (use mid sf in \<open>auto simp: inf_of_sign_def\<close>)
  show ?thesis
  proof (cases mid)
    case (Fin x)
    then have x: "2 powi (- 1074) \<le> x" using mid by auto
    from half show ?thesis
    proof (elim disjE exE conjE)
      fix r assume "0 \<le> r" "mid * Fin f div Fin 2 = Fin r"
      moreover have "0 < rnd (x + r)" using x \<open>0 \<le> r\<close> by (intro rnd_positive) linarith
      ultimately show ?thesis using Fin positive_facts by (simp add: maker_ask_def)
    qed (use Fin in \<open>auto simp: maker_ask_def\<close>)
  next
    case PosInf
    then show ?thesis using half sf by (auto simp: maker_ask_def inf_of_sign_def)
  qed (use mid in auto)
qed

end
