(* ===== verification/Simulation.thy ===== *)
theory Simulation
  imports Bots EngineMachine Reports
begin

text \<open>
  The in-process simulation of \<open>Src_Simulation/src/simulation.cpp\<close> and \<open>market_seed.cpp\<close>: the seed
  file, the configuration, the construction of the engine and the bots, one tick of a bot, the
  release watcher, and the text report with its leaderboard. \<open>std::sort\<close> leaves the order of equal
  net worths open; the model keeps them in client order.
\<close>

section \<open>Market seed file\<close>

record seed_symbol =
  ss_symbol :: symbol
  ss_price :: price
  ss_volatility :: double

definition split_csv_line :: "string \<Rightarrow> string list" where
  "split_csv_line line = split_on CHR '','' line"

definition parse_double_or :: "string \<Rightarrow> double \<Rightarrow> double" where
  "parse_double_or t fallback = (if t = [] then fallback else value_or (stod t) fallback)"

fun column_from :: "nat \<Rightarrow> string \<Rightarrow> string list \<Rightarrow> nat option" where
  "column_from i name [] = None"
| "column_from i name (h # hs) = (if h = name then Some i else column_from (Suc i) name hs)"

definition column_index :: "string list \<Rightarrow> string \<Rightarrow> nat option" where
  "column_index header name = column_from 0 name header"

definition seed_row :: "nat \<Rightarrow> nat \<Rightarrow> nat option \<Rightarrow> string \<Rightarrow> seed_symbol option" where
  "seed_row ticker_col price_col volatility_col line =
     (if line = [] then None
      else
        (let fs = split_csv_line line
         in if length fs \<le> max ticker_col price_col then None
            else
              (let seed = \<lparr>ss_symbol = fs ! ticker_col, ss_price = parse_double_or (fs ! price_col) 0,
                           ss_volatility = (case volatility_col of None \<Rightarrow> 0
                             | Some v \<Rightarrow> if v < length fs then parse_double_or (fs ! v) 0 else 0)\<rparr>
               in if ss_symbol seed = [] \<or> ss_price seed \<le> 0 then None else Some seed)))"

fun somes :: "'a option list \<Rightarrow> 'a list" where
  "somes [] = []"
| "somes (None # xs) = somes xs"
| "somes (Some x # xs) = x # somes xs"

text \<open>The file's content, or \<open>None\<close> when it cannot be opened.\<close>

definition load_market_seed :: "string option \<Rightarrow> seed_symbol list" where
  "load_market_seed content =
     (case content of
        None \<Rightarrow> []
      | Some text \<Rightarrow>
          (case split_on newline text of
             [] \<Rightarrow> []
           | header_line # ls \<Rightarrow>
               (let header = split_csv_line header_line
                in case (column_index header ''ticker'', column_index header ''latest_price'') of
                     (Some t, Some p) \<Rightarrow>
                       somes (map (seed_row t p (column_index header ''rolling_volatility_20'')) ls)
                   | _ \<Rightarrow> [])))"

definition pick_symbols :: "seed_symbol list \<Rightarrow> nat \<Rightarrow> seed_symbol list" where
  "pick_symbols all max_symbols = take max_symbols all"

section \<open>Configuration and construction\<close>

record symbol_config =
  sc_symbol :: symbol
  sc_price :: price
  sc_volatility :: double

record simulation_config =
  cfg_symbols :: "symbol_config list"
  noise_traders :: int
  momentum_traders :: int
  market_makers :: int
  bot_initial_cash :: double
  bot_initial_shares :: quantity
  bot_min_interval :: int
  bot_max_interval :: int
  duration :: int
  cfg_seed :: "32 word"
  output_dir :: string
  file_suffix :: string
  write_metrics :: bool
  write_report :: bool
  metrics_interval :: int
  report_interval :: int

definition default_config :: simulation_config where
  "default_config = \<lparr>cfg_symbols = [], noise_traders = 15, momentum_traders = 5, market_makers = 4,
     bot_initial_cash = Fin 100000, bot_initial_shares = 100, bot_min_interval = 20, bot_max_interval = 200,
     duration = 10, cfg_seed = 42, output_dir = [], file_suffix = ''_simu'', write_metrics = True,
     write_report = True, metrics_interval = 1000, report_interval = 250\<rparr>"

datatype strategy = Noise | Momentum price_history | Maker maker_state

record bot =
  bot_client :: client_id
  bot_seed :: "32 word"
  bot_strategy :: strategy

record simulation =
  sim_engine :: engine
  sim_market :: market_data
  sim_seen :: nat
  sim_bots :: "bot list"
  sim_next_client :: client_id

definition all_symbols :: "simulation_config \<Rightarrow> symbol list" where
  "all_symbols cfg = map sc_symbol (cfg_symbols cfg)"

definition volatilities :: "simulation_config \<Rightarrow> (symbol \<times> double) list" where
  "volatilities cfg = foldl (\<lambda>m c. AList.update (sc_symbol c) (sc_volatility c) m) [] (cfg_symbols cfg)"

definition make_client :: "simulation_config \<Rightarrow> client_id \<Rightarrow> engine \<Rightarrow> engine" where
  "make_client cfg i e =
     foldl (\<lambda>e s. grant_initial_holdings i s (bot_initial_shares cfg) e)
       (ensure_client i (bot_initial_cash cfg) e) (all_symbols cfg)"

text \<open>One bot: its client and its seed come from counters that then move on.\<close>

definition add_bot :: "simulation_config \<Rightarrow> strategy \<Rightarrow> simulation \<times> 32 word \<Rightarrow> simulation \<times> 32 word" where
  "add_bot cfg st x =
     (let (y, seed) = x; i = sim_next_client y
      in (y\<lparr>sim_next_client := i + 1, sim_engine := make_client cfg i (sim_engine y),
            sim_bots := sim_bots y @ [\<lparr>bot_client = i, bot_seed = seed, bot_strategy = st\<rparr>]\<rparr>, seed + 1))"

definition add_bots :: "simulation_config \<Rightarrow> strategy \<Rightarrow> int \<Rightarrow> simulation \<times> 32 word \<Rightarrow> simulation \<times> 32 word" where
  "add_bots cfg st n x = (add_bot cfg st ^^ nat n) x"

definition spawn_bots :: "simulation_config \<Rightarrow> simulation \<Rightarrow> simulation" where
  "spawn_bots cfg y =
     fst (add_bots cfg (Maker new_maker) (market_makers cfg)
       (add_bots cfg (Momentum []) (momentum_traders cfg)
         (add_bots cfg Noise (noise_traders cfg) (y, cfg_seed cfg))))"

definition new_simulation :: "simulation_config \<Rightarrow> simulation" where
  "new_simulation cfg = spawn_bots cfg
     \<lparr>sim_engine = foldl (\<lambda>e c. register_symbol (sc_symbol c) (sc_price c) e) new_engine (cfg_symbols cfg),
      sim_market = [], sim_seen = 0, sim_bots = [], sim_next_client = 1\<rparr>"

section \<open>Running\<close>

record bot_draws =
  for_noise :: noise_draws
  for_momentum :: momentum_draws
  for_maker :: maker_draws
  reading1 :: submit_readings
  reading2 :: submit_readings

definition kSpreadFraction :: double where "kSpreadFraction = decimal 1 100"

definition bot_step :: "simulation_config \<Rightarrow> bot_draws \<Rightarrow> bot \<Rightarrow> market_data \<Rightarrow> engine \<Rightarrow> (bot \<times> engine) option" where
  "bot_step cfg dr b md e =
     (case bot_strategy b of
        Noise \<Rightarrow>
          map_option (\<lambda>e'. (b, e'))
            (noise_step (for_noise dr) (reading1 dr) (bot_client b) (all_symbols cfg) (volatilities cfg) md e)
      | Momentum h \<Rightarrow>
          map_option (\<lambda>(h', e'). (b\<lparr>bot_strategy := Momentum h'\<rparr>, e'))
            (momentum_step (for_momentum dr) (reading1 dr) (reading2 dr) (bot_client b) (all_symbols cfg) (volatilities cfg) md h e)
      | Maker m \<Rightarrow>
          map_option (\<lambda>(m', e'). (b\<lparr>bot_strategy := Maker m'\<rparr>, e'))
            (maker_step (for_maker dr) (reading1 dr) (reading2 dr) kSpreadFraction (bot_client b) (all_symbols cfg) md m e))"

definition run_bot_tick :: "simulation_config \<Rightarrow> bot_draws \<Rightarrow> nat \<Rightarrow> simulation \<Rightarrow> simulation option" where
  "run_bot_tick cfg dr k y =
     map_option (\<lambda>(b, e). y\<lparr>sim_bots := (sim_bots y)[k := b], sim_engine := e\<rparr>)
       (bot_step cfg dr (sim_bots y ! k) (sim_market y) (sim_engine y))"

definition sim_deliver :: "int \<Rightarrow> simulation \<Rightarrow> simulation" where
  "sim_deliver w y =
     (if sim_seen y < length (published (sim_engine y))
      then y\<lparr>sim_seen := sim_seen y + 1,
             sim_market := md_on_event w (published (sim_engine y) ! sim_seen y) (sim_market y)\<rparr>
      else y)"

text \<open>The watcher: ticks while the run lasts, each tenth a full scan, and a last full scan at the end.\<close>

type_synonym scan_readings = "time \<times> (nat \<Rightarrow> nat \<Rightarrow> time) \<times> (nat \<Rightarrow> 64 word)"

definition release_scan :: "bool \<Rightarrow> scan_readings \<Rightarrow> engine \<Rightarrow> engine option" where
  "release_scan full rd e =
     (case rd of (now, clk, lat) \<Rightarrow> map_option snd (try_release_waiting_orders full now clk lat e))"

fun watcher_ticks :: "nat \<Rightarrow> scan_readings list \<Rightarrow> engine \<Rightarrow> engine option" where
  "watcher_ticks tick [] e = Some e"
| "watcher_ticks tick (rd # rds) e =
     (case release_scan (Suc tick mod 10 = 0) rd e of None \<Rightarrow> None | Some e' \<Rightarrow> watcher_ticks (Suc tick) rds e')"

definition run_release_watcher :: "scan_readings list \<Rightarrow> scan_readings \<Rightarrow> engine \<Rightarrow> engine option" where
  "run_release_watcher ticks final e =
     (case watcher_ticks 0 ticks e of None \<Rightarrow> None | Some e' \<Rightarrow> release_scan True final e')"

section \<open>The report\<close>

definition insert_by_worth :: "client_id \<times> double \<Rightarrow> (client_id \<times> double) list \<Rightarrow> (client_id \<times> double) list" where
  "insert_by_worth x ys = takeWhile (\<lambda>y. snd x < snd y) ys @ x # dropWhile (\<lambda>y. snd x < snd y) ys"

definition leaderboard :: "engine \<Rightarrow> client_id \<Rightarrow> (client_id \<times> double) list" where
  "leaderboard e next_client =
     foldr insert_by_worth (map (\<lambda>i. (i, net_worth (portfolio_snapshot e i) (last_prices e))) [1..next_client - 1]) []"

definition report_symbol :: "engine \<Rightarrow> market_data \<Rightarrow> symbol \<Rightarrow> string" where
  "report_symbol e md s =
     s @ '': last='' @ show_double 6 (md_last_price md s) @ '' vwap='' @ show_double 6 (md_vwap md s) @
     '' volume='' @ show_int (md_total_volume md s) @
     (case engine_snapshot e s 1 of None \<Rightarrow> []
      | Some snap \<Rightarrow>
          (if snap_bids snap \<noteq> [] then '' best_bid='' @ show_double 6 (lv_price (hd (snap_bids snap))) else []) @
          (if snap_asks snap \<noteq> [] then '' best_ask='' @ show_double 6 (lv_price (hd (snap_asks snap))) else []))"

text \<open>The lines of the report; \<open>market_report\<close> says whether a recorder ran and whether it could write.\<close>

definition simulation_report ::
  "simulation_config \<Rightarrow> double \<Rightarrow> bool option \<Rightarrow> simulation \<Rightarrow> string list" where
  "simulation_report cfg elapsed market_report y =
     (let e = sim_engine y; md = sim_market y; has_output = output_dir cfg \<noteq> []
      in [''=== Simulation report ('' @ show_double 6 elapsed @ ''s) ===''] @
         (if has_output
          then [''output: '' @ output_dir cfg] @
               (if write_metrics cfg
                then [''  metrics'' @ file_suffix cfg @ ''.csv  (plot: python3 scripts/plot_metrics.py '' @ output_dir cfg @ '')'']
                else []) @
               (case market_report of None \<Rightarrow> []
                | Some True \<Rightarrow> [''  market report *'' @ file_suffix cfg @ ''.csv  (plot: python3 scripts/plot_market_report.py '' @ output_dir cfg @ '')'']
                | Some False \<Rightarrow> [''  market report: FAILED to write (see log)''])
          else []) @
         [metrics_report elapsed (eng_metrics e),
          ''waiting_orders='' @ show_nat (waiting_order_count e) @
            '' (STOP/LIMIT_STOP orders still waiting for their release band, or a future start date)'',
          [], ''-- Symbols --''] @
         map (report_symbol e md) (all_symbols cfg) @
         [[], ''-- Top 5 clients by net worth --''] @
         map (\<lambda>(i, w). ''client '' @ show_int i @ '': net_worth='' @ show_double 6 w)
           (take 5 (leaderboard e (sim_next_client y))))"

end
