(* ===== verification/SimFacts.thy ===== *)
theory SimFacts
  imports Simulation ServerFacts
begin

text \<open>
  The simulation as a state machine: its steps are the ticks of the bots, the deliveries of the bus
  worker and the scans of the release watcher, in any order. The lemmas show what every step keeps:
  the engine's invariant, prices that are numbers, and the shares of every symbol.
\<close>

section \<open>Prices are never NaN\<close>

definition real_prices :: "engine \<Rightarrow> bool" where
  "real_prices e \<longleftrightarrow> (\<forall>s. map_of (last_prices e) s \<noteq> Some NaN) \<and>
     (\<forall>t. TradeEvent t \<in> set (published e) \<longrightarrow> tprice t \<noteq> NaN)"

definition real_feed :: "market_data \<Rightarrow> bool" where
  "real_feed md \<longleftrightarrow> (\<forall>s st. map_of md s = Some st \<longrightarrow> md_last st \<noteq> NaN)"

lemma price_all_real:
  "\<forall>t \<in> set ts. tprice t \<noteq> NaN \<Longrightarrow> \<forall>s. map_of m s \<noteq> Some NaN \<Longrightarrow>
     \<forall>s. map_of (price_all ts m) s \<noteq> Some NaN"
  by (induction ts arbitrary: m) auto

lemma resting_real: "book_ok b \<Longrightarrow> r \<in> set (resting_orders b) \<Longrightarrow> price r \<noteq> NaN"
  by (fastforce simp: book_ok_def levels_ok_def resting_orders_def)

lemma fair_price_real: "book_ok b \<Longrightarrow> fair_trade inc b t \<Longrightarrow> tprice t \<noteq> NaN"
  using resting_real by (force simp: fair_trade_def)

lemma match_real:
  assumes ok: "engine_ok e" and r: "ready e ord" and p: "real_prices e"
    and m: "match_and_settle clk lat ord e = Some (res, e')"
  shows "real_prices e'"
proof -
  obtain b ts res' e'' where run: "book_ok b" "\<forall>t \<in> set ts. fair_trade ord b t"
    "match_and_settle clk lat ord e = Some (res', e'')" "last_prices e'' = price_all ts (last_prices e)"
    "published e'' = published e @ OrderAcceptedEvent (oid ord) (client ord) (osymbol ord) # map TradeEvent ts"
    by (rule match_and_settle_run[OF ok r, of clk lat]) blast
  have ts: "\<forall>t \<in> set ts. tprice t \<noteq> NaN" using run(1,2) fair_price_real by blast
  have e: "e'' = e'" using m run(3) by simp
  have "\<forall>s. map_of (last_prices e') s \<noteq> Some NaN"
    using price_all_real[OF ts, of "last_prices e"] p run(4) e by (simp add: real_prices_def)
  moreover have "TradeEvent t \<in> set (published e') \<longrightarrow> tprice t \<noteq> NaN" for t
    using ts p run(5) e by (auto simp: real_prices_def)
  ultimately show ?thesis by (simp add: real_prices_def)
qed

lemma submit_real:
  assumes inv: "engine_inv e" and s: "sane_price rq" and p: "real_prices e"
    and m: "submit_order now clk lat rq e = Some (res, e')"
  shows "real_prices e'"
proof -
  have ok: "engine_ok e" using inv by (simp add: engine_inv_def)
  have pd: "real_prices (drawn e)" using p by (simp add: real_prices_def)
  show ?thesis
  proof (rule submit_cases[where rq = rq and e = e and now = now])
    assume c: "reject_text rq e = []" "risk_ok rq e" "released_at_once now rq e"
    show ?thesis
      by (rule match_real[of "drawn e" "build_order rq (next_order_id e) now"])
        (use c m ok pd valid_request[OF c(1) s] in \<open>auto simp: submit_order_eq\<close>)
  qed (use m pd in \<open>auto simp: submit_order_eq reject_with_def publish_def upd_metrics_def real_prices_def\<close>)
qed

lemma release_real:
  assumes inv: "engine_inv e" and p: "real_prices e" and m: "try_release_waiting_orders f now clk lat e = Some (sm, e')"
  shows "real_prices e'"
proof -
  have ok: "engine_ok e" using inv by (simp add: engine_inv_def)
  obtain rel ex e1 where sc: "engine_scan f now e = (rel, ex, e1)" by (metis prod_cases3)
  note s = engine_scan_exact[OF ok sc]
  have p1: "real_prices e1"
    using p arg_cong[OF s(6), of last_prices] arg_cong[OF s(6), of published] by (simp add: real_prices_def)
  have "\<exists>rs e2. match_released clk lat 0 rel e1 = Some (rs, e2) \<and> real_prices e2 \<and> engine_ok e2 \<and> registry e2 = registry e1"
    by (rule match_released_run[where P = real_prices, OF s(1) _ p1]) (use s(3) match_real in auto)
  then obtain rs e2 where "match_released clk lat 0 rel e1 = Some (rs, e2)" "real_prices e2" by blast
  then show ?thesis using m sc by (auto simp: try_release_eq expire_all real_prices_def)
qed

lemma cancel_real: "cancel_order s i e = Some (found, e') \<Longrightarrow> real_prices e \<Longrightarrow> real_prices e'"
  by (auto simp: cancel_order_def real_prices_def Let_def split: option.splits prod.splits if_splits)

lemma event_real: "real_feed md \<Longrightarrow> (\<And>t. ev = TradeEvent t \<Longrightarrow> tprice t \<noteq> NaN) \<Longrightarrow> real_feed (md_on_event w ev md)"
  by (cases ev) (auto simp: real_feed_def on_trade_def map_of_modify split: if_splits)

lemma reference_real: "real_prices e \<Longrightarrow> real_feed md \<Longrightarrow> reference_price e md s \<noteq> NaN"
  by (auto simp: reference_price_def last_price_def md_last_price_def real_prices_def real_feed_def Let_def
      um_get_def split: option.splits)

section \<open>Every operation of a bot keeps the engine sound and the shares\<close>

definition kept :: "engine \<Rightarrow> engine \<Rightarrow> bool" where
  "kept e e' \<longleftrightarrow> engine_inv e' \<and> real_prices e' \<and> (\<forall>s. shares s (portfolios e') = shares s (portfolios e))"

definition room_for_ids :: "engine \<Rightarrow> bool" where
  "room_for_ids e \<longleftrightarrow> next_order_id e + 1 \<noteq> 0 \<and> next_order_id e + 1 + 1 \<noteq> 0"

lemma kept_trans: "kept e1 e2 \<Longrightarrow> kept e2 e3 \<Longrightarrow> kept e1 e3"
  by (simp add: kept_def)

lemma portfolios_um: "engine_inv e \<Longrightarrow> um_ok (portfolios e)"
  by (simp add: engine_inv_def engine_ok_def)

lemma submit_kept:
  assumes "engine_inv e" "real_prices e" "sane_price rq" "next_order_id e + 1 \<noteq> 0" "submit_for rd rq e = Some (res, e')"
  shows "kept e e'" "next_order_id e' = next_order_id e + 1"
proof -
  obtain now clk lat where m: "submit_order now clk lat rq e = Some (res, e')"
    using assms(5) by (cases rd) (auto simp: submit_for_def)
  show "kept e e'"
    using submit_inv[OF assms(1,3,4) m] submit_real[OF assms(1,3,2) m] submit_portfolios[OF m] portfolios_um[OF assms(1)]
    by (simp add: kept_def)
  have "engine_ok e" "fresh_next e" using assms(1) ids_fresh by (auto simp: engine_inv_def)
  from submit_tags(2)[OF this(1) assms(3) this(2) m quantity_blind_views(1)]
  show "next_order_id e' = next_order_id e + 1" .
qed

lemma submit_for_total:
  assumes "engine_inv e" "sane_price rq"
  shows "\<exists>res e'. submit_for rd rq e = Some (res, e')"
proof -
  obtain now clk lat where rd: "rd = (now, clk, lat)" by (cases rd) auto
  obtain res e' where "submit_order now clk lat rq e = Some (res, e')" by (rule submit_total[OF assms])
  then show ?thesis by (simp add: submit_for_def rd)
qed

lemma release_kept:
  assumes "engine_inv e" "real_prices e" "release_scan full rd e = Some e'"
  shows "kept e e'"
proof -
  have ok: "engine_ok e" using assms(1) by (simp add: engine_inv_def)
  obtain now clk lat sm where m: "try_release_waiting_orders full now clk lat e = Some (sm, e')"
    using assms(3) by (cases rd) (auto simp: release_scan_def)
  show ?thesis
    using release_inv[OF assms(1) m] release_real[OF assms(1,2) m] release_effect(2)[OF ok m] portfolios_um[OF assms(1)]
    by (simp add: kept_def)
qed

lemma cancel_kept:
  assumes "engine_inv e" "real_prices e" "cancel_if_set s i e = Some e'"
  shows "kept e e'" "next_order_id e' = next_order_id e"
proof -
  have a: "kept e e' \<and> next_order_id e' = next_order_id e"
  proof (cases "i = 0")
    case False
    then obtain found where c: "cancel_order s i e = Some (found, e')" using assms(3) by (auto simp: cancel_if_set_def)
    have "portfolios e' = portfolios e" "next_order_id e' = next_order_id e"
      using c by (auto simp: cancel_order_def Let_def split: if_splits option.splits prod.splits)
    then show ?thesis using cancel_inv[OF assms(1) c] cancel_real[OF c assms(2)] by (simp add: kept_def)
  qed (use assms in \<open>simp add: cancel_if_set_def kept_def\<close>)
  then show "kept e e'" "next_order_id e' = next_order_id e" by simp_all
qed

lemma cancel_if_set_total:
  assumes "engine_inv e"
  shows "\<exists>e'. cancel_if_set s i e = Some e'"
proof -
  have ok: "engine_ok e" using assms by (simp add: engine_inv_def)
  have "\<exists>found e'. cancel_order s i e = Some (found, e')" by (rule cancel_order_run[OF ok, of s i]) auto
  then show ?thesis by (auto simp: cancel_if_set_def)
qed

lemma noise_sane: "reference \<noteq> NaN \<Longrightarrow> sane_price (noise_request dr c vols s reference)"
  using floor_price_ok by (auto simp: sane_price_def bot_requests Let_def)

lemma momentum_sane: "sane_price (momentum_order c s change q)" "sane_price (momentum_stop dr c vols s change reference)"
  using floor_price_ok by (auto simp: sane_price_def bot_requests Let_def)

lemma half_spread:
  assumes "mid \<noteq> NaN" "\<not> mid \<le> 0" "0 < f"
  shows "mid * Fin f div Fin 2 = PosInf \<or> (\<exists>r \<ge> 0. mid * Fin f div Fin 2 = Fin r)"
proof (cases mid)
  case (Fin x)
  then have "rnd (x * f) = PosInf \<or> (\<exists>r \<ge> 0. rnd (x * f) = Fin r)" using assms by (intro rnd_nonneg) simp
  then show ?thesis using Fin rnd_nonneg[of "r / 2" for r] by fastforce
qed (use assms in \<open>auto simp: inf_of_sign_def\<close>)

lemma maker_sane:
  assumes "mid \<noteq> NaN" "\<not> mid \<le> 0"
  shows "sane_price (maker_quote c BUY s q (maker_bid f mid))"
    and "sane_price (maker_quote c SELL s q (maker_ask kSpreadFraction mid))"
proof -
  show "sane_price (maker_quote c BUY s q (maker_bid f mid))"
    using floor_price_ok by (simp add: sane_price_def bot_requests maker_bid_def)
  have f: "0 < (5764607523034235 * 2 powi (- 59) :: rat)" by simp
  have "rnd z \<noteq> NaN" for z by (simp add: rnd_def Let_def)
  then have "maker_ask kSpreadFraction mid \<noteq> NaN"
    using half_spread[OF assms f] assms by (cases mid) (auto simp: maker_ask_def kSpreadFraction_def cent)
  then show "sane_price (maker_quote c SELL s q (maker_ask kSpreadFraction mid))"
    by (simp add: sane_price_def bot_requests)
qed

section \<open>Ticks\<close>

text \<open>One bot tick never throws and keeps engine and shares, whatever was drawn.\<close>

lemma noise_step_kept:
  assumes inv: "engine_inv e" "real_prices e" "real_feed md" "room_for_ids e"
  shows "\<exists>e'. noise_step dr rd c symbols vols md e = Some e' \<and> kept e e'"
proof -
  let ?s = "pick_symbol symbols (nd_symbol dr)"
  let ?rq = "noise_request dr c vols ?s (reference_price e md ?s)"
  have sane: "sane_price ?rq" by (rule noise_sane[OF reference_real[OF inv(2,3)]])
  obtain res e' where m: "submit_for rd ?rq e = Some (res, e')" using submit_for_total[OF inv(1) sane] by blast
  have "kept e e'" by (rule submit_kept(1)[OF inv(1,2) sane _ m]) (use inv(4) in \<open>simp add: room_for_ids_def\<close>)
  moreover have "kept e e" using inv by (simp add: kept_def)
  ultimately show ?thesis using m by (simp add: noise_step_def Let_def)
qed

lemma two_submits_kept:
  assumes inv: "engine_inv e" "real_prices e" "room_for_ids e" and sane: "sane_price rq1" "sane_price rq2"
  obtains r1 e1 r2 e2 where "submit_for rd1 rq1 e = Some (r1, e1)" "submit_for rd2 rq2 e1 = Some (r2, e2)" "kept e e2"
proof -
  obtain r1 e1 where m1: "submit_for rd1 rq1 e = Some (r1, e1)" using submit_for_total[OF inv(1) sane(1)] by blast
  have "next_order_id e + 1 \<noteq> 0" using inv(3) by (simp add: room_for_ids_def)
  note k1 = submit_kept[OF inv(1,2) sane(1) this m1]
  have i1: "engine_inv e1" "real_prices e1" using k1(1) by (simp_all add: kept_def)
  obtain r2 e2 where m2: "submit_for rd2 rq2 e1 = Some (r2, e2)" using submit_for_total[OF i1(1) sane(2)] by blast
  have "next_order_id e1 + 1 \<noteq> 0" using inv(3) k1(2) by (simp add: room_for_ids_def)
  then show thesis using that[OF m1 m2] kept_trans[OF k1(1) submit_kept(1)[OF i1 sane(2) _ m2]] by simp
qed

lemma momentum_step_kept:
  assumes inv: "engine_inv e" "real_prices e" "room_for_ids e"
  shows "\<exists>h' e'. momentum_step dr rd1 rd2 c symbols vols md hist e = Some (h', e') \<and> kept e e'"
proof -
  define s where "s = pick_symbol symbols (mo_symbol dr)"
  define reference where "reference = reference_price e md s"
  define h where "h = push_sample reference (um_get [] hist s)"
  obtain r1 e1 r2 e2 where m: "submit_for rd1 (momentum_order c s (last h - hd h) (mo_qty dr)) e = Some (r1, e1)"
    "submit_for rd2 (momentum_stop dr c vols s (last h - hd h) reference) e1 = Some (r2, e2)" "kept e e2"
    by (rule two_submits_kept[OF inv momentum_sane])
  have "kept e e" using inv by (simp add: kept_def)
  then show ?thesis using m unfolding momentum_step_def Let_def
    by (fold s_def, fold reference_def, fold h_def) (simp split: if_splits)
qed

lemma withdraw_kept:
  assumes inv: "engine_inv e" "real_prices e"
  shows "\<exists>e'. withdraw_quotes m e = Some e' \<and> kept e e' \<and> next_order_id e' = next_order_id e"
proof -
  obtain e1 where c1: "cancel_if_set (last_quote_symbol m) (last_buy_order m) e = Some e1"
    using cancel_if_set_total[OF inv(1)] by blast
  note k1 = cancel_kept[OF inv c1]
  then have i1: "engine_inv e1" "real_prices e1" by (simp_all add: kept_def)
  obtain e2 where c2: "cancel_if_set (last_quote_symbol m) (last_sell_order m) e1 = Some e2"
    using cancel_if_set_total[OF i1(1)] by blast
  show ?thesis using c1 c2 k1 cancel_kept[OF i1 c2] kept_trans by (auto simp: withdraw_quotes_def)
qed

lemma maker_step_kept:
  assumes inv: "engine_inv e" "real_prices e" "real_feed md" "room_for_ids e"
  shows "\<exists>m' e'. maker_step dr rd1 rd2 kSpreadFraction c symbols md m e = Some (m', e') \<and> kept e e'"
proof -
  obtain e1 where w: "withdraw_quotes m e = Some e1" "kept e e1" "next_order_id e1 = next_order_id e"
    using withdraw_kept[OF inv(1,2)] by blast
  have i1: "engine_inv e1" "real_prices e1" "room_for_ids e1" using w inv(4) by (simp_all add: kept_def room_for_ids_def)
  define s where "s = pick_symbol symbols (mk_symbol dr)"
  define mid where "mid = reference_price e1 md s"
  show ?thesis
  proof (cases "mid \<le> 0")
    case False
    have real: "mid \<noteq> NaN" unfolding mid_def by (rule reference_real[OF i1(2) inv(3)])
    obtain r1 e2 r2 e3 where
      m: "submit_for rd1 (maker_quote c BUY s (mk_buy_qty dr) (maker_bid kSpreadFraction mid)) e1 = Some (r1, e2)"
      "submit_for rd2 (maker_quote c SELL s (mk_sell_qty dr) (maker_ask kSpreadFraction mid)) e2 = Some (r2, e3)" "kept e1 e3"
      by (rule two_submits_kept[OF i1 maker_sane[OF real False]])
    show ?thesis using w m kept_trans[OF w(2) m(3)] False
      unfolding maker_step_def Let_def by (simp add: s_def[symmetric] mid_def[symmetric] post_quotes_def)
  next
    case True
    then show ?thesis using w unfolding maker_step_def Let_def by (simp add: s_def[symmetric] mid_def[symmetric])
  qed
qed

section \<open>The simulation as a state machine\<close>

inductive sim_step :: "simulation_config \<Rightarrow> int \<Rightarrow> simulation \<Rightarrow> simulation \<Rightarrow> bool" for cfg w where
  sim_tick: "k < length (sim_bots y) \<Longrightarrow> room_for_ids (sim_engine y) \<Longrightarrow> run_bot_tick cfg dr k y = Some y' \<Longrightarrow>
    sim_step cfg w y y'"
| sim_event: "sim_step cfg w y (sim_deliver w y)"
| sim_scan: "release_scan full rd (sim_engine y) = Some e' \<Longrightarrow> sim_step cfg w y (y\<lparr>sim_engine := e'\<rparr>)"

inductive sim_reachable :: "simulation_config \<Rightarrow> int \<Rightarrow> simulation \<Rightarrow> bool" for cfg w where
  sim_start: "sim_reachable cfg w (new_simulation cfg)"
| sim_next: "sim_reachable cfg w y \<Longrightarrow> sim_step cfg w y y' \<Longrightarrow> sim_reachable cfg w y'"

inductive_cases sim_step_cases: "sim_step cfg w y y'"

text \<open>The shares of a symbol that a number of bots start with.\<close>

definition shares_given :: "simulation_config \<Rightarrow> symbol \<Rightarrow> nat \<Rightarrow> quantity" where
  "shares_given cfg s n = int n * (int (count_list (all_symbols cfg) s) * bot_initial_shares cfg)"

definition sim_inv :: "simulation_config \<Rightarrow> simulation \<Rightarrow> bool" where
  "sim_inv cfg y \<longleftrightarrow> engine_inv (sim_engine y) \<and> real_prices (sim_engine y) \<and> real_feed (sim_market y) \<and>
     (\<forall>s. shares s (portfolios (sim_engine y)) = shares_given cfg s (length (sim_bots y)))"

definition sane_config :: "simulation_config \<Rightarrow> bool" where
  "sane_config cfg \<longleftrightarrow> distinct (all_symbols cfg) \<and> (\<forall>c \<in> set (cfg_symbols cfg). sc_price c \<noteq> NaN)"

subsection \<open>The start\<close>

lemma symbol_exists_register: "symbol_exists (register_symbol s p e) s' \<longleftrightarrow> s' = s \<or> symbol_exists e s'"
  by (auto simp: symbol_exists_def register_symbol_def map_of_emplace)

lemma register_all:
  assumes "engine_inv e" "real_prices e" "distinct (map sc_symbol cs)" "\<forall>c \<in> set cs. \<not> symbol_exists e (sc_symbol c)"
    "\<forall>c \<in> set cs. sc_price c \<noteq> NaN"
  shows "engine_inv (foldl (\<lambda>e c. register_symbol (sc_symbol c) (sc_price c) e) e cs) \<and>
    real_prices (foldl (\<lambda>e c. register_symbol (sc_symbol c) (sc_price c) e) e cs) \<and>
    portfolios (foldl (\<lambda>e c. register_symbol (sc_symbol c) (sc_price c) e) e cs) = portfolios e"
  using assms
proof (induction cs arbitrary: e)
  case (Cons c cs)
  let ?e = "register_symbol (sc_symbol c) (sc_price c) e"
  have i: "engine_inv ?e" by (rule register_inv) (use Cons.prems in auto)
  have r: "real_prices ?e" using Cons.prems by (auto simp: real_prices_def register_symbol_def)
  have n: "\<forall>d \<in> set cs. \<not> symbol_exists ?e (sc_symbol d)"
    using Cons.prems(3,4) by (auto simp: symbol_exists_register) (metis image_eqI)
  have "portfolios ?e = portfolios e" by (simp add: register_symbol_def)
  then show ?case using Cons.IH[OF i r _ n] Cons.prems by simp
qed simp

lemma make_client_kept:
  assumes "engine_inv e" "real_prices e"
  shows "engine_inv (make_client cfg i e) \<and> real_prices (make_client cfg i e) \<and>
    shares s (portfolios (make_client cfg i e)) =
      shares s (portfolios e) + int (count_list (all_symbols cfg) s) * bot_initial_shares cfg"
proof -
  have g: "engine_inv (foldl (\<lambda>e s. grant_initial_holdings i s n e) e ss) \<and>
      real_prices (foldl (\<lambda>e s. grant_initial_holdings i s n e) e ss) \<and>
      shares s (portfolios (foldl (\<lambda>e s. grant_initial_holdings i s n e) e ss)) =
        shares s (portfolios e) + int (count_list ss s) * n"
    if "engine_inv e" "real_prices e" for ss e n
    using that
  proof (induction ss arbitrary: e)
    case (Cons x ss)
    have r: "real_prices (grant_initial_holdings i x n e)"
      using Cons.prems by (simp add: grant_initial_holdings_def real_prices_def)
    have "shares s (portfolios (grant_initial_holdings i x n e)) = shares s (portfolios e) + (if s = x then n else 0)"
      using portfolios_um[OF Cons.prems(1)] by (simp add: grant_initial_holdings_def shares_grant)
    then show ?case using Cons.IH[OF grant_inv[OF Cons.prems(1)] r] by (auto simp: algebra_simps)
  qed simp
  have "real_prices (ensure_client i x e)" for x using assms by (simp add: ensure_client_def real_prices_def)
  moreover have "shares s (portfolios (ensure_client i x e)) = shares s (portfolios e)" for x
    by (simp add: ensure_client_def shares_ensure)
  ultimately show ?thesis using g[OF ensure_inv[OF assms(1)]] by (simp add: make_client_def)
qed

lemma add_bot_inv: "sim_inv cfg (fst x) \<Longrightarrow> sim_inv cfg (fst (add_bot cfg st x))"
  using make_client_kept[of "sim_engine (fst x)" cfg "sim_next_client (fst x)"]
  by (auto simp: add_bot_def sim_inv_def shares_given_def Let_def algebra_simps split: prod.splits)

lemma add_bots_inv: "sim_inv cfg (fst x) \<Longrightarrow> sim_inv cfg (fst (add_bots cfg st n x))"
proof -
  have "sim_inv cfg (fst x) \<Longrightarrow> sim_inv cfg (fst ((add_bot cfg st ^^ k) x))" for k
    by (induction k) (auto intro: add_bot_inv)
  then show "sim_inv cfg (fst x) \<Longrightarrow> ?thesis" by (simp add: add_bots_def)
qed

lemma new_simulation_inv:
  assumes "sane_config cfg"
  shows "sim_inv cfg (new_simulation cfg)"
proof -
  let ?e = "foldl (\<lambda>e c. register_symbol (sc_symbol c) (sc_price c) e) new_engine (cfg_symbols cfg)"
  have "real_prices new_engine" by (simp add: real_prices_def new_engine_def)
  moreover have "\<forall>c \<in> set (cfg_symbols cfg). \<not> symbol_exists new_engine (sc_symbol c)"
    by (simp add: symbol_exists_def new_engine_def)
  ultimately have e: "engine_inv ?e \<and> real_prices ?e \<and> portfolios ?e = portfolios new_engine"
    using assms by (intro register_all new_engine_inv) (simp_all add: sane_config_def all_symbols_def)
  have "sim_inv cfg \<lparr>sim_engine = ?e, sim_market = [], sim_seen = 0, sim_bots = [], sim_next_client = 1\<rparr>"
    using e by (simp add: sim_inv_def real_feed_def shares_given_def shares_def new_engine_def)
  then show ?thesis by (simp add: new_simulation_def spawn_bots_def add_bots_inv)
qed

lemma add_bots_length: "length (sim_bots (fst (add_bots cfg st n x))) = length (sim_bots (fst x)) + nat n"
proof -
  have "length (sim_bots (fst ((add_bot cfg st ^^ k) x))) = length (sim_bots (fst x)) + k" for k
    by (induction k) (auto simp: add_bot_def Let_def split: prod.splits)
  then show ?thesis by (simp add: add_bots_def)
qed

lemma new_simulation_bots:
  "length (sim_bots (new_simulation cfg)) = nat (noise_traders cfg) + nat (momentum_traders cfg) + nat (market_makers cfg)"
  by (simp add: new_simulation_def spawn_bots_def add_bots_length)

subsection \<open>The steps\<close>

lemma bot_step_kept:
  assumes inv: "engine_inv e" "real_prices e" "real_feed md" "room_for_ids e"
  shows "\<exists>b' e'. bot_step cfg dr b md e = Some (b', e') \<and> kept e e'"
proof (cases "bot_strategy b")
  case Noise
  then show ?thesis using noise_step_kept[OF inv] by (fastforce simp: bot_step_def)
next
  case (Momentum h)
  then show ?thesis using momentum_step_kept[OF inv(1,2,4)] by (fastforce simp: bot_step_def)
next
  case (Maker m)
  then show ?thesis using maker_step_kept[OF inv] by (fastforce simp: bot_step_def)
qed

lemma tick_inv_sim:
  assumes "sim_inv cfg y" "room_for_ids (sim_engine y)"
  shows "\<exists>y'. run_bot_tick cfg dr k y = Some y' \<and> sim_inv cfg y' \<and> length (sim_bots y') = length (sim_bots y)"
proof -
  obtain b' e' where "bot_step cfg dr (sim_bots y ! k) (sim_market y) (sim_engine y) = Some (b', e')" "kept (sim_engine y) e'"
    using bot_step_kept[of "sim_engine y" "sim_market y"] assms by (force simp: sim_inv_def)
  then show ?thesis using assms(1) by (simp add: run_bot_tick_def sim_inv_def kept_def)
qed

lemma deliver_inv_sim:
  assumes "sim_inv cfg y"
  shows "sim_inv cfg (sim_deliver w y)"
proof (cases "sim_seen y < length (published (sim_engine y))")
  case True
  let ?ev = "published (sim_engine y) ! sim_seen y"
  have "?ev \<in> set (published (sim_engine y))" using True by simp
  then have "?ev = TradeEvent t \<Longrightarrow> tprice t \<noteq> NaN" for t
    using assms unfolding sim_inv_def real_prices_def by (metis (no_types))
  then have "real_feed (md_on_event w ?ev (sim_market y))" using assms by (intro event_real) (simp_all add: sim_inv_def)
  then show ?thesis using assms True by (simp add: sim_deliver_def sim_inv_def)
qed (use assms in \<open>simp add: sim_deliver_def\<close>)

lemma scan_inv_sim: "sim_inv cfg y \<Longrightarrow> release_scan full rd (sim_engine y) = Some e' \<Longrightarrow> sim_inv cfg (y\<lparr>sim_engine := e'\<rparr>)"
  using release_kept[of "sim_engine y" full rd e'] by (simp add: sim_inv_def kept_def)

lemma sim_step_inv:
  assumes "sim_step cfg w y y'" "sim_inv cfg y"
  shows "sim_inv cfg y' \<and> length (sim_bots y') = length (sim_bots y)"
  using assms(1)
proof (rule sim_step_cases)
  fix k dr assume "room_for_ids (sim_engine y)" "run_bot_tick cfg dr k y = Some y'"
  then show ?thesis using tick_inv_sim[OF assms(2), of dr k] by auto
next
  assume "y' = sim_deliver w y"
  moreover have "sim_bots (sim_deliver w y) = sim_bots y" by (simp add: sim_deliver_def)
  ultimately show ?thesis using deliver_inv_sim[OF assms(2)] by simp
next
  fix full rd e' assume "release_scan full rd (sim_engine y) = Some e'" "y' = y\<lparr>sim_engine := e'\<rparr>"
  then show ?thesis using scan_inv_sim[OF assms(2)] by simp
qed

lemma sim_reachable_inv:
  "sim_reachable cfg w y \<Longrightarrow> sane_config cfg \<Longrightarrow>
     sim_inv cfg y \<and> length (sim_bots y) = nat (noise_traders cfg) + nat (momentum_traders cfg) + nat (market_makers cfg)"
proof (induction rule: sim_reachable.induct)
  case sim_start
  then show ?case using new_simulation_inv new_simulation_bots by simp
next
  case (sim_next y y')
  then show ?case using sim_step_inv[of cfg w y y'] by auto
qed

section \<open>The leaderboard\<close>

lemma insert_by_worth_mset: "mset (insert_by_worth x ys) = add_mset x (mset ys)"
  by (simp add: insert_by_worth_def) (metis mset_append takeWhile_dropWhile_id)

lemma double_less_imp_le: "x < y \<Longrightarrow> x \<le> (y::double)"
  by (cases x; cases y) auto

lemma insert_by_worth_sorted:
  assumes "sorted_wrt (\<lambda>a b. snd b \<le> snd a) ys" "snd x \<noteq> NaN" "\<forall>y \<in> set ys. snd y \<noteq> NaN"
  shows "sorted_wrt (\<lambda>a b. snd b \<le> snd a) (insert_by_worth x ys)"
proof -
  let ?P = "\<lambda>y. snd x < snd y"
  have t: "\<forall>a \<in> set (takeWhile ?P ys). snd x \<le> snd a"
    using set_takeWhileD[of _ ?P ys] by (auto simp: double_less_imp_le)
  have d: "\<forall>b \<in> set (dropWhile ?P ys). snd b \<le> snd x"
  proof (cases "dropWhile ?P ys")
    case (Cons z zs)
    have nz: "\<not> snd x < snd z" using hd_dropWhile[of ?P ys] Cons by simp
    have zin: "z \<in> set ys" using set_dropWhileD[of z ?P ys] Cons by simp
    then have zx: "snd z \<le> snd x" using nz assms(2,3) by (simp add: double_not_less)
    have "sorted_wrt (\<lambda>a b. snd b \<le> snd a) (z # zs)"
      using assms(1) Cons sorted_wrt_append[of _ "takeWhile ?P ys" "z # zs"] by (metis takeWhile_dropWhile_id)
    then show ?thesis using Cons zx by (auto intro: double_le_trans)
  qed (simp del: dropWhile_eq_Nil_conv)
  show ?thesis
    using assms(1) t d sorted_wrt_append[of "\<lambda>a b. snd b \<le> snd a" "takeWhile ?P ys" "dropWhile ?P ys"]
    by (auto simp: insert_by_worth_def sorted_wrt_append intro: double_le_trans)
qed

end
