(* ===== verification/DoubleText.thy ===== *)
theory DoubleText
  imports Text
begin

text \<open>
  Why 17 significant digits are enough: a decimal within \<open>2 powi (-54)\<close>, relatively, of a binary64
  value rounds back to that value, and printing at precision 17 stays within that distance. With the
  parser's value of a printed number this gives the round trip of text and \<open>double\<close>.
\<close>

section \<open>Rounding back\<close>

lemma round53_at:
  assumes "y \<noteq> 0" "ulp_exp y = u" "\<bar>y / 2 powi u - of_int n\<bar> < 1 / 2"
  shows "round53 y = of_int n * 2 powi u"
  using assms by (simp add: round53_def round_even_nearest)

lemma ulp_exp_at:
  assumes "2 powi (u + 52) \<le> y" "y < 2 powi (u + 53)" "- 1074 \<le> u"
  shows "ulp_exp y = u"
proof -
  have y: "0 < y" using assms(1) powi_pos[of "u + 52"] by linarith
  have "flog2 y = u + 52" by (rule flog2_unique) (use assms in \<open>simp_all add: add.assoc\<close>)
  then show ?thesis using assms(3) y by (simp add: ulp_exp_def)
qed

lemma ulp_exp_small:
  assumes "0 < y" "y < 2 powi (- 1021)"
  shows "ulp_exp y = - 1074"
  using flog2_less[OF assms] assms(1) by (simp add: ulp_exp_def)

lemma round53_fix:
  assumes "0 < x" "round53 x = x"
  obtains n u where "x = of_int n * 2 powi u" "0 < n" "n < 2 ^ 53" "- 1074 \<le> u" "ulp_exp x = u"
    "- 1074 < u \<longrightarrow> 2 ^ 52 \<le> n"
proof
  let ?u = "ulp_exp x" and ?n = "round_even (x / 2 powi ulp_exp x)"
  show x: "x = of_int ?n * 2 powi ?u" using assms by (simp add: round53_def)
  have p: "0 < (2::rat) powi ?u" by simp
  have "0 < (of_int ?n :: rat)" using x assms(1) p by (metis mult.commute zero_less_mult_pos)
  then show n: "0 < ?n" by simp
  show "- 1074 \<le> ?u" by (simp add: ulp_exp_def)
  show "ulp_exp x = ?u" by simp
  have f: "flog2 x \<le> ?u + 52" using assms(1) by (simp add: ulp_exp_def)
  have "x < 2 powi (flog2 x + 1)" by (rule flog2_bounds(2)[OF assms(1)])
  also have "\<dots> \<le> 2 powi (53 + ?u)" by (rule power_int_increasing) (use f in auto)
  also have "\<dots> = 2 ^ 53 * 2 powi ?u" by (simp add: power_int_add)
  finally have "x < 2 ^ 53 * 2 powi ?u" .
  then have "of_int ?n * 2 powi ?u < (2 ^ 53 * 2 powi ?u :: rat)"
    by (rule subst[OF x, of "\<lambda>z. z < 2 ^ 53 * 2 powi ?u"])
  then have "(of_int ?n :: rat) < 2 ^ 53" using p by simp
  then have "(of_int ?n :: rat) < of_int (2 ^ 53)" by simp
  then show "?n < 2 ^ 53" by (simp only: of_int_less_iff)
  show "- 1074 < ?u \<longrightarrow> 2 ^ 52 \<le> ?n"
  proof
    assume u: "- 1074 < ?u"
    have "flog2 x = ?u + 52" using u assms(1) by (simp add: ulp_exp_def)
    then have "2 powi (52 + ?u) \<le> x" using flog2_bounds(1)[OF assms(1)] by (simp add: add.commute)
    then have "2 ^ 52 * 2 powi ?u \<le> x" by (simp add: power_int_add)
    then have "2 ^ 52 * 2 powi ?u \<le> (of_int ?n * 2 powi ?u :: rat)"
      by (rule subst[OF x, of "\<lambda>z. 2 ^ 52 * 2 powi ?u \<le> z"])
    then have "(2 ^ 52 :: rat) \<le> of_int ?n" using p by simp
    then have "(of_int (2 ^ 52) :: rat) \<le> of_int ?n" by simp
    then show "2 ^ 52 \<le> ?n" by (simp only: of_int_le_iff)
  qed
qed

lemma rnd_close_pos:
  assumes x: "0 < x" "round53 x = x" and y: "\<bar>y - x\<bar> < x / 2 ^ 54"
  shows "round53 y = x"
proof -
  obtain n u where n: "x = of_int n * 2 powi u" "0 < n" "n < 2 ^ 53" "- 1074 \<le> u" "ulp_exp x = u"
    "- 1074 < u \<longrightarrow> 2 ^ 52 \<le> n" using round53_fix[OF x] .
  define b where "b = (2::rat) powi u"
  have b: "0 < b" "x = of_int n * b" by (simp_all add: b_def n(1))
  define t where "t = y / b"
  have yt: "y = t * b" using b(1) by (simp add: t_def)
  have t: "\<bar>t - of_int n\<bar> < of_int n / 2 ^ 54"
  proof -
    have "\<bar>t - of_int n\<bar> * b = \<bar>y - x\<bar>" using b yt by (simp add: abs_mult[symmetric] left_diff_distrib abs_mult_pos)
    also have "\<dots> < of_int n / 2 ^ 54 * b" using y b by simp
    finally show ?thesis using b(1) by simp
  qed
  have nr: "(of_int n :: rat) \<le> 2 ^ 53 - 1" "1 \<le> (of_int n :: rat)"
  proof -
    have "n \<le> 2 ^ 53 - 1" "1 \<le> n" using n(2,3) by simp_all
    then have "(of_int n :: rat) \<le> of_int (2 ^ 53 - 1)" "(of_int 1 :: rat) \<le> of_int n" by (simp_all only: of_int_le_iff)
    then show "(of_int n :: rat) \<le> 2 ^ 53 - 1" "1 \<le> (of_int n :: rat)" by simp_all
  qed
  have half: "\<bar>t - of_int n\<bar> < 1 / 2" using t nr by simp
  have tp: "0 < t" using half nr by linarith
  have up: "t < 2 ^ 53" using half nr by linarith
  have p53: "2 powi (u + 53) = 2 ^ 53 * b" "2 powi (u + 52) = 2 ^ 52 * b"
    by (simp_all add: b_def power_int_add)
  have y0: "0 < y" "y < 2 powi (u + 53)" using tp up b(1) by (simp_all add: yt p53)
  show ?thesis
  proof (cases "u = - 1074 \<or> 2 ^ 52 \<le> t")
    case True
    have "ulp_exp y = u"
    proof (cases "u = - 1074")
      case True
      then show ?thesis using ulp_exp_small[OF y0(1)] y0(2) by simp
    next
      case False
      then have "2 ^ 52 \<le> t" using True by simp
      then have "2 powi (u + 52) \<le> y" using b(1) by (simp add: yt p53)
      then show ?thesis using y0(2) n(4) by (rule ulp_exp_at)
    qed
    from round53_at[OF _ this, of n] show ?thesis using y0(1) half by (simp add: n(1) t_def b_def)
  next
    case False
    then have u: "- 1074 < u" "t < 2 ^ 52" using n(4) by auto
    have "2 ^ 52 \<le> n" using n(6) u(1) by simp
    moreover have "(of_int n :: rat) < of_int (2 ^ 52 + 1)" using half u(2) unfolding abs_less_iff by simp
    then have "n < 2 ^ 52 + 1" by (simp only: of_int_less_iff)
    ultimately have n52: "n = 2 ^ 52" by simp
    have h: "2 powi (u - 1) = b / 2" by (simp add: b_def power_int_diff)
    have "- (t - of_int n) < of_int n / 2 ^ 54" using t by (simp only: abs_less_iff)
    then have lo: "2 ^ 52 - 1 / 4 < t" using n52 by simp
    have "2 powi ((u - 1) + 52) = 2 ^ 51 * b" by (simp add: b_def power_int_add power_int_diff)
    then have y1: "2 powi ((u - 1) + 52) \<le> y" using lo b(1) by (simp add: yt)
    have "2 powi ((u - 1) + 53) = 2 ^ 52 * b" by (simp add: b_def power_int_add power_int_diff)
    then have y2: "y < 2 powi ((u - 1) + 53)" using u(2) b(1) by (simp add: yt)
    have e: "ulp_exp y = u - 1" by (rule ulp_exp_at[OF y1 y2]) (use u(1) in simp)
    have "y / 2 powi (u - 1) = 2 * t" using b(1) by (simp add: h yt)
    then have "\<bar>y / 2 powi (u - 1) - of_int (2 ^ 53)\<bar> < 1 / 2" using lo u(2) by simp
    from round53_at[OF _ e this] y0(1) have "round53 y = 2 ^ 53 * 2 powi (u - 1)" by simp
    then show ?thesis by (simp add: n(1) n52 power_int_diff)
  qed
qed

lemma flog2_arg_neg: "round53 (- x) = - round53 x"
proof -
  have "round_even (- x) = - round_even x" for x
  proof -
    have "\<lfloor>- x\<rfloor> = (if x = of_int \<lfloor>x\<rfloor> then - \<lfloor>x\<rfloor> else - \<lfloor>x\<rfloor> - 1)"
      by (simp add: floor_minus ceiling_altdef)
    then show ?thesis by (auto simp: round_even_def Let_def)
  qed
  then show ?thesis by (simp add: round53_def ulp_exp_def)
qed

lemma rnd_close:
  assumes x: "rnd x = Fin x" and y: "\<bar>y - x\<bar> < \<bar>x\<bar> / 2 ^ 54"
  shows "rnd y = Fin x"
proof -
  have r: "round53 x = x" using x by (auto simp: rnd_def Let_def split: if_splits)
  have "round53 y = x"
  proof (cases "0 < x")
    case True
    then show ?thesis using rnd_close_pos[OF True r] y by simp
  next
    case False
    have nz: "x \<noteq> 0" using y by auto
    have "round53 (- y) = - x"
      by (rule rnd_close_pos) (use False nz r y in \<open>auto simp: flog2_arg_neg abs_minus_commute\<close>)
    then show ?thesis by (simp add: flog2_arg_neg)
  qed
  then show ?thesis using x r by (simp add: rnd_def)
qed

section \<open>Printing stays close\<close>

lemma length_show_nat_bounds:
  "0 < n \<Longrightarrow> 10 ^ (length (show_nat n) - 1) \<le> n \<and> n < 10 ^ length (show_nat n)"
proof (induction n rule: show_nat.induct)
  case (1 n)
  show ?case
  proof (cases "n < 10")
    case True
    then show ?thesis using 1(2) by (simp add: show_nat.simps[of n])
  next
    case False
    define l where "l = length (show_nat (n div 10))"
    have l: "0 < l" by (simp add: l_def)
    have len: "length (show_nat n) = Suc l" using False by (simp add: show_nat.simps[of n] l_def)
    have "10 ^ (l - 1) \<le> n div 10 \<and> n div 10 < 10 ^ l" using 1(1)[OF False] False by (simp add: l_def)
    moreover have "n div 10 < m \<longleftrightarrow> n < m * 10" for m by (simp add: div_less_iff_less_mult)
    moreover have "m \<le> n div 10 \<longleftrightarrow> m * 10 \<le> n" for m by (simp add: less_eq_div_iff_mult_less_eq)
    moreover have "(10::nat) ^ l = 10 ^ (l - 1) * 10" using l by (simp add: power_eq_if)
    ultimately show ?thesis using len by simp
  qed
qed

lemma ten_powi_pos [simp]: "0 < (10::rat) powi e"
  by (simp add: zero_less_power_int)

lemma flog10_bounds:
  assumes "0 < x"
  shows "10 powi flog10 x \<le> x" "x < 10 powi (flog10 x + 1)"
proof -
  have "10 powi flog10 x \<le> x \<and> x < 10 powi (flog10 x + 1)"
  proof (cases "1 \<le> x")
    case True
    define m where "m = nat \<lfloor>x\<rfloor>"
    define l where "l = length (show_nat m)"
    have m: "0 < m" "of_nat m \<le> x" "x < of_nat m + 1"
      using True by (simp_all add: m_def of_nat_nat) linarith+
    have "10 ^ (l - 1) \<le> m" "m + 1 \<le> 10 ^ l" using length_show_nat_bounds[OF m(1)] by (simp_all add: l_def)
    then have "(of_nat (10 ^ (l - 1)) :: rat) \<le> of_nat m" "(of_nat (m + 1) :: rat) \<le> of_nat (10 ^ l)"
      by (simp_all only: of_nat_le_iff)
    then have "10 ^ (l - 1) \<le> (of_nat m :: rat)" "of_nat m + 1 \<le> (10 ^ l :: rat)"
      by (simp_all only: of_nat_power of_nat_add of_nat_numeral of_nat_1)
    then have b: "10 ^ (l - 1) \<le> x" "x < 10 ^ l" using m(2,3) by linarith+
    have l: "0 < l" by (simp add: l_def)
    have "flog10 x = int l - 1" using True by (simp add: flog10_def l_def m_def)
    then have "flog10 x = int (l - 1)" "flog10 x + 1 = int l" using l by simp_all
    then show ?thesis using b by (simp only: power_int_of_nat)
  next
    case False
    define y where "y = 1 / x"
    define m where "m = nat (\<lceil>y\<rceil> - 1)"
    define l where "l = length (show_nat m)"
    have y: "1 < y" "x = 1 / y" using False assms by (simp_all add: y_def)
    have m: "0 < m" "of_nat m < y" "y \<le> of_nat m + 1"
    proof -
      have c: "1 < \<lceil>y\<rceil>" using y(1) by linarith
      then have "of_nat m = (of_int (\<lceil>y\<rceil> - 1) :: rat)" by (simp add: m_def of_nat_nat)
      then show "0 < m" "of_nat m < y" "y \<le> of_nat m + 1" using c by (simp_all add: m_def) linarith+
    qed
    have "10 ^ (l - 1) \<le> m" "m + 1 \<le> 10 ^ l" using length_show_nat_bounds[OF m(1)] by (simp_all add: l_def)
    then have "(of_nat (10 ^ (l - 1)) :: rat) \<le> of_nat m" "(of_nat (m + 1) :: rat) \<le> of_nat (10 ^ l)"
      by (simp_all only: of_nat_le_iff)
    then have "10 ^ (l - 1) \<le> (of_nat m :: rat)" "of_nat m + 1 \<le> (10 ^ l :: rat)"
      by (simp_all only: of_nat_power of_nat_add of_nat_numeral of_nat_1)
    then have b: "10 ^ (l - 1) < y" "y \<le> 10 ^ l" using m(2,3) by linarith+
    have l: "0 < l" by (simp add: l_def)
    have f: "flog10 x = - int l" using False by (simp add: flog10_def l_def m_def y_def)
    then have g: "flog10 x + 1 = - int (l - 1)" using l by simp
    have "1 / 10 ^ l \<le> 1 / y" "1 / y < 1 / 10 ^ (l - 1)"
      using b y(1) by (simp_all add: frac_le divide_strict_left_mono)
    then show ?thesis unfolding g unfolding f by (simp add: power_int_minus y(2) divide_inverse)
  qed
  then show "10 powi flog10 x \<le> x" "x < 10 powi (flog10 x + 1)" by simp_all
qed

text \<open>The digits printed at precision \<open>p\<close>: their number is \<open>p\<close>, and they are within half a unit.\<close>

lemma significant_close:
  assumes x: "0 < x" and p: "0 < p" and s: "significant p x = (d, e)"
  shows "10 ^ (p - 1) \<le> d \<and> d < 10 ^ p \<and> \<bar>of_nat d * 10 powi (e - int p + 1) - x\<bar> \<le> x / (2 * 10 ^ (p - 1))"
proof -
  define f where "f = flog10 x"
  define b where "b = (10::rat) powi (f - int p + 1)"
  define r where "r = round_even (x / b)"
  have b: "0 < b" by (simp add: b_def)
  obtain q where q: "p = Suc q" using p by (cases p) auto
  have pow: "10 powi f = 10 ^ q * b" "10 powi (f + 1) = 10 ^ Suc q * b"
    by (simp_all add: b_def q power_int_add power_int_diff)
  have lo: "10 ^ q * b \<le> x" and hi: "x < 10 ^ Suc q * b"
    using flog10_bounds[OF x, folded f_def] unfolding pow .
  have t: "10 ^ q \<le> x / b" "x / b < 10 ^ Suc q" using lo hi b by (simp_all add: field_simps)
  have err: "\<bar>of_int r - x / b\<bar> \<le> 1 / 2" unfolding r_def by (rule round_even_error)
  have r1: "10 ^ q \<le> r"
  proof -
    have "(of_int (10 ^ q - 1) :: rat) < of_int r" using err t(1) unfolding of_int_diff of_int_power of_int_numeral of_int_1 by linarith
    then show ?thesis by (simp only: of_int_less_iff)
  qed
  have r2: "r \<le> 10 ^ Suc q"
  proof -
    have "(of_int r :: rat) < of_int (10 ^ Suc q + 1)" using err t(2) unfolding of_int_add of_int_power of_int_numeral of_int_1 by linarith
    then show ?thesis by (simp only: of_int_less_iff)
  qed
  have close: "\<bar>of_int r * b - x\<bar> \<le> x / (2 * 10 ^ q)"
  proof -
    have "\<bar>of_int r * b - x\<bar> = \<bar>of_int r - x / b\<bar> * b" using b by (simp add: abs_mult_pos[symmetric] left_diff_distrib abs_mult_pos)
    also have "\<dots> \<le> 1 / 2 * b" by (rule mult_right_mono[OF err]) (use b in simp)
    also have "\<dots> \<le> x / (2 * 10 ^ q)" using lo by (simp add: field_simps)
    finally show ?thesis .
  qed
  have rn: "int (nat r) = r" using r1 by (simp add: order_trans[OF _ r1])
  show ?thesis
  proof (cases "nat r = 10 ^ p")
    case True
    then have de: "d = 10 ^ q" "e = f + 1" using s by (simp_all add: significant_def Let_def f_def b_def r_def q)
    have "r = 10 ^ Suc q" using True rn q by (metis of_nat_numeral of_nat_power)
    then have "of_nat d * 10 powi (e - int p + 1) = of_int r * b"
      by (simp add: de b_def q power_int_add power_int_diff)
    then show ?thesis using close by (simp add: de q)
  next
    case False
    then have de: "d = nat r" "e = f" using s by (auto simp: significant_def Let_def f_def b_def r_def q)
    have "nat r < 10 ^ p" using r2 False rn q by (metis le_neq_implies_less nat_int nat_le_iff of_nat_numeral of_nat_power)
    moreover have "10 ^ q \<le> nat r" using r1 by (metis nat_le_iff nat_int of_nat_numeral of_nat_power rn zle_int)
    moreover have "(of_nat (nat r) :: rat) = of_int r" using rn by (metis of_int_of_nat_eq)
    ultimately show ?thesis using close by (simp add: de q b_def)
  qed
qed

end
