(* ===== verification/Streams.thy ===== *)
theory Streams
  imports DoubleText
begin

text \<open>
  Formatted extraction from an \<open>istringstream\<close>: the unread characters and whether the stream is good.
  A failed stream leaves the target as it was; a number that cannot be read sets it to zero and one
  out of range to the nearest limit, as the standard library does, and both fail the stream. Then the
  round trips: what \<open>operator<<\<close> printed, \<open>operator>>\<close> and \<open>stod\<close> read back.
\<close>

type_synonym istream = "string \<times> bool"

definition get_word :: "string \<Rightarrow> istream \<Rightarrow> string \<times> istream" where
  "get_word old s =
     (let (rest, good) = s; r = dropWhile is_space rest
      in if \<not> good then (old, s)
         else if r = [] then (old, ([], False))
         else (takeWhile (\<lambda>c. \<not> is_space c) r, (dropWhile (\<lambda>c. \<not> is_space c) r, True)))"

definition get_int :: "int \<Rightarrow> istream \<Rightarrow> int \<times> istream" where
  "get_int old s =
     (let (rest, good) = s; r = dropWhile is_space rest
      in if \<not> good then (old, s)
         else if r = [] then (old, ([], False))
         else (case scan_int r of
                 None \<Rightarrow> (0, (r, False))
               | Some (neg, n, r') \<Rightarrow>
                   (let v = (if neg then - n else n)
                    in if v < - (2 ^ 63) then (- (2 ^ 63), (r', False))
                       else if 2 ^ 63 \<le> v then (2 ^ 63 - 1, (r', False))
                       else (v, (r', True)))))"

definition largest_double :: double where
  "largest_double = Fin ((2 - 1 / 2 ^ 52) * 2 ^ 1023)"

text \<open>The characters of a number are collected first; an exponent without digits then fails as a whole.\<close>

definition scan_float :: "string \<Rightarrow> (rat \<times> string) option" where
  "scan_float s =
     (let (ip, fp, r) = scan_mantissa is_digit s; (x, r') = scan_exponent CHR ''e'' r
      in if ip @ fp = [] \<or> (r \<noteq> [] \<and> lower (hd r) = CHR ''e'' \<and> r' = r) then None
         else Some (of_int (digits_val (ip @ fp)) * 10 powi (x - int (length fp)), r'))"

definition get_double :: "double \<Rightarrow> istream \<Rightarrow> double \<times> istream" where
  "get_double old s =
     (let (rest, good) = s; r = dropWhile is_space rest; (neg, r1) = scan_sign r
      in if \<not> good then (old, s)
         else if r = [] then (old, ([], False))
         else (case scan_float r1 of
                 None \<Rightarrow> (0, (r1, False))
               | Some (x, r') \<Rightarrow>
                   (case rnd (if neg then - x else x) of
                      PosInf \<Rightarrow> (largest_double, (r', False))
                    | NegInf \<Rightarrow> (dneg largest_double, (r', False))
                    | d \<Rightarrow> (d, (r', True)))))"

text \<open>\<open>std::atoi\<close> as glibc has it: \<open>strtol\<close>, which saturates, cut to 32 bits.\<close>

definition atoi :: "string \<Rightarrow> int" where
  "atoi s = (case scan_int s of None \<Rightarrow> 0
     | Some (neg, n, _) \<Rightarrow>
         (let v = (if neg then max (- (2 ^ 63)) (- n) else min (2 ^ 63 - 1) n) in sint (word_of_int v :: 32 word)))"

section \<open>Reading back integers and words\<close>

definition ends_number :: "string \<Rightarrow> bool" where
  "ends_number rest \<longleftrightarrow> rest = [] \<or> is_space (hd rest)"

lemma space_facts: "is_space c \<Longrightarrow> \<not> is_digit c \<and> c \<noteq> CHR ''.'' \<and> c \<noteq> CHR ''e'' \<and> c \<noteq> CHR ''E''"
  by (auto simp: is_space_def is_digit_def)

lemma dropWhile_space_id: "s \<noteq> [] \<Longrightarrow> \<not> is_space (hd s) \<Longrightarrow> dropWhile is_space s = s"
  by (cases s) auto

lemma scan_int_skip: "scan_int (dropWhile is_space s) = scan_int s"
  unfolding scan_int_def by (induction s) auto

lemma dropWhile_space_append:
  "is_word w \<Longrightarrow> dropWhile is_space (w @ rest) = w @ rest"
  by (cases w) (auto simp: is_word_def)

lemma get_int_show:
  assumes "- (2 ^ 63) \<le> n" "n < 2 ^ 63" "ends_number rest"
  shows "get_int old (show_int n @ rest, True) = (n, (rest, True))"
proof -
  have r: "rest = [] \<or> \<not> is_digit (hd rest)" using assms(3) space_facts by (auto simp: ends_number_def)
  have "dropWhile is_space (show_int n @ rest) = show_int n @ rest"
    by (rule dropWhile_space_append[OF is_word_show_int])
  moreover have "show_int n \<noteq> []" using is_word_show_int[of n] by (simp add: is_word_def)
  ultimately show ?thesis using scan_int_show_int[OF r, of n] assms(1,2)
    by (simp add: get_int_def Let_def abs_if split: if_splits)
qed

lemma get_word_show:
  assumes "is_word w" "ends_number rest"
  shows "get_word old (w @ rest, True) = (w, (rest, True))"
proof -
  have t: "takeWhile (\<lambda>c. \<not> is_space c) rest = []" "dropWhile (\<lambda>c. \<not> is_space c) rest = rest"
    using assms(2) by (cases rest; simp add: ends_number_def)+
  have w: "\<forall>c \<in> set w. \<not> is_space c" "w \<noteq> []" using assms(1) by (simp_all add: is_word_def)
  have "dropWhile is_space (w @ rest) = w @ rest" by (rule dropWhile_space_append[OF assms(1)])
  then show ?thesis using w t by (simp add: get_word_def Let_def takeWhile_append2 dropWhile_append2)
qed

text \<open>A blank before the next field is skipped.\<close>

lemma get_skip_blank [simp]:
  "get_word old (CHR '' '' # s, True) = get_word old (s, True)"
  "get_int i (CHR '' '' # s, True) = get_int i (s, True)"
  "get_double d (CHR '' '' # s, True) = get_double d (s, True)"
  by (simp_all add: get_word_def get_int_def get_double_def)

section \<open>Reading back doubles\<close>

definition all_digits :: "string \<Rightarrow> bool" where
  "all_digits s \<longleftrightarrow> (\<forall>c \<in> set s. is_digit c)"

lemma digits_val_Cons: "digits_val (c # ds) = digit_val c * 10 ^ length ds + digits_val ds"
proof (induction ds rule: rev_induct)
  case (snoc d ds)
  then show ?case using digits_val_snoc[of "c # ds" d] by (simp add: digits_val_snoc algebra_simps)
qed (simp add: digits_val_def)

lemma digits_val_append: "digits_val (as @ bs) = digits_val as * 10 ^ length bs + digits_val bs"
  by (induction as) (simp_all add: digits_val_Cons power_add algebra_simps)

lemma digits_val_zeros: "digits_val (replicate n CHR ''0'') = 0"
  by (induction n) (simp_all add: digits_val_Cons digit_val_def)

lemma strip_zeros_split: "\<exists>n. s = strip_zeros s @ replicate n CHR ''0''"
proof (induction s rule: rev_induct)
  case (snoc c s)
  show ?case
  proof (cases "c = CHR ''0''")
    case True
    then obtain n where "s = strip_zeros s @ replicate n CHR ''0''" using snoc by blast
    then have "s @ [c] = strip_zeros (s @ [c]) @ replicate (Suc n) CHR ''0''"
      using True by (simp add: strip_zeros_def replicate_append_same[symmetric])
    then show ?thesis by blast
  qed (simp add: strip_zeros_def exI[of _ 0])
qed (simp add: strip_zeros_def)

lemma strip_zeros_value:
  "(of_int (digits_val (as @ strip_zeros bs)) :: rat) * 10 powi (- int (length (strip_zeros bs))) =
     of_int (digits_val (as @ bs)) * 10 powi (- int (length bs))"
proof -
  obtain n where n: "bs = strip_zeros bs @ replicate n CHR ''0''" using strip_zeros_split by blast
  define cs where "cs = strip_zeros bs"
  have bs: "bs = cs @ replicate n CHR ''0''" using n by (simp add: cs_def)
  have "digits_val (as @ bs) = digits_val (as @ cs) * 10 ^ n"
    unfolding bs append.assoc[symmetric] digits_val_append[of "as @ cs"] by (simp add: digits_val_zeros)
  moreover have "(10::rat) ^ n * 10 powi (- int (length bs)) = 10 powi (- int (length cs))"
  proof -
    have "(10::rat) ^ n * 10 powi b = 10 powi (int n + b)" for b by (simp add: power_int_add)
    then show ?thesis by (simp add: bs)
  qed
  ultimately show ?thesis by (simp add: cs_def[symmetric] mult.assoc)
qed

lemma all_digits_strip: "all_digits s \<Longrightarrow> all_digits (strip_zeros s)"
  unfolding all_digits_def by (metis UnCI set_append strip_zeros_split)

definition float_tail :: "string \<Rightarrow> bool" where
  "float_tail rest \<longleftrightarrow> rest = [] \<or> \<not> is_digit (hd rest) \<and> hd rest \<noteq> CHR ''.''"

lemma span_digits:
  "all_digits ds \<Longrightarrow> rest = [] \<or> \<not> is_digit (hd rest) \<Longrightarrow>
     takeWhile is_digit (ds @ rest) = ds \<and> dropWhile is_digit (ds @ rest) = rest"
  by (cases rest) (auto simp: all_digits_def takeWhile_append2 dropWhile_append2)

lemma mantissa_with_fraction:
  assumes "all_digits ip" "all_digits fp" "float_tail rest"
  shows "scan_mantissa is_digit (with_fraction ip fp @ rest) = (ip, fp, rest)"
proof (cases "fp = []")
  case True
  have r: "rest = [] \<or> \<not> is_digit (hd rest)" using assms(3) by (auto simp: float_tail_def)
  show ?thesis using True span_digits[OF assms(1) r] assms(3)
    by (cases rest)
      (simp_all add: scan_mantissa_def with_fraction_def float_tail_def del: takeWhile_eq_all_conv dropWhile_eq_Nil_conv)
next
  case False
  have r: "rest = [] \<or> \<not> is_digit (hd rest)" using assms(3) by (auto simp: float_tail_def)
  have d: "\<not> is_digit CHR ''.''" by (simp add: is_digit_def)
  have "takeWhile is_digit (ip @ CHR ''.'' # fp @ rest) = ip \<and> dropWhile is_digit (ip @ CHR ''.'' # fp @ rest) = CHR ''.'' # fp @ rest"
    by (rule span_digits[OF assms(1)]) (simp add: d)
  then show ?thesis using False span_digits[OF assms(2) r] by (simp add: scan_mantissa_def with_fraction_def)
qed

lemma lower_e [simp]: "lower CHR ''e'' = CHR ''e''"
  by (simp add: lower_def)

lemma all_digits_show_nat: "all_digits (show_nat n)"
  using show_nat_ok[of n] by (simp add: all_digits_def)

lemma exponent_show:
  assumes "rest = [] \<or> \<not> is_digit (hd rest)"
  shows "scan_exponent CHR ''e'' (show_exponent e @ rest) = (e, rest)"
proof -
  define ds where "ds = (let ds = show_nat (nat \<bar>e\<bar>) in if length ds < 2 then ''0'' @ ds else ds)"
  have d0: "is_digit CHR ''0''" "digit_val CHR ''0'' = 0" by (simp_all add: is_digit_def digit_val_def)
  have ds: "all_digits ds" "ds \<noteq> []" "digits_val ds = \<bar>e\<bar>"
    using all_digits_show_nat[of "nat \<bar>e\<bar>"] show_nat_ok[of "nat \<bar>e\<bar>"] d0
    by (auto simp: ds_def Let_def all_digits_def digits_val_Cons)
  have "show_exponent e @ rest = CHR ''e'' # (if e < 0 then CHR ''-'' else CHR ''+'') # ds @ rest"
    by (simp add: show_exponent_def ds_def Let_def)
  then show ?thesis using span_digits[OF ds(1) assms] ds(2,3)
    by (simp add: scan_exponent_def scan_sign_def)
qed

lemma exponent_none:
  assumes "rest = [] \<or> lower (hd rest) \<noteq> CHR ''e''"
  shows "scan_exponent CHR ''e'' rest = (0, rest)"
  using assms by (cases rest) (simp_all add: scan_exponent_def)

lemma number_tail:
  assumes rest: "ends_number rest"
  shows "float_tail rest" "rest = [] \<or> lower (hd rest) \<noteq> CHR ''e''" "rest = [] \<or> \<not> is_digit (hd rest)"
proof -
  have "is_space c \<Longrightarrow> lower c = c" for c
proof -
    assume "is_space c"
    then have "c \<notin> set ''ABCDEFGHIJKLMNOPQRSTUVWXYZ''" by (auto simp: is_space_def)
    then have "map_of (zip ''ABCDEFGHIJKLMNOPQRSTUVWXYZ'' ''abcdefghijklmnopqrstuvwxyz'') c = None"
      by (subst map_of_eq_None_iff) simp
    then show ?thesis by (simp add: lower_def)
  qed
  then show "float_tail rest" "rest = [] \<or> lower (hd rest) \<noteq> CHR ''e''" "rest = [] \<or> \<not> is_digit (hd rest)"
    using rest space_facts by (auto simp: ends_number_def float_tail_def)
qed

text \<open>The value of a printed layout is its digits scaled by its exponent.\<close>

lemma layout_scan:
  assumes ds: "all_digits ds" "length ds = p" "0 < p" and rest: "ends_number rest"
  obtains ip fp r x where "scan_mantissa is_digit (layout p ds e @ rest) = (ip, fp, r)"
    "scan_exponent CHR ''e'' r = (x, rest)" "ip \<noteq> []" "r = rest \<or> r \<noteq> rest \<and> length rest < length r"
    "r = rest \<longrightarrow> r = [] \<or> lower (hd r) \<noteq> CHR ''e''"
    "of_int (digits_val (ip @ fp)) * 10 powi (x - int (length fp)) = (of_int (digits_val ds) * 10 powi (e - int p + 1) :: rat)"
proof -
  note tail = number_tail[OF rest]
  have td: "all_digits (take n ds)" "all_digits (strip_zeros (drop n ds))" for n
    using ds(1) all_digits_strip[of "drop n ds"] by (auto simp: all_digits_def dest: in_set_takeD in_set_dropD)
  have scale: "(of_int k * 10 powi (- int a) :: rat) * 10 powi b = of_int k * 10 powi (b - int a)" for k a b
    by (simp add: power_int_add[symmetric])
  show thesis
  proof (cases "- 4 \<le> e \<and> e < int p")
    case fixed: True
    show thesis
    proof (cases "0 \<le> e")
      case True
      let ?n = "nat e + 1"
      have l: "layout p ds e = with_fraction (take ?n ds) (strip_zeros (drop ?n ds))"
        using fixed True by (simp add: layout_def)
      have len: "int (length (drop ?n ds)) = int p - e - 1" using True fixed ds(2) by simp
      then have "of_int (digits_val (take ?n ds @ strip_zeros (drop ?n ds))) * 10 powi (0 - int (length (strip_zeros (drop ?n ds)))) =
          (of_int (digits_val ds) * 10 powi (e - int p + 1) :: rat)"
        unfolding diff_0 strip_zeros_value append_take_drop_id len by (simp add: algebra_simps)
      then show ?thesis
        using that[OF mantissa_with_fraction[OF td(1,2) tail(1), of ?n ?n, folded l] exponent_none[OF tail(2)]] tail ds(2,3) by auto
    next
      case False
      let ?z = "replicate (nat (- e - 1)) CHR ''0''"
      have l: "layout p ds e = with_fraction ''0'' (?z @ strip_zeros ds)" using fixed False by (simp add: layout_def)
      have d0: "is_digit CHR ''0''" by (simp add: is_digit_def)
      have a: "all_digits ''0''" "all_digits (?z @ strip_zeros ds)"
        using td(2)[of 0] d0 by (auto simp: all_digits_def)
      have z: "digits_val (''0'' @ ?z @ s) = digits_val s" for s
        using digits_val_append[of "''0'' @ ?z" s] digits_val_append[of "''0''" ?z]
        by (simp add: digits_val_zeros digits_val_Cons digit_val_def)
      have "of_int (digits_val (''0'' @ ?z @ strip_zeros ds)) * 10 powi (0 - int (length (?z @ strip_zeros ds))) =
          (of_int (digits_val ([] @ strip_zeros ds)) * 10 powi (- int (length (strip_zeros ds))) * 10 powi (e + 1) :: rat)"
        unfolding z scale using False by (simp add: algebra_simps)
      also have "\<dots> = of_int (digits_val ds) * 10 powi (e - int p + 1)"
        unfolding strip_zeros_value scale using ds(2) by (simp add: algebra_simps)
      finally show ?thesis
        using that[OF mantissa_with_fraction[OF a tail(1), folded l] exponent_none[OF tail(2)]] tail by auto
    qed
  next
    case False
    let ?r = "show_exponent e @ rest"
    have l: "layout p ds e @ rest = with_fraction (take 1 ds) (strip_zeros (drop 1 ds)) @ ?r"
      by (simp only: layout_def if_not_P[OF False] append.assoc)
    have ft: "float_tail ?r" by (simp add: float_tail_def show_exponent_def is_digit_def)
    have v: "of_int (digits_val (take 1 ds @ strip_zeros (drop 1 ds))) * 10 powi (e - int (length (strip_zeros (drop 1 ds)))) =
        (of_int (digits_val ds) * 10 powi (e - int p + 1) :: rat)"
    proof -
      have "of_int (digits_val (take 1 ds @ strip_zeros (drop 1 ds))) * 10 powi (e - int (length (strip_zeros (drop 1 ds)))) =
          (of_int (digits_val (take 1 ds @ strip_zeros (drop 1 ds))) * 10 powi (- int (length (strip_zeros (drop 1 ds)))) * 10 powi e :: rat)"
        by (simp only: scale)
      also have "\<dots> = of_int (digits_val ds) * 10 powi (e - int p + 1)"
        unfolding strip_zeros_value scale using ds(2,3) by (simp add: algebra_simps of_nat_diff)
      finally show ?thesis .
    qed
    have "take 1 ds \<noteq> []" using ds(2,3) by auto
    moreover have "?r \<noteq> rest" "length rest < length ?r" by (auto simp: show_exponent_def)
    ultimately show ?thesis
      using that[OF mantissa_with_fraction[OF td(1,2) ft, of 1 1, folded l] exponent_show[OF tail(3)] _ _ _ v] by blast
  qed
qed

text \<open>What a positive number printed at precision \<open>p\<close> is read as, by extraction and by \<open>stod\<close>.\<close>

definition printed_value :: "nat \<Rightarrow> rat \<Rightarrow> rat" where
  "printed_value p x = (case significant p x of (d, e) \<Rightarrow> of_nat d * 10 powi (e - int p + 1))"

definition printed_digits :: "nat \<Rightarrow> rat \<Rightarrow> string" where
  "printed_digits p x = (case significant p x of (d, e) \<Rightarrow> layout p (show_nat d) e)"

lemma printed_scan:
  assumes "0 < x" "0 < p" "ends_number rest"
  shows "scan_float (printed_digits p x @ rest) = Some (printed_value p x, rest)"
    and "scan_decimal (printed_digits p x @ rest) = Some (printed_value p x, rest)"
proof -
  obtain d e where s: "significant p x = (d, e)" by (cases "significant p x")
  have d: "10 ^ (p - 1) \<le> d" "d < 10 ^ p" using significant_close[OF assms(1,2) s] by blast+
  then have d0: "0 < d" by (metis gr0I not_numeral_le_zero power_not_zero le_zero_eq zero_neq_numeral)
  have "10 ^ (p - 1) < (10::nat) ^ length (show_nat d)" "10 ^ (length (show_nat d) - 1) < (10::nat) ^ p"
    using length_show_nat_bounds[OF d0] d by linarith+
  then have "p - 1 < length (show_nat d)" "length (show_nat d) - 1 < p" by simp_all
  then have len: "length (show_nat d) = p" by simp
  have v: "printed_value p x = of_int (digits_val (show_nat d)) * 10 powi (e - int p + 1)"
    using show_nat_ok[of d] by (simp add: printed_value_def s)
  have pd: "printed_digits p x = layout p (show_nat d) e" by (simp add: printed_digits_def s)
  obtain ip fp r t where m: "scan_mantissa is_digit (layout p (show_nat d) e @ rest) = (ip, fp, r)"
    "scan_exponent CHR ''e'' r = (t, rest)" "ip \<noteq> []" "r = rest \<or> r \<noteq> rest \<and> length rest < length r"
    "r = rest \<longrightarrow> r = [] \<or> lower (hd r) \<noteq> CHR ''e''"
    "of_int (digits_val (ip @ fp)) * 10 powi (t - int (length fp)) =
      (of_int (digits_val (show_nat d)) * 10 powi (e - int p + 1) :: rat)"
    by (rule layout_scan[OF all_digits_show_nat len assms(2,3)])
  show "scan_float (printed_digits p x @ rest) = Some (printed_value p x, rest)"
    using m(3,5) by (auto simp: scan_float_def pd m(1,2) m(6) v)
  show "scan_decimal (printed_digits p x @ rest) = Some (printed_value p x, rest)"
    using m(3) by (simp add: scan_decimal_def pd m(1,2) m(6) v)
qed

lemma hd_with_fraction: "ip \<noteq> [] \<Longrightarrow> with_fraction ip fp \<noteq> [] \<and> hd (with_fraction ip fp) = hd ip"
  by (simp add: with_fraction_def)

lemma hd_layout:
  assumes "ds \<noteq> []" "is_digit (hd ds)"
  shows "layout p ds e \<noteq> [] \<and> is_digit (hd (layout p ds e))"
proof -
  have z: "is_digit CHR ''0''" by (simp add: is_digit_def)
  have t: "take (Suc n) ds \<noteq> []" "hd (take (Suc n) ds) = hd ds" for n using assms(1) by simp_all
  show ?thesis using assms(2) z t hd_with_fraction[of "''0''"]
      hd_with_fraction[OF t(1)[of "nat e"]] hd_with_fraction[OF t(1)[of 0]]
    by (simp add: layout_def)
qed

lemma printed_hd:
  assumes "0 < x" "0 < p"
  obtains c cs where "printed_digits p x = c # cs" "is_digit c"
proof -
  obtain d e where s: "significant p x = (d, e)" by (cases "significant p x")
  have "printed_digits p x \<noteq> [] \<and> is_digit (hd (printed_digits p x))"
    using hd_layout[OF show_nat_ne hd_show_nat] by (simp add: printed_digits_def s)
  then show thesis using that by (cases "printed_digits p x") auto
qed

lemma printed_close:
  assumes "0 < x" "0 < p"
  shows "\<bar>printed_value p x - x\<bar> \<le> x / (2 * 10 ^ (p - 1))"
  using significant_close[OF assms] by (cases "significant p x") (auto simp: printed_value_def)

lemma show_double_Fin:
  "show_double p (Fin x) = (if x = 0 then ''0'' else if x < 0 then CHR ''-'' # printed_digits p (- x) else printed_digits p x)"
  by (auto simp: printed_digits_def Let_def split: prod.splits)

lemma printed_seventeen:
  assumes "rnd x = Fin x" "x \<noteq> 0"
  shows "rnd (if x < 0 then - printed_value 17 \<bar>x\<bar> else printed_value 17 \<bar>x\<bar>) = Fin x"
proof (rule rnd_close[OF assms(1)])
  have "\<bar>printed_value 17 \<bar>x\<bar> - \<bar>x\<bar>\<bar> \<le> \<bar>x\<bar> / (2 * 10 ^ 16)" using printed_close[of "\<bar>x\<bar>" 17] assms(2) by simp
  also have "\<dots> < \<bar>x\<bar> / 2 ^ 54" using assms(2) by (simp add: divide_strict_left_mono)
  finally show "\<bar>(if x < 0 then - printed_value 17 \<bar>x\<bar> else printed_value 17 \<bar>x\<bar>) - x\<bar> < \<bar>x\<bar> / 2 ^ 54"
    by (auto simp: abs_if split: if_splits)
qed

lemma zero_scan: "ends_number rest \<Longrightarrow> scan_float (''0'' @ rest) = Some (0, rest)"
proof -
  assume r: "ends_number rest"
  have z: "all_digits ''0''" "all_digits []" by (simp_all add: all_digits_def is_digit_def)
  note t = number_tail(1)[OF r] and e = number_tail(2)[OF r]
  show ?thesis using mantissa_with_fraction[OF z t] exponent_none[OF e] e
    by (auto simp: scan_float_def with_fraction_def digits_val_Cons digit_val_def)
qed

lemma get_double_show:
  assumes "rnd x = Fin x" "ends_number rest"
  shows "get_double old (show_double 17 (Fin x) @ rest, True) = (Fin x, (rest, True))"
proof (cases "x = 0")
  case True
  then show ?thesis using zero_scan[OF assms(2)]
    by (simp add: get_double_def scan_sign_def is_space_def del: append.simps) (simp add: scan_sign_def)
next
  case False
  obtain c cs where c: "printed_digits 17 \<bar>x\<bar> = c # cs" "is_digit c" by (rule printed_hd[of "\<bar>x\<bar>" 17]) (use False in auto)
  have sc: "scan_float (printed_digits 17 \<bar>x\<bar> @ rest) = Some (printed_value 17 \<bar>x\<bar>, rest)"
    by (rule printed_scan(1)) (use False assms(2) in auto)
  note c' = is_digit_facts[OF c(2)]
  note r = printed_seventeen[OF assms(1) False]
  show ?thesis
  proof (cases "x < 0")
    case True
    then show ?thesis using sc r False c by (simp add: get_double_def show_double_Fin scan_sign_def del: show_double.simps)
  next
    case pos: False
    then show ?thesis using sc r False c c' by (simp add: get_double_def show_double_Fin scan_sign_def del: show_double.simps)
  qed
qed

section \<open>Printed numbers are single words, and \<open>stod\<close> reads them\<close>

lemma set_strip: "set (strip_zeros s) \<subseteq> set s"
  by (metis Un_upper1 set_append strip_zeros_split)

lemma layout_chars:
  assumes "all_digits ds"
  shows "\<forall>c \<in> set (layout p ds e). \<not> is_space c"
proof -
  have d: "\<not> is_space CHR ''.''" "\<not> is_space CHR ''e''" "\<not> is_space CHR ''+''" "\<not> is_space CHR ''0''"
    by (simp_all add: is_space_def)
  have a: "c \<in> set ds \<Longrightarrow> \<not> is_space c" for c using assms is_digit_facts by (auto simp: all_digits_def)
  have n: "c \<in> set (show_nat k) \<Longrightarrow> \<not> is_space c" for c k using is_word_show_nat[of k] by (auto simp: is_word_def)
  show ?thesis
    by (auto simp: layout_def with_fraction_def show_exponent_def Let_def d split: if_splits
        dest!: set_strip[THEN subsetD] dest: in_set_takeD in_set_dropD a n)
qed

lemma is_word_show_double: "0 < p \<Longrightarrow> is_word (show_double p d)"
proof (cases d)
  case (Fin x)
  assume p: "0 < p"
  have c: "\<forall>c \<in> set (printed_digits p y). \<not> is_space c" for y
    using layout_chars[OF all_digits_show_nat] by (cases "significant p y") (simp add: printed_digits_def)
  have n: "0 < y \<Longrightarrow> printed_digits p y \<noteq> []" for y using printed_hd[of y p] p by (metis list.distinct(1))
  consider "x = 0" | "x < 0" | "0 < x" by linarith
  then have "is_word (show_double p (Fin x))"
  proof cases
    case 1
    then show ?thesis by (simp add: is_word_def is_space_def)
  next
    case 2
    then have "show_double p (Fin x) = CHR ''-'' # printed_digits p (- x)" by (simp only: show_double_Fin) simp
    then show ?thesis using c[of "- x"] by (simp add: is_word_def is_space_def del: show_double.simps)
  next
    case 3
    then have "show_double p (Fin x) = printed_digits p x" by (simp only: show_double_Fin) simp
    then show ?thesis using c[of x] n[OF 3] by (simp add: is_word_def del: show_double.simps)
  qed
  then show ?thesis by (simp only: Fin)
qed (simp_all add: is_word_def is_space_def)

lemma lower_digit: "is_digit c \<Longrightarrow> lower c = c"
proof -
  assume "is_digit c"
  then have "c \<notin> set ''ABCDEFGHIJKLMNOPQRSTUVWXYZ''" by (auto simp: is_digit_def)
  then have "map_of (zip ''ABCDEFGHIJKLMNOPQRSTUVWXYZ'' ''abcdefghijklmnopqrstuvwxyz'') c = None"
    by (simp add: map_of_zip_is_None del: zip_Cons_Cons)
  then show ?thesis by (simp only: lower_def option.case)
qed

lemma stod_printed:
  assumes "0 < x" "0 < p" "in_range (printed_value p x)"
  shows "stod (show_double p (Fin x)) = Some (rnd (printed_value p x))"
proof -
  obtain c cs where s: "printed_digits p x = c # cs" "is_digit c" by (rule printed_hd[OF assms(1,2)])
  note d = is_digit_facts[OF s(2)]
  have l: "lower c = c" "lower c \<noteq> CHR ''i''" "lower c \<noteq> CHR ''n''"
    using lower_digit[OF s(2)] s(2) by (auto simp: is_digit_def)
  have sc: "scan_decimal (c # cs) = Some (printed_value p x, [])"
    using printed_scan(2)[OF assms(1,2), of "[]"] s(1) by (simp add: ends_number_def)
  have hex: "\<not> has_prefix ''0x'' (c # cs)"
  proof
    assume "has_prefix ''0x'' (c # cs)"
    then obtain c1 cs1 where e: "cs = c1 # cs1" "lower c = CHR ''0''" "lower c1 = CHR ''x''"
      by (cases cs) (auto simp: has_prefix_def)
    have c0: "c = CHR ''0''" using e(2) l(1) by simp
    have "\<not> is_digit c1" using lower_digit[of c1] e(3) by (auto simp: is_digit_def)
    moreover have "lower CHR ''.'' = CHR ''.''" by (simp add: lower_def)
    ultimately have x: "\<not> is_digit c1" "c1 \<noteq> CHR ''.''" "lower c1 \<noteq> CHR ''e''" using e(3) by auto
    have z: "all_digits ''0''" "all_digits []" "float_tail (c1 # cs1)"
      using x by (simp_all add: all_digits_def is_digit_def float_tail_def)
    have "scan_mantissa is_digit (c # cs) = (''0'', [], c1 # cs1)"
      using mantissa_with_fraction[OF z] by (simp add: with_fraction_def c0 e(1))
    moreover have "scan_exponent CHR ''e'' (c1 # cs1) = (0, c1 # cs1)" by (rule exponent_none) (use x in simp)
    ultimately have "\<exists>v. scan_decimal (c # cs) = Some (v, c1 # cs1)" by (simp add: scan_decimal_def)
    then show False using sc by auto
  qed
  have "scan_unsigned (c # cs) = Some (Number (printed_value p x), [])"
    using l hex sc by (auto simp: scan_unsigned_def has_prefix_def)
  moreover have "show_double p (Fin x) = c # cs" using assms(1) s(1) by (simp add: show_double_Fin del: show_double.simps)
  ultimately show ?thesis using d assms(3) by (simp add: stod_def scan_sign_def del: show_double.simps)
qed

end
