(* ===== verification/Persistence.thy ===== *)
theory Persistence
  imports MatchingEngine Auth Reports Streams
begin

text \<open>
  The snapshot file of \<open>Src_Simulation/src/net/persistence.cpp\<close>: what \<open>save\<close> writes, the way it
  replaces the file, and \<open>load\<close>. Files are a map from paths to contents; whether opening, writing and
  renaming succeed is the environment's answer. A field that a malformed line does not supply keeps
  the indeterminate value of an uninitialised variable, which \<open>uninit\<close> stands for.
\<close>

section \<open>Saving\<close>

definition account_line :: "account_record \<Rightarrow> string" where
  "account_line r = ''ACCOUNT '' @ rec_username r @ '' '' @ show_int (rec_id r) @ '' '' @ rec_salt r @ '' '' @ rec_hash r"

definition cash_line :: "client_id \<Rightarrow> double \<Rightarrow> string" where
  "cash_line c x = ''CASH '' @ show_int c @ '' '' @ show_double 17 x"

definition holding_line :: "client_id \<Rightarrow> symbol \<Rightarrow> quantity \<Rightarrow> string" where
  "holding_line c s q = ''HOLDING '' @ show_int c @ '' '' @ s @ '' '' @ show_int q"

definition price_line :: "symbol \<Rightarrow> price \<Rightarrow> string" where
  "price_line s p = ''PRICE '' @ s @ '' '' @ show_double 17 p"

definition portfolio_lines :: "client_id \<Rightarrow> portfolio \<Rightarrow> string list" where
  "portfolio_lines c pf =
     cash_line c (cash pf) # map (\<lambda>(s, q). holding_line c s q) (filter (\<lambda>(_, q). q \<noteq> 0) (holdings pf))"

definition snapshot_lines :: "directory \<Rightarrow> engine \<Rightarrow> string list" where
  "snapshot_lines d e =
     map account_line (export_accounts d) @
     concat (map (\<lambda>(c, pf). portfolio_lines c pf) (portfolios e)) @
     map (\<lambda>(s, p). price_line s p) (last_prices e)"

definition snapshot_text :: "directory \<Rightarrow> engine \<Rightarrow> string" where
  "snapshot_text d e = concat (map (\<lambda>l. l @ [newline]) (snapshot_lines d e))"

type_synonym files = "(string \<times> string) list"

record io_answers =
  can_open :: bool
  can_write :: bool
  can_rename :: bool

definition tmp_path :: "string \<Rightarrow> string" where
  "tmp_path path = path @ ''.tmp''"

definition save :: "io_answers \<Rightarrow> string \<Rightarrow> directory \<Rightarrow> engine \<Rightarrow> files \<Rightarrow> bool \<times> files \<times> log_entry" where
  "save io path d e fs =
     (let tmp = tmp_path path
      in if \<not> can_open io
           then (False, fs, (ERROR, ''persistence: failed to open '' @ tmp @ '' for writing''))
         else
           (let fs1 = AList.update tmp (snapshot_text d e) fs
            in if \<not> can_write io
                 then (False, AList.delete tmp fs1, (ERROR, ''persistence: error while writing '' @ tmp))
               else if \<not> can_rename io
                 then (False, AList.delete tmp fs1, (ERROR, ''persistence: failed to rename '' @ tmp @ '' to '' @ path))
               else (True, AList.update path (snapshot_text d e) (AList.delete tmp fs1),
                     (INFO, ''persistence: snapshot saved to '' @ path))))"

section \<open>Loading\<close>

record pending =
  p_dir :: directory
  p_loaded :: nat
  p_holdings :: "(client_id \<times> symbol \<times> quantity) list"
  p_prices :: "(symbol \<times> price) list"
  p_cash :: "(client_id \<times> double) list"

type_synonym uninit = "int \<times> double"

definition load_account :: "uninit \<Rightarrow> istream \<Rightarrow> account_record" where
  "load_account un s0 =
     (let (u, s1) = get_word [] s0; (i, s2) = get_int (fst un) s1;
          (salt, s3) = get_word [] s2; (h, s4) = get_word [] s3
      in \<lparr>rec_username = u, rec_id = i, rec_salt = salt, rec_hash = h\<rparr>)"

definition load_line :: "uninit \<Rightarrow> string \<Rightarrow> pending \<Rightarrow> pending" where
  "load_line un line st =
     (let (tag, s0) = get_word [] (line, True)
      in if tag = ''ACCOUNT''
           then st\<lparr>p_dir := import_account (load_account un s0) (p_dir st), p_loaded := p_loaded st + 1\<rparr>
         else if tag = ''CASH''
           then (let (c, s1) = get_int (fst un) s0; (x, s2) = get_double (snd un) s1
                 in st\<lparr>p_cash := AList.update c x (p_cash st)\<rparr>)
         else if tag = ''HOLDING''
           then (let (c, s1) = get_int (fst un) s0; (s, s2) = get_word [] s1; (q, s3) = get_int (fst un) s2
                 in st\<lparr>p_holdings := p_holdings st @ [(c, s, q)]\<rparr>)
         else if tag = ''PRICE''
           then (let (s, s1) = get_word [] s0; (p, s2) = get_double (snd un) s1
                 in st\<lparr>p_prices := AList.update s p (p_prices st)\<rparr>)
         else st)"

definition load_lines :: "uninit \<Rightarrow> string list \<Rightarrow> directory \<Rightarrow> pending" where
  "load_lines un ls d = foldl (\<lambda>st l. load_line un l st)
     \<lparr>p_dir = d, p_loaded = 0, p_holdings = [], p_prices = [], p_cash = []\<rparr> ls"

definition apply_cash :: "(client_id \<times> double) list \<Rightarrow> engine \<Rightarrow> engine" where
  "apply_cash cs e = foldl (\<lambda>e (c, x). ensure_client c x e) e cs"

definition apply_holdings :: "(client_id \<times> symbol \<times> quantity) list \<Rightarrow> engine \<Rightarrow> engine" where
  "apply_holdings hs e = foldl (\<lambda>e (c, s, q). grant_initial_holdings c s q (ensure_client c 0 e)) e hs"

definition apply_prices :: "(symbol \<times> price) list \<Rightarrow> engine \<Rightarrow> engine" where
  "apply_prices ps e = foldl (\<lambda>e (s, p). register_symbol s p e) e ps"

definition load ::
  "uninit \<Rightarrow> string \<Rightarrow> files \<Rightarrow> directory \<Rightarrow> engine \<Rightarrow> bool \<times> directory \<times> engine \<times> log_entry option" where
  "load un path fs d e =
     (case map_of fs path of
        None \<Rightarrow> (False, d, e, None)
      | Some content \<Rightarrow>
          (let st = load_lines un (split_on newline content) d
           in (True, p_dir st,
               apply_prices (p_prices st) (apply_holdings (p_holdings st) (apply_cash (p_cash st) e)),
               Some (INFO, ''persistence: restored '' @ show_nat (p_loaded st) @ '' account(s), '' @
                 show_nat (length (p_cash st)) @ '' portfolio(s), '' @ show_nat (length (p_prices st)) @
                 '' symbol price(s) from '' @ path))))"

section \<open>Reading one line back\<close>

lemma space_newline [simp]: "is_space newline" "newline = CHR 0x0A"
  by (simp_all add: newline_def is_space_def)

lemma ends_blank [simp]: "ends_number (CHR '' '' # s)" "ends_number []"
  by (simp_all add: ends_number_def)

lemma get_tags:
  "get_word old (CHR ''A'' # CHR ''C'' # CHR ''C'' # CHR ''O'' # CHR ''U'' # CHR ''N'' # CHR ''T'' # CHR '' '' # s, True) = (''ACCOUNT'', (CHR '' '' # s, True))"
  "get_word old (CHR ''C'' # CHR ''A'' # CHR ''S'' # CHR ''H'' # CHR '' '' # s, True) = (''CASH'', (CHR '' '' # s, True))"
  "get_word old (CHR ''H'' # CHR ''O'' # CHR ''L'' # CHR ''D'' # CHR ''I'' # CHR ''N'' # CHR ''G'' # CHR '' '' # s, True) = (''HOLDING'', (CHR '' '' # s, True))"
  "get_word old (CHR ''P'' # CHR ''R'' # CHR ''I'' # CHR ''C'' # CHR ''E'' # CHR '' '' # s, True) = (''PRICE'', (CHR '' '' # s, True))"
  by (simp_all add: get_word_def is_space_def)

definition int64 :: "int \<Rightarrow> bool" where
  "int64 n \<longleftrightarrow> - (2 ^ 63) \<le> n \<and> n < 2 ^ 63"

definition good_double :: "double \<Rightarrow> bool" where
  "good_double d \<longleftrightarrow> (\<exists>x. d = Fin x \<and> rnd x = Fin x)"

lemma get_int64: "int64 n \<Longrightarrow> ends_number rest \<Longrightarrow> get_int old (show_int n @ rest, True) = (n, (rest, True))"
  by (rule get_int_show) (simp_all add: int64_def)

lemma get_good: "good_double d \<Longrightarrow> get_double old (show_double 17 d, True) = (d, ([], True))"
  using get_double_show[of _ "[]"] by (auto simp: good_double_def simp del: show_double.simps)

lemma load_account_line:
  assumes "is_word (rec_username r)" "int64 (rec_id r)" "is_word (rec_salt r)" "is_word (rec_hash r)"
  shows "load_line un (account_line r) st = st\<lparr>p_dir := import_account r (p_dir st), p_loaded := p_loaded st + 1\<rparr>"
  using assms get_word_show[OF assms(4), of "[]"]
  by (cases r) (simp add: load_line_def account_line_def get_tags load_account_def get_word_show get_int64)

lemma load_cash_line:
  assumes "int64 c" "good_double x"
  shows "load_line un (cash_line c x) st = st\<lparr>p_cash := AList.update c x (p_cash st)\<rparr>"
  using assms by (simp add: load_line_def cash_line_def get_tags get_int64 get_good del: show_double.simps)

lemma load_holding_line:
  assumes "int64 c" "is_word s" "int64 q"
  shows "load_line un (holding_line c s q) st = st\<lparr>p_holdings := p_holdings st @ [(c, s, q)]\<rparr>"
  using assms get_int64[OF assms(3), of "[]"] by (simp add: load_line_def holding_line_def get_tags get_int64 get_word_show)

lemma load_price_line:
  assumes "is_word s" "good_double p"
  shows "load_line un (price_line s p) st = st\<lparr>p_prices := AList.update s p (p_prices st)\<rparr>"
  using assms by (simp add: load_line_def price_line_def get_tags get_good get_word_show del: show_double.simps)

section \<open>No line holds a line break\<close>

lemma newline_word: "is_word w \<Longrightarrow> newline \<notin> set w"
  by (auto simp: is_word_def simp del: space_newline(2))

lemma show_good_no_newline: "good_double d \<Longrightarrow> newline \<notin> set (show_double 17 d)"
proof -
  assume "good_double d"
  have "c \<in> set (show_double 17 d) \<Longrightarrow> \<not> is_space c" for c
    using is_word_show_double[of 17 d] by (simp add: is_word_def)
  then show ?thesis by (metis space_newline(1))
qed

lemmas no_newline = newline_word newline_word[OF is_word_show_int] show_good_no_newline

lemma lines_no_newline:
  "is_word (rec_username r) \<Longrightarrow> is_word (rec_salt r) \<Longrightarrow> is_word (rec_hash r) \<Longrightarrow> newline \<notin> set (account_line r)"
  "good_double x \<Longrightarrow> newline \<notin> set (cash_line c x)"
  "is_word s \<Longrightarrow> newline \<notin> set (holding_line c s q)"
  "is_word s \<Longrightarrow> good_double x \<Longrightarrow> newline \<notin> set (price_line s x)"
  using no_newline by (simp_all add: account_line_def cash_line_def holding_line_def price_line_def del: show_double.simps)

section \<open>Reading the whole snapshot back\<close>

text \<open>What \<open>operator<<\<close> can print so that \<open>operator>>\<close> reads it: names without blanks, 64-bit numbers,
  finite doubles.\<close>

definition printable :: "directory \<Rightarrow> engine \<Rightarrow> bool" where
  "printable d e \<longleftrightarrow>
     um_ok (accounts d) \<and> um_ok (portfolios e) \<and> um_ok (last_prices e) \<and>
     (\<forall>(u, a) \<in> set (accounts d). is_word u \<and> int64 (acc_id a) \<and> is_word (salt_hex a) \<and> is_word (password_hash_hex a)) \<and>
     (\<forall>(c, pf) \<in> set (portfolios e). int64 c \<and> good_double (cash pf) \<and> um_ok (holdings pf) \<and>
        (\<forall>(s, q) \<in> set (holdings pf). is_word s \<and> int64 q)) \<and>
     (\<forall>(s, p) \<in> set (last_prices e). is_word s \<and> good_double p)"

definition held :: "portfolios \<Rightarrow> (client_id \<times> symbol \<times> quantity) list" where
  "held ps = concat (map (\<lambda>(c, pf). map (\<lambda>(s, q). (c, s, q)) (filter (\<lambda>(_, q). q \<noteq> 0) (holdings pf))) ps)"

lemma snapshot_no_newline:
  assumes "printable d e"
  shows "\<forall>l \<in> set (snapshot_lines d e). newline \<notin> set l"
proof -
  have "\<forall>r \<in> set (export_accounts d). is_word (rec_username r) \<and> is_word (rec_salt r) \<and> is_word (rec_hash r)"
    using assms by (auto simp: printable_def export_accounts_def)
  then have "\<forall>l \<in> set (map account_line (export_accounts d)). newline \<notin> set l"
    using lines_no_newline(1) by (simp del: space_newline(2))
  moreover have "\<forall>l \<in> set (portfolio_lines c pf). newline \<notin> set l" if "(c, pf) \<in> set (portfolios e)" for c pf
  proof -
    have "good_double (cash pf)" "\<forall>(s, q) \<in> set (holdings pf). is_word s" using assms that by (auto simp: printable_def)
    then show ?thesis using lines_no_newline(2,3) by (auto simp: portfolio_lines_def simp del: space_newline(2))
  qed
  moreover have "\<forall>l \<in> set (map (\<lambda>(s, p). price_line s p) (last_prices e)). newline \<notin> set l"
  proof -
    have "\<forall>(s, p) \<in> set (last_prices e). is_word s \<and> good_double p" using assms by (auto simp: printable_def)
    then show ?thesis using lines_no_newline(4) by (auto simp del: space_newline(2))
  qed
  ultimately show ?thesis unfolding snapshot_lines_def set_append
    by (auto simp del: space_newline(2) split: prod.splits)
qed

lemma load_account_lines:
  assumes "\<forall>r \<in> set rs. is_word (rec_username r) \<and> int64 (rec_id r) \<and> is_word (rec_salt r) \<and> is_word (rec_hash r)"
  shows "foldl (\<lambda>st l. load_line un l st) st (map account_line rs) =
    st\<lparr>p_dir := import_all rs (p_dir st), p_loaded := p_loaded st + length rs\<rparr>"
  using assms by (induction rs arbitrary: st) (auto simp: load_account_line import_all_def)

lemma load_holding_lines:
  assumes "int64 c" "\<forall>(s, q) \<in> set hs. is_word s \<and> int64 q"
  shows "foldl (\<lambda>st l. load_line un l st) st (map (\<lambda>(s, q). holding_line c s q) hs) =
    st\<lparr>p_holdings := p_holdings st @ map (\<lambda>(s, q). (c, s, q)) hs\<rparr>"
  using assms by (induction hs arbitrary: st) (auto simp: load_holding_line)

lemma load_portfolio_lines:
  assumes "\<forall>(c, pf) \<in> set ps. int64 c \<and> good_double (cash pf) \<and> (\<forall>(s, q) \<in> set (holdings pf). is_word s \<and> int64 q)"
  shows "foldl (\<lambda>st l. load_line un l st) st (concat (map (\<lambda>(c, pf). portfolio_lines c pf) ps)) =
    st\<lparr>p_cash := foldl (\<lambda>m (c, pf). AList.update c (cash pf) m) (p_cash st) ps, p_holdings := p_holdings st @ held ps\<rparr>"
  using assms
proof (induction ps arbitrary: st)
  case (Cons x ps)
  obtain c pf where x: "x = (c, pf)" by (cases x)
  have h: "\<forall>(s, q) \<in> set (filter (\<lambda>(_, q). q \<noteq> 0) (holdings pf)). is_word s \<and> int64 q" using Cons.prems x by auto
  have "foldl (\<lambda>st l. load_line un l st) st (portfolio_lines c pf) =
      st\<lparr>p_cash := AList.update c (cash pf) (p_cash st),
        p_holdings := p_holdings st @ map (\<lambda>(s, q). (c, s, q)) (filter (\<lambda>(_, q). q \<noteq> 0) (holdings pf))\<rparr>"
    using Cons.prems x load_holding_lines[OF _ h, of c un] by (simp add: portfolio_lines_def load_cash_line)
  then show ?case using Cons x by (simp add: held_def)
qed (simp add: held_def)

lemma load_price_lines:
  assumes "\<forall>(s, p) \<in> set ps. is_word s \<and> good_double p"
  shows "foldl (\<lambda>st l. load_line un l st) st (map (\<lambda>(s, p). price_line s p) ps) =
    st\<lparr>p_prices := foldl (\<lambda>m (s, p). AList.update s p m) (p_prices st) ps\<rparr>"
  using assms by (induction ps arbitrary: st) (auto simp: load_price_line)

lemma rebuild_map:
  assumes "um_ok (m @ map (\<lambda>(k, v). (k, f v)) ps)"
  shows "foldl (\<lambda>m (k, v). AList.update k (f v) m) m ps = m @ map (\<lambda>(k, v). (k, f v)) ps"
  using assms
proof (induction ps arbitrary: m)
  case (Cons x ps)
  obtain k v where x: "x = (k, v)" by (cases x)
  then have "k \<notin> fst ` set m" using Cons.prems by auto
  then show ?case using Cons x by (simp add: update_fresh)
qed simp

lemma keys_map_values [simp]: "map fst (map (\<lambda>(k, v). (k, f v)) ps) = map fst ps"
  by (induction ps) auto

lemma load_snapshot:
  assumes "printable d e"
  shows "load_lines un (snapshot_lines d e) d0 =
    \<lparr>p_dir = import_all (export_accounts d) d0, p_loaded = length (export_accounts d), p_holdings = held (portfolios e),
      p_prices = last_prices e, p_cash = map (\<lambda>(c, pf). (c, cash pf)) (portfolios e)\<rparr>"
proof -
  have um: "um_ok (portfolios e)" "um_ok (last_prices e)" using assms by (simp_all add: printable_def)
  have 1: "\<forall>r \<in> set (export_accounts d). is_word (rec_username r) \<and> int64 (rec_id r) \<and> is_word (rec_salt r) \<and> is_word (rec_hash r)"
    using assms by (auto simp: printable_def export_accounts_def)
  have 2: "\<forall>(c, pf) \<in> set (portfolios e). int64 c \<and> good_double (cash pf) \<and> (\<forall>(s, q) \<in> set (holdings pf). is_word s \<and> int64 q)"
    using assms by (auto simp: printable_def)
  have 3: "\<forall>(s, p) \<in> set (last_prices e). is_word s \<and> good_double p" using assms by (auto simp: printable_def)
  have p: "foldl (\<lambda>m (s, p). AList.update s p m) [] (last_prices e) = last_prices e"
    using rebuild_map[of "[]" "\<lambda>p. p" "last_prices e"] um(2) by simp
  have c: "foldl (\<lambda>m (c, pf). AList.update c (cash pf) m) [] (portfolios e) = map (\<lambda>(c, pf). (c, cash pf)) (portfolios e)"
    using rebuild_map[of "[]" cash "portfolios e"] keys_map_values[of cash "portfolios e"] um(1)
    by (simp del: map_map keys_map_values)
  show ?thesis
    by (simp add: load_lines_def snapshot_lines_def load_account_lines[OF 1] load_portfolio_lines[OF 2]
        load_price_lines[OF 3] p c)
qed

section \<open>The rebuilt engine\<close>

lemma apply_cash_new:
  assumes "um_ok (m @ cs)" "portfolios e = map (\<lambda>(c, x). (c, \<lparr>cash = x, holdings = []\<rparr>)) m"
  shows "apply_cash cs e = e\<lparr>portfolios := map (\<lambda>(c, x). (c, \<lparr>cash = x, holdings = []\<rparr>)) (m @ cs)\<rparr>"
  using assms
proof (induction cs arbitrary: m e)
  case Nil
  then show ?case by (simp add: apply_cash_def)
next
  case (Cons y cs)
  obtain c x where y: "y = (c, x)" by (cases y)
  have "map_of m c = None" using Cons.prems(1) y by (simp add: map_of_eq_None_iff)
  then have "map_of (portfolios e) c = None" using Cons.prems(2) by (auto simp: map_of_eq_None_iff image_iff split: prod.splits)
  then have p: "portfolios (ensure_client c x e) = map (\<lambda>(c, x). (c, \<lparr>cash = x, holdings = []\<rparr>)) (m @ [y])"
    using Cons.prems(2) y by (simp add: ensure_client_def ensure_portfolio_def um_emplace_def)
  have "apply_cash cs (ensure_client c x e) =
      (ensure_client c x e)\<lparr>portfolios := map (\<lambda>(c, x). (c, \<lparr>cash = x, holdings = []\<rparr>)) ((m @ [y]) @ cs)\<rparr>"
    by (rule Cons.IH[OF _ p]) (use Cons.prems(1) in simp)
  then show ?case using y by (simp add: apply_cash_def ensure_client_def)
qed

definition granted :: "client_id \<Rightarrow> symbol \<Rightarrow> (client_id \<times> symbol \<times> quantity) list \<Rightarrow> quantity" where
  "granted c s hs = sum_list (map (\<lambda>(c', s', q). if c' = c \<and> s' = s then q else 0) hs)"

lemma apply_holdings_view:
  assumes "\<forall>(c, s, q) \<in> set hs. um_contains (portfolios e) c"
  shows "cash (um_get empty_portfolio (portfolios (apply_holdings hs e)) c) = cash (um_get empty_portfolio (portfolios e) c) \<and>
    holding (um_get empty_portfolio (portfolios (apply_holdings hs e)) c) s =
      holding (um_get empty_portfolio (portfolios e) c) s + granted c s hs \<and>
    dom (map_of (portfolios (apply_holdings hs e))) = dom (map_of (portfolios e)) \<and>
    last_prices (apply_holdings hs e) = last_prices e \<and> books (apply_holdings hs e) = books e"
  using assms
proof (induction hs arbitrary: e)
  case Nil
  then show ?case by (simp add: apply_holdings_def granted_def)
next
  case (Cons h hs)
  obtain c' s' q where h: "h = (c', s', q)" by (cases h)
  let ?e = "grant_initial_holdings c' s' q e"
  have "um_contains (portfolios e) c'" using Cons.prems h by simp
  then have en: "ensure_client c' 0 e = e" by (auto simp: ensure_client_def ensure_portfolio_def um_emplace_def)
  have pf: "portfolios ?e = um_modify empty_portfolio c' (add_holding s' q) (portfolios e)"
    "last_prices ?e = last_prices e" "books ?e = books e"
    by (simp_all add: grant_initial_holdings_def grant_holdings_def)
  have d: "dom (map_of (portfolios ?e)) = dom (map_of (portfolios e))"
    using \<open>um_contains (portfolios e) c'\<close> by (auto simp: pf map_of_modify)
  have "\<forall>(c, s, q) \<in> set hs. um_contains (portfolios ?e) c" using Cons.prems by (auto simp: pf map_of_modify)
  from Cons.IH[OF this] show ?case
    using d pf en by (simp add: h apply_holdings_def um_get_modify granted_def)
qed

lemma apply_prices_view:
  "portfolios (apply_prices ps e) = portfolios e \<and>
     (um_ok (m @ ps) \<longrightarrow> last_prices e = m \<longrightarrow> last_prices (apply_prices ps e) = m @ ps)"
proof (induction ps arbitrary: e m)
  case (Cons x ps)
  obtain s p where x: "x = (s, p)" by (cases x)
  have "um_ok (m @ x # ps) \<Longrightarrow> s \<notin> fst ` set m" using x by auto
  then show ?case using Cons[of "register_symbol s p e" "m @ [x]"] x
    by (auto simp: apply_prices_def register_symbol_def update_fresh)
qed (simp add: apply_prices_def)

text \<open>A price of the snapshot replaces the price of its symbol; symbols it does not name keep theirs.\<close>

lemma apply_prices_map:
  "um_ok ps \<Longrightarrow> map_of (last_prices (apply_prices ps e)) = map_of (last_prices e) ++ map_of ps"
proof (induction ps arbitrary: e)
  case (Cons x ps)
  obtain s p where x: "x = (s, p)" by (cases x)
  have n: "map_of ps s = None" using Cons.prems x by (simp add: map_of_eq_None_iff)
  have st: "apply_prices (x # ps) e = apply_prices ps (register_symbol s p e)" by (simp add: apply_prices_def x)
  have "map_of (last_prices (apply_prices ps (register_symbol s p e))) = map_of (last_prices (register_symbol s p e)) ++ map_of ps"
    by (rule Cons.IH) (use Cons.prems in simp)
  also have "\<dots> = map_of (last_prices e) ++ map_of (x # ps)"
    using n x by (auto simp: register_symbol_def map_add_def fun_eq_iff split: option.splits)
  finally show ?case unfolding st .
qed (simp add: apply_prices_def)

lemma granted_append: "granted c s (as @ bs) = granted c s as + granted c s bs"
  by (simp add: granted_def)

lemma granted_other: "c' \<noteq> c \<Longrightarrow> granted c s (map (\<lambda>(s, q). (c', s, q)) hs) = 0"
  by (induction hs) (auto simp: granted_def)

lemma granted_own:
  "um_ok hs \<Longrightarrow> granted c s (map (\<lambda>(s, q). (c, s, q)) (filter (\<lambda>(_, q). q \<noteq> 0) hs)) = um_get 0 hs s"
proof (induction hs)
  case (Cons h hs)
  obtain s' q where h: "h = (s', q)" by (cases h)
  have "s' = s \<Longrightarrow> map_of hs s = None" using Cons.prems h by (auto simp: map_of_eq_None_iff)
  then show ?case using Cons h by (auto simp: granted_def um_get_def)
qed (simp add: granted_def um_get_def)

lemma granted_held:
  assumes "um_ok ps" "\<forall>(c, pf) \<in> set ps. um_ok (holdings pf)"
  shows "granted c s (held ps) = holding (um_get empty_portfolio ps c) s"
  using assms
proof (induction ps)
  case Nil
  then show ?case by (simp add: held_def granted_def um_get_def)
next
  case (Cons x ps)
  obtain c' pf where x: "x = (c', pf)" by (cases x)
  have split: "held (x # ps) = map (\<lambda>(s, q). (c', s, q)) (filter (\<lambda>(_, q). q \<noteq> 0) (holdings pf)) @ held ps"
    by (simp add: held_def x)
  have n: "c' = c \<Longrightarrow> map_of ps c = None" using Cons.prems(1) x by (auto simp: map_of_eq_None_iff)
  have ih: "granted c s (held ps) = holding (um_get empty_portfolio ps c) s" using Cons by simp
  show ?case
  proof (cases "c' = c")
    case True
    have "granted c s (held ps) = 0" using ih n True by (simp add: um_get_def)
    moreover have "um_get empty_portfolio (x # ps) c = pf" using True x by (simp add: um_get_def)
    ultimately show ?thesis using granted_own[of "holdings pf" c s] Cons.prems(2) x True
      unfolding split granted_append by (simp add: holding_def)
  next
    case False
    have "um_get empty_portfolio (x # ps) c = um_get empty_portfolio ps c" using False x by (simp add: um_get_def)
    then show ?thesis using ih granted_other[OF False] unfolding split granted_append by simp
  qed
qed

lemma map_of_map_values: "map_of (map (\<lambda>(k, v). (k, f v)) m) k = map_option f (map_of m k)"
  by (induction m) auto

lemma held_known: "(c, s, q) \<in> set (held ps) \<Longrightarrow> um_contains ps c"
proof (induction ps)
  case (Cons x ps)
  obtain c' pf where x: "x = (c', pf)" by (cases x)
  have "held (x # ps) = map (\<lambda>(s, q). (c', s, q)) (filter (\<lambda>(_, q). q \<noteq> 0) (holdings pf)) @ held ps"
    by (simp add: held_def x)
  then show ?case using Cons x by (cases "c = c'") auto
qed (simp add: held_def)

text \<open>The whole round trip.\<close>

lemma load_save_into:
  assumes ok: "printable d e" and fl: "map_of fs path = Some (snapshot_text d e)"
    and r: "load un path fs new_directory e0 = (found, d', e', lg)" and e0: "portfolios e0 = []"
  shows "found \<and> accounts d' = accounts d \<and> (\<forall>(_, a) \<in> set (accounts d). acc_id a < next_client_id d') \<and>
    map_of (last_prices e') = map_of (last_prices e0) ++ map_of (last_prices e) \<and>
    (last_prices e0 = [] \<longrightarrow> last_prices e' = last_prices e) \<and>
    dom (map_of (portfolios e')) = dom (map_of (portfolios e)) \<and>
    cash (portfolio_snapshot e' c) = cash (portfolio_snapshot e c) \<and>
    holding (portfolio_snapshot e' c) s = holding (portfolio_snapshot e c) s"
proof -
  have um: "um_ok (portfolios e)" "um_ok (last_prices e)" "um_ok (accounts d)" and
    hs: "\<forall>(c, pf) \<in> set (portfolios e). um_ok (holdings pf)" using ok by (auto simp: printable_def)
  define ps where "ps = portfolios e"
  let ?cs = "map (\<lambda>(c, pf). (c, cash pf)) ps"
  have lines: "split_on newline (snapshot_text d e) = snapshot_lines d e"
    unfolding snapshot_text_def by (rule split_on_lines[OF snapshot_no_newline[OF ok]])
  have e': "e' = apply_prices (last_prices e) (apply_holdings (held ps) (apply_cash ?cs e0))"
    and d': "d' = import_all (export_accounts d) new_directory" and found: found
    using r unfolding load_def fl option.case Let_def lines load_snapshot[OF ok] ps_def by simp_all
  let ?e1 = "apply_cash ?cs e0"
  have "um_ok ([] @ ?cs)" using um(1) keys_map_values[of cash ps] by (simp add: ps_def del: map_map keys_map_values)
  from apply_cash_new[OF this, of e0]
  have p1: "portfolios ?e1 = map (\<lambda>(c, pf). (c, \<lparr>cash = cash pf, holdings = []\<rparr>)) ps"
    and l1: "last_prices ?e1 = last_prices e0" using e0 by auto
  have m1: "map_of (portfolios ?e1) c = map_option (\<lambda>pf. \<lparr>cash = cash pf, holdings = []\<rparr>) (map_of ps c)" for c
    unfolding p1 by (rule map_of_map_values)
  have "\<forall>(c, s, q) \<in> set (held ps). um_contains (portfolios ?e1) c"
    using held_known[of _ _ _ ps] by (auto simp: m1)
  note h = apply_holdings_view[OF this, of c s]
  have pr: "portfolios e' = portfolios (apply_holdings (held ps) ?e1)"
    "map_of (last_prices e') = map_of (last_prices e0) ++ map_of (last_prices e)"
    "last_prices e0 = [] \<longrightarrow> last_prices e' = last_prices e"
    using apply_prices_view[of "last_prices e" "apply_holdings (held ps) ?e1" "[]"] h l1 um(2) e'
      apply_prices_map[OF um(2), of "apply_holdings (held ps) ?e1"] by simp_all
  have g1: "cash (um_get empty_portfolio (portfolios ?e1) c) = cash (um_get empty_portfolio ps c)"
    "holding (um_get empty_portfolio (portfolios ?e1) c) s = 0"
    by (simp_all add: um_get_def m1 holding_def empty_portfolio_def split: option.splits)
  have acc: "accounts d' = accounts d"
    using import_export[of "[]" "accounts d" new_directory "dir_tokens d" "next_client_id d"] um(3)
    by (cases d) (simp add: d' new_directory_def)
  have nx: "\<forall>(_, a) \<in> set (accounts d). acc_id a < next_client_id d'"
    using import_all_next[of new_directory "export_accounts d"] by (force simp: d' export_accounts_def)
  have "dom (map_of (portfolios ?e1)) = dom (map_of ps)" by (auto simp: m1)
  then show ?thesis using found acc nx pr h g1 granted_held[OF um(1) hs, of c s]
    by (simp add: portfolio_snapshot_def ps_def)
qed

lemma load_save:
  assumes "printable d e" "map_of fs path = Some (snapshot_text d e)"
    "load un path fs new_directory new_engine = (found, d', e', lg)"
  shows "found \<and> accounts d' = accounts d \<and> (\<forall>(_, a) \<in> set (accounts d). acc_id a < next_client_id d') \<and>
    last_prices e' = last_prices e \<and> dom (map_of (portfolios e')) = dom (map_of (portfolios e)) \<and>
    cash (portfolio_snapshot e' c) = cash (portfolio_snapshot e c) \<and>
    holding (portfolio_snapshot e' c) s = holding (portfolio_snapshot e c) s"
  using load_save_into[OF assms, of c s] by (simp add: new_engine_def)

text \<open>Whatever the file holds, the directory loaded from it is a map, has no tokens, and hands out ids
  above all those it holds.\<close>

definition dir_loaded :: "directory \<Rightarrow> bool" where
  "dir_loaded d \<longleftrightarrow> um_ok (accounts d) \<and> dir_tokens d = [] \<and> (\<forall>(_, a) \<in> set (accounts d). acc_id a < next_client_id d)"

lemma new_dir_loaded: "dir_loaded new_directory"
  by (simp add: dir_loaded_def new_directory_def)

lemma import_dir_loaded:
  assumes "dir_loaded d"
  shows "dir_loaded (import_account r d)"
proof -
  have um: "um_ok (accounts (import_account r d))" using assms import_um_ok by (simp add: dir_loaded_def)
  have "acc_id a < next_client_id (import_account r d)" if "(u, a) \<in> set (accounts (import_account r d))" for u a
  proof -
    have "map_of (accounts (import_account r d)) u = Some a" by (rule map_of_is_SomeI[OF um that])
    then have "acc_id a = rec_id r \<or> (u, a) \<in> set (accounts d)"
      by (auto simp: import_accounts split: if_splits dest: map_of_SomeD)
    then show ?thesis using assms import_next[of d r] by (fastforce simp: dir_loaded_def)
  qed
  then show ?thesis using assms um import_keeps by (auto simp: dir_loaded_def)
qed

lemma load_dir_loaded:
  assumes "load un path fs new_directory e0 = (found, d', e', lg)"
  shows "dir_loaded d'"
proof -
  have "dir_loaded (p_dir st) \<Longrightarrow> dir_loaded (p_dir (foldl (\<lambda>st l. load_line un l st) st ls))" for st ls
    by (induction ls arbitrary: st) (simp_all add: load_line_def Let_def import_dir_loaded split: prod.splits)
  then show ?thesis using assms new_dir_loaded by (auto simp: load_def load_lines_def Let_def split: option.splits)
qed

lemma save_outcome:
  assumes "save io path d e fs = (ok, fs', lg)"
  shows "(ok \<longrightarrow> map_of fs' path = Some (snapshot_text d e)) \<and> (\<not> ok \<longrightarrow> map_of fs' path = map_of fs path) \<and>
    (\<forall>q. q \<noteq> path \<longrightarrow> q \<noteq> tmp_path path \<longrightarrow> map_of fs' q = map_of fs q) \<and>
    (ok \<longleftrightarrow> can_open io \<and> can_write io \<and> can_rename io)"
proof -
  have "tmp_path path \<noteq> path" by (simp add: tmp_path_def)
  then show ?thesis using assms by (auto simp: save_def Let_def split: if_splits)
qed

end
