(* ===== verification/AppProps.thy ===== *)
theory AppProps
  imports SimFacts Persistence ServerProps
begin

text \<open>The properties of the simulation, of its bots and of the snapshot file.\<close>

section \<open>The simulation\<close>

text \<open>A small market: two symbols, one bot of each kind.\<close>

definition small_config :: simulation_config where
  "small_config = default_config\<lparr>
     cfg_symbols := [\<lparr>sc_symbol = ''AAA'', sc_price = Fin 100, sc_volatility = Fin (1 / 4)\<rparr>,
                     \<lparr>sc_symbol = ''BBB'', sc_price = Fin 50, sc_volatility = Fin (1 / 2)\<rparr>],
     noise_traders := 1, momentum_traders := 1, market_makers := 1\<rparr>"

lemma small_config_sane: "sane_config small_config"
  by (simp add: sane_config_def small_config_def all_symbols_def default_config_def)

lemma small_symbols: "all_symbols small_config = [''AAA'', ''BBB'']"
  by (simp add: small_config_def all_symbols_def)

text \<open>C25. A simulation never creates or destroys shares and never breaks the engine: after any interleaving
of bot ticks, bus deliveries and release scans, whatever the bots draw, the engine is sound, each
symbol has as many shares as the bots were given, no price is NaN, and no bot's next tick throws.\<close>

theorem simulation_stays_sound:
  assumes "sim_reachable cfg w y" "sane_config cfg"
  shows "engine_inv (sim_engine y) \<and>
    shares s (portfolios (sim_engine y)) =
      int (nat (noise_traders cfg) + nat (momentum_traders cfg) + nat (market_makers cfg)) *
        (int (count_list (all_symbols cfg) s) * bot_initial_shares cfg) \<and>
    last_price (sim_engine y) s \<noteq> NaN \<and> md_last_price (sim_market y) s \<noteq> NaN \<and>
    (room_for_ids (sim_engine y) \<longrightarrow> (\<forall>k dr. run_bot_tick cfg dr k y \<noteq> None))"
proof -
  note inv = sim_reachable_inv[OF assms]
  have "last_price (sim_engine y) s \<noteq> NaN \<and> md_last_price (sim_market y) s \<noteq> NaN"
    using inv by (auto simp: sim_inv_def real_prices_def real_feed_def last_price_def md_last_price_def um_get_def
        split: option.splits)
  moreover have "room_for_ids (sim_engine y) \<longrightarrow> (\<forall>k dr. run_bot_tick cfg dr k y \<noteq> None)"
    using inv tick_inv_sim[of cfg y] by (metis option.distinct(1))
  ultimately show ?thesis using inv by (auto simp: sim_inv_def shares_given_def)
qed

theorem simulation_stays_sound_witness:
  "sane_config small_config \<and>
   shares ''AAA'' (portfolios (sim_engine (sim_deliver 1000 (new_simulation small_config)))) = 300"
proof -
  have r: "sim_reachable small_config 1000 (sim_deliver 1000 (new_simulation small_config))"
    by (rule sim_next[OF sim_start sim_event])
  have n: "noise_traders small_config = 1" "momentum_traders small_config = 1" "market_makers small_config = 1"
    "bot_initial_shares small_config = 100"
    by (simp_all add: small_config_def default_config_def)
  show ?thesis
    using simulation_stays_sound[OF r small_config_sane, of "''AAA''"] small_config_sane by (simp add: small_symbols n)
qed

text \<open>C26. The requests the bots make are never refused as malformed: for a registered symbol, a positive
reference price and a quantity of at least one, each request of the three strategies passes the
engine's validation.\<close>

theorem bot_requests_are_valid:
  assumes "symbol_exists e s" "1 \<le> q" "0 < p" "p = PosInf \<or> (\<exists>x. p = Fin x \<and> 2 powi (- 1074) \<le> x)"
    "nd_qty dn = q" "mo_qty dm = q"
  shows "\<forall>rq \<in> {noise_request dn c vols s p, momentum_order c s change q, momentum_stop dm c vols s change p,
      maker_quote c BUY s q (maker_bid kSpreadFraction p), maker_quote c SELL s q (maker_ask kSpreadFraction p)}.
    reject_text rq e = []"
proof -
  have "well_formed e (noise_request dn c vols s p)"
    using noise_well_formed[of e s dn p c vols] assms by simp
  moreover have "well_formed e (momentum_order c s change q)" "well_formed e (momentum_stop dm c vols s change p)"
    using momentum_well_formed[of e s dm c change vols p] assms by simp_all
  moreover have "well_formed e (maker_quote c BUY s q (maker_bid kSpreadFraction p))"
    using assms floor_price_ok by (intro well_formed_limit) (simp_all add: bot_requests maker_bid_def)
  moreover have "well_formed e (maker_quote c SELL s q (maker_ask kSpreadFraction p))"
    using assms maker_ask_ok[OF assms(4), of "5764607523034235 * 2 powi (- 59)"]
    by (intro well_formed_limit) (simp_all add: bot_requests kSpreadFraction_def cent)
  ultimately show ?thesis by (simp add: well_formed_def)
qed

definition some_noise :: noise_draws where
  "some_noise = \<lparr>nd_symbol = 0, nd_buy = False, nd_qty = 3, nd_kind = 2, nd_real = (\<lambda>lo hi. hi), nd_real2 = (\<lambda>lo hi. lo),
     nd_expiry = Some 30\<rparr>"

definition some_momentum :: momentum_draws where
  "some_momentum = \<lparr>mo_symbol = 0, mo_qty = 3, mo_real = (\<lambda>lo hi. lo)\<rparr>"

theorem bot_requests_are_valid_witness:
  "reject_text (noise_request some_noise 1 [] ''AAA'' (Fin 100)) demo_engine = [] \<and>
   reject_text (momentum_stop some_momentum 1 [] ''AAA'' (Fin 2) (Fin 100)) demo_engine = []"
proof -
  have "(2::rat) powi (- 1074) \<le> 2 powi 0" by (rule power_int_increasing) auto
  then have p: "Fin 100 = PosInf \<or> (\<exists>x. Fin 100 = Fin x \<and> 2 powi (- 1074) \<le> x)" by simp
  have s: "symbol_exists demo_engine ''AAA''" by (simp add: demo_engine_eq symbol_exists_def)
  show ?thesis
    using bot_requests_are_valid[OF s _ _ p, of 3 some_noise some_momentum]
    by (simp add: some_noise_def some_momentum_def)
qed

text \<open>The final ranking lists every client once with its net worth, the richest first.\<close>

theorem leaderboard_ranks_all_clients:
  assumes "\<forall>i \<in> {1..<n}. net_worth (portfolio_snapshot e i) (last_prices e) \<noteq> NaN"
  shows "sorted_wrt (\<lambda>a b. snd b \<le> snd a) (leaderboard e n) \<and>
    mset (leaderboard e n) = mset (map (\<lambda>i. (i, net_worth (portfolio_snapshot e i) (last_prices e))) [1..n - 1])"
proof -
  let ?xs = "map (\<lambda>i. (i, net_worth (portfolio_snapshot e i) (last_prices e))) [1..n - 1]"
  have "\<forall>x \<in> set xs. snd x \<noteq> NaN \<Longrightarrow> sorted_wrt (\<lambda>a b. snd b \<le> snd a) (foldr insert_by_worth xs []) \<and>
      mset (foldr insert_by_worth xs []) = mset xs" for xs
  proof (induction xs)
    case (Cons x xs)
    then have IH: "sorted_wrt (\<lambda>a b. snd b \<le> snd a) (foldr insert_by_worth xs [])"
      "mset (foldr insert_by_worth xs []) = mset xs" by simp_all
    have "\<forall>y \<in> set (foldr insert_by_worth xs []). snd y \<noteq> NaN"
      using Cons.prems mset_eq_setD[OF IH(2)] by simp
    then show ?case using Cons.prems IH insert_by_worth_sorted[OF IH(1), of x] by (simp add: insert_by_worth_mset)
  qed simp
  from this[of ?xs] show ?thesis using assms by (auto simp: leaderboard_def)
qed

theorem leaderboard_ranks_all_clients_witness:
  "(\<forall>i \<in> {1..<3}. net_worth (portfolio_snapshot demo_engine i) (last_prices demo_engine) \<noteq> NaN) \<and>
   mset (leaderboard demo_engine 3) = {#(1, Fin 1000), (2, Fin 1000)#}"
proof -
  have w: "net_worth (portfolio_snapshot demo_engine 1) (last_prices demo_engine) = Fin 1000"
    "net_worth (portfolio_snapshot demo_engine 2) (last_prices demo_engine) = Fin 1000"
    by (simp_all add: demo_engine_eq portfolio_snapshot_def um_get_def net_worth_def dbl_of_int_def)
  have i: "i = 1 \<or> i = 2" if "i \<in> {1..<3}" for i :: int using that by auto
  have a: "\<forall>i \<in> {1..<3}. net_worth (portfolio_snapshot demo_engine i) (last_prices demo_engine) \<noteq> NaN"
    using w i by (metis double.distinct(5))
  have "[1..3 - 1] = [1, 2::int]" by (simp add: upto.simps)
  then show ?thesis using leaderboard_ranks_all_clients[OF a] a w by simp
qed

section \<open>The snapshot file\<close>

text \<open>C24. A restart loses nothing the snapshot covers: loading the file a successful save wrote, into a
fresh server, brings back every account, every portfolio's cash and holdings and every last price
exactly (doubles included), and new client ids start above the restored ones.\<close>

theorem restart_restores_the_snapshot:
  assumes "printable d e" "save io path d e fs = (True, fs', lg)"
    "load un path fs' new_directory new_engine = (found, d', e', lg')"
  shows "found \<and> accounts d' = accounts d \<and> (\<forall>(_, a) \<in> set (accounts d). acc_id a < next_client_id d') \<and>
    last_prices e' = last_prices e \<and> dom (map_of (portfolios e')) = dom (map_of (portfolios e)) \<and>
    cash (portfolio_snapshot e' c) = cash (portfolio_snapshot e c) \<and>
    holding (portfolio_snapshot e' c) s = holding (portfolio_snapshot e c) s"
proof -
  have "map_of fs' path = Some (snapshot_text d e)" using save_outcome[OF assms(2)] by simp
  from load_save[OF assms(1) this assms(3)] show ?thesis .
qed

definition all_well :: io_answers where
  "all_well = \<lparr>can_open = True, can_write = True, can_rename = True\<rparr>"

theorem restart_restores_the_snapshot_witness:
  "printable new_directory demo_engine \<and>
   (\<exists>fs' lg d' e' lg'. save all_well ''state'' new_directory demo_engine [] = (True, fs', lg) \<and>
      load (0, 0) ''state'' fs' new_directory new_engine = (True, d', e', lg') \<and>
      last_prices e' = [(''AAA'', Fin 100)] \<and> holding (portfolio_snapshot e' 1) ''AAA'' = 10)"
proof -
  have p: "printable new_directory demo_engine"
    by (simp add: printable_def demo_engine_eq new_directory_def good_double_def int64_def is_word_def is_space_def)
  obtain fs' lg where s: "save all_well ''state'' new_directory demo_engine [] = (True, fs', lg)"
    by (simp add: save_def Let_def all_well_def)
  obtain found d' e' lg' where l: "load (0, 0) ''state'' fs' new_directory new_engine = (found, d', e', lg')"
    by (metis prod_cases4)
  from restart_restores_the_snapshot[OF p s l, of 1 "''AAA''"]
  have "found" "last_prices e' = [(''AAA'', Fin 100)]" "holding (portfolio_snapshot e' 1) ''AAA'' = 10"
    by (simp_all add: demo_engine_eq portfolio_snapshot_def um_get_def holding_def)
  moreover from this(1) have "load (0, 0) ''state'' fs' new_directory new_engine = (True, d', e', lg')" using l by simp
  ultimately show ?thesis using p s by blast
qed

text \<open>A save is all or nothing: whichever of opening, writing and renaming the temporary file fails, the
snapshot file is either the complete new one or untouched, the temporary file is gone afterwards
unless it could not even be opened, and no other file changes.\<close>

theorem save_is_all_or_nothing:
  "case save io path d e fs of (ok, fs', lg) \<Rightarrow>
     map_of fs' path = (if ok then Some (snapshot_text d e) else map_of fs path) \<and>
     (ok = (can_open io \<and> can_write io \<and> can_rename io)) \<and>
     map_of fs' (tmp_path path) = (if can_open io then None else map_of fs (tmp_path path)) \<and>
     (q = path \<or> q = tmp_path path \<or> map_of fs' q = map_of fs q)"
proof -
  have "tmp_path path \<noteq> path" by (simp add: tmp_path_def)
  then show ?thesis by (auto simp: save_def Let_def)
qed

end
