(* ===== verification/Recorder.thy ===== *)
theory Recorder
  imports MatchingEngine Reports "HOL-Library.Char_ord" "HOL-Library.List_Lexorder"
begin

text \<open>
  \<open>MarketRecorder\<close> (\<open>Src_Simulation/src/market_recorder.cpp\<close>, \<open>include/market_recorder.hpp\<close>): what it
  records of the event stream, the samples it takes of prices, books and portfolios, and the ten CSV
  files of the final report. \<open>std::map\<close> and \<open>std::sort\<close> over strings use the lexicographic order of
  the characters; the unordered maps keep their iteration order as the order of an association list.
  Clock readings are arguments, and so is which files the system lets the report open.
\<close>

section \<open>State\<close>

record recorder_config =
  rc_output_dir :: string
  rc_file_suffix :: string
  rc_sample_interval :: int
  rc_book_depth :: nat

definition recorder_defaults :: recorder_config where
  "recorder_defaults = \<lparr>rc_output_dir = [], rc_file_suffix = [], rc_sample_interval = 250, rc_book_depth = 10\<rparr>"

record trade_row =
  row_elapsed :: double
  row_trade :: trade

record price_sample =
  ps_elapsed :: double
  ps_symbol :: symbol
  ps_last :: price
  ps_bid :: price
  ps_ask :: price
  ps_bid_depth :: quantity
  ps_ask_depth :: quantity

record portfolio_sample =
  pf_elapsed :: double
  pf_client :: client_id
  pf_cash :: double
  pf_worth :: double

record first_seen =
  fs_elapsed :: double
  fs_cash :: double
  fs_worth :: double

record recorder =
  rec_start :: time
  rec_subscribed :: bool
  rec_trades :: "trade_row list"
  rejections_by_reason :: "(string \<times> 64 word) list"
  queued_events :: "64 word"
  expired_events :: "64 word"
  price_samples :: "price_sample list"
  portfolio_samples :: "portfolio_sample list"
  initial_prices :: "(symbol \<times> price) list"
  seen_first :: "(client_id \<times> first_seen) list"
  rec_running :: bool

definition new_recorder :: "time \<Rightarrow> recorder" where
  "new_recorder now = \<lparr>rec_start = now, rec_subscribed = False, rec_trades = [], rejections_by_reason = [],
     queued_events = 0, expired_events = 0, price_samples = [], portfolio_samples = [], initial_prices = [],
     seen_first = [], rec_running = False\<rparr>"

section \<open>Recording\<close>

text \<open>\<open>duration<double, std::milli>\<close> of a nanosecond count.\<close>

definition rec_elapsed_ms :: "recorder \<Rightarrow> time \<Rightarrow> double" where
  "rec_elapsed_ms r t = dbl_of_int (t - rec_start r) div dbl_of_int (10 ^ 6)"

text \<open>\<open>++m[key]\<close> in a \<open>std::map\<close>: the keys stay in order.\<close>

fun bump_sorted :: "string \<Rightarrow> (string \<times> 64 word) list \<Rightarrow> (string \<times> 64 word) list" where
  "bump_sorted k [] = [(k, 1)]"
| "bump_sorted k ((k', n) # m) =
     (if k = k' then (k', n + 1) # m else if k < k' then (k, 1) # (k', n) # m else (k', n) # bump_sorted k m)"

fun rec_on_event :: "event \<Rightarrow> recorder \<Rightarrow> recorder" where
  "rec_on_event (TradeEvent t) r =
     r\<lparr>rec_trades := rec_trades r @ [\<lparr>row_elapsed = rec_elapsed_ms r (timestamp t), row_trade = t\<rparr>]\<rparr>"
| "rec_on_event (OrderRejectedEvent i c reason) r =
     r\<lparr>rejections_by_reason := bump_sorted reason (rejections_by_reason r)\<rparr>"
| "rec_on_event (OrderQueuedEvent i c s) r = r\<lparr>queued_events := queued_events r + 1\<rparr>"
| "rec_on_event (OrderExpiredEvent i c s) r = r\<lparr>expired_events := expired_events r + 1\<rparr>"
| "rec_on_event (OrderAcceptedEvent i c s) r = r"

definition snapshot_of :: "engine \<Rightarrow> symbol \<Rightarrow> nat \<Rightarrow> book_snapshot" where
  "snapshot_of e s depth =
     (case engine_snapshot e s depth of None \<Rightarrow> \<lparr>snap_bids = [], snap_asks = []\<rparr> | Some snap \<Rightarrow> snap)"

definition depth_of :: "book_level list \<Rightarrow> quantity" where
  "depth_of levels = foldl (\<lambda>d l. d + lv_quantity l) 0 levels"

definition front_price :: "book_level list \<Rightarrow> price" where
  "front_price levels = (if levels = [] then 0 else lv_price (hd levels))"

definition sample_symbol :: "double \<Rightarrow> nat \<Rightarrow> engine \<Rightarrow> symbol \<Rightarrow> price_sample" where
  "sample_symbol t depth e s =
     (let snap = snapshot_of e s depth
      in \<lparr>ps_elapsed = t, ps_symbol = s, ps_last = um_get 0 (last_prices e) s,
          ps_bid = front_price (snap_bids snap), ps_ask = front_price (snap_asks snap),
          ps_bid_depth = depth_of (snap_bids snap), ps_ask_depth = depth_of (snap_asks snap)\<rparr>)"

definition sample_portfolio :: "double \<Rightarrow> engine \<Rightarrow> recorder \<Rightarrow> client_id \<times> portfolio \<Rightarrow> recorder" where
  "sample_portfolio t e r x =
     (let (c, pf) = x; worth = net_worth pf (last_prices e)
      in r\<lparr>portfolio_samples := portfolio_samples r @
             [\<lparr>pf_elapsed = t, pf_client = c, pf_cash = cash pf, pf_worth = worth\<rparr>],
           seen_first := um_emplace c \<lparr>fs_elapsed = t, fs_cash = cash pf, fs_worth = worth\<rparr> (seen_first r)\<rparr>)"

definition take_sample :: "recorder_config \<Rightarrow> time \<Rightarrow> engine \<Rightarrow> recorder \<Rightarrow> recorder" where
  "take_sample cfg now e r =
     (let t = rec_elapsed_ms r now;
          r1 = r\<lparr>price_samples := price_samples r @ map (sample_symbol t (rc_book_depth cfg) e) (engine_symbols e)\<rparr>
      in foldl (sample_portfolio t e) r1 (portfolios e))"

definition rec_begin :: "recorder_config \<Rightarrow> time \<Rightarrow> time \<Rightarrow> engine \<Rightarrow> recorder \<Rightarrow> recorder" where
  "rec_begin cfg now1 now2 e r =
     (if rec_running r then r
      else
        (let r1 = r\<lparr>rec_start := now1, rec_subscribed := True, initial_prices := last_prices e\<rparr>
         in (take_sample cfg now2 e r1)\<lparr>rec_running := True\<rparr>))"

definition rec_end :: "recorder \<Rightarrow> recorder" where
  "rec_end r = r\<lparr>rec_running := False\<rparr>"

definition rec_unsubscribe :: "recorder \<Rightarrow> recorder" where
  "rec_unsubscribe r = r\<lparr>rec_subscribed := False\<rparr>"

definition recorded_trade_count :: "recorder \<Rightarrow> nat" where
  "recorded_trade_count r = length (rec_trades r)"

section \<open>Aggregates of the report\<close>

record symbol_stats =
  st_trades :: "64 word"
  st_volume :: quantity
  st_notional :: double
  st_high :: price
  st_low :: price

definition new_stats :: symbol_stats where
  "new_stats = \<lparr>st_trades = 0, st_volume = 0, st_notional = 0, st_high = NegInf, st_low = PosInf\<rparr>"

definition add_to_stats :: "trade \<Rightarrow> symbol_stats \<Rightarrow> symbol_stats" where
  "add_to_stats t st = st\<lparr>st_trades := st_trades st + 1, st_volume := st_volume st + tqty t,
     st_notional := st_notional st + dbl_of_int (tqty t) * tprice t,
     st_high := dmax (st_high st) (tprice t), st_low := dmin (st_low st) (tprice t)\<rparr>"

record trade_totals =
  tt_stats :: "(symbol \<times> symbol_stats) list"
  tt_buys :: "(client_id \<times> 64 word) list"
  tt_sells :: "(client_id \<times> 64 word) list"
  tt_notional :: double
  tt_volume :: quantity

definition add_trade :: "trade \<Rightarrow> trade_totals \<Rightarrow> trade_totals" where
  "add_trade t a =
     \<lparr>tt_stats = um_modify new_stats (tsymbol t) (add_to_stats t) (tt_stats a),
      tt_buys = um_modify 0 (buyer t) (\<lambda>n. n + 1) (tt_buys a),
      tt_sells = um_modify 0 (seller t) (\<lambda>n. n + 1) (tt_sells a),
      tt_notional = tt_notional a + dbl_of_int (tqty t) * tprice t,
      tt_volume = tt_volume a + tqty t\<rparr>"

definition totals_of :: "trade_row list \<Rightarrow> trade_totals" where
  "totals_of rows = foldl (\<lambda>a row. add_trade (row_trade row) a)
     \<lparr>tt_stats = [], tt_buys = [], tt_sells = [], tt_notional = 0, tt_volume = 0\<rparr> rows"

text \<open>One side of a book, aggregated in a \<open>std::map\<close> from price to quantity and number of orders.\<close>

type_synonym level_table = "(price \<times> quantity \<times> nat) list"

fun add_level :: "price \<Rightarrow> quantity \<Rightarrow> level_table \<Rightarrow> level_table" where
  "add_level p q [] = [(p, q, 1)]"
| "add_level p q ((p', n, k) # ls) =
     (if p < p' then (p, q, 1) # (p', n, k) # ls
      else if p' < p then (p', n, k) # add_level p q ls
      else (p', n + q, k + 1) # ls)"

definition side_levels :: "side \<Rightarrow> order list \<Rightarrow> level_table" where
  "side_levels sd os = foldl (\<lambda>ls x. add_level (price x) (qty x) ls) [] (filter (\<lambda>x. (side x = BUY) = (sd = BUY)) os)"

definition waiting_sorted :: "engine \<Rightarrow> order list" where
  "waiting_sorted e = sort_key oid (all_waiting (registry e))"

definition resting_of :: "engine \<Rightarrow> symbol \<Rightarrow> order list" where
  "resting_of e s = (case engine_resting_orders e s of None \<Rightarrow> [] | Some os \<Rightarrow> os)"

definition sorted_symbols :: "engine \<Rightarrow> symbol list" where
  "sorted_symbols e = sort (engine_symbols e)"

section \<open>The CSV files\<close>

fun csv :: "string list \<Rightarrow> string" where
  "csv [] = []"
| "csv [x] = x"
| "csv (x # xs) = x @ '','' @ csv xs"

abbreviation d12 :: "double \<Rightarrow> string" where
  "d12 \<equiv> show_double 12"

definition write_bound :: "price \<Rightarrow> string" where
  "write_bound p = (case p of Fin x \<Rightarrow> d12 p | _ \<Rightarrow> [])"

fun holdings_join :: "(symbol \<times> quantity) list \<Rightarrow> string \<Rightarrow> string" where
  "holdings_join [] text = text"
| "holdings_join ((s, q) # hs) text =
     (if q = 0 then holdings_join hs text
      else holdings_join hs (text @ (if text \<noteq> [] then '';'' else []) @ s @ '':'' @ show_int q))"

definition holdings_to_string :: "portfolio \<Rightarrow> string" where
  "holdings_to_string pf = holdings_join (sort_key fst (holdings pf)) []"

definition trades_csv :: "recorder \<Rightarrow> string list" where
  "trades_csv r =
     ''elapsed_ms,symbol,quantity,price,buyer,seller,buy_order_id,sell_order_id'' #
     map (\<lambda>row. let t = row_trade row
       in csv [d12 (row_elapsed row), tsymbol t, show_int (tqty t), d12 (tprice t), show_int (buyer t),
               show_int (seller t), show_word (buy_order_id t), show_word (sell_order_id t)]) (rec_trades r)"

definition price_samples_csv :: "recorder \<Rightarrow> string list" where
  "price_samples_csv r =
     ''elapsed_ms,symbol,last_price,best_bid,best_ask,bid_depth,ask_depth'' #
     map (\<lambda>s. csv [d12 (ps_elapsed s), ps_symbol s, d12 (ps_last s), d12 (ps_bid s), d12 (ps_ask s),
       show_int (ps_bid_depth s), show_int (ps_ask_depth s)]) (price_samples r)"

definition portfolio_samples_csv :: "recorder \<Rightarrow> string list" where
  "portfolio_samples_csv r =
     ''elapsed_ms,client,cash,net_worth'' #
     map (\<lambda>s. csv [d12 (pf_elapsed s), show_int (pf_client s), d12 (pf_cash s), d12 (pf_worth s)]) (portfolio_samples r)"

definition level_row :: "symbol \<Rightarrow> string \<Rightarrow> price \<times> quantity \<times> nat \<Rightarrow> string" where
  "level_row s side_text l = (case l of (p, n, k) \<Rightarrow> csv [s, side_text, d12 p, show_int n, show_nat k])"

definition book_rows :: "engine \<Rightarrow> symbol \<Rightarrow> string list" where
  "book_rows e s =
     map (level_row s ''BUY'') (rev (side_levels BUY (resting_of e s))) @
     map (level_row s ''SELL'') (side_levels SELL (resting_of e s))"

definition order_book_csv :: "engine \<Rightarrow> string list" where
  "order_book_csv e = ''symbol,side,price,quantity,orders'' # concat (map (book_rows e) (sorted_symbols e))"

definition resting_orders_csv :: "engine \<Rightarrow> string list" where
  "resting_orders_csv e =
     ''order_id,client,symbol,side,kind,quantity,price'' #
     concat (map (\<lambda>s. map (\<lambda>x. csv [show_word (oid x), show_int (client x), s, side_to_string (side x),
       kind_to_string (kind x), show_int (qty x), d12 (price x)]) (resting_of e s)) (sorted_symbols e))"

definition flag :: "'a option \<Rightarrow> string" where
  "flag x = (case x of None \<Rightarrow> ''0'' | Some _ \<Rightarrow> ''1'')"

definition waiting_orders_csv :: "engine \<Rightarrow> string list" where
  "waiting_orders_csv e =
     ''order_id,client,symbol,side,kind,quantity,price,release_lower,release_upper,has_start_date,has_expiry'' #
     map (\<lambda>x. csv [show_word (oid x), show_int (client x), osymbol x, side_to_string (side x), kind_to_string (kind x),
       show_int (qty x), d12 (price x), write_bound (release_lower x), write_bound (release_upper x),
       flag (not_before x), flag (expires_at x)]) (waiting_sorted e)"

definition all_levels :: nat where "all_levels = 2 ^ 64 - 1"

definition symbol_row :: "recorder \<Rightarrow> (symbol \<times> symbol_stats) list \<Rightarrow> engine \<Rightarrow> symbol \<Rightarrow> string" where
  "symbol_row r stats e s =
     (let initial = um_get 0 (initial_prices r) s; final_price = um_get 0 (last_prices e) s;
          st = um_get new_stats stats s; snap = snapshot_of e s all_levels;
          bs = snap_bids snap; as = snap_asks snap;
          bid_depth = depth_of bs; ask_depth = depth_of as;
          best_bid = front_price bs; best_ask = front_price as;
          total_depth = dbl_of_int (bid_depth + ask_depth);
          hlv = (if 0 < st_trades st
                 then [d12 (st_high st), d12 (st_low st), d12 (st_notional st div dbl_of_int (st_volume st))]
                 else [[], [], []])
      in csv ([s, d12 initial, d12 final_price,
               d12 (if 0 < initial then (final_price - initial) div initial * Fin 100 else 0)] @ hlv @
              [show_word (st_trades st), show_int (st_volume st), d12 (st_notional st),
               if bs \<noteq> [] then d12 best_bid else [], if as \<noteq> [] then d12 best_ask else [],
               if bs \<noteq> [] \<and> as \<noteq> [] then d12 (best_ask - best_bid) else [],
               show_int bid_depth, show_int ask_depth,
               d12 (if 0 < total_depth then (dbl_of_int bid_depth - dbl_of_int ask_depth) div total_depth else 0),
               show_nat (length (resting_of e s)),
               show_nat (length (filter (\<lambda>x. osymbol x = s) (waiting_sorted e)))]))"

definition symbols_csv :: "recorder \<Rightarrow> engine \<Rightarrow> string list" where
  "symbols_csv r e =
     ''symbol,initial_price,final_price,change_pct,high,low,vwap,trades,volume,notional,best_bid,best_ask,spread,bid_depth,ask_depth,imbalance,resting_orders,waiting_orders'' #
     map (symbol_row r (tt_stats (totals_of (rec_trades r))) e) (sorted_symbols e)"

definition sorted_clients :: "engine \<Rightarrow> client_id list" where
  "sorted_clients e = sort (map fst (portfolios e))"

definition first_seen_of :: "recorder \<Rightarrow> engine \<Rightarrow> client_id \<Rightarrow> first_seen" where
  "first_seen_of r e c =
     (let pf = portfolio_snapshot e c
      in um_get \<lparr>fs_elapsed = 0, fs_cash = cash pf, fs_worth = net_worth pf (last_prices e)\<rparr> (seen_first r) c)"

definition portfolio_row :: "recorder \<Rightarrow> trade_totals \<Rightarrow> engine \<Rightarrow> client_id \<Rightarrow> string" where
  "portfolio_row r a e c =
     (let pf = portfolio_snapshot e c; final_worth = net_worth pf (last_prices e); seen = first_seen_of r e c;
          pnl = final_worth - fs_worth seen
      in csv [show_int c, d12 (fs_elapsed seen), d12 (fs_cash seen), d12 (fs_worth seen), d12 (cash pf),
              d12 final_worth, d12 pnl, d12 (if \<not> deq (fs_worth seen) 0 then pnl div fs_worth seen * Fin 100 else 0),
              show_word (um_get 0 (tt_buys a) c), show_word (um_get 0 (tt_sells a) c), holdings_to_string pf])"

definition portfolios_csv :: "recorder \<Rightarrow> engine \<Rightarrow> string list" where
  "portfolios_csv r e =
     ''client,first_seen_ms,initial_cash,initial_net_worth,final_cash,final_net_worth,pnl,pnl_pct,trades_as_buyer,trades_as_seller,holdings'' #
     map (portfolio_row r (totals_of (rec_trades r)) e) (sorted_clients e)"

definition cash_initial :: "recorder \<Rightarrow> engine \<Rightarrow> double" where
  "cash_initial r e = foldl (\<lambda>x c. x + fs_cash (first_seen_of r e c)) 0 (sorted_clients e)"

definition cash_final :: "engine \<Rightarrow> double" where
  "cash_final e = foldl (\<lambda>x c. x + cash (portfolio_snapshot e c)) 0 (sorted_clients e)"

definition rejections_csv :: "recorder \<Rightarrow> string list" where
  "rejections_csv r = ''reason,count'' # map (\<lambda>(reason, n). csv [reason, show_word n]) (rejections_by_reason r)"

definition total_rejections :: "recorder \<Rightarrow> 64 word" where
  "total_rejections r = foldl (\<lambda>n (_, k). n + k) 0 (rejections_by_reason r)"

definition total_resting :: "engine \<Rightarrow> nat" where
  "total_resting e = foldl (\<lambda>n s. n + length (resting_of e s)) 0 (sorted_symbols e)"

definition summary_csv :: "recorder_config \<Rightarrow> time \<Rightarrow> recorder \<Rightarrow> engine \<Rightarrow> string list" where
  "summary_csv cfg now r e =
     (let a = totals_of (rec_trades r); m = eng_metrics e
      in [''key,value'',
          csv [''duration_s'', d12 (rec_elapsed_ms r now div Fin 1000)],
          csv [''symbols'', show_nat (length (sorted_symbols e))],
          csv [''clients'', show_nat (length (portfolios e))],
          csv [''trades'', show_nat (length (rec_trades r))],
          csv [''volume'', show_int (tt_volume a)],
          csv [''notional'', d12 (tt_notional a)],
          csv [''orders_submitted'', show_word (orders_submitted m)],
          csv [''orders_accepted'', show_word (orders_accepted m)],
          csv [''orders_rejected'', show_word (total_rejections r)],
          csv [''orders_queued'', show_word (queued_events r)],
          csv [''orders_expired'', show_word (expired_events r)],
          csv [''resting_orders_final'', show_nat (total_resting e)],
          csv [''waiting_orders_final'', show_nat (length (waiting_sorted e))],
          csv [''mean_submit_latency_us'', d12 (mean_us (submit_latency m))],
          csv [''max_submit_latency_us'', show_int (sint (hist_max_us (submit_latency m)))],
          csv [''total_cash_initial'', d12 (cash_initial r e)],
          csv [''total_cash_final'', d12 (cash_final e)],
          csv [''sample_interval_ms'', show_int (rc_sample_interval cfg)]])"

section \<open>Writing the report\<close>

definition report_files :: "recorder_config \<Rightarrow> time \<Rightarrow> recorder \<Rightarrow> engine \<Rightarrow> (string \<times> string list) list" where
  "report_files cfg now r e =
     [(''trades'', trades_csv r), (''price_samples'', price_samples_csv r),
      (''portfolio_samples'', portfolio_samples_csv r), (''order_book_final'', order_book_csv e),
      (''resting_orders'', resting_orders_csv e), (''waiting_orders'', waiting_orders_csv e),
      (''symbols'', symbols_csv r e), (''portfolios_final'', portfolios_csv r e),
      (''rejections'', rejections_csv r), (''summary'', summary_csv cfg now r e)]"

definition csv_name :: "recorder_config \<Rightarrow> string \<Rightarrow> string" where
  "csv_name cfg base = base @ rc_file_suffix cfg @ ''.csv''"

text \<open>
  The error of making the directory, if any, and which files could be opened are the system's answers. The
  result is the flag, the files written with their lines, the log and the recorder with its last sample.
\<close>

definition write_report_files ::
  "recorder_config \<Rightarrow> string option \<Rightarrow> (string \<Rightarrow> bool) \<Rightarrow> time \<Rightarrow> time \<Rightarrow> engine \<Rightarrow> recorder \<Rightarrow>
   bool \<times> (string \<times> string list) list \<times> log_entry list \<times> recorder" where
  "write_report_files cfg dir_error opens now1 now2 e r =
     (let r1 = take_sample cfg now1 e r
      in case dir_error of
           Some message \<Rightarrow> (False, [], [(ERROR, ''market report: cannot create '' @ rc_output_dir cfg @ '': '' @ message)], r1)
         | None \<Rightarrow>
           (let all = map (\<lambda>(b, ls). (csv_name cfg b, ls)) (report_files cfg now2 r1 e);
                written = filter (\<lambda>(n, _). opens n) all;
                bad = filter (\<lambda>(n, _). \<not> opens n) all;
                ok = (bad = [])
            in (ok, written,
                map (\<lambda>(n, _). (ERROR, ''market report: cannot write '' @ n @ '' in '' @ rc_output_dir cfg)) bad @
                (if ok then [(INFO, ''market report written to '' @ rc_output_dir cfg @ '' ('' @
                   show_nat (length (rec_trades r1)) @ '' trades, '' @ show_nat (total_resting e) @ '' resting, '' @
                   show_nat (length (waiting_sorted e)) @ '' waiting orders)'')] else []), r1)))"

end
