(* ===== verification/RecorderProps.thy ===== *)
theory RecorderProps
  imports Recorder EngineProps
begin

text \<open>
  What the market report says is true: its book tables are the engine's books, its per-symbol figures
  agree with the market data feed, and its counters are the events.
\<close>

section \<open>The final book\<close>

definition level_entry :: "price \<times> order list \<Rightarrow> price \<times> quantity \<times> nat" where
  "level_entry l = (fst l, volume (snd l), length (snd l))"

lemma add_level_prefix: "\<forall>l \<in> set ls. fst l < p \<Longrightarrow> add_level p q (ls @ rest) = ls @ add_level p q rest"
proof (induction ls)
  case (Cons l ls)
  then show ?case by (cases l) (auto dest: double_less_asym)
qed simp

lemma add_level_front: "\<forall>l \<in> set rest. p < fst l \<Longrightarrow> add_level p q rest = (p, q, 1) # rest"
  by (cases rest) auto

lemma fold_one_level:
  assumes "\<forall>l \<in> set ls. fst l < p" "\<forall>x \<in> set os. price x = p"
  shows "foldl (\<lambda>t x. add_level (price x) (qty x) t) (ls @ (p, n, k) # rest) os = ls @ (p, n + volume os, k + length os) # rest"
  using assms(2)
proof (induction os arbitrary: n k)
  case (Cons x os)
  have "add_level (price x) (qty x) (ls @ (p, n, k) # rest) = ls @ (p, n + qty x, k + 1) # rest"
    using Cons.prems add_level_prefix[OF assms(1)] by simp
  then show ?case using Cons by simp
qed simp

lemma fold_new_level:
  assumes "\<forall>l \<in> set ls. fst l < p" "\<forall>l \<in> set rest. p < fst l" "\<forall>x \<in> set os. price x = p" "os \<noteq> []"
  shows "foldl (\<lambda>t x. add_level (price x) (qty x) t) (ls @ rest) os = ls @ level_entry (p, os) # rest"
proof -
  obtain x xs where os: "os = x # xs" using assms(4) by (cases os) auto
  have "add_level (price x) (qty x) (ls @ rest) = ls @ (p, qty x, 1) # rest"
    using assms os add_level_prefix[OF assms(1)] add_level_front[OF assms(2)] by simp
  then show ?thesis using fold_one_level[OF assms(1), of xs "qty x" 1 rest] assms(3) os by (simp add: level_entry_def)
qed

lemma fold_asks:
  "levels_ok ask_before good lv \<Longrightarrow> \<forall>l \<in> set ls. \<forall>m \<in> set lv. fst l < fst m \<Longrightarrow>
     foldl (\<lambda>t x. add_level (price x) (qty x) t) ls (concat (map snd lv)) = ls @ map level_entry lv"
proof (induction lv arbitrary: ls)
  case (Cons m lv)
  obtain p os where m: "m = (p, os)" by (cases m)
  have ok: "levels_ok ask_before good lv" "os \<noteq> []" "\<forall>x \<in> set os. price x = p" "\<forall>l \<in> set lv. p < fst l"
    using Cons.prems(1)[unfolded m ask.ok_Cons] by (auto simp: ask_before_def)
  have "foldl (\<lambda>t x. add_level (price x) (qty x) t) ls os = ls @ [level_entry m]"
    using fold_new_level[of ls p "[]" os] Cons.prems(2) ok m by simp
  moreover have "\<forall>l \<in> set (ls @ [level_entry m]). \<forall>n \<in> set lv. fst l < fst n"
    using Cons.prems(2) ok(4) m by (auto simp: level_entry_def)
  ultimately show ?case using Cons.IH[OF ok(1)] m by simp
qed simp

lemma fold_bids:
  "levels_ok bid_before good lv \<Longrightarrow> \<forall>l \<in> set rest. \<forall>m \<in> set lv. fst m < fst l \<Longrightarrow>
     foldl (\<lambda>t x. add_level (price x) (qty x) t) rest (concat (map snd lv)) = rev (map level_entry lv) @ rest"
proof (induction lv arbitrary: rest)
  case (Cons m lv)
  obtain p os where m: "m = (p, os)" by (cases m)
  have ok: "levels_ok bid_before good lv" "os \<noteq> []" "\<forall>x \<in> set os. price x = p" "\<forall>l \<in> set lv. fst l < p"
    using Cons.prems(1)[unfolded m bid.ok_Cons] by (auto simp: bid_before_def)
  have "foldl (\<lambda>t x. add_level (price x) (qty x) t) rest os = level_entry m # rest"
    using fold_new_level[of "[]" p rest os] Cons.prems(2) ok m by simp
  moreover have "\<forall>l \<in> set (level_entry m # rest). \<forall>n \<in> set lv. fst n < fst l"
    using Cons.prems(2) ok(4) m by (auto simp: level_entry_def)
  ultimately show ?case using Cons.IH[OF ok(1)] m by simp
qed simp

lemma resting_side:
  assumes "book_ok b"
  shows "filter (\<lambda>x. (side x = BUY) = (BUY = BUY)) (resting_orders b) = concat (map snd (bids b))"
    and "filter (\<lambda>x. (side x = BUY) = (SELL = BUY)) (resting_orders b) = concat (map snd (asks b))"
proof -
  have b: "\<forall>x \<in> set (concat (map snd (bids b))). side x = BUY" and a: "\<forall>x \<in> set (concat (map snd (asks b))). side x = SELL"
    using assms by (auto simp: book_ok_def levels_ok_def good_bid_def good_ask_def)
  show "filter (\<lambda>x. (side x = BUY) = (BUY = BUY)) (resting_orders b) = concat (map snd (bids b))"
    unfolding resting_orders_def filter_append
    using filter_True[of "concat (map snd (bids b))" "\<lambda>x. (side x = BUY) = (BUY = BUY)"]
      filter_False[of "concat (map snd (asks b))" "\<lambda>x. (side x = BUY) = (BUY = BUY)"] a b by simp
  show "filter (\<lambda>x. (side x = BUY) = (SELL = BUY)) (resting_orders b) = concat (map snd (asks b))"
    unfolding resting_orders_def filter_append
    using filter_False[of "concat (map snd (bids b))" "\<lambda>x. (side x = BUY) = (SELL = BUY)"]
      filter_True[of "concat (map snd (asks b))" "\<lambda>x. (side x = BUY) = (SELL = BUY)"] a b by simp
qed

lemma side_levels_book:
  assumes "book_ok b"
  shows "side_levels BUY (resting_orders b) = rev (map level_entry (bids b))"
    and "side_levels SELL (resting_orders b) = map level_entry (asks b)"
  using fold_bids[of "good_bid (bk_symbol b)" "bids b" "[]"] fold_asks[of "good_ask (bk_symbol b)" "asks b" "[]"] assms
  by (simp_all only: side_levels_def resting_side[OF assms]) (simp_all add: book_ok_def)

text \<open>C27. The final book table of the market report is the book itself: for every symbol of a reachable
engine its rows are the bid levels best first and then the ask levels best first, each with the
level's price, total quantity and number of orders.\<close>

theorem report_shows_the_book:
  assumes "engine_reachable e" "map_of (books e) s = Some b"
  shows "book_rows e s =
    map (\<lambda>(p, os). csv [s, ''BUY'', d12 p, show_int (volume os), show_nat (length os)]) (bids b) @
    map (\<lambda>(p, os). csv [s, ''SELL'', d12 p, show_int (volume os), show_nat (length os)]) (asks b)"
proof -
  have "books_ok (books e)" using engine_reachable_inv[OF assms(1)] by (simp add: engine_inv_def engine_ok_def)
  then have ok: "book_ok b" using books_okD assms(2) by blast
  have r: "resting_of e s = resting_orders b"
    using assms(2) by (simp add: resting_of_def engine_resting_orders_def symbol_exists_def book_for_def)
  have "level_row s sd (level_entry l) = (case l of (p, os) \<Rightarrow> csv [s, sd, d12 p, show_int (volume os), show_nat (length os)])"
    for sd l by (cases l) (simp add: level_row_def level_entry_def)
  then show ?thesis by (simp only: book_rows_def r side_levels_book[OF ok] rev_rev_ident map_map comp_def)
qed

theorem report_shows_the_book_witness:
  "engine_reachable demo_engine \<and>
   map (take 9) (book_rows demo_engine ''AAA'') = [''AAA,SELL,'']"
proof -
  have b: "map_of (books demo_engine) ''AAA'' = Some \<lparr>bk_symbol = ''AAA'', bids = [], asks = [(Fin 100, [build_order demo_sell 1 0])]\<rparr>"
    by (simp add: demo_engine_eq)
  show ?thesis using report_shows_the_book[OF demo_engine_reachable b] demo_engine_reachable by simp
qed

section \<open>The figures\<close>

definition rec_run :: "event list \<Rightarrow> recorder \<Rightarrow> recorder" where
  "rec_run evs r = foldl (\<lambda>r ev. rec_on_event ev r) r evs"

lemma rec_run_snoc [simp]: "rec_run [] r = r" "rec_run (evs @ [ev]) r = rec_on_event ev (rec_run evs r)"
  by (simp_all add: rec_run_def)

lemma recorded_trades:
  "filter (\<lambda>t. tsymbol t = s) (map row_trade (rec_trades (rec_run evs (new_recorder t0)))) = trades_of s evs"
proof (induction evs rule: rev_induct)
  case (snoc ev evs)
  then show ?case by (cases ev) (simp_all add: trades_of_append)
qed (simp add: new_recorder_def)

lemma stats_of_rows:
  "um_get new_stats (tt_stats (totals_of rows)) s =
     foldl (\<lambda>st t. add_to_stats t st) new_stats (filter (\<lambda>t. tsymbol t = s) (map row_trade rows))"
proof (induction rows rule: rev_induct)
  case (snoc row rows)
  have "totals_of (rows @ [row]) = add_trade (row_trade row) (totals_of rows)" by (simp add: totals_of_def)
  then show ?case using snoc by (auto simp: add_trade_def um_get_def map_of_modify)
qed (simp add: totals_of_def um_get_def)

lemma stats_volume:
  "st_volume (foldl (\<lambda>st t. add_to_stats t st) st ts) = st_volume st + trade_volume ts"
  "st_notional (foldl (\<lambda>st t. add_to_stats t st) st ts) =
     foldl (\<lambda>n t. n + dbl_of_int (tqty t) * tprice t) (st_notional st) ts"
  "st_high (foldl (\<lambda>st t. add_to_stats t st) st ts) = foldl dmax (st_high st) (map tprice ts)"
  "st_low (foldl (\<lambda>st t. add_to_stats t st) st ts) = foldl dmin (st_low st) (map tprice ts)"
  by (induction ts arbitrary: st) (simp_all add: add_to_stats_def)

definition is_queued :: "event \<Rightarrow> bool" where
  "is_queued ev = (case ev of OrderQueuedEvent _ _ _ \<Rightarrow> True | _ \<Rightarrow> False)"

definition is_expired :: "event \<Rightarrow> bool" where
  "is_expired ev = (case ev of OrderExpiredEvent _ _ _ \<Rightarrow> True | _ \<Rightarrow> False)"

definition is_rejected :: "event \<Rightarrow> bool" where
  "is_rejected ev = (case ev of OrderRejectedEvent _ _ _ \<Rightarrow> True | _ \<Rightarrow> False)"

lemmas event_kinds = is_queued_def is_expired_def is_rejected_def

lemma rejections_sum: "foldl (\<lambda>n (_, k). n + k) z m = z + sum_list (map snd (m :: (string \<times> 64 word) list))"
  by (induction m arbitrary: z) (auto simp: add.assoc)

lemma bump_sum: "sum_list (map snd (bump_sorted r m)) = sum_list (map snd m) + 1"
  by (induction r m rule: bump_sorted.induct) (auto simp: ac_simps)

lemma counted_events:
  "queued_events (rec_run evs (new_recorder t0)) = of_nat (length (filter is_queued evs)) \<and>
   expired_events (rec_run evs (new_recorder t0)) = of_nat (length (filter is_expired evs)) \<and>
   total_rejections (rec_run evs (new_recorder t0)) = of_nat (length (filter is_rejected evs))"
proof (induction evs rule: rev_induct)
  case (snoc ev evs)
  then show ?case
    by (cases ev) (simp_all add: event_kinds total_rejections_def rejections_sum bump_sum algebra_simps)
qed (simp add: new_recorder_def total_rejections_def)

text \<open>C28. The report agrees with the market data feed and with the events: for every symbol the volume and
the volume weighted price it prints are the feed's, bit for bit, its high and low are those of the
symbol's trades, and its counters of queued, expired and rejected orders are the numbers of those
events.\<close>

theorem report_agrees_with_the_feed:
  "let r = rec_run evs (new_recorder t0); st = um_get new_stats (tt_stats (totals_of (rec_trades r))) s;
       m = md_run w evs in
     st_volume st = md_total_volume m s \<and>
     (if st_volume st = 0 then 0 else st_notional st div dbl_of_int (st_volume st)) = md_vwap m s \<and>
     st_high st = foldl dmax NegInf (map tprice (trades_of s evs)) \<and>
     st_low st = foldl dmin PosInf (map tprice (trades_of s evs)) \<and>
     queued_events r = of_nat (length (filter is_queued evs)) \<and>
     expired_events r = of_nat (length (filter is_expired evs)) \<and>
     total_rejections r = of_nat (length (filter is_rejected evs))"
proof -
  have n: "spec_notional [] = 0" by (simp add: spec_notional_def)
  have st: "um_get new_stats (tt_stats (totals_of (rec_trades (rec_run evs (new_recorder t0))))) s =
      foldl (\<lambda>st t. add_to_stats t st) new_stats (trades_of s evs)"
    by (simp only: stats_of_rows recorded_trades)
  show ?thesis
    by (simp add: Let_def st counted_events stats_volume md_total_volume_def md_vwap_def md_state)
      (simp add: new_stats_def spec_notional_def)
qed

end
