(* ===== verification/SimClient.thy ===== *)
theory SimClient
  imports Server Bots
begin

text \<open>
  The client program \<open>Src_Simulation/src/net/sim_client_main.cpp\<close>: authentication, the interactive
  mode, and the bots that trade by sending command lines. The connection is a state of any type with
  a function \<open>ask\<close> that sends a command and gives the reply (none after a failure); what the program
  prints is kept. Random draws are arguments, and so is how many ticks the clock lets the bot loop run.
\<close>

type_synonym 'c asking = "string \<Rightarrow> 'c \<Rightarrow> string option \<times> 'c"

record 'c console =
  conn :: 'c
  cout :: "string list"
  cerr :: "string list"

datatype exit_code = EXIT_SUCCESS | EXIT_FAILURE

definition print :: "string \<Rightarrow> 'c console \<Rightarrow> 'c console" where
  "print line cl = cl\<lparr>cout := cout cl @ [line]\<rparr>"

definition print_err :: "string \<Rightarrow> 'c console \<Rightarrow> 'c console" where
  "print_err line cl = cl\<lparr>cerr := cerr cl @ [line]\<rparr>"

definition send_line :: "'c asking \<Rightarrow> string \<Rightarrow> 'c console \<Rightarrow> string option \<times> 'c console" where
  "send_line ask line cl = (let (r, c) = ask line (conn cl) in (r, cl\<lparr>conn := c\<rparr>))"

section \<open>Authentication\<close>

definition starts_with_ok :: "string \<Rightarrow> bool" where
  "starts_with_ok r \<longleftrightarrow> take 2 r = ''OK''"

definition client_authenticate :: "'c asking \<Rightarrow> string \<Rightarrow> string \<Rightarrow> bool \<Rightarrow> 'c console \<Rightarrow> bool \<times> 'c console" where
  "client_authenticate ask username password registering cl =
     (case send_line ask ((if registering then ''REGISTER '' else ''LOGIN '') @ username @ '' '' @ password) cl of
        (None, cl1) \<Rightarrow> (False, print_err ''No response from server during authentication.'' cl1)
      | (Some r, cl1) \<Rightarrow> (starts_with_ok r, print r cl1))"

definition authenticate_resume :: "'c asking \<Rightarrow> string \<Rightarrow> 'c console \<Rightarrow> bool \<times> 'c console" where
  "authenticate_resume ask token cl =
     (case send_line ask (''RESUME '' @ token) cl of
        (None, cl1) \<Rightarrow> (False, print_err ''No response from server during RESUME.'' cl1)
      | (Some r, cl1) \<Rightarrow> (starts_with_ok r, print r cl1))"

section \<open>Reading replies\<close>

text \<open>\<open>find(needle)\<close>: the text after the first occurrence.\<close>

fun after_first :: "string \<Rightarrow> string \<Rightarrow> string option" where
  "after_first needle [] = (if needle = [] then Some [] else None)"
| "after_first needle (c # cs) =
     (if take (length needle) (c # cs) = needle then Some (drop (length needle) (c # cs)) else after_first needle cs)"

definition extract_field :: "string \<Rightarrow> string \<Rightarrow> double option" where
  "extract_field response key =
     (case after_first (key @ ''='') response of
        None \<Rightarrow> None
      | Some rest \<Rightarrow> stod (takeWhile (\<lambda>c. c \<noteq> CHR '' '') rest))"

definition discover_symbols :: "'c asking \<Rightarrow> 'c console \<Rightarrow> string list \<times> 'c console" where
  "discover_symbols ask cl =
     (case send_line ask ''SYMBOLS'' cl of (None, cl1) \<Rightarrow> ([], cl1) | (Some r, cl1) \<Rightarrow> (drop 2 (split r), cl1))"

text \<open>\<open>static_cast<long long>\<close> of a double: towards zero, and the smallest number when out of range (x86).\<close>

definition to_long :: "double \<Rightarrow> int" where
  "to_long d = (case d of
     Fin x \<Rightarrow> (let n = (if x < 0 then \<lceil>x\<rceil> else \<lfloor>x\<rfloor>) in if - (2 ^ 63) \<le> n \<and> n < 2 ^ 63 then n else - (2 ^ 63))
   | _ \<Rightarrow> - (2 ^ 63))"

section \<open>Interactive mode\<close>

definition help_text :: "string list" where
  "help_text =
     [''Commands:'',
      ''  ORDER <BUY|SELL> <SYMBOL> <QTY> <MARKET|LIMIT|STOP|LIMIT_STOP> [PRICE=p] [TRIGGER=t]'',
      ''        [TRIGGER_LOWER=l] [TRIGGER_UPPER=u] [EXPIRES=sec] [NOT_BEFORE=sec]'',
      ''  CANCEL <order_id> <SYMBOL>'',
      ''  CANCEL_WAITING <order_id>'',
      ''  CANCEL_BOOK <order_id> <SYMBOL> <BUY|SELL> <price>'',
      ''  PORTFOLIO'',
      ''  MARKET <SYMBOL>'',
      ''  SYMBOLS'',
      ''  METRICS'',
      ''  quit / exit'']"

fun interactive_loop :: "'c asking \<Rightarrow> string list \<Rightarrow> 'c console \<Rightarrow> exit_code \<times> 'c console" where
  "interactive_loop ask [] cl = (EXIT_SUCCESS, cl)"
| "interactive_loop ask (line # lines) cl =
     (if line = [] then interactive_loop ask lines cl
      else if line = ''help'' then interactive_loop ask lines (cl\<lparr>cout := cout cl @ help_text\<rparr>)
      else if line = ''quit'' \<or> line = ''exit'' then (EXIT_SUCCESS, snd (send_line ask ''QUIT'' cl))
      else case send_line ask line cl of
             (None, cl1) \<Rightarrow> (EXIT_FAILURE, print_err ''Disconnected from server.'' cl1)
           | (Some r, cl1) \<Rightarrow> interactive_loop ask lines (print r cl1))"

definition run_interactive :: "'c asking \<Rightarrow> string list \<Rightarrow> 'c console \<Rightarrow> exit_code \<times> 'c console" where
  "run_interactive ask input cl =
     interactive_loop ask input (print ''Connected. Type 'help' for the command list, 'quit' to disconnect.'' cl)"

section \<open>Bots\<close>

text \<open>A command whose reply, if any, is printed after the given text.\<close>

definition tell :: "'c asking \<Rightarrow> string \<Rightarrow> string \<Rightarrow> 'c console \<Rightarrow> string option \<times> 'c console" where
  "tell ask line shown cl =
     (case send_line ask line cl of
        (None, cl1) \<Rightarrow> (None, cl1)
      | (Some r, cl1) \<Rightarrow> (Some r, print (shown @ ''  ->  '' @ r) cl1))"

abbreviation d15 :: "double \<Rightarrow> string" where
  "d15 \<equiv> show_double 15"

definition noise_kind_text :: "noise_draws \<Rightarrow> side \<Rightarrow> price \<Rightarrow> string" where
  "noise_kind_text dr sd ref_price =
     (if nd_kind dr = 0 then ''MARKET''
      else if nd_kind dr = 1
        then ''LIMIT PRICE='' @ d15 (floor_price (ref_price * (1 + nd_real dr (dneg (decimal 2 100)) (decimal 2 100))))
      else if nd_kind dr = 2
        then (let direction = (if sd = SELL then Fin (- 1) else 1)
              in ''STOP TRIGGER='' @ d15 (floor_price (ref_price * (1 + direction * nd_real dr (decimal 2 100) (decimal 6 100)))))
      else ''LIMIT_STOP PRICE='' @ d15 ref_price @
           '' TRIGGER_LOWER='' @ d15 (floor_price (ref_price * (1 - nd_real dr (decimal 2 100) (decimal 5 100)))) @
           '' TRIGGER_UPPER='' @ d15 (ref_price * (1 + nd_real2 dr (decimal 2 100) (decimal 5 100))))"

definition noise_line :: "noise_draws \<Rightarrow> symbol \<Rightarrow> price \<Rightarrow> string" where
  "noise_line dr s ref_price =
     (let sd = (if nd_buy dr then BUY else SELL)
      in ''ORDER '' @ side_to_string sd @ '' '' @ s @ '' '' @ show_int (nd_qty dr) @ '' '' @ noise_kind_text dr sd ref_price @
         (case nd_expiry dr of None \<Rightarrow> [] | Some n \<Rightarrow> '' EXPIRES='' @ show_int n))"

definition noise_bot_tick :: "'c asking \<Rightarrow> noise_draws \<Rightarrow> symbol \<Rightarrow> price \<Rightarrow> 'c console \<Rightarrow> 'c console" where
  "noise_bot_tick ask dr s ref_price cl =
     (if ref_price \<le> 0 then cl else (let line = noise_line dr s ref_price in snd (tell ask line line cl)))"

definition momentum_order_line :: "symbol \<Rightarrow> bool \<Rightarrow> quantity \<Rightarrow> string" where
  "momentum_order_line s up q =
     ''ORDER '' @ (if up then ''BUY'' else ''SELL'') @ '' '' @ s @ '' '' @ show_int q @ '' MARKET''"

definition momentum_stop_line :: "momentum_draws \<Rightarrow> symbol \<Rightarrow> bool \<Rightarrow> price \<Rightarrow> string" where
  "momentum_stop_line dr s up ref_price =
     (let direction = (if up then Fin (- 1) else 1);
          trigger = floor_price (ref_price * (1 + direction * mo_real dr (decimal 1 100) (decimal 3 100)))
      in ''ORDER '' @ (if up then ''SELL'' else ''BUY'') @ '' '' @ s @ '' '' @ show_int (mo_qty dr) @
         '' STOP TRIGGER='' @ d15 trigger @ '' EXPIRES=120'')"

definition momentum_bot_tick ::
  "'c asking \<Rightarrow> momentum_draws \<Rightarrow> symbol \<Rightarrow> price \<Rightarrow> price_history \<Rightarrow> 'c console \<Rightarrow> price_history \<times> 'c console" where
  "momentum_bot_tick ask dr s ref_price hist cl =
     (if ref_price \<le> 0 then (hist, cl)
      else
        (let h = push_sample ref_price (um_get [] hist s); hist1 = AList.update s h hist
         in if length h < 2 then (hist1, cl)
            else
              (let change = last h - hd h; up = 0 < change
               in if deq change 0 then (hist1, cl)
                  else
                    (let l1 = momentum_order_line s up (mo_qty dr); cl1 = snd (tell ask l1 l1 cl);
                         l2 = momentum_stop_line dr s up ref_price
                     in (hist1, snd (tell ask l2 l2 cl1))))))"

record wire_maker =
  wm_symbol :: symbol
  wm_buy :: int
  wm_sell :: int

definition cancel_line :: "int \<Rightarrow> symbol \<Rightarrow> string" where
  "cancel_line i s = ''CANCEL '' @ show_int i @ '' '' @ s"

definition cancel_quote :: "'c asking \<Rightarrow> int \<Rightarrow> symbol \<Rightarrow> 'c console \<Rightarrow> 'c console" where
  "cancel_quote ask i s cl =
     (if i \<noteq> 0 then snd (tell ask (cancel_line i s) (''CANCEL '' @ show_int i) cl) else cl)"

definition quote_line :: "string \<Rightarrow> symbol \<Rightarrow> quantity \<Rightarrow> price \<Rightarrow> string" where
  "quote_line sd s q p = ''ORDER '' @ sd @ '' '' @ s @ '' '' @ show_int q @ '' LIMIT PRICE='' @ d15 p"

text \<open>A quote, and the order id in its reply (whatever the reply is), 0 if there is none.\<close>

definition send_quote :: "'c asking \<Rightarrow> string \<Rightarrow> 'c console \<Rightarrow> int \<times> 'c console" where
  "send_quote ask line cl =
     (case tell ask line line cl of
        (None, cl1) \<Rightarrow> (0, cl1)
      | (Some r, cl1) \<Rightarrow> (case extract_field r ''order_id'' of None \<Rightarrow> (0, cl1) | Some d \<Rightarrow> (to_long d, cl1)))"

definition market_maker_bot_tick ::
  "'c asking \<Rightarrow> maker_draws \<Rightarrow> symbol \<Rightarrow> price \<Rightarrow> wire_maker \<Rightarrow> 'c console \<Rightarrow> wire_maker \<times> 'c console" where
  "market_maker_bot_tick ask dr s ref_price m cl =
     (let cl1 = cancel_quote ask (wm_buy m) (wm_symbol m) cl;
          cl2 = cancel_quote ask (wm_sell m) (wm_symbol m) cl1
      in if ref_price \<le> 0 then (\<lparr>wm_symbol = s, wm_buy = 0, wm_sell = 0\<rparr>, cl2)
         else
           (let half_spread = ref_price * decimal 1 100 div Fin 2;
                bid = floor_price (ref_price - half_spread); ask_price = ref_price + half_spread;
                (i, cl3) = send_quote ask (quote_line ''BUY'' s (mk_buy_qty dr) bid) cl2;
                (j, cl4) = send_quote ask (quote_line ''SELL'' s (mk_sell_qty dr) ask_price) cl3
            in (\<lparr>wm_symbol = s, wm_buy = i, wm_sell = j\<rparr>, cl4)))"

section \<open>The bot loop\<close>

record tick_draws =
  td_symbol :: nat
  td_noise :: noise_draws
  td_momentum :: momentum_draws
  td_maker :: maker_draws

record bot_memory =
  bm_history :: price_history
  bm_maker :: wire_maker

definition new_memory :: bot_memory where
  "new_memory = \<lparr>bm_history = [], bm_maker = \<lparr>wm_symbol = [], wm_buy = 0, wm_sell = 0\<rparr>\<rparr>"

definition strategy_tick ::
  "'c asking \<Rightarrow> string \<Rightarrow> tick_draws \<Rightarrow> symbol \<Rightarrow> price \<Rightarrow> bot_memory \<Rightarrow> 'c console \<Rightarrow> (bot_memory \<times> 'c console) option" where
  "strategy_tick ask name dr s ref_price mem cl =
     (if name = ''noise'' then Some (mem, noise_bot_tick ask (td_noise dr) s ref_price cl)
      else if name = ''momentum''
        then (let (h, cl1) = momentum_bot_tick ask (td_momentum dr) s ref_price (bm_history mem) cl
              in Some (mem\<lparr>bm_history := h\<rparr>, cl1))
      else if name = ''marketmaker''
        then (let (m, cl1) = market_maker_bot_tick ask (td_maker dr) s ref_price (bm_maker mem) cl
              in Some (mem\<lparr>bm_maker := m\<rparr>, cl1))
      else None)"

fun bot_loop ::
  "'c asking \<Rightarrow> string \<Rightarrow> symbol list \<Rightarrow> tick_draws list \<Rightarrow> bot_memory \<Rightarrow> 'c console \<Rightarrow> exit_code \<times> 'c console" where
  "bot_loop ask name symbols [] mem cl = (EXIT_SUCCESS, snd (send_line ask ''QUIT'' cl))"
| "bot_loop ask name symbols (dr # drs) mem cl =
     (let s = symbols ! td_symbol dr
      in case send_line ask (''MARKET '' @ s) cl of
           (None, cl1) \<Rightarrow> (EXIT_FAILURE, print_err ''Disconnected from server.'' cl1)
         | (Some r, cl1) \<Rightarrow>
             (case strategy_tick ask name dr s (value_or (extract_field r ''last'') 0) mem cl1 of
                None \<Rightarrow> (EXIT_FAILURE, print_err (''Unknown strategy: '' @ name) cl1)
              | Some (mem', cl2) \<Rightarrow> bot_loop ask name symbols drs mem' cl2))"

definition run_bot ::
  "'c asking \<Rightarrow> string \<Rightarrow> symbol list \<Rightarrow> tick_draws list \<Rightarrow> 'c console \<Rightarrow> exit_code \<times> 'c console" where
  "run_bot ask name symbols drs cl =
     (if symbols \<noteq> [] then bot_loop ask name symbols drs new_memory cl
      else
        (let (found, cl1) = discover_symbols ask cl
         in if found = []
              then (EXIT_FAILURE, print_err ''No --symbols given and the server reports none registered either: nothing to trade'' cl1)
            else bot_loop ask name found drs new_memory
                   (print (''Auto-discovered '' @ show_nat (length found) @ '' symbol(s) from the server: '' @
                     concat (map (\<lambda>s. s @ '' '') found)) cl1)))"

end
