(* ===== verification/ClientProps.thy ===== *)
theory ClientProps
  imports SimClient ServerProps Persistence
begin

text \<open>
  The client program against the server: the command lines its bots build are parsed by the server
  into the orders they mean, and what the bots remember of the replies.
\<close>

section \<open>Order lines\<close>

lemma stoll_show: "int64 n \<Longrightarrow> stoll (show_int n) = Some n"
  using scan_int_show_int[of "[]" n] by (auto simp: signed_in_def int64_def abs_if)

text \<open>The words of an order line: its fixed part and its options.\<close>

definition order_words :: "side \<Rightarrow> symbol \<Rightarrow> quantity \<Rightarrow> string \<Rightarrow> string list \<Rightarrow> string list" where
  "order_words sd s q k opts = [''ORDER'', side_to_string sd, s, show_int q, k] @ opts"

lemma order_words_ok:
  "is_word s \<Longrightarrow> is_word k \<Longrightarrow> \<forall>w \<in> set opts. is_word w \<Longrightarrow> \<forall>w \<in> set (order_words sd s q k opts). is_word w"
  using is_word_show_int[of q] by (cases sd) (auto simp: order_words_def is_word_def is_space_def)

lemma parse_order_words:
  assumes "parse_kind k = Some kd" "int64 q"
  shows "parse_order (order_words sd s q k opts) c =
    Inr (default_stop_price (apply_kv (foldl parse_kv_token [] opts)
      (default_request\<lparr>rq_client := c, rq_side := sd, rq_symbol := s, rq_quantity := q, rq_kind := kd\<rparr>)))"
  using assms stoll_show[OF assms(2)]
  by (cases sd) (simp_all add: order_words_def parse_order_def parse_kv_def)

text \<open>A number well inside the range of binary64 is read without a range error.\<close>

lemma mid_in_range:
  assumes "2 powi (- 1000) \<le> y" "y \<le> 2 powi 1000"
  shows "in_range y"
proof -
  have y: "0 < y" using assms(1) powi_pos[of "- 1000"] by linarith
  have u: "2 powi ulp_exp y \<le> y"
  proof (cases "ulp_exp y = - 1074")
    case True
    have "(2 :: rat) powi (- 1074) \<le> 2 powi (- 1000)" by (intro power_int_increasing) auto
    then show ?thesis using True assms(1) by simp
  next
    case False
    then have "ulp_exp y = flog2 y - 52" using y by (simp add: ulp_exp_def)
    then have "(2 :: rat) powi ulp_exp y \<le> 2 powi flog2 y" by (intro power_int_increasing) auto
    then show ?thesis using flog2_bounds(1)[OF y] by linarith
  qed
  have e: "\<bar>round53 y - y\<bar> \<le> y / 2" using round53_error[of y] u by linarith
  have r: "round53 y \<le> y + y / 2" "y / 2 \<le> round53 y" using abs_le_D1[OF e] abs_le_D2[OF e] by linarith+
  have "2 powi 1000 * 2 < (2 :: rat) ^ 1024" by simp
  then have "round53 y < 2 ^ 1024" "\<not> round53 y \<le> - (2 ^ 1024)" using r assms(2) y by linarith+
  then have f: "rnd y = Fin (round53 y)" by (simp add: rnd_def Let_def not_le)
  have "(2 :: rat) powi (- 1000) = 2 * 2 powi (- 1001)" using power_int_add[of "2 :: rat" 1 "- 1001"] by simp
  moreover have "(2 :: rat) powi (- 1022) \<le> 2 powi (- 1001)" by (intro power_int_increasing) auto
  ultimately have "2 powi (- 1022) \<le> \<bar>round53 y\<bar>" using r(2) y assms(1) by linarith
  then show ?thesis using f by (simp add: in_range_def)
qed

text \<open>A number that can be sent, between 10^-290 and 10^290, and what the server reads of it: the decimal
  of 15 digits that was printed, in binary64.\<close>

definition sendable :: "double \<Rightarrow> bool" where
  "sendable v = (case v of Fin x \<Rightarrow> 1 / 10 ^ 290 \<le> x \<and> x \<le> 10 ^ 290 | _ \<Rightarrow> False)"

definition arrives :: "double \<Rightarrow> double" where
  "arrives v = (case v of Fin x \<Rightarrow> rnd (printed_value 15 x) | _ \<Rightarrow> v)"

lemma sendable_in_range:
  assumes "sendable (Fin x)"
  shows "0 < x" "in_range (printed_value 15 x)"
proof -
  have b: "1 / 10 ^ 290 \<le> x" "x \<le> 10 ^ 290" using assms by (simp_all add: sendable_def)
  show x: "0 < x" using b(1) less_le_trans[of 0 "1 / 10 ^ 290 :: rat" x] by simp
  have c: "\<bar>printed_value 15 x - x\<bar> \<le> x / 2"
    using printed_close[OF x, of 15] x by (auto intro: order_trans divide_left_mono)
  have p: "(10 :: rat) ^ 290 * 2 \<le> 2 ^ 1000" by simp
  have "x / 2 \<le> printed_value 15 x" "printed_value 15 x \<le> 10 ^ 290 * 2" using c b(2) x by linarith+
  moreover have "2 powi (- 1000) \<le> x / 2"
  proof -
    have "1 / (2 ^ 1000 :: rat) \<le> 1 / (10 ^ 290 * 2)" by (rule divide_left_mono[OF p]) simp_all
    also have "\<dots> \<le> x / 2" using b(1) by simp
    finally show ?thesis by (simp add: power_int_minus inverse_eq_divide)
  qed
  ultimately show "in_range (printed_value 15 x)" using p by (intro mid_in_range) simp_all
qed

lemma sendable_Fin: "sendable v \<Longrightarrow> \<exists>x. v = Fin x"
  by (cases v) (simp_all add: sendable_def)

lemma stod_sent:
  assumes "sendable v"
  shows "stod (show_double 15 v) = Some (arrives v)"
proof -
  obtain x where x: "v = Fin x" using sendable_Fin[OF assms] by blast
  have "stod (show_double 15 (Fin x)) = Some (rnd (printed_value 15 x))"
    by (rule stod_printed) (use sendable_in_range[OF assms[unfolded x]] in simp_all)
  then show ?thesis by (simp add: x arrives_def del: show_double.simps)
qed

lemma arrives_close: "sendable (Fin x) \<Longrightarrow> \<exists>y. arrives (Fin x) = rnd y \<and> \<bar>y - x\<bar> \<le> x / (2 * 10 ^ 14)"
  using printed_close[of x 15] sendable_in_range(1)[of x] by (auto simp: arrives_def)

lemma option_word: "is_word (show_double 15 d) \<and> is_word (show_int n)"
  by (simp add: is_word_show_double is_word_show_int)

lemma key_words:
  "is_word (''PRICE='' @ show_double 15 d)" "is_word (''TRIGGER='' @ show_double 15 d)"
  "is_word (''TRIGGER_LOWER='' @ show_double 15 d)" "is_word (''TRIGGER_UPPER='' @ show_double 15 d)"
  "is_word (''EXPIRES='' @ show_int n)"
  using option_word[of d n] by (auto simp: is_word_def is_space_def simp del: show_double.simps)

definition expiry_words :: "int option \<Rightarrow> string list" where
  "expiry_words x = (case x of None \<Rightarrow> [] | Some n \<Rightarrow> [''EXPIRES='' @ show_int n])"

lemma key_tokens:
  "parse_kv_token kv (''PRICE='' @ w) = AList.update ''PRICE'' w kv"
  "parse_kv_token kv (''TRIGGER='' @ w) = AList.update ''TRIGGER'' w kv"
  "parse_kv_token kv (''TRIGGER_LOWER='' @ w) = AList.update ''TRIGGER_LOWER'' w kv"
  "parse_kv_token kv (''TRIGGER_UPPER='' @ w) = AList.update ''TRIGGER_UPPER'' w kv"
  "parse_kv_token kv (''EXPIRES='' @ w) = AList.update ''EXPIRES'' w kv"
  by (simp_all add: parse_kv_token_def)

lemma line_parsed:
  assumes "line = join_words (order_words sd s q k opts)" "is_word s" "\<forall>w \<in> set opts. is_word w" "int64 q"
    "parse_kind k = Some kd"
  shows "parse_order (split line) c = Inr (default_stop_price (apply_kv (foldl parse_kv_token [] opts) (request_for c sd kd s q)))"
proof -
  have "is_word k" using assms(5) by (auto simp: parse_kind_def is_word_def is_space_def split: if_splits)
  then have "split line = order_words sd s q k opts"
    unfolding assms(1) by (rule split_join[OF order_words_ok[OF assms(2) _ assms(3)]])
  then show ?thesis by (simp add: parse_order_words[OF assms(5,4)] request_for_def default_request_def)
qed

lemmas read_options = apply_kv_def kv_double_def kv_int_def if_some_def default_stop_price_def Let_def
  request_for_def default_request_def

text \<open>What a noise bot means: the numbers it computes from the market's price and its draws, and the order.\<close>

definition noise_numbers :: "noise_draws \<Rightarrow> price \<Rightarrow> double list" where
  "noise_numbers dr p =
     (if nd_kind dr = 0 then []
      else if nd_kind dr = 1 then [floor_price (p * (1 + nd_real dr (dneg (decimal 2 100)) (decimal 2 100)))]
      else if nd_kind dr = 2
        then [floor_price (p * (1 + (if nd_buy dr then 1 else Fin (- 1)) * nd_real dr (decimal 2 100) (decimal 6 100)))]
      else [p, floor_price (p * (1 - nd_real dr (decimal 2 100) (decimal 5 100))),
            p * (1 + nd_real2 dr (decimal 2 100) (decimal 5 100))])"

definition noise_order :: "noise_draws \<Rightarrow> client_id \<Rightarrow> symbol \<Rightarrow> double list \<Rightarrow> order_request" where
  "noise_order dr c s vs =
     (let rq = (\<lambda>k. (request_for c (if nd_buy dr then BUY else SELL) k s (nd_qty dr))\<lparr>expires_in := nd_expiry dr\<rparr>)
      in if nd_kind dr = 0 then rq MARKET
         else if nd_kind dr = 1 then (rq LIMIT)\<lparr>rq_price := vs ! 0\<rparr>
         else if nd_kind dr = 2 then (rq STOP)\<lparr>rq_price := vs ! 0, trigger_upper := Some (vs ! 0)\<rparr>
         else (rq LIMIT_STOP)\<lparr>rq_price := vs ! 0, trigger_lower := Some (vs ! 1), trigger_upper := Some (vs ! 2)\<rparr>)"

lemma expiry_ok: "\<forall>w \<in> set (expiry_words x). is_word w"
  using key_words(5) by (cases x) (simp_all add: expiry_words_def)

lemma noise_parsed:
  assumes "is_word s" "int64 (nd_qty dr)" "\<forall>v \<in> set (noise_numbers dr p). sendable v" "\<forall>n. nd_expiry dr = Some n \<longrightarrow> int64 n"
  shows "parse_order (split (noise_line dr s p)) c = Inr (noise_order dr c s (map arrives (noise_numbers dr p)))"
proof -
  let ?sd = "if nd_buy dr then BUY else SELL"
  have ex: "\<forall>n. nd_expiry dr = Some n \<longrightarrow> stoll (show_int n) = Some n" using assms(4) stoll_show by blast
  consider "nd_kind dr = 0" | "nd_kind dr = 1" | "nd_kind dr = 2" | "2 < nd_kind dr" by linarith
  then show ?thesis
  proof cases
    case 1
    have l: "noise_line dr s p = join_words (order_words ?sd s (nd_qty dr) ''MARKET'' (expiry_words (nd_expiry dr)))"
      using 1 by (cases "nd_expiry dr") (simp_all add: noise_line_def noise_kind_text_def order_words_def expiry_words_def Let_def)
    have k: "parse_kind ''MARKET'' = Some MARKET" by (simp add: parse_kind_def)
    show ?thesis using 1 ex unfolding line_parsed[OF l assms(1) expiry_ok assms(2) k]
      by (cases "nd_expiry dr") (simp_all add: expiry_words_def key_tokens read_options noise_order_def noise_numbers_def del: append_Cons)
  next
    case 2
    define v where "v = floor_price (p * (1 + nd_real dr (dneg (decimal 2 100)) (decimal 2 100)))"
    have n: "noise_numbers dr p = [v]" using 2 by (simp add: noise_numbers_def v_def)
    have st: "stod (show_double 15 v) = Some (arrives v)" using assms(3) n stod_sent by simp
    have l: "noise_line dr s p = join_words (order_words ?sd s (nd_qty dr) ''LIMIT''
        ((''PRICE='' @ show_double 15 v) # expiry_words (nd_expiry dr)))"
      using 2 by (cases "nd_expiry dr")
        (simp_all add: noise_line_def noise_kind_text_def order_words_def expiry_words_def Let_def v_def del: show_double.simps)
    have w: "\<forall>w \<in> set ((''PRICE='' @ show_double 15 v) # expiry_words (nd_expiry dr)). is_word w"
      using expiry_ok key_words(1) by simp
    have k: "parse_kind ''LIMIT'' = Some LIMIT" by (simp add: parse_kind_def)
    show ?thesis using 2 ex st unfolding line_parsed[OF l assms(1) w assms(2) k] n
      by (cases "nd_expiry dr") (simp_all add: expiry_words_def key_tokens read_options noise_order_def del: append_Cons show_double.simps)
  next
    case 3
    define v where "v = floor_price (p * (1 + (if nd_buy dr then 1 else Fin (- 1)) * nd_real dr (decimal 2 100) (decimal 6 100)))"
    have n: "noise_numbers dr p = [v]" using 3 by (simp add: noise_numbers_def v_def)
    have st: "stod (show_double 15 v) = Some (arrives v)" using assms(3) n stod_sent by simp
    have l: "noise_line dr s p = join_words (order_words ?sd s (nd_qty dr) ''STOP''
        ((''TRIGGER='' @ show_double 15 v) # expiry_words (nd_expiry dr)))"
      using 3 by (cases "nd_expiry dr"; cases "nd_buy dr")
        (simp_all add: noise_line_def noise_kind_text_def order_words_def expiry_words_def Let_def v_def del: show_double.simps)
    have w: "\<forall>w \<in> set ((''TRIGGER='' @ show_double 15 v) # expiry_words (nd_expiry dr)). is_word w"
      using expiry_ok key_words(2) by simp
    have k: "parse_kind ''STOP'' = Some STOP" by (simp add: parse_kind_def)
    show ?thesis using 3 ex st unfolding line_parsed[OF l assms(1) w assms(2) k] n
      by (cases "nd_expiry dr") (simp_all add: expiry_words_def key_tokens read_options noise_order_def del: append_Cons show_double.simps)
  next
    case 4
    define lo where "lo = floor_price (p * (1 - nd_real dr (decimal 2 100) (decimal 5 100)))"
    define hi where "hi = p * (1 + nd_real2 dr (decimal 2 100) (decimal 5 100))"
    let ?opts = "[''PRICE='' @ show_double 15 p, ''TRIGGER_LOWER='' @ show_double 15 lo, ''TRIGGER_UPPER='' @ show_double 15 hi]
      @ expiry_words (nd_expiry dr)"
    have n: "noise_numbers dr p = [p, lo, hi]" using 4 by (simp add: noise_numbers_def lo_def hi_def)
    have st: "stod (show_double 15 p) = Some (arrives p)" "stod (show_double 15 lo) = Some (arrives lo)"
      "stod (show_double 15 hi) = Some (arrives hi)" using assms(3) n stod_sent by simp_all
    have l: "noise_line dr s p = join_words (order_words ?sd s (nd_qty dr) ''LIMIT_STOP'' ?opts)"
      using 4 by (cases "nd_expiry dr")
        (simp_all add: noise_line_def noise_kind_text_def order_words_def expiry_words_def Let_def lo_def hi_def del: show_double.simps)
    have w: "\<forall>w \<in> set ?opts. is_word w" using expiry_ok key_words(1,3,4) by simp
    have k: "parse_kind ''LIMIT_STOP'' = Some LIMIT_STOP" by (simp add: parse_kind_def)
    show ?thesis using 4 ex st unfolding line_parsed[OF l assms(1) w assms(2) k] n
      by (cases "nd_expiry dr") (simp_all add: expiry_words_def key_tokens read_options noise_order_def del: append_Cons show_double.simps)
  qed
qed

lemma digits_120: "show_int 120 = ''120''" "show_int 7 = ''7''"
  by (simp_all add: show_int_def show_nat.simps digit_char_def char_of_def bit_0)

text \<open>What a momentum bot means: a MARKET order with the trend and a STOP against it.\<close>

definition momentum_trigger :: "momentum_draws \<Rightarrow> bool \<Rightarrow> price \<Rightarrow> double" where
  "momentum_trigger dr up p =
     floor_price (p * (1 + (if up then Fin (- 1) else 1) * mo_real dr (decimal 1 100) (decimal 3 100)))"

lemma momentum_parsed:
  assumes "is_word s" "int64 (mo_qty dr)"
  shows "parse_order (split (momentum_order_line s up (mo_qty dr))) c =
      Inr (request_for c (if up then BUY else SELL) MARKET s (mo_qty dr))"
    and "sendable (momentum_trigger dr up p) \<Longrightarrow>
      parse_order (split (momentum_stop_line dr s up p)) c =
        Inr ((request_for c (if up then SELL else BUY) STOP s (mo_qty dr))
          \<lparr>rq_price := arrives (momentum_trigger dr up p), trigger_upper := Some (arrives (momentum_trigger dr up p)),
            expires_in := Some 120\<rparr>)"
proof -
  have m: "momentum_order_line s up (mo_qty dr) = join_words (order_words (if up then BUY else SELL) s (mo_qty dr) ''MARKET'' [])"
    by (simp add: momentum_order_line_def order_words_def)
  have k: "parse_kind ''MARKET'' = Some MARKET" by (simp add: parse_kind_def)
  show "parse_order (split (momentum_order_line s up (mo_qty dr))) c =
      Inr (request_for c (if up then BUY else SELL) MARKET s (mo_qty dr))"
    unfolding line_parsed[OF m assms(1) _ assms(2) k, simplified] by (simp add: read_options)
  define v where "v = momentum_trigger dr up p"
  let ?opts = "[''TRIGGER='' @ show_double 15 v, ''EXPIRES='' @ show_int 120]"
  have t: "momentum_stop_line dr s up p = join_words (order_words (if up then SELL else BUY) s (mo_qty dr) ''STOP'' ?opts)"
    by (simp add: momentum_stop_line_def order_words_def Let_def v_def momentum_trigger_def digits_120 del: show_double.simps)
  have w: "\<forall>w \<in> set ?opts. is_word w" using key_words(2,5) by simp
  have ks: "parse_kind ''STOP'' = Some STOP" by (simp add: parse_kind_def)
  have ex: "stoll (show_int 120) = Some 120" by (rule stoll_show) (simp add: int64_def)
  assume "sendable (momentum_trigger dr up p)"
  then have st: "stod (show_double 15 v) = Some (arrives v)" unfolding v_def by (rule stod_sent)
  show "parse_order (split (momentum_stop_line dr s up p)) c =
        Inr ((request_for c (if up then SELL else BUY) STOP s (mo_qty dr))
          \<lparr>rq_price := arrives (momentum_trigger dr up p), trigger_upper := Some (arrives (momentum_trigger dr up p)),
            expires_in := Some 120\<rparr>)"
    using st ex unfolding line_parsed[OF t assms(1) w assms(2) ks] v_def[symmetric]
    by (simp add: key_tokens read_options del: append_Cons show_double.simps)
qed

lemma quote_parsed:
  assumes "is_word s" "int64 q" "sendable v"
  shows "parse_order (split (quote_line (side_to_string sd) s q v)) c = Inr ((request_for c sd LIMIT s q)\<lparr>rq_price := arrives v\<rparr>)"
proof -
  have l: "quote_line (side_to_string sd) s q v = join_words (order_words sd s q ''LIMIT'' [''PRICE='' @ show_double 15 v])"
    by (simp add: quote_line_def order_words_def del: show_double.simps)
  have w: "\<forall>w \<in> set [''PRICE='' @ show_double 15 v]. is_word w" using key_words(1) by simp
  have k: "parse_kind ''LIMIT'' = Some LIMIT" by (simp add: parse_kind_def)
  show ?thesis using stod_sent[OF assms(3)] unfolding line_parsed[OF l assms(1) w assms(2) k]
    by (simp add: key_tokens read_options del: append_Cons show_double.simps)
qed

text \<open>C29. The orders the socket bots send are the orders they mean: the server parses each line they build
into exactly the request of its client, side, symbol, quantity, kind and expiry, with every price and
trigger in its own field, where each number arrives as the double nearest to its 15 significant
digits, within x / (2 * 10^14) of the number x computed. (A STOP line carries only a trigger; the
server takes it for the price as well.) The names are words, the integers fit 64 bits, and the numbers
sent lie between 10^-290 and 10^290.\<close>

theorem bot_lines_are_understood:
  assumes "is_word s" "int64 (nd_qty dn)" "int64 (mo_qty dm)" "int64 q" "\<forall>n. nd_expiry dn = Some n \<longrightarrow> int64 n"
    and "\<forall>v \<in> set (noise_numbers dn p). sendable v" "sendable (momentum_trigger dm up p)" "sendable (Fin x)"
  shows "parse_order (split (noise_line dn s p)) c = Inr (noise_order dn c s (map arrives (noise_numbers dn p))) \<and>
    parse_order (split (momentum_order_line s up (mo_qty dm))) c =
      Inr (request_for c (if up then BUY else SELL) MARKET s (mo_qty dm)) \<and>
    parse_order (split (momentum_stop_line dm s up p)) c =
      Inr ((request_for c (if up then SELL else BUY) STOP s (mo_qty dm))
        \<lparr>rq_price := arrives (momentum_trigger dm up p), trigger_upper := Some (arrives (momentum_trigger dm up p)),
          expires_in := Some 120\<rparr>) \<and>
    parse_order (split (quote_line (side_to_string sd) s q (Fin x))) c =
      Inr ((request_for c sd LIMIT s q)\<lparr>rq_price := arrives (Fin x)\<rparr>) \<and>
    (\<exists>y. arrives (Fin x) = rnd y \<and> \<bar>y - x\<bar> \<le> x / (2 * 10 ^ 14))"
  using noise_parsed[OF assms(1,2,6,5)] momentum_parsed[OF assms(1,3)] quote_parsed[OF assms(1,4,8)] arrives_close[OF assms(8)]
    assms(7) by blast

theorem bot_lines_are_understood_witness:
  "parse_order (split ''ORDER BUY AAA 7 MARKET'') 1 = Inr (request_for 1 BUY MARKET ''AAA'' 7) \<and>
   parse_order (split (noise_line \<lparr>nd_symbol = 0, nd_buy = False, nd_qty = 7, nd_kind = 2, nd_real = (\<lambda>lo hi. 0),
       nd_real2 = (\<lambda>lo hi. 0), nd_expiry = Some 7\<rparr> ''AAA'' (Fin (10 ^ 14)))) 1 =
     Inr ((request_for 1 SELL STOP ''AAA'' 7)\<lparr>rq_price := Fin (10 ^ 14), trigger_upper := Some (Fin (10 ^ 14)),
       expires_in := Some 7\<rparr>)"
proof -
  let ?dn = "\<lparr>nd_symbol = 0, nd_buy = False, nd_qty = 7, nd_kind = 2, nd_real = (\<lambda>lo hi. 0),
       nd_real2 = (\<lambda>lo hi. 0), nd_expiry = Some 7\<rparr> :: noise_draws"
  let ?dm = "\<lparr>mo_symbol = 0, mo_qty = 7, mo_real = (\<lambda>lo hi. 0)\<rparr> :: momentum_draws"
  have w: "is_word ''AAA''" by (simp add: is_word_def is_space_def)
  have c: "floor_price (Fin 100000000000000) = Fin 100000000000000"
    by (simp add: floor_price_def dmax_def cent power_int_def power_divide)
  have p: "printed_value 15 100000000000000 = 100000000000000"
    by (simp add: printed_value_def significant_def flog10_def show_nat.simps Let_def round_even_def)
  have n: "noise_numbers ?dn (Fin (10 ^ 14)) = [Fin (10 ^ 14)]" "momentum_trigger ?dm True (Fin (10 ^ 14)) = Fin (10 ^ 14)"
    by (simp_all add: noise_numbers_def momentum_trigger_def zero_double_def one_double_def c)
  have v: "sendable (Fin (10 ^ 14))" by (simp add: sendable_def)
  have a: "arrives (Fin 100000000000000) = Fin 100000000000000" by (simp add: arrives_def p)
  have "parse_order (split (noise_line ?dn ''AAA'' (Fin (10 ^ 14)))) 1 = Inr (noise_order ?dn 1 ''AAA'' (map arrives (noise_numbers ?dn (Fin (10 ^ 14))))) \<and>
    parse_order (split (momentum_order_line ''AAA'' True (mo_qty ?dm))) 1 = Inr (request_for 1 BUY MARKET ''AAA'' (mo_qty ?dm))"
    using bot_lines_are_understood[OF w, where dn = ?dn and dm = ?dm and q = 7 and p = "Fin (10 ^ 14)" and up = True and
        x = "10 ^ 14" and c = 1 and sd = BUY] v unfolding n by (simp add: int64_def)
  then show ?thesis unfolding n
    by (simp add: momentum_order_line_def digits_120 noise_order_def a Let_def request_for_def default_request_def)
qed

end
