(* ===== verification/Programs.thy ===== *)
theory Programs
  imports SimClient Simulation Recorder Persistence ServerFacts
begin

text \<open>
  The three programs: the options of \<open>simulation.x\<close> (\<open>Src_Simulation/src/main.cpp\<close>), \<open>sim_server.x\<close>
  (\<open>src/net/sim_server_main.cpp\<close>) and \<open>sim_client.x\<close> (\<open>src/net/sim_client_main.cpp\<close>), the market they
  set up, and how the server starts and stops its threads (\<open>src/net/simulation_server.cpp\<close>).
\<close>

section \<open>Reading options\<close>

definition parse_log_level :: "string \<Rightarrow> log_level" where
  "parse_log_level level =
     (if level = ''DEBUG'' then DEBUG else if level = ''WARN'' then WARN else if level = ''ERROR'' then ERROR else INFO)"

definition kDefaultDataSeedPath :: string where
  "kDefaultDataSeedPath = ''../Data/Datasets/processed/latest_snapshot.csv''"

datatype 'a parsed_args = Options 'a | Show_usage | Missing_value string | Unknown_argument string

text \<open>\<open>std::filesystem::path(dir) / name\<close> for a relative name.\<close>

definition path_join :: "string \<Rightarrow> string \<Rightarrow> string" where
  "path_join dir name = (if dir = [] \<or> last dir = CHR ''/'' then dir @ name else dir @ ''/'' @ name)"

section \<open>The simulation program\<close>

record sim_options =
  so_symbols :: int
  so_duration :: int
  so_seed :: "32 word"
  so_log_level :: string
  so_data_seed :: string
  so_use_seed :: bool
  so_noise :: int
  so_momentum :: int
  so_makers :: int
  so_output_dir :: string
  so_metrics :: bool
  so_report :: bool
  so_metrics_ms :: int
  so_report_ms :: int

definition sim_defaults :: sim_options where
  "sim_defaults = \<lparr>so_symbols = 3, so_duration = 10, so_seed = 42, so_log_level = ''INFO'',
     so_data_seed = kDefaultDataSeedPath, so_use_seed = True, so_noise = 15, so_momentum = 5, so_makers = 4,
     so_output_dir = [], so_metrics = True, so_report = True, so_metrics_ms = 1000, so_report_ms = 250\<rparr>"

text \<open>The options that take a value, and the ones that do not.\<close>

definition sim_value_option :: "string \<Rightarrow> (string \<Rightarrow> sim_options \<Rightarrow> sim_options) option" where
  "sim_value_option arg =
     (if arg = ''--symbols'' then Some (\<lambda>v q. q\<lparr>so_symbols := max 1 (atoi v)\<rparr>)
      else if arg = ''--duration'' then Some (\<lambda>v q. q\<lparr>so_duration := max 1 (atoi v)\<rparr>)
      else if arg = ''--seed'' then Some (\<lambda>v q. q\<lparr>so_seed := word_of_int (atoi v)\<rparr>)
      else if arg = ''--log-level'' then Some (\<lambda>v q. q\<lparr>so_log_level := v\<rparr>)
      else if arg = ''--data-seed'' then Some (\<lambda>v q. q\<lparr>so_data_seed := v\<rparr>)
      else if arg = ''--noise'' then Some (\<lambda>v q. q\<lparr>so_noise := max 0 (atoi v)\<rparr>)
      else if arg = ''--momentum'' then Some (\<lambda>v q. q\<lparr>so_momentum := max 0 (atoi v)\<rparr>)
      else if arg = ''--marketmakers'' then Some (\<lambda>v q. q\<lparr>so_makers := max 0 (atoi v)\<rparr>)
      else if arg = ''--output-dir'' then Some (\<lambda>v q. q\<lparr>so_output_dir := v\<rparr>)
      else if arg = ''--metrics-interval-ms'' then Some (\<lambda>v q. q\<lparr>so_metrics_ms := max 10 (atoi v)\<rparr>)
      else if arg = ''--report-interval-ms'' then Some (\<lambda>v q. q\<lparr>so_report_ms := max 10 (atoi v)\<rparr>)
      else None)"

definition sim_flag_option :: "string \<Rightarrow> (sim_options \<Rightarrow> sim_options) option" where
  "sim_flag_option arg =
     (if arg = ''--no-data-seed'' then Some (\<lambda>q. q\<lparr>so_use_seed := False\<rparr>)
      else if arg = ''--no-metrics'' then Some (\<lambda>q. q\<lparr>so_metrics := False\<rparr>)
      else if arg = ''--no-report'' then Some (\<lambda>q. q\<lparr>so_report := False\<rparr>)
      else None)"

fun sim_args :: "string list \<Rightarrow> sim_options \<Rightarrow> sim_options parsed_args" where
  "sim_args [] q = Options q"
| "sim_args (arg # rest) q =
     (case sim_value_option arg of
        Some f \<Rightarrow> (case rest of [] \<Rightarrow> Missing_value arg | v # rest' \<Rightarrow> sim_args rest' (f v q))
      | None \<Rightarrow>
          (case sim_flag_option arg of
             Some f \<Rightarrow> sim_args rest (f q)
           | None \<Rightarrow> if arg = ''--help'' \<or> arg = ''-h'' then Show_usage else Unknown_argument arg))"

definition demo_tickers :: "(string \<times> double) list" where
  "demo_tickers = [(''AAPL'', Fin 180), (''MSFT'', Fin 410), (''GOOG'', Fin 165), (''AMZN'', Fin 175),
     (''TSLA'', Fin 240), (''NVDA'', Fin 900), (''META'', Fin 480), (''NFLX'', Fin 600)]"

text \<open>The symbols of the run: those of the seed file, or the demo tickers.\<close>

definition seeded_symbols :: "seed_symbol list \<Rightarrow> symbol_config list" where
  "seeded_symbols seeds = map (\<lambda>x. \<lparr>sc_symbol = ss_symbol x, sc_price = ss_price x,
     sc_volatility = (if 0 < ss_volatility x then ss_volatility x else decimal 20 100)\<rparr>) seeds"

definition demo_symbols :: "int \<Rightarrow> symbol_config list" where
  "demo_symbols n = map (\<lambda>(s, p). \<lparr>sc_symbol = s, sc_price = p, sc_volatility = decimal 20 100\<rparr>)
     (take (nat (min n 8)) demo_tickers)"

definition chosen_seeds :: "sim_options \<Rightarrow> string option \<Rightarrow> seed_symbol list" where
  "chosen_seeds q content =
     (if so_use_seed q then pick_symbols (load_market_seed content) (nat (so_symbols q)) else [])"

definition config_of :: "sim_options \<Rightarrow> string option \<Rightarrow> simulation_config" where
  "config_of q content =
     (let seeds = chosen_seeds q content
      in default_config\<lparr>cfg_symbols := (if seeds \<noteq> [] then seeded_symbols seeds else demo_symbols (so_symbols q)),
           cfg_seed := so_seed q, duration := so_duration q, noise_traders := so_noise q,
           momentum_traders := so_momentum q, market_makers := so_makers q, output_dir := so_output_dir q,
           file_suffix := ''_simu'', write_metrics := so_metrics q, write_report := so_report q,
           metrics_interval := so_metrics_ms q, report_interval := so_report_ms q\<rparr>)"

section \<open>The server program\<close>

record server_config =
  port :: int
  watcher_poll_interval :: int
  full_scan_every_n_ticks :: int
  persistence_path :: string
  persistence_save_interval :: int
  metrics_csv_path :: string
  cfg_metrics_interval :: int
  cfg_log_commands :: bool

definition server_defaults :: server_config where
  "server_defaults = \<lparr>port = 7878, watcher_poll_interval = 100, full_scan_every_n_ticks = 10, persistence_path = [],
     persistence_save_interval = 30, metrics_csv_path = [], cfg_metrics_interval = 1000, cfg_log_commands = True\<rparr>"

record server_options =
  vo_port :: int
  vo_snapshot :: string
  vo_save_interval :: int
  vo_data_seed :: string
  vo_use_seed :: bool
  vo_max_symbols :: "64 word"
  vo_log_level :: string
  vo_metrics_ms :: int
  vo_log_commands :: bool
  vo_output_dir :: string
  vo_metrics :: bool
  vo_report :: bool
  vo_report_ms :: int

definition server_option_defaults :: server_options where
  "server_option_defaults = \<lparr>vo_port = 7878, vo_snapshot = [], vo_save_interval = 30, vo_data_seed = kDefaultDataSeedPath,
     vo_use_seed = True, vo_max_symbols = 8, vo_log_level = ''INFO'', vo_metrics_ms = 1000, vo_log_commands = True,
     vo_output_dir = [], vo_metrics = True, vo_report = True, vo_report_ms = 250\<rparr>"

definition server_value_option :: "string \<Rightarrow> (string \<Rightarrow> server_options \<Rightarrow> server_options) option" where
  "server_value_option arg =
     (if arg = ''--port'' then Some (\<lambda>v q. q\<lparr>vo_port := atoi v\<rparr>)
      else if arg = ''--snapshot'' then Some (\<lambda>v q. q\<lparr>vo_snapshot := v\<rparr>)
      else if arg = ''--save-interval'' then Some (\<lambda>v q. q\<lparr>vo_save_interval := atoi v\<rparr>)
      else if arg = ''--data-seed'' then Some (\<lambda>v q. q\<lparr>vo_data_seed := v\<rparr>)
      else if arg = ''--max-symbols'' then Some (\<lambda>v q. q\<lparr>vo_max_symbols := word_of_int (atoi v)\<rparr>)
      else if arg = ''--log-level'' then Some (\<lambda>v q. q\<lparr>vo_log_level := v\<rparr>)
      else if arg = ''--output-dir'' then Some (\<lambda>v q. q\<lparr>vo_output_dir := v\<rparr>)
      else if arg = ''--metrics-interval-ms'' then Some (\<lambda>v q. q\<lparr>vo_metrics_ms := max 10 (atoi v)\<rparr>)
      else if arg = ''--report-interval-ms'' then Some (\<lambda>v q. q\<lparr>vo_report_ms := max 10 (atoi v)\<rparr>)
      else None)"

definition server_flag_option :: "string \<Rightarrow> server_options \<Rightarrow> server_options" where
  "server_flag_option arg q =
     (if arg = ''--no-data-seed'' then q\<lparr>vo_use_seed := False\<rparr>
      else if arg = ''--no-log-commands'' then q\<lparr>vo_log_commands := False\<rparr>
      else if arg = ''--no-metrics'' then q\<lparr>vo_metrics := False\<rparr>
      else if arg = ''--no-report'' then q\<lparr>vo_report := False\<rparr>
      else q)"

text \<open>Unlike the simulation program, a missing value reads as the empty text and an unknown word is skipped.\<close>

fun server_args :: "string list \<Rightarrow> server_options \<Rightarrow> server_options parsed_args" where
  "server_args [] q = Options q"
| "server_args (arg # rest) q =
     (case server_value_option arg of
        Some f \<Rightarrow> (case rest of [] \<Rightarrow> Options (f [] q) | v # rest' \<Rightarrow> server_args rest' (f v q))
      | None \<Rightarrow> if arg = ''--help'' \<or> arg = ''-h'' then Show_usage else server_args rest (server_flag_option arg q))"

definition server_symbols :: "server_options \<Rightarrow> string option \<Rightarrow> (symbol \<times> price) list" where
  "server_symbols q content =
     (let seeds = (if vo_use_seed q then pick_symbols (load_market_seed content) (unat (vo_max_symbols q)) else [])
      in if seeds \<noteq> [] then map (\<lambda>x. (ss_symbol x, ss_price x)) seeds
         else [(''AAPL'', Fin 180), (''MSFT'', Fin 410), (''GOOG'', Fin 165), (''TSLA'', Fin 240)])"

definition register_all_symbols :: "(symbol \<times> price) list \<Rightarrow> engine \<Rightarrow> engine" where
  "register_all_symbols ss e = foldl (\<lambda>e (s, p). register_symbol s p e) e ss"

definition server_config_of :: "server_options \<Rightarrow> server_config" where
  "server_config_of q = server_defaults\<lparr>port := vo_port q, persistence_path := vo_snapshot q,
     persistence_save_interval := vo_save_interval q,
     metrics_csv_path := (if vo_output_dir q \<noteq> [] \<and> vo_metrics q then path_join (vo_output_dir q) ''metrics_bots.csv'' else []),
     cfg_metrics_interval := vo_metrics_ms q, cfg_log_commands := vo_log_commands q\<rparr>"

text \<open>The state the server program starts serving from: engine and directory.\<close>

definition server_boot ::
  "uninit \<Rightarrow> server_options \<Rightarrow> string option \<Rightarrow> files \<Rightarrow> directory \<times> engine \<times> log_entry option" where
  "server_boot un q seed_content fs =
     (let e = register_all_symbols (server_symbols q seed_content) new_engine
      in if vo_snapshot q \<noteq> []
           then (case load un (vo_snapshot q) fs new_directory e of (_, d, e', lg) \<Rightarrow> (d, e', lg))
         else (new_directory, e, None))"

section \<open>The life of the server\<close>

record service =
  running :: bool
  listening :: bool
  accepting :: bool
  watching :: bool
  persisting :: bool
  sampling :: bool
  saves :: nat
  service_log :: "log_entry list"

definition idle_service :: service where
  "idle_service = \<lparr>running = False, listening = False, accepting = False, watching = False, persisting = False,
     sampling = False, saves = 0, service_log = []\<rparr>"

record socket_answers =
  socket_ok :: bool
  bind_ok :: bool
  listen_ok :: bool

definition note_line :: "log_level \<Rightarrow> string \<Rightarrow> service \<Rightarrow> service" where
  "note_line l t v = v\<lparr>service_log := service_log v @ [(l, t)]\<rparr>"

definition service_start :: "server_config \<Rightarrow> socket_answers \<Rightarrow> service \<Rightarrow> bool \<times> service" where
  "service_start cfg a v =
     (if \<not> socket_ok a then (False, note_line ERROR ''failed to create listening socket'' v)
      else if \<not> bind_ok a
        then (False, (note_line ERROR (''failed to bind to port '' @ show_int (port cfg) @ '' (already in use?)'') v)\<lparr>listening := False\<rparr>)
      else if \<not> listen_ok a
        then (False, (note_line ERROR (''failed to listen on port '' @ show_int (port cfg)) v)\<lparr>listening := False\<rparr>)
      else (True, note_line INFO (''SimulationServer listening on port '' @ show_int (port cfg))
              (v\<lparr>listening := True, running := True, accepting := True, watching := True,
                 persisting := (persistence_path cfg \<noteq> []), sampling := (metrics_csv_path cfg \<noteq> [])\<rparr>)))"

definition service_stop :: "server_config \<Rightarrow> service \<Rightarrow> service" where
  "service_stop cfg v =
     (if \<not> running v then v
      else
        (let v1 = v\<lparr>running := False, listening := False, accepting := False, watching := False, persisting := False,
                    sampling := False\<rparr>;
             v2 = (if persistence_path cfg \<noteq> [] then v1\<lparr>saves := saves v1 + 1\<rparr> else v1)
         in note_line INFO ''SimulationServer stopped'' v2))"

text \<open>One pass of the persistence thread, after its sleep.\<close>

definition persistence_pass :: "service \<Rightarrow> service" where
  "persistence_pass v = (if persisting v \<and> running v then v\<lparr>saves := saves v + 1\<rparr> else v)"

text \<open>The lines of a metrics file: one row for every interval the run lasted, and a final one.\<close>

definition metrics_file :: "bool \<Rightarrow> (int \<times> engine) list \<Rightarrow> int \<times> engine \<Rightarrow> string list option" where
  "metrics_file opened passes final =
     (if \<not> opened then None
      else Some (metrics_header # map (\<lambda>(ms, e). metrics_row ms e) passes @ [metrics_row (fst final) (snd final)]))"

definition run_metrics_recorder :: "simulation_config \<Rightarrow> bool \<Rightarrow> (int \<times> engine) list \<Rightarrow> int \<times> engine \<Rightarrow> string \<times> string list option" where
  "run_metrics_recorder cfg opened passes final =
     (path_join (output_dir cfg) (''metrics'' @ file_suffix cfg @ ''.csv''), metrics_file opened passes final)"

section \<open>The client program\<close>

record client_options =
  co_host :: string
  co_port :: int
  co_register :: bool
  co_bot :: string
  co_symbols :: "string list"
  co_min_ms :: int
  co_max_ms :: int
  co_duration :: int
  co_seed :: "32 word"

definition client_defaults :: client_options where
  "client_defaults = \<lparr>co_host = ''127.0.0.1'', co_port = 7878, co_register = False, co_bot = [], co_symbols = [],
     co_min_ms = 200, co_max_ms = 1000, co_duration = 30, co_seed = 42\<rparr>"

definition client_value_option :: "string \<Rightarrow> (string \<Rightarrow> client_options \<Rightarrow> client_options) option" where
  "client_value_option arg =
     (if arg = ''--host'' then Some (\<lambda>v q. q\<lparr>co_host := v\<rparr>)
      else if arg = ''--port'' then Some (\<lambda>v q. q\<lparr>co_port := atoi v\<rparr>)
      else if arg = ''--resume'' then Some (\<lambda>v q. q)
      else if arg = ''--bot'' then Some (\<lambda>v q. q\<lparr>co_bot := v\<rparr>)
      else if arg = ''--symbol'' then Some (\<lambda>v q. q\<lparr>co_symbols := [v]\<rparr>)
      else if arg = ''--min-interval-ms'' then Some (\<lambda>v q. q\<lparr>co_min_ms := atoi v\<rparr>)
      else if arg = ''--max-interval-ms'' then Some (\<lambda>v q. q\<lparr>co_max_ms := atoi v\<rparr>)
      else if arg = ''--duration-sec'' then Some (\<lambda>v q. q\<lparr>co_duration := atoi v\<rparr>)
      else if arg = ''--seed'' then Some (\<lambda>v q. q\<lparr>co_seed := word_of_int (atoi v)\<rparr>)
      else None)"

definition is_flag :: "string \<Rightarrow> bool" where
  "is_flag a \<longleftrightarrow> take 2 a = ''--''"

text \<open>A symbol list runs up to the next flag; the scan for \<open>--resume\<close> is done first.\<close>

function client_args :: "string list \<Rightarrow> client_options \<Rightarrow> client_options parsed_args" where
  "client_args [] q = Options q"
| "client_args (arg # rest) q =
     (case client_value_option arg of
        Some f \<Rightarrow> (case rest of [] \<Rightarrow> Options (f [] q) | v # rest' \<Rightarrow> client_args rest' (f v q))
      | None \<Rightarrow>
          if arg = ''--register'' then client_args rest (q\<lparr>co_register := True\<rparr>)
          else if arg = ''--symbols''
            then client_args (dropWhile (\<lambda>a. \<not> is_flag a) rest)
                   (q\<lparr>co_symbols := co_symbols q @ takeWhile (\<lambda>a. \<not> is_flag a) rest\<rparr>)
          else if arg = ''--help'' \<or> arg = ''-h'' then Show_usage
          else client_args rest q)"
  by pat_completeness auto
termination
proof (relation "measure (length \<circ> fst)")
  fix arg rest q
  have "length (dropWhile (\<lambda>a. \<not> is_flag a) rest) < length (arg # rest :: string list)"
    by (simp add: le_imp_less_Suc length_dropWhile_le)
  then show "((dropWhile (\<lambda>a. \<not> is_flag a) rest, q\<lparr>co_symbols := co_symbols q @ takeWhile (\<lambda>a. \<not> is_flag a) rest\<rparr>), arg # rest, q)
      \<in> measure (length \<circ> fst)" for q :: client_options
    by simp
qed auto

fun resume_token :: "string list \<Rightarrow> string" where
  "resume_token (a # b # rest) = (if a = ''--resume'' then b else resume_token (b # rest))"
| "resume_token _ = []"

datatype login = By_token string | By_password string string

definition client_login :: "string list \<Rightarrow> (login \<times> string list) option" where
  "client_login args =
     (if resume_token args \<noteq> [] then Some (By_token (resume_token args), args)
      else case args of u # p # rest \<Rightarrow> Some (By_password u p, rest) | _ \<Rightarrow> None)"

text \<open>The program from its arguments on; \<open>connects\<close> says whether the connection can be made.\<close>

definition client_main ::
  "'c asking \<Rightarrow> (string \<Rightarrow> int \<Rightarrow> bool) \<Rightarrow> string list \<Rightarrow> string list \<Rightarrow> tick_draws list \<Rightarrow> 'c console \<Rightarrow> exit_code \<times> 'c console" where
  "client_main ask connects args input drs cl =
     (case client_login args of
        None \<Rightarrow> (EXIT_FAILURE, cl)
      | Some (how, rest) \<Rightarrow>
          (case client_args rest client_defaults of
             Options q \<Rightarrow>
               if \<not> connects (co_host q) (co_port q)
               then (EXIT_FAILURE, print_err (''Failed to connect to '' @ co_host q @ '':'' @ show_int (co_port q)) cl)
               else
                 (let (ok, cl1) = (case how of By_token t \<Rightarrow> authenticate_resume ask t cl
                                     | By_password u p \<Rightarrow> client_authenticate ask u p (co_register q) cl)
                  in if \<not> ok then (EXIT_FAILURE, cl1)
                     else if co_bot q \<noteq> [] then run_bot ask (co_bot q) (co_symbols q) drs cl1
                     else run_interactive ask input cl1)
           | _ \<Rightarrow> (EXIT_SUCCESS, cl)))"

end
