(* ===== verification/ProgramProps.thy ===== *)
theory ProgramProps
  imports Programs AppProps ClientProps
begin

text \<open>What the three programs make of their arguments and of the files they start from.\<close>

section \<open>Options\<close>

definition options_in_range :: "sim_options \<Rightarrow> bool" where
  "options_in_range q \<longleftrightarrow> 1 \<le> so_symbols q \<and> 1 \<le> so_duration q \<and> 0 \<le> so_noise q \<and> 0 \<le> so_momentum q \<and>
     0 \<le> so_makers q \<and> 10 \<le> so_metrics_ms q \<and> 10 \<le> so_report_ms q"

lemma value_option_range: "sim_value_option arg = Some f \<Longrightarrow> options_in_range q \<Longrightarrow> options_in_range (f v q)"
  by (auto simp: sim_value_option_def options_in_range_def split: if_splits)

lemma flag_option_range: "sim_flag_option arg = Some f \<Longrightarrow> options_in_range q \<Longrightarrow> options_in_range (f q)"
  by (auto simp: sim_flag_option_def options_in_range_def split: if_splits)

lemma sim_args_range: "sim_args args q = Options q' \<Longrightarrow> options_in_range q \<Longrightarrow> options_in_range q'"
proof (induction args q rule: sim_args.induct)
  case (2 arg rest q)
  then show ?case using value_option_range flag_option_range by (fastforce split: option.splits list.splits if_splits)
qed simp

lemma demo_names: "distinct (map fst demo_tickers)" "\<forall>x \<in> set demo_tickers. snd x \<noteq> NaN" "length demo_tickers = 8"
  by (simp_all add: demo_tickers_def)

lemma demo_config_sane: "distinct (map sc_symbol (demo_symbols n)) \<and> (\<forall>c \<in> set (demo_symbols n). sc_price c \<noteq> NaN)"
proof -
  have "map sc_symbol (demo_symbols n) = take (nat (min n 8)) (map fst demo_tickers)"
    by (simp add: demo_symbols_def take_map comp_def case_prod_beta)
  then have "distinct (map sc_symbol (demo_symbols n))" using demo_names(1) by (metis distinct_take)
  moreover have "\<forall>x \<in> set (take (nat (min n 8)) demo_tickers). snd x \<noteq> NaN" using demo_names(2) in_set_takeD by metis
  ultimately show ?thesis by (auto simp: demo_symbols_def)
qed

text \<open>Whatever the command line of the simulation program, when it is accepted the run is sensible: at
least one symbol and one second, no negative number of bots, sampling periods of at least ten
milliseconds, and without a usable seed file the market is one to eight distinct demo tickers, so that
the simulation starts sound.\<close>

theorem simulation_options_are_sane:
  assumes "sim_args args sim_defaults = Options q"
  shows "options_in_range q \<and>
    (chosen_seeds q content = [] \<longrightarrow>
       sane_config (config_of q content) \<and> cfg_symbols (config_of q content) \<noteq> [] \<and>
       length (cfg_symbols (config_of q content)) \<le> 8 \<and> sim_inv (config_of q content) (new_simulation (config_of q content)))"
proof -
  have r: "options_in_range q" by (rule sim_args_range[OF assms]) (simp add: options_in_range_def sim_defaults_def)
  have "chosen_seeds q content = [] \<Longrightarrow> cfg_symbols (config_of q content) = demo_symbols (so_symbols q)"
    by (simp add: config_of_def)
  moreover have "demo_symbols (so_symbols q) \<noteq> []" "length (demo_symbols (so_symbols q)) \<le> 8"
    using r demo_names(3) by (auto simp: demo_symbols_def options_in_range_def)
  moreover have "chosen_seeds q content = [] \<Longrightarrow> sane_config (config_of q content)"
    using demo_config_sane[of "so_symbols q"] by (simp add: sane_config_def all_symbols_def config_of_def)
  ultimately show ?thesis using r new_simulation_inv by simp
qed

theorem simulation_options_are_sane_witness:
  "sim_args [''--no-data-seed'', ''--no-report''] sim_defaults = Options (sim_defaults\<lparr>so_use_seed := False, so_report := False\<rparr>) \<and>
   sane_config (config_of (sim_defaults\<lparr>so_use_seed := False, so_report := False\<rparr>) None)"
proof -
  have a: "sim_args [''--no-data-seed'', ''--no-report''] sim_defaults = Options (sim_defaults\<lparr>so_use_seed := False, so_report := False\<rparr>)"
    by (simp add: sim_value_option_def sim_flag_option_def)
  show ?thesis using simulation_options_are_sane[OF a, of None] a by (simp add: chosen_seeds_def)
qed

section \<open>Starting and stopping the server\<close>

lemma register_existing_inv:
  assumes "engine_inv e" "symbol_exists e s" "all_waiting (registry e) = []"
  shows "engine_inv (register_symbol s p e)"
proof -
  have um: "um_emplace s (new_book s) (books e) = books e" using assms(2) by (simp add: um_emplace_def symbol_exists_def split: option.splits)
  let ?e = "register_symbol s p e"
  have l: "live_tags f ?e = live_tags f e" for f :: "order \<Rightarrow> 'a" by (simp add: live_tags_def register_symbol_def um)
  have "engine_ok ?e" using assms by (simp add: engine_inv_def engine_ok_def register_symbol_def um)
  moreover have "triggers_tracked ?e" using assms(3) by (simp add: triggers_tracked_def register_symbol_def)
  moreover have "ids_ok ?e" "clients_known ?e"
    using assms(1) by (auto simp: engine_inv_def ids_ok_def clients_known_def l) (simp_all add: register_symbol_def)
  ultimately show ?thesis by (simp add: engine_inv_def)
qed

lemma emplace_keys: "fst ` set (um_emplace k v m) = insert k (fst ` set m)"
proof (cases "map_of m k")
  case (Some w)
  then have "k \<in> fst ` set m" by (metis domI dom_map_of_conv_image_fst)
  then show ?thesis using Some by (simp add: um_emplace_def insert_absorb)
qed (simp add: um_emplace_def)

lemma register_live: "live_orders (register_symbol s p e) = live_orders e"
proof -
  have "books (register_symbol s p e) = books e \<or> books (register_symbol s p e) = books e @ [(s, new_book s)]"
    by (auto simp: register_symbol_def um_emplace_def split: option.splits)
  moreover have "registry (register_symbol s p e) = registry e" by (simp add: register_symbol_def)
  ultimately show ?thesis by (auto simp: live_orders_def resting_orders_def new_book_def)
qed

text \<open>An engine that trades exactly the given symbols and holds no order, in a book or waiting, and whose
  last prices agree with the given ones.\<close>

definition quiet_engine :: "symbol set \<Rightarrow> engine \<Rightarrow> bool" where
  "quiet_engine ss e \<longleftrightarrow> engine_inv e \<and> live_orders e = {#} \<and> fst ` set (books e) = ss"

lemma quiet_waiting: "live_orders e = {#} \<Longrightarrow> all_waiting (registry e) = []"
  by (simp add: live_orders_def)

lemma register_quiet: "quiet_engine ss e \<Longrightarrow> quiet_engine (insert s ss) (register_symbol s p e)"
proof -
  assume q: "quiet_engine ss e"
  then have inv: "engine_inv e" and l: "live_orders e = {#}" and b: "fst ` set (books e) = ss"
    by (simp_all add: quiet_engine_def)
  have "engine_inv (register_symbol s p e)"
    using register_inv[OF inv, of s p] register_existing_inv[OF inv _ quiet_waiting[OF l], of s p] by blast
  moreover have "fst ` set (books (register_symbol s p e)) = insert s ss"
    using b by (simp add: register_symbol_def emplace_keys)
  ultimately show ?thesis using l by (simp add: quiet_engine_def register_live)
qed

lemma ensure_quiet: "quiet_engine ss e \<Longrightarrow> quiet_engine ss (ensure_client c x e)"
  using ensure_inv by (simp add: quiet_engine_def live_orders_def ensure_client_def)

lemma grant_quiet: "quiet_engine ss e \<Longrightarrow> quiet_engine ss (grant_initial_holdings c s n e)"
  using grant_inv by (simp add: quiet_engine_def live_orders_def grant_initial_holdings_def)

lemma prices_quiet: "quiet_engine ss e \<Longrightarrow> quiet_engine (ss \<union> fst ` set ps) (apply_prices ps e)"
proof (induction ps arbitrary: ss e)
  case (Cons x ps)
  obtain s p where x: "x = (s, p)" by (cases x)
  show ?case using Cons.IH[OF register_quiet[OF Cons.prems], of s p] by (simp add: apply_prices_def x)
qed (simp add: apply_prices_def)

definition snapshot_symbols :: "uninit \<Rightarrow> string option \<Rightarrow> directory \<Rightarrow> symbol set" where
  "snapshot_symbols un content d =
     (case content of None \<Rightarrow> {} | Some text \<Rightarrow> fst ` set (p_prices (load_lines un (split_on newline text) d)))"

lemma load_quiet:
  assumes q: "quiet_engine ss e" and l: "load un path fs d e = (found, d', e', lg)"
  shows "quiet_engine (ss \<union> snapshot_symbols un (map_of fs path) d) e'"
proof (cases "map_of fs path")
  case None
  then show ?thesis using q l by (simp add: load_def snapshot_symbols_def)
next
  case (Some content)
  let ?st = "load_lines un (split_on newline content) d"
  have c: "quiet_engine ss (apply_cash (p_cash ?st) e)"
    unfolding apply_cash_def by (rule foldl_keeps[where P = "quiet_engine ss", OF q]) (auto intro: ensure_quiet split: prod.splits)
  have h: "quiet_engine ss (apply_holdings (p_holdings ?st) (apply_cash (p_cash ?st) e))"
    unfolding apply_holdings_def by (rule foldl_keeps[where P = "quiet_engine ss", OF c]) (auto intro: ensure_quiet grant_quiet split: prod.splits)
  have "e' = apply_prices (p_prices ?st) (apply_holdings (p_holdings ?st) (apply_cash (p_cash ?st) e))"
    using l Some by (simp add: load_def Let_def)
  then show ?thesis using prices_quiet[OF h, of "p_prices ?st"] Some by (simp add: snapshot_symbols_def)
qed

lemma snapshot_symbols_saved: "printable d e \<Longrightarrow> snapshot_symbols un (Some (snapshot_text d e)) d0 = fst ` set (last_prices e)"
  by (simp add: snapshot_symbols_def snapshot_text_def split_on_lines[OF snapshot_no_newline] load_snapshot
      del: space_newline(2))

lemma register_all_prices: "register_all_symbols = apply_prices"
  by (simp add: fun_eq_iff register_all_symbols_def apply_prices_def)

lemma prices_latest: "map_of (last_prices (apply_prices ps e)) = map_of (last_prices e) ++ map_of (rev ps)"
proof (induction ps arbitrary: e)
  case (Cons x ps)
  obtain s p where x: "x = (s, p)" by (cases x)
  have st: "apply_prices (x # ps) e = apply_prices ps (register_symbol s p e)" by (simp add: apply_prices_def x)
  show ?case unfolding st Cons.IH by (auto simp: x register_symbol_def map_add_def fun_eq_iff split: option.splits)
qed (simp add: apply_prices_def)

lemma new_engine_quiet: "quiet_engine {} new_engine"
  using new_engine_inv by (simp add: quiet_engine_def live_orders_def) (simp add: new_engine_def all_waiting_def empty_registry_def)

lemma prices_no_portfolios: "portfolios (apply_prices ps e) = portfolios e"
  using apply_prices_view[of ps e "[]"] by simp

text \<open>C30. The server starts sound and with what was saved. Whatever its snapshot file holds, well formed or
not, the engine satisfies its invariant, holds no order and trades every symbol of the market; the
directory is a map, carries no session token, and its next id is above every id it loaded (a file that
names one id twice is loaded as it is, so two accounts may then share it). When the file is the one a
successful save wrote, of a sound directory and with names without blanks and finite numbers, the
directory is sound and has exactly the saved accounts, every client has its cash and holdings, and a
symbol has its saved price, or the price it was configured with when the snapshot does not name it.\<close>

theorem server_boots_sound:
  assumes boot: "server_boot un q content fs = (d', e', lg')"
  shows "engine_inv e' \<and> live_orders e' = {#} \<and> fst ` set (server_symbols q content) \<subseteq> fst ` set (books e') \<and>
    um_ok (accounts d') \<and> dir_tokens d' = [] \<and> (\<forall>(_, a) \<in> set (accounts d'). acc_id a < next_client_id d') \<and>
    (vo_snapshot q \<noteq> [] \<and> printable d e \<and> dir_ok d \<and> save io (vo_snapshot q) d e fs0 = (True, fs, lg) \<longrightarrow>
       dir_ok d' \<and> accounts d' = accounts d \<and>
       dom (map_of (portfolios e')) = dom (map_of (portfolios e)) \<and>
       cash (portfolio_snapshot e' c) = cash (portfolio_snapshot e c) \<and>
       holding (portfolio_snapshot e' c) s = holding (portfolio_snapshot e c) s \<and>
       last_price e' s = um_get 0 (last_prices e @ rev (server_symbols q content)) s \<and>
       fst ` set (books e') = fst ` set (server_symbols q content) \<union> fst ` set (last_prices e))"
proof -
  let ?m = "server_symbols q content"
  let ?e0 = "apply_prices ?m new_engine"
  have q0: "quiet_engine (fst ` set ?m) ?e0" using prices_quiet[OF new_engine_quiet, of ?m] by simp
  have pf0: "portfolios ?e0 = []" unfolding prices_no_portfolios by (simp add: new_engine_def)
  have lp0: "map_of (last_prices ?e0) = map_of (rev ?m)" unfolding prices_latest by (simp add: new_engine_def)
  show ?thesis
  proof (cases "vo_snapshot q = []")
    case True
    then have "d' = new_directory" "e' = ?e0" using boot by (simp_all add: server_boot_def register_all_prices)
    then show ?thesis using q0 new_dir_loaded True by (simp add: quiet_engine_def dir_loaded_def)
  next
    case False
    then obtain found where l: "load un (vo_snapshot q) fs new_directory ?e0 = (found, d', e', lg')"
      using boot by (auto simp: server_boot_def register_all_prices Let_def split: prod.splits)
    have qe: "quiet_engine (fst ` set ?m \<union> snapshot_symbols un (map_of fs (vo_snapshot q)) new_directory) e'"
      by (rule load_quiet[OF q0 l])
    have dl: "dir_loaded d'" by (rule load_dir_loaded[OF l])
    have "dir_ok d' \<and> accounts d' = accounts d \<and>
       dom (map_of (portfolios e')) = dom (map_of (portfolios e)) \<and>
       cash (portfolio_snapshot e' c) = cash (portfolio_snapshot e c) \<and>
       holding (portfolio_snapshot e' c) s = holding (portfolio_snapshot e c) s \<and>
       last_price e' s = um_get 0 (last_prices e @ rev ?m) s \<and>
       fst ` set (books e') = fst ` set ?m \<union> fst ` set (last_prices e)"
      if p: "printable d e" and ok: "dir_ok d" and sv: "save io (vo_snapshot q) d e fs0 = (True, fs, lg)"
    proof -
      have fl: "map_of fs (vo_snapshot q) = Some (snapshot_text d e)" using save_outcome[OF sv] by simp
      note r = load_save_into[OF p fl l pf0, of c s]
      have "last_price e' s = um_get 0 (last_prices e @ rev ?m) s"
        using r lp0 by (simp add: last_price_def um_get_def)
      moreover have "dir_ok d'" using dl ok r by (auto simp: dir_loaded_def dir_ok_def)
      moreover have "fst ` set (books e') = fst ` set ?m \<union> fst ` set (last_prices e)"
        using qe unfolding fl snapshot_symbols_saved[OF p] by (simp add: quiet_engine_def)
      ultimately show ?thesis using r by blast
    qed
    then show ?thesis using qe dl by (auto simp: quiet_engine_def dir_loaded_def)
  qed
qed

definition demo_accounts :: directory where
  "demo_accounts = \<lparr>accounts = [(''ann'', \<lparr>acc_id = 1, salt_hex = ''ab'', password_hash_hex = ''cd''\<rparr>)],
     dir_tokens = [(''t'', 1)], next_client_id = 2\<rparr>"

theorem server_boots_sound_witness:
  "\<exists>fs lg d' e' lg'. save all_well ''state'' demo_accounts demo_engine [] = (True, fs, lg) \<and>
     server_boot (0, 0) (server_option_defaults\<lparr>vo_snapshot := ''state'', vo_use_seed := False\<rparr>) None fs = (d', e', lg') \<and>
     dir_ok d' \<and> map fst (accounts d') = [''ann''] \<and> cash (portfolio_snapshot e' 2) = Fin 1000 \<and>
     holding (portfolio_snapshot e' 1) ''AAA'' = 10 \<and> last_price e' ''AAA'' = Fin 100 \<and> last_price e' ''MSFT'' = Fin 410"
proof -
  let ?q = "server_option_defaults\<lparr>vo_snapshot := ''state'', vo_use_seed := False\<rparr>"
  have p: "printable demo_accounts demo_engine"
    by (simp add: printable_def demo_engine_eq demo_accounts_def good_double_def int64_def is_word_def is_space_def)
  have ok: "dir_ok demo_accounts" by (simp add: dir_ok_def demo_accounts_def)
  obtain fs lg where s: "save all_well ''state'' demo_accounts demo_engine [] = (True, fs, lg)"
    by (simp add: save_def Let_def all_well_def)
  have sq: "save all_well (vo_snapshot ?q) demo_accounts demo_engine [] = (True, fs, lg)" using s by simp
  obtain d' e' lg' where b: "server_boot (0, 0) ?q None fs = (d', e', lg')" by (metis prod_cases3)
  note t = server_boots_sound[OF b, where d = demo_accounts and e = demo_engine and io = all_well and ?fs0.0 = "[]" and lg = lg]
  have "dir_ok d'" "accounts d' = accounts demo_accounts" "cash (portfolio_snapshot e' 2) = Fin 1000"
    "holding (portfolio_snapshot e' 1) ''AAA'' = 10" "last_price e' ''AAA'' = Fin 100" "last_price e' ''MSFT'' = Fin 410"
    using t[of 2 "''AAA''"] t[of 1 "''AAA''"] t[of 2 "''MSFT''"] p ok sq
    by (simp_all add: demo_engine_eq portfolio_snapshot_def um_get_def holding_def server_symbols_def)
  then show ?thesis using s b by (simp add: demo_accounts_def)
qed

text \<open>The passes of the persistence thread, as many as the run lasts.\<close>

lemma passes_running: "running v \<Longrightarrow> persisting v \<Longrightarrow> (persistence_pass ^^ n) v = v\<lparr>saves := saves v + n\<rparr>"
  by (induction n) (simp_all add: persistence_pass_def)

lemma passes_idle: "\<not> running v \<or> \<not> persisting v \<Longrightarrow> (persistence_pass ^^ n) v = v"
  by (induction n) (auto simp: persistence_pass_def)

text \<open>A graceful shutdown loses nothing since the last periodic save and happens once: after a
successful start and any number of periodic saves, stopping ends every thread, closes the listening
socket and saves exactly once more if persistence is on; stopping again, or a late pass of the
persistence thread, changes nothing.\<close>

theorem shutdown_saves_once:
  assumes "service_start cfg a idle_service = (True, v)" "v' = service_stop cfg ((persistence_pass ^^ n) v)"
  shows "\<not> running v' \<and> \<not> listening v' \<and> \<not> accepting v' \<and> \<not> watching v' \<and> \<not> persisting v' \<and> \<not> sampling v' \<and>
    saves v' = (if persistence_path cfg \<noteq> [] then n + 1 else 0) \<and>
    service_stop cfg v' = v' \<and> persistence_pass v' = v'"
proof -
  have v: "running v" "persisting v = (persistence_path cfg \<noteq> [])" "saves v = 0"
    using assms(1) by (auto simp: service_start_def note_line_def idle_service_def split: if_splits)
  show ?thesis
    using assms(2) v passes_running[of v n] passes_idle[of v n]
    by (auto simp: service_stop_def note_line_def persistence_pass_def Let_def)
qed

theorem shutdown_saves_once_witness:
  "let cfg = server_defaults\<lparr>persistence_path := ''state''\<rparr> in
   saves (service_stop cfg ((persistence_pass ^^ 2) (snd (service_start cfg \<lparr>socket_ok = True, bind_ok = True, listen_ok = True\<rparr> idle_service)))) = 3"
proof -
  let ?cfg = "server_defaults\<lparr>persistence_path := ''state''\<rparr>"
  obtain v where s: "service_start ?cfg \<lparr>socket_ok = True, bind_ok = True, listen_ok = True\<rparr> idle_service = (True, v)"
    by (simp add: service_start_def)
  show ?thesis using shutdown_saves_once[OF s refl, of 2] by (simp only: s Let_def snd_conv) simp
qed

end
