(* ===== verification/SqlTime.thy ===== *)
theory SqlTime
  imports Streams "HOL-Library.Monad_Syntax"
begin

text \<open>
  The time encoding of the SQLite exchange, from \<open>src/Src_SQL/utility.cpp\<close> and \<open>utility.hpp\<close>: a
  timestamp is split into a number for the day (31-day months, 12-month years) and the milliseconds
  since midnight. \<open>localtime\<close> is a parameter: the time zone database is the system's.
\<close>

definition MS_IN_S :: int where "MS_IN_S = 1000"
definition S_IN_M :: int where "S_IN_M = 60"
definition MS_IN_M :: int where "MS_IN_M = 60000"
definition M_IN_H :: int where "M_IN_H = 60"
definition MS_IN_H :: int where "MS_IN_H = 3600000"
definition D_IN_M :: int where "D_IN_M = 31"
definition M_IN_Y :: int where "M_IN_Y = 12"

lemmas time_units = MS_IN_S_def S_IN_M_def MS_IN_M_def M_IN_H_def MS_IN_H_def D_IN_M_def M_IN_Y_def

text \<open>\<open>UINT16_MAX\<close>: the largest price, and the expiration date of an order that never expires.\<close>

definition max_number :: int where "max_number = 65535"

record tm =
  tm_year :: int
  tm_mon :: int
  tm_mday :: int
  tm_hour :: int
  tm_min :: int
  tm_sec :: int

type_synonym local_clock = "int \<Rightarrow> tm"

text \<open>The value a 64-bit integer has after a conversion to \<open>int\<close>.\<close>

definition to_int32 :: "int \<Rightarrow> int" where
  "to_int32 x = (x + 2 ^ 31) mod 2 ^ 32 - 2 ^ 31"

text \<open>\<open>%0wd\<close>; the division of C, towards zero.\<close>

definition zero_padded :: "nat \<Rightarrow> string \<Rightarrow> string" where
  "zero_padded w s = replicate (w - length s) CHR ''0'' @ s"

definition padded :: "nat \<Rightarrow> int \<Rightarrow> string" where
  "padded w n = (if n < 0 then ''-'' @ zero_padded (w - 1) (show_nat (nat (- n)))
                 else zero_padded w (show_nat (nat n)))"

definition quot :: "int \<Rightarrow> int \<Rightarrow> int" where
  "quot a b = sgn a * (\<bar>a\<bar> div b)"

definition rem :: "int \<Rightarrow> int \<Rightarrow> int" where
  "rem a b = sgn a * (\<bar>a\<bar> mod b)"

text \<open>\<open>snprintf\<close> of \<open>%04d-%02d-%02d %02d:%02d:%02d.%03d\<close> into a buffer of 32 characters.\<close>

definition stamp :: "int \<Rightarrow> int \<Rightarrow> int \<Rightarrow> int \<Rightarrow> int \<Rightarrow> int \<Rightarrow> int \<Rightarrow> string" where
  "stamp y mo d h mi s ms =
     take 31 (padded 4 y @ ''-'' @ padded 2 mo @ ''-'' @ padded 2 d @ '' '' @
              padded 2 h @ '':'' @ padded 2 mi @ '':'' @ padded 2 s @ ''.'' @ padded 3 ms)"

definition time_to_string :: "local_clock \<Rightarrow> int \<Rightarrow> string" where
  "time_to_string lt time_ms =
     (let now = lt (time_ms div MS_IN_S); ms = time_ms mod MS_IN_S
      in stamp (tm_year now + 1900) (tm_mon now + 1) (tm_mday now) (tm_hour now) (tm_min now) (tm_sec now) ms)"

definition get_daily_time :: "local_clock \<Rightarrow> int \<Rightarrow> int" where
  "get_daily_time lt time_ms =
     (let now = lt (time_ms div MS_IN_S); ms = time_ms mod MS_IN_S
      in ms + MS_IN_S * (tm_sec now + S_IN_M * (tm_min now + M_IN_H * tm_hour now)))"

definition get_date_time :: "local_clock \<Rightarrow> int \<Rightarrow> int" where
  "get_date_time lt time_ms =
     (let now = lt (time_ms div MS_IN_S)
      in tm_mday now + D_IN_M * (tm_mon now + M_IN_Y * tm_year now))"

definition two_times_to_string :: "int \<Rightarrow> int \<Rightarrow> string" where
  "two_times_to_string date_time daily_time =
     (let hours = to_int32 (quot daily_time MS_IN_H); d1 = rem daily_time MS_IN_H;
          minutes = to_int32 (quot d1 MS_IN_M); d2 = rem d1 MS_IN_M;
          seconds = to_int32 (quot d2 MS_IN_S); milliseconds = to_int32 (rem d2 MS_IN_S);
          year = to_int32 (quot date_time (D_IN_M * M_IN_Y)); t1 = rem date_time (D_IN_M * M_IN_Y);
          month = to_int32 (quot t1 D_IN_M); day = to_int32 (rem t1 D_IN_M)
      in stamp (year + 1900) (month + 1) day hours minutes seconds milliseconds)"

text \<open>\<open>substr\<close> and \<open>stoi\<close> throw; the value \<open>None\<close> is the exception.\<close>

definition substr :: "nat \<Rightarrow> nat \<Rightarrow> string \<Rightarrow> string option" where
  "substr p n s = (if p \<le> length s then Some (take n (drop p s)) else None)"

definition int_at :: "nat \<Rightarrow> nat \<Rightarrow> string \<Rightarrow> int option" where
  "int_at p n s = Option.bind (substr p n s) stoi"

definition get_date_id_from_string :: "string \<Rightarrow> int option" where
  "get_date_id_from_string s =
     do { year \<leftarrow> int_at 0 4 s; month \<leftarrow> int_at 5 2 s; day \<leftarrow> int_at 8 2 s;
          Some (day + D_IN_M * (month + M_IN_Y * year)) }"

definition get_daily_id_from_string :: "string \<Rightarrow> int option" where
  "get_daily_id_from_string s =
     do { hour \<leftarrow> int_at 0 2 s; minute \<leftarrow> int_at 3 2 s; second \<leftarrow> int_at 6 2 s; millisecond \<leftarrow> int_at 9 3 s;
          Some (millisecond + MS_IN_S * (second + S_IN_M * (minute + M_IN_H * hour))) }"

section \<open>What the encoding keeps\<close>

text \<open>A broken-down time of an ordinary calendar day (no leap second).\<close>

definition calendar :: "tm \<Rightarrow> bool" where
  "calendar t \<longleftrightarrow> 0 \<le> tm_year t \<and> tm_year t < 8000 \<and> 0 \<le> tm_mon t \<and> tm_mon t < 12 \<and>
     1 \<le> tm_mday t \<and> tm_mday t \<le> 31 \<and> 0 \<le> tm_hour t \<and> tm_hour t < 24 \<and>
     0 \<le> tm_min t \<and> tm_min t < 60 \<and> 0 \<le> tm_sec t \<and> tm_sec t < 60"

lemma to_int32_id: "- (2 ^ 31) \<le> x \<Longrightarrow> x < 2 ^ 31 \<Longrightarrow> to_int32 x = x"
  by (simp add: to_int32_def)

lemma quot_nonneg: "0 \<le> a \<Longrightarrow> quot a b = a div b"
  by (cases "a = 0") (simp_all add: quot_def)

lemma rem_nonneg: "0 \<le> a \<Longrightarrow> rem a b = a mod b"
  by (cases "a = 0") (simp_all add: rem_def)

lemma pack: "0 \<le> r \<Longrightarrow> r < b \<Longrightarrow> (r + b * q) div b = q \<and> (r + b * q) mod b = (r::int)"
  by simp

text \<open>The numbers of the day and of the milliseconds give back their parts.\<close>

lemma unpack_daily:
  assumes "0 \<le> ms" "ms < 1000" "0 \<le> s" "s < 60" "0 \<le> mi" "mi < 60" "0 \<le> h"
  defines "t \<equiv> ms + 1000 * (s + 60 * (mi + 60 * h))"
  shows "t div 3600000 = (h::int)" "t mod 3600000 div 60000 = mi"
    "t mod 3600000 mod 60000 div 1000 = s" "t mod 3600000 mod 60000 mod 1000 = ms" "0 \<le> t"
proof -
  have a: "0 \<le> ms + 1000 * s" "ms + 1000 * s < 60000" using assms by auto
  have b: "0 \<le> ms + 1000 * s + 60000 * mi" "ms + 1000 * s + 60000 * mi < 3600000" using assms by auto
  have t: "t = (ms + 1000 * s + 60000 * mi) + 3600000 * h" by (simp add: t_def)
  note q = pack[OF b, of h] and q2 = pack[OF a, of mi] and q3 = pack[OF assms(1,2), of s]
  show "t div 3600000 = h" "t mod 3600000 div 60000 = mi"
    "t mod 3600000 mod 60000 div 1000 = s" "t mod 3600000 mod 60000 mod 1000 = ms"
    unfolding t using q q2 q3 by simp_all
  show "0 \<le> t" using b assms(7) unfolding t by simp
qed

lemma unpack_date:
  assumes "0 \<le> d" "d < 31" "0 \<le> mo" "mo < 12" "0 \<le> y"
  defines "t \<equiv> d + 31 * (mo + 12 * y)"
  shows "t div 372 = (y::int)" "t mod 372 div 31 = mo" "t mod 372 mod 31 = d" "0 \<le> t"
proof -
  have b: "0 \<le> d + 31 * mo" "d + 31 * mo < 372" using assms by auto
  have t: "t = (d + 31 * mo) + 372 * y" by (simp add: t_def)
  note q = pack[OF b, of y] and q2 = pack[OF assms(1,2), of mo]
  show "t div 372 = y" "t mod 372 div 31 = mo" "t mod 372 mod 31 = d"
    unfolding t using q q2 by simp_all
  show "0 \<le> t" using b assms(5) unfolding t by simp
qed

lemma two_times_stamp:
  assumes "0 \<le> ms" "ms < 1000" "0 \<le> s" "s < 60" "0 \<le> mi" "mi < 60" "0 \<le> h" "h < 24"
    "0 \<le> d" "d < 31" "0 \<le> mo" "mo < 12" "0 \<le> y" "y < 9000"
  shows "two_times_to_string (d + 31 * (mo + 12 * y)) (ms + 1000 * (s + 60 * (mi + 60 * h)))
    = stamp (y + 1900) (mo + 1) d h mi s ms"
proof -
  define t where "t = ms + 1000 * (s + 60 * (mi + 60 * h))"
  define u where "u = d + 31 * (mo + 12 * y)"
  note pt = unpack_daily[OF assms(1-7), folded t_def] and pu = unpack_date[OF assms(9-13), folded u_def]
  have m: "0 \<le> t mod 3600000" "0 \<le> t mod 3600000 mod 60000" "0 \<le> u mod 372" by simp_all
  have i: "to_int32 h = h" "to_int32 mi = mi" "to_int32 s = s" "to_int32 ms = ms" "to_int32 y = y"
    "to_int32 mo = mo" "to_int32 d = d"
    using assms by (simp_all add: to_int32_id)
  have "two_times_to_string u t = stamp (y + 1900) (mo + 1) d h mi s ms"
    unfolding two_times_to_string_def time_units Let_def
    by (simp add: quot_nonneg rem_nonneg pt pu m i del: mod_mod_trivial)
  then show ?thesis by (simp add: t_def u_def)
qed

lemma length_padded2: "0 \<le> n \<Longrightarrow> n < 100 \<Longrightarrow> length (padded 2 n) = 2"
proof -
  assume "0 \<le> n" "n < 100"
  then have "length (show_nat (nat n)) \<le> 2" by (auto simp: show_nat.simps)
  then show ?thesis using \<open>0 \<le> n\<close> by (simp add: padded_def zero_padded_def)
qed

lemma length_padded4: "0 \<le> n \<Longrightarrow> n < 10000 \<Longrightarrow> length (padded 4 n) = 4"
proof -
  assume "0 \<le> n" "n < 10000"
  then have "length (show_nat (nat n)) \<le> 4" by (auto simp: show_nat.simps)
  then show ?thesis using \<open>0 \<le> n\<close> by (simp add: padded_def zero_padded_def)
qed

lemma stamp_day:
  assumes "0 \<le> y" "y < 10000" "0 \<le> mo" "mo < 100" "0 \<le> d" "d < 100"
  shows "take 2 (drop 8 (stamp y mo d h mi s ms)) = padded 2 d"
  unfolding stamp_def using assms by (simp add: drop_take length_padded2 length_padded4)

lemma padded_differ: "padded 2 31 \<noteq> padded 2 0"
  by code_simp


text \<open>Printing the two encoded numbers gives the printed time back exactly when the day is not the
  31st: the encoding has room for 31 days numbered from zero while \<open>tm_mday\<close> starts at one, so a 31st is
  printed as day 00 of the next month.\<close>

theorem encoded_time_prints_back:
  assumes "calendar (lt (t div 1000))"
  shows "two_times_to_string (get_date_time lt t) (get_daily_time lt t) = time_to_string lt t
    \<longleftrightarrow> tm_mday (lt (t div 1000)) \<noteq> 31"
proof -
  define now where "now = lt (t div 1000)"
  note c = assms[folded now_def, unfolded calendar_def]
  have ms: "0 \<le> t mod 1000" "t mod 1000 < 1000" by simp_all
  have enc: "get_daily_time lt t = t mod 1000 + 1000 * (tm_sec now + 60 * (tm_min now + 60 * tm_hour now))"
    "get_date_time lt t = tm_mday now + 31 * (tm_mon now + 12 * tm_year now)"
    "time_to_string lt t = stamp (tm_year now + 1900) (tm_mon now + 1) (tm_mday now) (tm_hour now) (tm_min now)
       (tm_sec now) (t mod 1000)"
    by (simp_all add: get_daily_time_def get_date_time_def time_to_string_def time_units now_def Let_def)
  note print = two_times_stamp[OF ms, of "tm_sec now" "tm_min now" "tm_hour now"]
  show ?thesis
  proof (cases "tm_mday now = 31")
    case False
    then show ?thesis using print[of "tm_mday now" "tm_mon now" "tm_year now"] c
      by (simp add: enc now_def[symmetric])
  next
    case True
    define mo y where "mo = (tm_mon now + 1) mod 12" and "y = tm_year now + (tm_mon now + 1) div 12"
    have day: "tm_mday now + 31 * (tm_mon now + 12 * tm_year now) = 0 + 31 * (mo + 12 * y)"
      using True by (simp add: mo_def y_def)
    have r: "0 \<le> mo" "mo < 12" "0 \<le> y" "y < 8001" using c by (auto simp: mo_def y_def)
    have "two_times_to_string (get_date_time lt t) (get_daily_time lt t)
        = stamp (y + 1900) (mo + 1) 0 (tm_hour now) (tm_min now) (tm_sec now) (t mod 1000)"
      unfolding enc day using print[of 0 mo y] c r by simp
    moreover have "take 2 (drop 8 (stamp (y + 1900) (mo + 1) 0 (tm_hour now) (tm_min now) (tm_sec now) (t mod 1000)))
        = padded 2 0"
      using stamp_day[of "y + 1900" "mo + 1" 0] r by simp
    moreover have "take 2 (drop 8 (time_to_string lt t)) = padded 2 31"
      unfolding enc using stamp_day[of "tm_year now + 1900" "tm_mon now + 1" 31] c True by simp
    ultimately show ?thesis using padded_differ True by (auto simp: now_def[symmetric])
  qed
qed

theorem encoded_time_prints_back_witness:
  "two_times_to_string (get_date_time (\<lambda>_. \<lparr>tm_year = 125, tm_mon = 2, tm_mday = 18, tm_hour = 16, tm_min = 5, tm_sec = 23\<rparr>) 1742313923123)
     (get_daily_time (\<lambda>_. \<lparr>tm_year = 125, tm_mon = 2, tm_mday = 18, tm_hour = 16, tm_min = 5, tm_sec = 23\<rparr>) 1742313923123)
   = ''2025-03-18 16:05:23.123''"
proof -
  define lt :: local_clock where
    "lt = (\<lambda>_. \<lparr>tm_year = 125, tm_mon = 2, tm_mday = 18, tm_hour = 16, tm_min = 5, tm_sec = 23\<rparr>)"
  have "two_times_to_string (get_date_time lt 1742313923123) (get_daily_time lt 1742313923123) = time_to_string lt 1742313923123"
    using encoded_time_prints_back[of lt 1742313923123] by (simp add: lt_def calendar_def)
  also have "\<dots> = ''2025-03-18 16:05:23.123''" unfolding lt_def by code_simp
  finally show ?thesis by (simp add: lt_def)
qed

end
