(* ===== verification/SqlBase.thy ===== *)
theory SqlBase
  imports SqlTime
begin

text \<open>
  The database of the SQLite exchange: \<open>src/Src_SQL/database_management.cpp\<close>, \<open>order.cpp\<close>,
  \<open>action.cpp\<close> and \<open>messages.cpp\<close>. A table is the list of its rows in row-id order, a statement the
  function on the tables that SQL gives it; the schema's keys and \<open>NOT NULL\<close> columns are the guards
  of the insertions, and a refused statement changes nothing. What SQLite, fmt and OpenSSL compute
  themselves is a parameter (\<open>sql_env\<close>), and so is the value a local variable has before anything is
  read into it.
\<close>

section \<open>Enumerations\<close>

datatype order_type = BUY | SELL

datatype order_trigger = NO_TRIGGER | MARKET | LIMIT | STOP | LIMIT_STOP

datatype order_status = PENDING | WAITING | COMPLETED

fun order_type_to_string :: "order_type \<Rightarrow> string" where
  "order_type_to_string BUY = ''BUY''"
| "order_type_to_string SELL = ''SELL''"

definition string_to_order_type :: "string \<Rightarrow> order_type" where
  "string_to_order_type s = (case map_of [(''BUY'', BUY), (''SELL'', SELL)] s of Some t \<Rightarrow> t | None \<Rightarrow> BUY)"

fun trigger_to_string :: "order_trigger \<Rightarrow> string" where
  "trigger_to_string MARKET = ''MARKET''"
| "trigger_to_string LIMIT = ''LIMIT''"
| "trigger_to_string STOP = ''STOP''"
| "trigger_to_string LIMIT_STOP = ''LIMIT_STOP''"
| "trigger_to_string NO_TRIGGER = ''NO_TRIGGER''"

definition string_to_trigger :: "string \<Rightarrow> order_trigger" where
  "string_to_trigger s =
     (case map_of [(''MARKET'', MARKET), (''LIMIT'', LIMIT), (''STOP'', STOP), (''LIMIT_STOP'', LIMIT_STOP)] s of
        Some t \<Rightarrow> t | None \<Rightarrow> NO_TRIGGER)"

lemma trigger_round_trip [simp]: "string_to_trigger (trigger_to_string t) = t"
  by (cases t) (simp_all add: string_to_trigger_def)

lemma order_type_round_trip [simp]: "string_to_order_type (order_type_to_string t) = t"
  by (cases t) (simp_all add: string_to_order_type_def)

datatype sender = SERVER_MESSAGE | CLIENT_MESSAGE

datatype message_type =
    AUTHENTIFICATION_REQUEST | AUTHENTIFICATION_SUCCESS | AUTHENTIFICATION_FAILURE_INPUT
  | AUTHENTIFICATION_FAILURE_USERNAME | AUTHENTIFICATION_FAILURE_PASSWORD
  | CLIENT_CONNECTED | CLIENT_DISCONNECTED | SERVER_SHUTDOWN | SERVER_RESTART
  | ACCUMULATING_ORDER | WAITING_ORDER | TRANSACTION
  | PRE_OPEN_PHASE | OPEN_PHASE | CONTINUOUS_TRADING_PHASE | PRE_CLOSE_PHASE | CLOSE_PHASE
  | DISPLAY_PORTFOLIO | DISPLAY_PENDING_ORDERS | DISPLAY_COMPLETED_ORDERS | DISPLAY_MARKET | DISPLAY_ACTION
  | EXIT | DEPOSIT | WITHDRAW | ORDER | ERROR

fun sender_text :: "sender \<Rightarrow> string" where
  "sender_text SERVER_MESSAGE = ''SERVER_MESSAGE''"
| "sender_text CLIENT_MESSAGE = ''CLIENT_MESSAGE''"

fun message_type_text :: "message_type \<Rightarrow> string" where
  "message_type_text AUTHENTIFICATION_REQUEST = ''AUTHENTIFICATION_REQUEST''"
| "message_type_text AUTHENTIFICATION_SUCCESS = ''AUTHENTIFICATION_SUCCESS''"
| "message_type_text AUTHENTIFICATION_FAILURE_INPUT = ''AUTHENTIFICATION_FAILURE_INPUT''"
| "message_type_text AUTHENTIFICATION_FAILURE_USERNAME = ''AUTHENTIFICATION_FAILURE_USERNAME''"
| "message_type_text AUTHENTIFICATION_FAILURE_PASSWORD = ''AUTHENTIFICATION_FAILURE_PASSWORD''"
| "message_type_text CLIENT_CONNECTED = ''CLIENT_CONNECTED''"
| "message_type_text CLIENT_DISCONNECTED = ''CLIENT_DISCONNECTED''"
| "message_type_text SERVER_SHUTDOWN = ''SERVER_SHUTDOWN''"
| "message_type_text SERVER_RESTART = ''SERVER_RESTART''"
| "message_type_text ACCUMULATING_ORDER = ''ACCUMULATING_ORDER''"
| "message_type_text WAITING_ORDER = ''WAITING_ORDER''"
| "message_type_text TRANSACTION = ''TRANSACTION''"
| "message_type_text PRE_OPEN_PHASE = ''PRE_OPEN_PHASE''"
| "message_type_text OPEN_PHASE = ''OPEN_PHASE''"
| "message_type_text CONTINUOUS_TRADING_PHASE = ''CONTINUOUS_TRADING_PHASE''"
| "message_type_text PRE_CLOSE_PHASE = ''PRE_CLOSE_PHASE''"
| "message_type_text CLOSE_PHASE = ''CLOSE_PHASE''"
| "message_type_text DISPLAY_PORTFOLIO = ''DISPLAY_PORTFOLIO''"
| "message_type_text DISPLAY_PENDING_ORDERS = ''DISPLAY_PENDING_ORDERS''"
| "message_type_text DISPLAY_COMPLETED_ORDERS = ''DISPLAY_COMPLETED_ORDERS''"
| "message_type_text DISPLAY_MARKET = ''DISPLAY_MARKET''"
| "message_type_text DISPLAY_ACTION = ''DISPLAY_ACTION''"
| "message_type_text EXIT = ''EXIT''"
| "message_type_text DEPOSIT = ''DEPOSIT''"
| "message_type_text WITHDRAW = ''WITHDRAW''"
| "message_type_text ORDER = ''ORDER''"
| "message_type_text ERROR = ''ERROR''"

section \<open>Tables\<close>

record client_row =
  cl_id :: int
  cl_name :: string
  cl_password :: string
  cl_balance :: double

record action_row =
  a_id :: int
  a_name :: string
  a_quantity :: int

record price_row =
  p_action :: int
  p_price :: double
  p_date :: int
  p_daily :: int

record order_row =
  o_id :: int
  o_status :: order_status
  o_date :: int
  o_daily :: int
  o_client :: int
  o_type :: order_type
  o_quantity :: int
  o_action :: int
  o_trigger :: order_trigger
  o_price :: double
  o_lower :: double
  o_upper :: double
  o_exp_date :: int
  o_exp_daily :: int

record holding_row =
  h_client :: int
  h_action :: int
  h_quantity :: int

record message_row =
  m_id :: int
  m_client :: int
  m_sender :: string
  m_type :: string
  m_content :: string
  m_date :: int
  m_daily :: int

record database =
  actions :: "action_row list"
  prices :: "price_row list"
  clients :: "client_row list"
  orders :: "order_row list"
  client_portfolio :: "holding_row list"
  messages :: "message_row list"

definition empty_database :: database where
  "empty_database = \<lparr>actions = [], prices = [], clients = [], orders = [], client_portfolio = [], messages = []\<rparr>"

text \<open>
  \<open>sql_sum\<close> is the sum SQLite forms of a nonempty column of REAL values, \<open>sql_real\<close> the text of one,
  \<open>fmt_real\<close> what fmt prints for a double; \<open>broken_update\<close> and \<open>broken_query\<close> are what SQLite makes
  of a statement whose quotes a user's text closes; \<open>stray_int\<close> and \<open>stray_real\<close> are the values of
  variables nothing was read into.
\<close>

record sql_env =
  sql_sum :: "double list \<Rightarrow> double"
  sql_real :: "double \<Rightarrow> string"
  fmt_real :: "double \<Rightarrow> string"
  local_time :: local_clock
  encrypt :: "string \<Rightarrow> string"
  broken_update :: "string \<Rightarrow> database \<Rightarrow> database"
  broken_query :: "string \<Rightarrow> database \<Rightarrow> int"
  stray_int :: "string \<Rightarrow> int"
  stray_real :: "string \<Rightarrow> double"

section \<open>Queries\<close>

text \<open>
  The first row of the answer, and a default when there is none. Identifiers are 64 bits wide but
  are fetched with \<open>sqlite3_column_int\<close>.
\<close>

definition execute_SQL_query_ID :: "int list \<Rightarrow> int" where
  "execute_SQL_query_ID rows = (case rows of [] \<Rightarrow> - 1 | x # _ \<Rightarrow> to_int32 x)"

definition execute_SQL_query_int :: "int list \<Rightarrow> int" where
  "execute_SQL_query_int rows = (case rows of [] \<Rightarrow> - 1 | x # _ \<Rightarrow> to_int32 x)"

text \<open>SQLite makes a NaN that an expression yields \<open>NULL\<close>, which \<open>sqlite3_column_double\<close> reads as zero.\<close>

definition column_double :: "double \<Rightarrow> double" where
  "column_double x = (if x = NaN then 0 else x)"

lemma column_double_simps [simp]:
  "column_double (Fin x) = Fin x" "column_double 0 = 0" "d \<noteq> NaN \<Longrightarrow> column_double d = d"
  by (simp_all add: column_double_def zero_double_def)

definition execute_SQL_query_double :: "double list \<Rightarrow> double" where
  "execute_SQL_query_double rows = (case rows of [] \<Rightarrow> Fin (- 1) | x # _ \<Rightarrow> column_double x)"

definition execute_SQL_query_IDs :: "int list \<Rightarrow> int list" where
  "execute_SQL_query_IDs rows = rows"

text \<open>A double written into the text of a statement is a literal only when it is finite.\<close>

definition is_literal :: "double \<Rightarrow> bool" where
  "is_literal x \<longleftrightarrow> x \<noteq> NaN \<and> x \<noteq> PosInf \<and> x \<noteq> NegInf"

lemma literal_column [simp]: "is_literal d \<Longrightarrow> column_double d = d"
  by (simp add: is_literal_def)

definition quotes :: "string \<Rightarrow> bool" where
  "quotes s \<longleftrightarrow> CHR 0x27 \<in> set s"

text \<open>
  A fresh identifier: the query is formatted once, with the first draw, so the loop leaves at once
  or never.
\<close>

partial_function (option) draw_until :: "int \<Rightarrow> int \<Rightarrow> (nat \<Rightarrow> int) \<Rightarrow> nat \<Rightarrow> (int \<times> nat) option" where
  "draw_until found new_id draws k =
     (if found = - 1 then Some (new_id, k) else draw_until found (draws k) draws (Suc k))"

declare draw_until.simps [code]

definition get_new_order_id :: "(nat \<Rightarrow> int) \<Rightarrow> nat \<Rightarrow> database \<Rightarrow> (int \<times> nat) option" where
  "get_new_order_id draws k db =
     (let new_order = draws k; found = execute_SQL_query_ID (filter (\<lambda>i. i = new_order) (map o_id (orders db)))
      in draw_until found new_order draws (Suc k))"

definition get_new_action_id :: "(nat \<Rightarrow> int) \<Rightarrow> nat \<Rightarrow> database \<Rightarrow> (int \<times> nat) option" where
  "get_new_action_id draws k db =
     (let new_action = draws k; found = execute_SQL_query_ID (filter (\<lambda>i. i = new_action) (map a_id (actions db)))
      in draw_until found new_action draws (Suc k))"

definition get_new_message_id :: "(nat \<Rightarrow> int) \<Rightarrow> nat \<Rightarrow> database \<Rightarrow> (int \<times> nat) option" where
  "get_new_message_id draws k db =
     (let new_message = draws k; found = execute_SQL_query_ID (filter (\<lambda>i. i = new_message) (map m_id (messages db)))
      in draw_until found new_message draws (Suc k))"

section \<open>Statements\<close>

definition insert_order :: "order_row \<Rightarrow> database \<Rightarrow> database" where
  "insert_order r db =
     (if o_id r \<in> set (map o_id (orders db)) \<or>
         \<not> (is_literal (o_price r) \<and> is_literal (o_lower r) \<and> is_literal (o_upper r))
      then db else db\<lparr>orders := insort_key o_id r (orders db)\<rparr>)"

definition delete_orders :: "(order_row \<Rightarrow> bool) \<Rightarrow> database \<Rightarrow> database" where
  "delete_orders P db = db\<lparr>orders := filter (\<lambda>r. \<not> P r) (orders db)\<rparr>"

definition insert_price :: "price_row \<Rightarrow> database \<Rightarrow> database" where
  "insert_price r db = (if is_literal (p_price r) then db\<lparr>prices := prices db @ [r]\<rparr> else db)"

definition insert_message :: "message_row \<Rightarrow> database \<Rightarrow> database" where
  "insert_message r db =
     (if m_id r \<in> set (map m_id (messages db)) then db
      else db\<lparr>messages := insort_key m_id r (messages db)\<rparr>)"

definition insert_holding :: "holding_row \<Rightarrow> database \<Rightarrow> database" where
  "insert_holding r db =
     (if (h_client r, h_action r) \<in> set (map (\<lambda>h. (h_client h, h_action h)) (client_portfolio db)) then db
      else db\<lparr>client_portfolio := client_portfolio db @ [r]\<rparr>)"

text \<open>
  The latest price: \<open>ORDER BY date_time DESC, daily_time DESC LIMIT 1\<close>. Of several rows with the same
  time the first inserted comes first.
\<close>

definition later :: "price_row \<Rightarrow> price_row \<Rightarrow> bool" where
  "later a b \<longleftrightarrow> p_date b < p_date a \<or> p_date a = p_date b \<and> p_daily b < p_daily a"

fun latest :: "price_row list \<Rightarrow> price_row option" where
  "latest [] = None"
| "latest (r # rs) = (case latest rs of None \<Rightarrow> Some r | Some q \<Rightarrow> if later q r then Some q else Some r)"

definition action_prices :: "int \<Rightarrow> database \<Rightarrow> price_row list" where
  "action_prices action db = filter (\<lambda>r. p_action r = action) (prices db)"

definition get_current_price :: "int \<Rightarrow> database \<Rightarrow> double" where
  "get_current_price action db =
     execute_SQL_query_double (case latest (action_prices action db) of None \<Rightarrow> [] | Some r \<Rightarrow> [p_price r])"

text \<open>The prices of the last moment: the row value compared is the largest day and, in it, the largest time.\<close>

definition last_moment :: "price_row list \<Rightarrow> price_row list" where
  "last_moment rs = filter (\<lambda>r. \<not> (\<exists>q \<in> set rs. later q r)) rs"

section \<open>Orders\<close>

definition rows_of_order :: "int \<Rightarrow> database \<Rightarrow> order_row list" where
  "rows_of_order i db = filter (\<lambda>r. o_id r = i) (orders db)"

definition get_date_order_time :: "database \<Rightarrow> int \<Rightarrow> int" where
  "get_date_order_time db i = execute_SQL_query_ID (map o_date (rows_of_order i db))"

definition get_daily_order_time :: "database \<Rightarrow> int \<Rightarrow> int" where
  "get_daily_order_time db i = execute_SQL_query_ID (map o_daily (rows_of_order i db))"

definition get_quantity :: "database \<Rightarrow> int \<Rightarrow> int" where
  "get_quantity db i = execute_SQL_query_int (map o_quantity (rows_of_order i db))"

definition get_price :: "database \<Rightarrow> int \<Rightarrow> double" where
  "get_price db i = execute_SQL_query_double (map o_price (rows_of_order i db))"

definition set_quantity :: "int \<Rightarrow> int \<Rightarrow> database \<Rightarrow> database option" where
  "set_quantity i q db =
     (if q < 0 then None
      else Some (db\<lparr>orders := map (\<lambda>r. if o_id r = i then r\<lparr>o_quantity := q\<rparr> else r) (orders db)\<rparr>))"

definition get_order_info :: "sql_env \<Rightarrow> database \<Rightarrow> int \<Rightarrow> string" where
  "get_order_info env db i =
     (case rows_of_order i db of
        [] \<Rightarrow> []
      | r # _ \<Rightarrow>
          join_words [show_int (o_id r), show_int (o_date r), show_int (o_daily r), show_int (o_client r),
            show_int (o_quantity r), trigger_to_string (o_trigger r), sql_real env (o_price r),
            sql_real env (o_lower r), sql_real env (o_upper r), show_int (o_exp_date r), show_int (o_exp_daily r)])"

section \<open>Actions\<close>

fun ascending :: "price_row list \<Rightarrow> price_row list" where
  "ascending [] = []"
| "ascending (r # rs) = (let (before, after) = (takeWhile (\<lambda>q. later r q) (ascending rs), dropWhile (\<lambda>q. later r q) (ascending rs))
                         in before @ r # after)"

text \<open>
  An action without a price gives one row with empty columns, whose time \<open>stoll\<close> refuses: the
  exception (\<open>None\<close>) is not caught.
\<close>

definition get_action_info :: "sql_env \<Rightarrow> database \<Rightarrow> int \<Rightarrow> string option" where
  "get_action_info env db action =
     (case filter (\<lambda>a. a_id a = action) (actions db) of
        [] \<Rightarrow> Some []
      | a # _ \<Rightarrow>
          (if action_prices action db = [] then None
           else Some (a_name a @ '' '' @ show_int (a_quantity a) @
             concat (map (\<lambda>r. '','' @ sql_real env (p_price r) @ '' '' @ two_times_to_string (p_date r) (p_daily r))
               (ascending (action_prices action db))))))"

section \<open>Messages\<close>

definition log_message :: "sql_env \<Rightarrow> int \<Rightarrow> int \<Rightarrow> sender \<Rightarrow> message_type \<Rightarrow> string \<Rightarrow> int \<Rightarrow> database \<Rightarrow> database" where
  "log_message env i cl s ty content t db =
     (if quotes content then broken_update env content db
      else insert_message \<lparr>m_id = i, m_client = cl, m_sender = sender_text s, m_type = message_type_text ty,
             m_content = content, m_date = get_date_time (local_time env) t,
             m_daily = get_daily_time (local_time env) t\<rparr> db)"

definition display_message :: "database \<Rightarrow> int \<Rightarrow> string option" where
  "display_message db i =
     (case filter (\<lambda>m. m_id m = i) (messages db) of
        [] \<Rightarrow> None
      | m # _ \<Rightarrow> Some (''Message ID: '' @ show_int i @ '', Client ID: '' @ show_int (m_client m) @ '', Sender: '' @
          m_sender m @ '', Type: '' @ m_type m @ '', Content: '' @ m_content m @ '',Time: '' @
          two_times_to_string (m_date m) (m_daily m)))"

end
