(* ===== verification/SqlClient.thy ===== *)
theory SqlClient
  imports SqlBase
begin

text \<open>
  A client account of the SQLite exchange, from \<open>src/Src_SQL/client.cpp\<close>: the balance, the funds
  already reserved by the orders that are not executed yet, the three kinds of orders and the
  portfolio. The methods of the class are functions of the client's identifier and the database.
\<close>

definition safety_percentage :: double where "safety_percentage = rnd (11 / 10)"

definition max_price :: double where "max_price = dbl_of_int max_number"

definition clients_with :: "int \<Rightarrow> database \<Rightarrow> client_row list" where
  "clients_with i db = filter (\<lambda>c. cl_id c = i) (clients db)"

definition get_balance :: "int \<Rightarrow> database \<Rightarrow> double" where
  "get_balance i db = execute_SQL_query_double (map cl_balance (clients_with i db))"

definition holdings_of :: "int \<Rightarrow> int \<Rightarrow> database \<Rightarrow> holding_row list" where
  "holdings_of i action db = filter (\<lambda>h. h_client h = i \<and> h_action h = action) (client_portfolio db)"

definition is_action_in_portfolio :: "int \<Rightarrow> int \<Rightarrow> database \<Rightarrow> bool" where
  "is_action_in_portfolio i action db \<longleftrightarrow> execute_SQL_query_ID (map h_action (holdings_of i action db)) = action"

section \<open>Balance\<close>

text \<open>An update that would store NaN, which SQLite takes for \<open>NULL\<close>, is refused by the column.\<close>

definition set_balance :: "int \<Rightarrow> (double \<Rightarrow> double) \<Rightarrow> database \<Rightarrow> database" where
  "set_balance i f db =
     (if \<exists>c \<in> set (clients_with i db). f (cl_balance c) = NaN then db
      else db\<lparr>clients := map (\<lambda>c. if cl_id c = i then c\<lparr>cl_balance := f (cl_balance c)\<rparr> else c) (clients db)\<rparr>)"

definition client_deposit :: "int \<Rightarrow> double \<Rightarrow> database \<Rightarrow> database" where
  "client_deposit i amount db =
     (if 0 < amount \<and> is_literal amount then set_balance i (\<lambda>b. b + amount) db else db)"

definition client_withdraw :: "int \<Rightarrow> double \<Rightarrow> database \<Rightarrow> database" where
  "client_withdraw i amount db = (if is_literal amount then set_balance i (\<lambda>b. b - amount) db else db)"

text \<open>What one order that is not executed yet reserves, and the balance less all of them.\<close>

definition reservation :: "database \<Rightarrow> order_row \<Rightarrow> double" where
  "reservation db r =
     dbl_of_int (o_quantity r) *
     (if o_trigger r = MARKET
      then (case latest (action_prices (o_action r) db) of None \<Rightarrow> 0 | Some p \<Rightarrow> p_price p) * safety_percentage
      else o_price r)"

definition open_orders :: "int \<Rightarrow> database \<Rightarrow> order_row list" where
  "open_orders i db = filter (\<lambda>r. o_client r = i \<and> (o_status r = PENDING \<or> o_status r = WAITING)) (orders db)"

text \<open>\<open>SUM\<close> skips the rows whose term is \<open>NULL\<close>; without a row, or with a NaN for sum, it is \<open>NULL\<close>, for
  which \<open>COALESCE\<close> takes zero.\<close>

definition reserved :: "sql_env \<Rightarrow> int \<Rightarrow> database \<Rightarrow> double" where
  "reserved env i db =
     (let terms = filter (\<lambda>x. x \<noteq> NaN) (map (reservation db) (open_orders i db))
      in if terms = [] then 0 else column_double (sql_sum env terms))"

definition available_balance :: "sql_env \<Rightarrow> int \<Rightarrow> database \<Rightarrow> double" where
  "available_balance env i db =
     execute_SQL_query_double (map (\<lambda>c. cl_balance c - reserved env i db) (clients_with i db))"

definition client_can_afford :: "sql_env \<Rightarrow> int \<Rightarrow> int \<Rightarrow> double \<Rightarrow> int \<Rightarrow> database \<Rightarrow> bool" where
  "client_can_afford env i quantity pr action db =
     (if deq pr max_price \<and> action \<noteq> - 1 then
        (let current_price = get_current_price action db;
             amount = dbl_of_int quantity * current_price * safety_percentage
         in if current_price \<le> 0 then False
            else if amount < 0 then False
            else amount \<le> available_balance env i db)
      else
        (let amount = dbl_of_int quantity * pr
         in if amount < 0 then False else amount \<le> available_balance env i db))"

section \<open>Orders\<close>

definition add_completed_order :: "int \<Rightarrow> order_row \<Rightarrow> database \<Rightarrow> database" where
  "add_completed_order i r db = insert_order (r\<lparr>o_client := i, o_status := COMPLETED\<rparr>) db"

definition add_pending_order :: "int \<Rightarrow> order_row \<Rightarrow> database \<Rightarrow> database" where
  "add_pending_order i r db = insert_order (r\<lparr>o_client := i, o_status := PENDING\<rparr>) db"

definition add_waiting_order :: "int \<Rightarrow> order_row \<Rightarrow> database \<Rightarrow> database" where
  "add_waiting_order i r db = insert_order (r\<lparr>o_client := i, o_status := WAITING\<rparr>) db"

definition remove_pending_order :: "int \<Rightarrow> int \<Rightarrow> database \<Rightarrow> database" where
  "remove_pending_order i order db =
     delete_orders (\<lambda>r. o_id r = order \<and> o_status r = PENDING \<and> o_client r = i) db"

definition remove_waiting_order :: "int \<Rightarrow> int \<Rightarrow> database \<Rightarrow> database" where
  "remove_waiting_order i order db =
     delete_orders (\<lambda>r. o_id r = order \<and> o_status r = WAITING \<and> o_client r = i) db"

section \<open>Portfolio\<close>

definition change_holding :: "int \<Rightarrow> int \<Rightarrow> (int \<Rightarrow> int) \<Rightarrow> database \<Rightarrow> database" where
  "change_holding i action f db =
     db\<lparr>client_portfolio := map (\<lambda>h. if h_client h = i \<and> h_action h = action
                                    then h\<lparr>h_quantity := f (h_quantity h)\<rparr> else h) (client_portfolio db)\<rparr>"

definition record_price :: "int \<Rightarrow> double \<Rightarrow> int \<Rightarrow> int \<Rightarrow> database \<Rightarrow> database" where
  "record_price action pr daily date db =
     (let r = \<lparr>p_action = action, p_price = pr, p_date = date, p_daily = daily\<rparr>
      in if r \<in> set (prices db) then db else insert_price r db)"

definition client_add_action :: "int \<Rightarrow> int \<Rightarrow> int \<Rightarrow> double \<Rightarrow> int \<Rightarrow> int \<Rightarrow> database \<Rightarrow> database" where
  "client_add_action i action quantity pr daily date db =
     record_price action pr daily date
       (if is_action_in_portfolio i action db then change_holding i action (\<lambda>n. n + quantity) db
        else insert_holding \<lparr>h_client = i, h_action = action, h_quantity = quantity\<rparr> db)"

definition client_remove_action :: "int \<Rightarrow> int \<Rightarrow> int \<Rightarrow> double \<Rightarrow> int \<Rightarrow> int \<Rightarrow> database \<Rightarrow> database" where
  "client_remove_action i action quantity pr daily date db =
     record_price action pr daily date
       (if is_action_in_portfolio i action db then change_holding i action (\<lambda>n. max (n - quantity) 0) db else db)"

definition client_has_shares :: "int \<Rightarrow> int \<Rightarrow> int \<Rightarrow> database \<Rightarrow> bool" where
  "client_has_shares i action quantity db \<longleftrightarrow>
     0 < quantity \<and> quantity \<le> execute_SQL_query_int (map h_quantity (holdings_of i action db))"

definition update_portfolio ::
  "sql_env \<Rightarrow> int \<Rightarrow> order_type \<Rightarrow> int \<Rightarrow> int \<Rightarrow> double \<Rightarrow> int \<Rightarrow> int \<Rightarrow> database \<Rightarrow> database" where
  "update_portfolio env i ty action quantity pr daily date db =
     (case ty of
        BUY \<Rightarrow>
          (if client_can_afford env i quantity pr action db
           then client_add_action i action quantity pr daily date
                  (client_withdraw i (pr * dbl_of_int quantity) db)
           else db)
      | SELL \<Rightarrow>
          (if client_has_shares i action quantity db
           then client_remove_action i action quantity pr daily date
                  (client_deposit i (pr * dbl_of_int quantity) db)
           else db))"

section \<open>Reports\<close>

text \<open>
  One order of a report; the two joins drop an order whose action or client is unknown. The rows
  come in the order of the orders table.
\<close>

definition order_fields :: "sql_env \<Rightarrow> string \<Rightarrow> string \<Rightarrow> order_row \<Rightarrow> string" where
  "order_fields env client_name action_name r =
     join_words [two_times_to_string (o_date r) (o_daily r), client_name, order_type_to_string (o_type r),
       show_int (o_quantity r), action_name, trigger_to_string (o_trigger r), sql_real env (o_price r),
       sql_real env (o_lower r), sql_real env (o_upper r), two_times_to_string (o_exp_date r) (o_exp_daily r)] @ '',''"

definition order_lines :: "sql_env \<Rightarrow> database \<Rightarrow> (order_row \<Rightarrow> bool) \<Rightarrow> string" where
  "order_lines env db P =
     concat [order_fields env (cl_name c) (a_name a) r.
       r \<leftarrow> filter P (orders db), a \<leftarrow> filter (\<lambda>a. a_id a = o_action r) (actions db), c \<leftarrow> clients_with (o_client r) db]"

definition get_completed_orders_info :: "sql_env \<Rightarrow> int \<Rightarrow> database \<Rightarrow> string" where
  "get_completed_orders_info env i db = butlast (order_lines env db (\<lambda>r. o_client r = i \<and> o_status r = COMPLETED))"

definition get_pending_orders_info :: "sql_env \<Rightarrow> int \<Rightarrow> database \<Rightarrow> string" where
  "get_pending_orders_info env i db = butlast (order_lines env db (\<lambda>r. o_client r = i \<and> o_status r = PENDING))"

text \<open>The portfolio joined with the prices of each action's last moment, by action.\<close>

definition portfolio_join :: "int \<Rightarrow> database \<Rightarrow> (action_row \<times> holding_row \<times> price_row) list" where
  "portfolio_join i db =
     sort_key (\<lambda>(a, _, _). a_id a)
       [(a, h, p). h \<leftarrow> filter (\<lambda>h. h_client h = i) (client_portfolio db),
          a \<leftarrow> filter (\<lambda>a. a_id a = h_action h) (actions db), p \<leftarrow> last_moment (action_prices (h_action h) db)]"

fun portfolio_loop ::
  "sql_env \<Rightarrow> (action_row \<times> holding_row \<times> price_row) list \<Rightarrow> double \<Rightarrow> string \<Rightarrow> (double \<times> string) option" where
  "portfolio_loop env [] val res = Some (val, res)"
| "portfolio_loop env ((a, h, p) # rows) val res =
     do { n \<leftarrow> stoi (show_int (h_quantity h)); pr \<leftarrow> stod (sql_real env (p_price p));
          portfolio_loop env rows (val + dbl_of_int n * pr)
            (res @ a_name a @ '' '' @ show_int n @ '' '' @ fmt_real env pr @ '' '' @
             two_times_to_string (p_daily p) (p_date p) @ '','') }"

definition get_portfolio_info :: "sql_env \<Rightarrow> int \<Rightarrow> database \<Rightarrow> string option" where
  "get_portfolio_info env i db =
     (if portfolio_join i db = [] then Some (''0.0 '' @ fmt_real env (get_balance i db) @ '','')
      else do { (val, res) \<leftarrow> portfolio_loop env (portfolio_join i db) 0 (fmt_real env (get_balance i db) @ '','');
                Some (fmt_real env val @ '' '' @ butlast res) })"

end
