(* ===== verification/SqlMarket.thy ===== *)
theory SqlMarket
  imports SqlClient
begin

text \<open>
  The market of the SQLite exchange, from \<open>src/Src_SQL/market.cpp\<close> and \<open>market.hpp\<close>: the clients and
  actions, the two books per action (lists of order identifiers, whose rows are in the database) kept
  in price-time order, the opening auction and the continuous matching, and the reports. The random
  identifiers and the clock are the sequences \<open>mk_draws\<close> and \<open>mk_clock\<close>; \<open>None\<close> is a search for
  an identifier that never ends.
\<close>

record market =
  mk_db :: database
  mk_buys :: "(int \<times> int list) list"
  mk_sells :: "(int \<times> int list) list"
  mk_exchange :: double
  mk_notifies :: bool
  mk_pushed :: "(int \<times> string) list"
  mk_draws :: "nat \<Rightarrow> int"
  mk_drawn :: nat
  mk_clock :: "nat \<Rightarrow> int"
  mk_reads :: nat

definition new_market :: "database \<Rightarrow> (nat \<Rightarrow> int) \<Rightarrow> (nat \<Rightarrow> int) \<Rightarrow> market" where
  "new_market db ds cs =
     \<lparr>mk_db = db, mk_buys = [], mk_sells = [], mk_exchange = 0, mk_notifies = False, mk_pushed = [],
      mk_draws = ds, mk_drawn = 0, mk_clock = cs, mk_reads = 0\<rparr>"

definition set_notification_callback :: "market \<Rightarrow> market" where
  "set_notification_callback m = m\<lparr>mk_notifies := True\<rparr>"

definition on_db :: "(database \<Rightarrow> database) \<Rightarrow> market \<Rightarrow> market" where
  "on_db f m = m\<lparr>mk_db := f (mk_db m)\<rparr>"

definition market_order_id :: "market \<Rightarrow> (int \<times> market) option" where
  "market_order_id m =
     do { (i, k) \<leftarrow> get_new_order_id (mk_draws m) (mk_drawn m) (mk_db m); Some (i, m\<lparr>mk_drawn := k\<rparr>) }"

definition market_message_id :: "market \<Rightarrow> (int \<times> market) option" where
  "market_message_id m =
     do { (i, k) \<leftarrow> get_new_message_id (mk_draws m) (mk_drawn m) (mk_db m); Some (i, m\<lparr>mk_drawn := k\<rparr>) }"

definition get_current_time_ms :: "market \<Rightarrow> int \<times> market" where
  "get_current_time_ms m = (mk_clock m (mk_reads m), m\<lparr>mk_reads := mk_reads m + 1\<rparr>)"

definition market_log ::
  "sql_env \<Rightarrow> int \<Rightarrow> sender \<Rightarrow> message_type \<Rightarrow> string \<Rightarrow> int \<Rightarrow> market \<Rightarrow> market option" where
  "market_log env cl s ty content t m =
     do { (i, m1) \<leftarrow> market_message_id m; Some (on_db (log_message env i cl s ty content t) m1) }"

definition notify :: "int \<Rightarrow> string \<Rightarrow> market \<Rightarrow> market" where
  "notify cl message m = (if mk_notifies m then m\<lparr>mk_pushed := mk_pushed m @ [(cl, message)]\<rparr> else m)"

section \<open>Clients\<close>

definition client_exists :: "int \<Rightarrow> database \<Rightarrow> bool" where
  "client_exists i db \<longleftrightarrow> execute_SQL_query_ID (map cl_id (clients_with i db)) = i"

definition clients_named :: "string \<Rightarrow> database \<Rightarrow> client_row list" where
  "clients_named name db = filter (\<lambda>c. cl_name c = name) (clients db)"

definition get_client_id_from_name :: "sql_env \<Rightarrow> string \<Rightarrow> database \<Rightarrow> int" where
  "get_client_id_from_name env name db =
     (if quotes name then broken_query env name db else execute_SQL_query_ID (map cl_id (clients_named name db)))"

definition client_name_exists :: "sql_env \<Rightarrow> string \<Rightarrow> database \<Rightarrow> bool" where
  "client_name_exists env name db \<longleftrightarrow>
     (if quotes name then broken_query env name db
      else execute_SQL_query_ID (map cl_id (clients_named name db))) \<noteq> - 1"

definition client_id_if_name_and_password_registered :: "string \<Rightarrow> string \<Rightarrow> database \<Rightarrow> int" where
  "client_id_if_name_and_password_registered name pw db =
     (case filter (\<lambda>c. cl_name c = name \<and> cl_password c = pw) (clients db) of
        [] \<Rightarrow> - 1 | c # _ \<Rightarrow> to_int32 (cl_id c))"

definition insert_client :: "client_row \<Rightarrow> database \<Rightarrow> database" where
  "insert_client c db =
     (if cl_id c \<in> set (map cl_id (clients db)) \<or> cl_balance c = NaN then db
      else db\<lparr>clients := insort_key cl_id c (clients db)\<rparr>)"

definition market_add_client :: "int \<Rightarrow> string \<Rightarrow> string \<Rightarrow> double \<Rightarrow> (int \<times> int) list \<Rightarrow> database \<Rightarrow> database" where
  "market_add_client i name pw balance portfolio db =
     fold (\<lambda>(action, n). insert_holding \<lparr>h_client = i, h_action = action, h_quantity = n\<rparr>) portfolio
       (insert_client \<lparr>cl_id = to_int32 i, cl_name = name, cl_password = pw, cl_balance = balance\<rparr> db)"

definition market_remove_client :: "int \<Rightarrow> database \<Rightarrow> database" where
  "market_remove_client i db =
     db\<lparr>clients := filter (\<lambda>c. cl_id c \<noteq> i) (clients db),
        client_portfolio := filter (\<lambda>h. h_client h \<noteq> i) (client_portfolio db),
        orders := filter (\<lambda>r. o_client r \<noteq> i) (orders db)\<rparr>"

text \<open>The orders that wait for their trigger; the prices pass through their texts.\<close>

definition waiting_row :: "sql_env \<Rightarrow> order_row \<Rightarrow> order_row option" where
  "waiting_row env r =
     do { pr \<leftarrow> stod (sql_real env (o_price r)); lo \<leftarrow> stod (sql_real env (o_lower r));
          up \<leftarrow> stod (sql_real env (o_upper r)); Some (r\<lparr>o_price := pr, o_lower := lo, o_upper := up\<rparr>) }"

fun read_all :: "('a \<Rightarrow> 'b option) \<Rightarrow> 'a list \<Rightarrow> 'b list option" where
  "read_all f [] = Some []"
| "read_all f (x # xs) = do { y \<leftarrow> f x; ys \<leftarrow> read_all f xs; Some (y # ys) }"

definition get_waiting_orders :: "sql_env \<Rightarrow> database \<Rightarrow> order_row list option" where
  "get_waiting_orders env db = read_all (waiting_row env) (filter (\<lambda>r. o_status r = WAITING) (orders db))"

section \<open>Actions\<close>

definition action_exists :: "int \<Rightarrow> database \<Rightarrow> bool" where
  "action_exists action db \<longleftrightarrow>
     execute_SQL_query_ID (map a_id (filter (\<lambda>a. a_id a = action) (actions db))) = action"

definition insert_action :: "action_row \<Rightarrow> database \<Rightarrow> database" where
  "insert_action a db =
     (if a_id a \<in> set (map a_id (actions db)) then db else db\<lparr>actions := insort_key a_id a (actions db)\<rparr>)"

definition market_add_action ::
  "sql_env \<Rightarrow> int \<Rightarrow> string \<Rightarrow> int \<Rightarrow> double \<Rightarrow> int \<Rightarrow> int \<Rightarrow> database \<Rightarrow> database" where
  "market_add_action env action name n pr daily date db =
     insert_price \<lparr>p_action = action, p_price = pr, p_date = date, p_daily = daily\<rparr>
       (if action_exists action db
        then db\<lparr>actions := map (\<lambda>a. if a_id a = action then a\<lparr>a_quantity := a_quantity a + n\<rparr> else a) (actions db)\<rparr>
        else if quotes name then broken_update env name db
        else insert_action \<lparr>a_id = action, a_name = name, a_quantity = n\<rparr> db)"

definition market_remove_action :: "int \<Rightarrow> database \<Rightarrow> database" where
  "market_remove_action action db =
     db\<lparr>actions := filter (\<lambda>a. a_id a \<noteq> action) (actions db),
        prices := filter (\<lambda>p. p_action p \<noteq> action) (prices db),
        orders := filter (\<lambda>r. o_action r \<noteq> action) (orders db),
        client_portfolio := filter (\<lambda>h. h_action h \<noteq> action) (client_portfolio db)\<rparr>"

definition get_market_value :: "sql_env \<Rightarrow> database \<Rightarrow> double" where
  "get_market_value env db =
     (let terms = filter (\<lambda>x. x \<noteq> NaN)
            [dbl_of_int (a_quantity a) * p_price p. a \<leftarrow> actions db, p \<leftarrow> last_moment (action_prices (a_id a) db)]
      in if terms = [] then 0 else column_double (sql_sum env terms))"

section \<open>Books\<close>

definition resolve_execution_price ::
  "market \<Rightarrow> int \<Rightarrow> order_trigger \<Rightarrow> order_trigger \<Rightarrow> double \<Rightarrow> double \<Rightarrow> double" where
  "resolve_execution_price m action buyer_trigger seller_trigger buyer_price seller_price =
     (if buyer_trigger = MARKET \<and> seller_trigger = MARKET then
        (let reference = get_current_price action (mk_db m)
         in if 0 < reference then reference else mk_exchange m)
      else if seller_trigger = MARKET then buyer_price
      else if buyer_trigger = MARKET then seller_price
      else seller_price)"

definition buy_order_priority :: "database \<Rightarrow> int \<Rightarrow> int \<Rightarrow> bool" where
  "buy_order_priority db a b \<longleftrightarrow>
     (if \<not> deq (get_price db a) (get_price db b) then get_price db b < get_price db a
      else if get_date_order_time db a \<noteq> get_date_order_time db b
      then get_date_order_time db a < get_date_order_time db b
      else get_daily_order_time db a < get_daily_order_time db b)"

definition sell_order_priority :: "database \<Rightarrow> int \<Rightarrow> int \<Rightarrow> bool" where
  "sell_order_priority db a b \<longleftrightarrow>
     (if \<not> deq (get_price db a) (get_price db b) then get_price db a < get_price db b
      else if get_date_order_time db a \<noteq> get_date_order_time db b
      then get_date_order_time db a < get_date_order_time db b
      else get_daily_order_time db a < get_daily_order_time db b)"

text \<open>\<open>std::lower_bound\<close> by halving.\<close>

fun lower_bound :: "('a \<Rightarrow> bool) \<Rightarrow> 'a list \<Rightarrow> nat \<Rightarrow> nat \<Rightarrow> nat" where
  "lower_bound P xs first len =
     (if len = 0 then first
      else let half = len div 2; mid = first + half
           in if P (xs ! mid) then lower_bound P xs (mid + 1) (len - half - 1) else lower_bound P xs first half)"

declare lower_bound.simps [simp del]

definition place :: "('a \<Rightarrow> 'a \<Rightarrow> bool) \<Rightarrow> 'a \<Rightarrow> 'a list \<Rightarrow> 'a list" where
  "place before x xs = (let i = lower_bound (\<lambda>y. before y x) xs 0 (length xs) in take i xs @ x # drop i xs)"

definition accumulate_order :: "int \<Rightarrow> order_row \<Rightarrow> market \<Rightarrow> market" where
  "accumulate_order cl r m =
     (if \<not> client_exists cl (mk_db m) then m
      else let m1 = on_db (add_pending_order cl r) m
           in case o_type r of
                BUY \<Rightarrow> m1\<lparr>mk_buys := um_modify [] (o_action r) (place (buy_order_priority (mk_db m1)) (o_id r)) (mk_buys m1)\<rparr>
              | SELL \<Rightarrow> m1\<lparr>mk_sells := um_modify [] (o_action r) (place (sell_order_priority (mk_db m1)) (o_id r)) (mk_sells m1)\<rparr>)"

definition deaccumulate_order :: "int \<Rightarrow> int \<Rightarrow> order_type \<Rightarrow> int \<Rightarrow> market \<Rightarrow> market" where
  "deaccumulate_order cl i ty action m =
     (if \<not> client_exists cl (mk_db m) then m
      else let m1 = on_db (remove_pending_order cl i) m
           in case ty of
                BUY \<Rightarrow> m1\<lparr>mk_buys := um_modify [] action (remove_first (\<lambda>j. j = i)) (mk_buys m1)\<rparr>
              | SELL \<Rightarrow> m1\<lparr>mk_sells := um_modify [] action (remove_first (\<lambda>j. j = i)) (mk_sells m1)\<rparr>)"

section \<open>Matching\<close>

text \<open>The local variables an order's information is read back into, and reading an \<open>int\<close>.\<close>

record order_view =
  v_id :: int
  v_date :: int
  v_daily :: int
  v_client :: int
  v_quantity :: int
  v_trigger :: order_trigger
  v_price :: double
  v_lower :: double
  v_upper :: double
  v_exp_date :: int
  v_exp_daily :: int

definition get_int32 :: "int \<Rightarrow> istream \<Rightarrow> int \<times> istream" where
  "get_int32 old s =
     (let (v, rest, good) = get_int old s
      in (max (- (2 ^ 31)) (min (2 ^ 31 - 1) v), rest, good \<and> - (2 ^ 31) \<le> v \<and> v < 2 ^ 31))"

definition read_order_info :: "sql_env \<Rightarrow> string \<Rightarrow> order_view" where
  "read_order_info env info =
     (let (i, s1) = get_int (stray_int env ''order_id'') (info, True);
          (date, s2) = get_int (stray_int env ''order_time_date'') s1;
          (daily, s3) = get_int (stray_int env ''order_time_daily'') s2;
          (cl, s4) = get_int (stray_int env ''client_id'') s3;
          (n, s5) = get_int32 (stray_int env ''quantity'') s4;
          (trig, s6) = get_word [] s5;
          (pr, s7) = get_double (stray_real env ''price'') s6;
          (lo, s8) = get_double (stray_real env ''trigger_price_lower'') s7;
          (up, s9) = get_double (stray_real env ''trigger_price_upper'') s8;
          (xdate, s10) = get_int (stray_int env ''expiration_time_date'') s9;
          (xdaily, s11) = get_int (stray_int env ''expiration_time_daily'') s10
      in \<lparr>v_id = i, v_date = date, v_daily = daily, v_client = cl, v_quantity = n, v_trigger = string_to_trigger trig,
          v_price = pr, v_lower = lo, v_upper = up, v_exp_date = xdate, v_exp_daily = xdaily\<rparr>)"

definition view_of :: "sql_env \<Rightarrow> database \<Rightarrow> int \<Rightarrow> order_view" where
  "view_of env db i = read_order_info env (get_order_info env db i)"

text \<open>The row an order view is written back as, under an identifier and with a quantity and a price.\<close>

definition view_row :: "order_view \<Rightarrow> int \<Rightarrow> order_type \<Rightarrow> int \<Rightarrow> int \<Rightarrow> double \<Rightarrow> int \<Rightarrow> int \<Rightarrow> order_row" where
  "view_row v i ty action n pr date daily =
     \<lparr>o_id = i, o_status = PENDING, o_date = date, o_daily = daily, o_client = v_client v, o_type = ty,
      o_quantity = n, o_action = action, o_trigger = v_trigger v, o_price = pr, o_lower = v_lower v,
      o_upper = v_upper v, o_exp_date = v_exp_date v, o_exp_daily = v_exp_daily v\<rparr>"

definition transaction_text :: "sql_env \<Rightarrow> int \<Rightarrow> int \<Rightarrow> double \<Rightarrow> int \<Rightarrow> int \<Rightarrow> int \<Rightarrow> string" where
  "transaction_text env n action pr byr slr t =
     ''Transaction of '' @ show_int n @ '' actions '' @ show_int action @ '' at the price of '' @ fmt_real env pr @
     ''$ between buyer '' @ show_int byr @ '' and seller '' @ show_int slr @ '' at time '' @
     time_to_string (local_time env) t"

definition trade_notice :: "sql_env \<Rightarrow> string \<Rightarrow> int \<Rightarrow> int \<Rightarrow> double \<Rightarrow> int \<Rightarrow> string" where
  "trade_notice env verb n action pr t =
     ''TRANSACTION: '' @ verb @ '' '' @ show_int n @ '' of action '' @ show_int action @ '' at '' @ fmt_real env pr @
     ''$ at time '' @ time_to_string (local_time env) t"

text \<open>The quantity left over goes back under a new identifier, at the order's own price and time.\<close>

definition reopen :: "sql_env \<Rightarrow> order_view \<Rightarrow> order_type \<Rightarrow> int \<Rightarrow> int \<Rightarrow> market \<Rightarrow> (int option \<times> market) option" where
  "reopen env v ty action n m =
     (if n < v_quantity v then
        do { (i, m1) \<leftarrow> market_order_id m;
             Some (Some i, on_db (add_pending_order (v_client v)
               (view_row v i ty action (v_quantity v - n) (v_price v) (v_date v) (v_daily v))) m1) }
      else Some (None, m))"

definition complete :: "order_view \<Rightarrow> order_type \<Rightarrow> int \<Rightarrow> int \<Rightarrow> double \<Rightarrow> int \<Rightarrow> int \<Rightarrow> market \<Rightarrow> market option" where
  "complete v ty action n pr date daily m =
     do { (i, m1) \<leftarrow> market_order_id m;
          Some (on_db (add_completed_order (v_client v) (view_row v i ty action n pr date daily)) m1) }"

definition trade_pair ::
  "sql_env \<Rightarrow> int \<Rightarrow> order_view \<Rightarrow> order_view \<Rightarrow> market \<Rightarrow> ((int option \<times> int option) \<times> market) option" where
  "trade_pair env action b s m =
     (let n = min (v_quantity b) (v_quantity s);
          pr = resolve_execution_price m action (v_trigger b) (v_trigger s) (v_price b) (v_price s);
          (t, m1) = get_current_time_ms (m\<lparr>mk_exchange := pr\<rparr>);
          daily = get_daily_time (local_time env) t; date = get_date_time (local_time env) t;
          m2 = on_db (update_portfolio env (v_client b) BUY action n pr daily date) m1;
          m3 = on_db (update_portfolio env (v_client s) SELL action n pr daily date) m2
      in do {
        m4 \<leftarrow> market_log env 0 SERVER_MESSAGE TRANSACTION (transaction_text env n action pr (v_client b) (v_client s) t) t m3;
        let m5 = notify (v_client s) (trade_notice env ''sold'' n action pr t)
                   (notify (v_client b) (trade_notice env ''bought'' n action pr t) m4);
        let m6 = on_db (remove_pending_order (v_client s) (v_id s)) (on_db (remove_pending_order (v_client b) (v_id b)) m5);
        m7 \<leftarrow> complete b BUY action n pr date daily m6;
        m8 \<leftarrow> complete s SELL action n pr date daily m7;
        (b', m9) \<leftarrow> reopen env b BUY action n m8;
        (s', m10) \<leftarrow> reopen env s SELL action n m9;
        Some ((b', s'), m10) })"

text \<open>The tests before a trade; failing any of them ends the loop.\<close>

definition clients_and_quantities :: "database \<Rightarrow> order_view \<Rightarrow> order_view \<Rightarrow> bool" where
  "clients_and_quantities db b s \<longleftrightarrow>
     client_exists (v_client b) db \<and> client_exists (v_client s) db \<and> 0 < v_quantity b \<and> 0 < v_quantity s"

definition fixing_pair :: "sql_env \<Rightarrow> database \<Rightarrow> int \<Rightarrow> int \<Rightarrow> (order_view \<times> order_view) option" where
  "fixing_pair env db i j =
     (let b = view_of env db i; s = view_of env db j
      in if clients_and_quantities db b s \<and> \<not> v_price b < v_price s then Some (b, s) else None)"

definition continuous_pair :: "sql_env \<Rightarrow> database \<Rightarrow> int \<Rightarrow> int \<Rightarrow> (order_view \<times> order_view) option" where
  "continuous_pair env db i j =
     (if get_price db i < get_price db j then None
      else let b = view_of env db i; s = view_of env db j
           in if clients_and_quantities db b s then Some (b, s) else None)"

definition put_back :: "int option \<Rightarrow> int list \<Rightarrow> int list" where
  "put_back i is = (case i of None \<Rightarrow> is | Some j \<Rightarrow> j # is)"

lemma reopen_None: "reopen env v ty action n m = Some (i, m') \<Longrightarrow> v_quantity v \<le> n \<Longrightarrow> i = None"
  by (simp add: reopen_def)

lemma trade_pair_progress:
  assumes "trade_pair env action b s m = Some ((b', s'), m')"
  shows "b' = None \<or> s' = None"
proof -
  have "v_quantity b \<le> min (v_quantity b) (v_quantity s) \<or> v_quantity s \<le> min (v_quantity b) (v_quantity s)" by auto
  then show ?thesis using assms
    by (auto simp: trade_pair_def Let_def split: prod.splits Option.bind_splits dest: reopen_None)
qed

function match_loop ::
  "sql_env \<Rightarrow> (database \<Rightarrow> int \<Rightarrow> int \<Rightarrow> (order_view \<times> order_view) option) \<Rightarrow> int \<Rightarrow> int list \<Rightarrow> int list \<Rightarrow>
     market \<Rightarrow> (int list \<times> int list \<times> market) option" where
  "match_loop env ready action [] ss m = Some ([], ss, m)"
| "match_loop env ready action (i # bs) [] m = Some (i # bs, [], m)"
| "match_loop env ready action (i # bs) (j # ss) m =
     (case ready (mk_db m) i j of
        None \<Rightarrow> Some (i # bs, j # ss, m)
      | Some (b, s) \<Rightarrow>
          (case trade_pair env action b s m of
             None \<Rightarrow> None
           | Some ((b', s'), m') \<Rightarrow> match_loop env ready action (put_back b' bs) (put_back s' ss) m'))"
  by pat_completeness auto

termination
proof (relation "measure (\<lambda>(_, _, _, bs, ss, _). length bs + length ss)")
  fix env ready action i bs j ss m p b s q r b' s' m'
  assume "trade_pair env action b s m = Some q" "(r, m') = q" "(b', s') = r"
  then have "b' = None \<or> s' = None" using trade_pair_progress by blast
  then show "((env, ready, action, put_back b' bs, put_back s' ss, m'), (env, ready, action, i # bs, j # ss, m))
    \<in> measure (\<lambda>(_, _, _, bs, ss, _). length bs + length ss)"
    by (auto simp: put_back_def split: option.splits)
qed simp

fun fixing_loop :: "sql_env \<Rightarrow> (int \<times> int list) list \<Rightarrow> market \<Rightarrow> market option" where
  "fixing_loop env [] m = Some m"
| "fixing_loop env ((action, bs) # rest) m =
     (case map_of (mk_sells m) action of
        None \<Rightarrow> fixing_loop env rest m
      | Some ss \<Rightarrow>
          (if bs = [] \<or> ss = [] then fixing_loop env rest m
           else do { (bs', ss', m') \<leftarrow> match_loop env (fixing_pair env) action bs ss m;
                     fixing_loop env rest (m'\<lparr>mk_buys := AList.update action bs' (mk_buys m'),
                                              mk_sells := AList.update action ss' (mk_sells m')\<rparr>) }))"

definition process_fixing :: "sql_env \<Rightarrow> market \<Rightarrow> market option" where
  "process_fixing env m = fixing_loop env (mk_buys m) m"

definition process_continuous_trading :: "sql_env \<Rightarrow> int \<Rightarrow> market \<Rightarrow> market option" where
  "process_continuous_trading env action m =
     (case (map_of (mk_buys m) action, map_of (mk_sells m) action) of
        (Some bs, Some ss) \<Rightarrow>
          (if bs = [] \<or> ss = [] then Some m
           else do { (bs', ss', m') \<leftarrow> match_loop env (continuous_pair env) action bs ss m;
                     Some (m'\<lparr>mk_buys := AList.update action bs' (mk_buys m'),
                              mk_sells := AList.update action ss' (mk_sells m')\<rparr>) })
      | _ \<Rightarrow> Some m)"

section \<open>Reports\<close>

definition not_executed :: "order_type \<Rightarrow> order_row \<Rightarrow> bool" where
  "not_executed ty r \<longleftrightarrow> o_type r = ty \<and> (o_status r = PENDING \<or> o_status r = WAITING)"

definition get_orders_info :: "sql_env \<Rightarrow> database \<Rightarrow> string" where
  "get_orders_info env db =
     butlast (order_lines env db (not_executed BUY) @ order_lines env db (not_executed SELL))"

definition get_actions_info :: "sql_env \<Rightarrow> database \<Rightarrow> string" where
  "get_actions_info env db =
     butlast (concat [a_name a @ '' '' @ show_int (a_quantity a) @ '' '' @ sql_real env (p_price p) @ '' '' @
       two_times_to_string (p_daily p) (p_date p) @ '',''. a \<leftarrow> actions db, p \<leftarrow> last_moment (action_prices (a_id a) db)])"

definition get_market_info :: "sql_env \<Rightarrow> database \<Rightarrow> string" where
  "get_market_info env db =
     fmt_real env (get_market_value env db) @ '';'' @ get_orders_info env db @ '';'' @ get_actions_info env db"

end
