(* ===== verification/SqlServer.thy ===== *)
theory SqlServer
  imports SqlMarket
begin

text \<open>
  The server of the SQLite exchange, from \<open>src/Src_SQL/server.cpp\<close>: the sockets of the connected
  clients, one pass of the loop that serves a client (\<open>handle_client\<close>) with every branch of its
  commands, and one scan of the thread that watches the waiting orders. A message is what one
  \<open>read\<close> returned, as the string up to its end.
\<close>

section \<open>Sockets and messages\<close>

record sql_server =
  sv_market :: market
  sv_sockets :: "(int \<times> int) list"
  sv_broken :: "int \<Rightarrow> bool"
  sv_sent :: "(int \<times> string) list"
  sv_continuous :: bool
  sv_shutdown :: bool

definition new_sql_server :: "market \<Rightarrow> sql_server" where
  "new_sql_server m =
     \<lparr>sv_market = set_notification_callback m, sv_sockets = [], sv_broken = (\<lambda>_. False), sv_sent = [],
      sv_continuous = False, sv_shutdown = False\<rparr>"

abbreviation sv_db :: "sql_server \<Rightarrow> database" where "sv_db sv \<equiv> mk_db (sv_market sv)"

definition sv_on_db :: "(database \<Rightarrow> database) \<Rightarrow> sql_server \<Rightarrow> sql_server" where
  "sv_on_db f sv = sv\<lparr>sv_market := on_db f (sv_market sv)\<rparr>"

definition send_to :: "int \<Rightarrow> string \<Rightarrow> sql_server \<Rightarrow> sql_server" where
  "send_to fd text sv = (if sv_broken sv fd then sv else sv\<lparr>sv_sent := sv_sent sv @ [(fd, text)]\<rparr>)"

definition register_client_socket :: "int \<Rightarrow> int \<Rightarrow> sql_server \<Rightarrow> sql_server" where
  "register_client_socket cl fd sv = sv\<lparr>sv_sockets := AList.update cl fd (sv_sockets sv)\<rparr>"

definition unregister_client_socket :: "int \<Rightarrow> sql_server \<Rightarrow> sql_server" where
  "unregister_client_socket cl sv = sv\<lparr>sv_sockets := AList.delete cl (sv_sockets sv)\<rparr>"

definition send_to_client :: "int \<Rightarrow> string \<Rightarrow> sql_server \<Rightarrow> sql_server" where
  "send_to_client cl text sv =
     (case map_of (sv_sockets sv) cl of
        None \<Rightarrow> sv
      | Some fd \<Rightarrow> if sv_broken sv fd then unregister_client_socket cl sv else send_to fd text sv)"

text \<open>A step of the market, whose notifications are sent as they are raised.\<close>

definition market_step :: "(market \<Rightarrow> market option) \<Rightarrow> sql_server \<Rightarrow> sql_server option" where
  "market_step f sv =
     do { m \<leftarrow> f (sv_market sv);
          Some (fold (\<lambda>(cl, text). send_to_client cl text) (mk_pushed m)
                 (sv\<lparr>sv_market := m\<lparr>mk_pushed := []\<rparr>\<rparr>)) }"

text \<open>A message for the log: a new identifier, then the time, then the row.\<close>

definition sv_log_at :: "sql_env \<Rightarrow> int \<Rightarrow> sender \<Rightarrow> message_type \<Rightarrow> string \<Rightarrow> int \<Rightarrow> sql_server \<Rightarrow> sql_server option" where
  "sv_log_at env cl s ty content t sv =
     do { m \<leftarrow> market_log env cl s ty content t (sv_market sv); Some (sv\<lparr>sv_market := m\<rparr>) }"

definition sv_log :: "sql_env \<Rightarrow> int \<Rightarrow> sender \<Rightarrow> message_type \<Rightarrow> string \<Rightarrow> sql_server \<Rightarrow> sql_server option" where
  "sv_log env cl s ty content sv =
     do { (i, m1) \<leftarrow> market_message_id (sv_market sv);
          let (t, m2) = get_current_time_ms m1;
          Some (sv\<lparr>sv_market := on_db (log_message env i cl s ty content t) m2\<rparr>) }"

text \<open>The outcomes of a pass: the next message, the end of the connection, or an uncaught exception.\<close>

datatype after = Continue | Break | Terminate

record connection =
  cn_fd :: int
  cn_client :: int

type_synonym pass = "(after \<times> connection \<times> sql_server) option"

definition answer ::
  "sql_env \<Rightarrow> connection \<Rightarrow> string \<Rightarrow> int \<Rightarrow> sender \<Rightarrow> message_type \<Rightarrow> string \<Rightarrow> sql_server \<Rightarrow> pass" where
  "answer env cn response cl s ty content sv =
     do { sv1 \<leftarrow> sv_log env cl s ty content (send_to (cn_fd cn) response sv); Some (Continue, cn, sv1) }"

fun contains :: "string \<Rightarrow> string \<Rightarrow> bool" where
  "contains p [] \<longleftrightarrow> p = []"
| "contains p (c # cs) \<longleftrightarrow> take (length p) (c # cs) = p \<or> contains p cs"

section \<open>Commands other than orders\<close>

definition authentification_prefix :: string where "authentification_prefix = ''Authentification Request: ''"

definition starts_with :: "string \<Rightarrow> string \<Rightarrow> bool" where
  "starts_with p s \<longleftrightarrow> take (length p) s = p"

definition handle_authentification :: "sql_env \<Rightarrow> connection \<Rightarrow> string \<Rightarrow> sql_server \<Rightarrow> pass" where
  "handle_authentification env cn input sv =
     (let (username, s1) = get_word [] (drop (length authentification_prefix) input, True);
          (password, rest, good) = get_word [] s1
      in if \<not> good then
           do { (_, cn1, sv1) \<leftarrow> answer env cn ''AUTHENTIFICATION_FAILURE_INPUT'' 0 SERVER_MESSAGE
                  AUTHENTIFICATION_FAILURE_INPUT ''Invalid input'' sv;
                Some (Break, cn1, sv1) }
         else
           (let cl = client_id_if_name_and_password_registered username (encrypt env password) (sv_db sv)
            in if cl \<noteq> - 1 then
                 answer env cn (''AUTHENTIFICATION_SUCCESS '' @ show_int cl) cl SERVER_MESSAGE
                   AUTHENTIFICATION_SUCCESS ''Authentification success'' sv
               else if client_name_exists env username (sv_db sv) then
                 answer env cn ''AUTHENTIFICATION_FAILURE_PASSWORD'' (get_client_id_from_name env username (sv_db sv))
                   SERVER_MESSAGE AUTHENTIFICATION_FAILURE_PASSWORD ''Wrong password'' sv
               else
                 answer env cn ''AUTHENTIFICATION_FAILURE_USERNAME'' 0 SERVER_MESSAGE
                   AUTHENTIFICATION_FAILURE_USERNAME ''Unknown username'' sv))"

definition handle_connected :: "sql_env \<Rightarrow> connection \<Rightarrow> string \<Rightarrow> sql_server \<Rightarrow> pass" where
  "handle_connected env cn input sv =
     (let (cl, _) = get_int (stray_int env ''client_id'') (input, True)
      in do { sv1 \<leftarrow> sv_log env cl SERVER_MESSAGE CLIENT_CONNECTED ''Client connected''
                (register_client_socket cl (cn_fd cn) sv);
              Some (Continue, cn\<lparr>cn_client := cl\<rparr>, sv1) })"

definition handle_exit :: "sql_env \<Rightarrow> connection \<Rightarrow> string \<Rightarrow> sql_server \<Rightarrow> pass" where
  "handle_exit env cn input sv =
     (let (cl, _) = get_int (stray_int env ''client_id'') (input, True)
      in do { sv1 \<leftarrow> sv_log env cl SERVER_MESSAGE CLIENT_DISCONNECTED ''Client disconnected'' sv;
              Some (Break, cn, sv1) })"

definition or_else :: "string \<Rightarrow> string \<Rightarrow> string" where
  "or_else d s = (if s = [] then d else s)"

definition display_portfolio :: "sql_env \<Rightarrow> connection \<Rightarrow> int \<Rightarrow> sql_server \<Rightarrow> pass" where
  "display_portfolio env cn cl sv =
     (case get_portfolio_info env cl (sv_db sv) of
        None \<Rightarrow> Some (Terminate, cn, sv)
      | Some response \<Rightarrow>
          answer env cn (or_else ''Empty portfolio'' response) cl CLIENT_MESSAGE DISPLAY_PORTFOLIO ''Display portfolio'' sv)"

definition action_named :: "sql_env \<Rightarrow> string \<Rightarrow> database \<Rightarrow> int" where
  "action_named env name db =
     (if quotes name then broken_query env name db
      else execute_SQL_query_ID (map a_id (filter (\<lambda>a. a_name a = name) (actions db))))"

definition display_action :: "sql_env \<Rightarrow> connection \<Rightarrow> int \<Rightarrow> string \<Rightarrow> sql_server \<Rightarrow> pass" where
  "display_action env cn cl name sv =
     (let action = action_named env name (sv_db sv)
      in if action = - 1 then
           answer env cn (''Error: Display type '' @ [CHR 0x27] @ name @ [CHR 0x27] @ '' not recognized, or action does not exist'')
             cl SERVER_MESSAGE ERROR ''Display type not recognized'' sv
         else
           (case get_action_info env (sv_db sv) action of
              None \<Rightarrow> Some (Terminate, cn, sv)
            | Some response \<Rightarrow> answer env cn response cl CLIENT_MESSAGE DISPLAY_ACTION (''Display action: '' @ name) sv))"

definition handle_display :: "sql_env \<Rightarrow> connection \<Rightarrow> string \<Rightarrow> sql_server \<Rightarrow> pass" where
  "handle_display env cn input sv =
     (let (cl, s1) = get_int (stray_int env ''client_id'') (input, True);
          (command, s2) = get_word [] s1; (what, s3) = get_word [] s2
      in if what = ''portfolio'' then display_portfolio env cn cl sv
         else if what = ''pending_orders'' then
           answer env cn (or_else ''No pending orders'' (get_pending_orders_info env cl (sv_db sv))) cl CLIENT_MESSAGE
             DISPLAY_PENDING_ORDERS ''Display pending orders'' sv
         else if what = ''completed_orders'' then
           answer env cn (or_else ''No completed orders'' (get_completed_orders_info env cl (sv_db sv))) cl CLIENT_MESSAGE
             DISPLAY_COMPLETED_ORDERS ''Display completed orders'' sv
         else if what = ''market'' then
           answer env cn (get_market_info env (sv_db sv)) cl CLIENT_MESSAGE DISPLAY_MARKET ''Display market'' sv
         else if what \<noteq> [] then display_action env cn cl what sv
         else Some (Continue, cn, sv))"

definition unknown_client :: "int \<Rightarrow> string" where
  "unknown_client cl = ''Client '' @ show_int cl @ '' does not exist''"

definition read_amount :: "sql_env \<Rightarrow> string \<Rightarrow> int \<times> double" where
  "read_amount env input =
     (let (cl, s1) = get_int32 (stray_int env ''client_id'') (input, True);
          (amount, s2) = get_double (stray_real env ''amount'') s1
      in (cl, amount))"

definition handle_deposit :: "sql_env \<Rightarrow> connection \<Rightarrow> string \<Rightarrow> sql_server \<Rightarrow> pass" where
  "handle_deposit env cn input sv =
     (let (cl, amount) = read_amount env input
      in if client_exists cl (sv_db sv) then
           (let response = ''Deposited '' @ fmt_real env amount @ ''$ to client '' @ show_int cl
            in answer env cn response cl CLIENT_MESSAGE DEPOSIT response (sv_on_db (client_deposit cl amount) sv))
         else answer env cn (unknown_client cl) 0 SERVER_MESSAGE ERROR (unknown_client cl) sv)"

definition handle_withdraw :: "sql_env \<Rightarrow> connection \<Rightarrow> string \<Rightarrow> sql_server \<Rightarrow> pass" where
  "handle_withdraw env cn input sv =
     (let (cl, amount) = read_amount env input
      in if client_exists cl (sv_db sv) then
           (if client_can_afford env cl 1 amount (- 1) (sv_db sv) then
              (let response = ''Withdrew '' @ fmt_real env amount @ ''$ from client '' @ show_int cl
               in answer env cn response cl CLIENT_MESSAGE WITHDRAW response (sv_on_db (client_withdraw cl amount) sv))
            else
              (let response = ''Insufficient balance for client '' @ show_int cl @ '' to withdraw '' @ fmt_real env amount
               in answer env cn response cl SERVER_MESSAGE ERROR response sv))
         else answer env cn (unknown_client cl) 0 SERVER_MESSAGE ERROR (unknown_client cl) sv)"

section \<open>Orders\<close>

text \<open>
  The price and the bounds of an order: the answer and the logged text of the first error, or the
  three numbers and the rest of the message. A number the message does not hold keeps the value its
  variable had.
\<close>

datatype prices_read = Bad string string | Good double double double istream

definition missing :: "string \<Rightarrow> string \<Rightarrow> prices_read" where
  "missing what kd = (let text = what @ '' must be provided for a '' @ kd @ '' order'' in Bad (''Error: '' @ text) text)"

definition negative :: "string \<Rightarrow> string \<Rightarrow> prices_read" where
  "negative what kd = (let text = what @ '' must be positive for a '' @ kd @ '' order'' in Bad (''Error: '' @ text) text)"

text \<open>The checks are made one after the other, each for a missing and then a negative number.\<close>

fun first_error :: "string \<Rightarrow> string \<Rightarrow> (string \<times> double) list \<Rightarrow> prices_read \<Rightarrow> prices_read" where
  "first_error kd kd' [] found = found"
| "first_error kd kd' ((what, x) # rest) found =
     (if deq x 0 then missing what kd
      else if x < 0 then negative what kd
      else first_error kd' kd' rest found)"

definition read_limit :: "sql_env \<Rightarrow> istream \<Rightarrow> prices_read" where
  "read_limit env s =
     (let (pr, s1) = get_double (stray_real env ''price'') s;
          (lo, s2) = get_double (stray_real env ''trigger_price_lower'') s1
      in first_error ''limit'' ''limit'' [(''Price'', pr), (''Trigger price lower'', lo)] (Good pr lo max_price s2))"

definition read_stop :: "sql_env \<Rightarrow> istream \<Rightarrow> prices_read" where
  "read_stop env s =
     (let (pr, s1) = get_double (stray_real env ''price'') s;
          (up, s2) = get_double (stray_real env ''trigger_price_upper'') s1
      in first_error ''stop'' ''stop'' [(''Price'', pr), (''Trigger price upper'', up)] (Good pr 0 up s2))"

definition read_limit_stop :: "sql_env \<Rightarrow> istream \<Rightarrow> prices_read" where
  "read_limit_stop env s =
     (let (pr, s1) = get_double (stray_real env ''price'') s;
          (lo, s2) = get_double (stray_real env ''trigger_price_lower'') s1;
          (up, s3) = get_double (stray_real env ''trigger_price_upper'') s2
      in first_error ''limit-stop'' ''limit stop''
           [(''Price'', pr), (''Trigger price lower'', lo), (''Trigger price upper'', up)] (Good pr lo up s3))"

definition read_prices :: "sql_env \<Rightarrow> order_type \<Rightarrow> string \<Rightarrow> istream \<Rightarrow> prices_read" where
  "read_prices env ty trig s =
     (if trig = ''MARKET'' then Good (if ty = BUY then max_price else 0) 0 max_price s
      else if trig = ''LIMIT'' then read_limit env s
      else if trig = ''STOP'' then read_stop env s
      else if trig = ''LIMIT_STOP'' then read_limit_stop env s
      else Bad ''Error: Trigger type not recognized (use MARKET, LIMIT, STOP or LIMIT_STOP)''
             ''Trigger type not recognized'')"

text \<open>The dates an order may carry; \<open>None\<close> is the exception of \<open>substr\<close> or \<open>stoi\<close>.\<close>

definition read_validity :: "istream \<Rightarrow> (int \<times> int) option" where
  "read_validity s =
     (let (date_text, s1) = get_word [] s; (time_text, s2) = get_word [] s1
      in do { date \<leftarrow> (if date_text = [] then Some max_number else get_date_id_from_string date_text);
              daily \<leftarrow> (if time_text = [] then Some 0 else get_daily_id_from_string time_text);
              Some (date, daily) })"

definition ellipsis :: string where
  "ellipsis = [CHR '' '', CHR 0xE2, CHR 0x80, CHR 0xA6]"

definition created_text :: "sql_env \<Rightarrow> order_row \<Rightarrow> string \<Rightarrow> int \<Rightarrow> string" where
  "created_text env r trig t =
     ''Order created with ID: '' @ show_int (o_id r) @ '' for client '' @ show_int (o_client r) @ '' to '' @
     order_type_to_string (o_type r) @ '' '' @ show_int (o_quantity r) @ '' actions of '' @ show_int (o_action r) @
     '' at the price of '' @ fmt_real env (o_price r) @ ''$ at time '' @ time_to_string (local_time env) t @
     '' with trigger type '' @ trig @ '' and trigger price lower '' @ fmt_real env (o_lower r) @
     '' and trigger price upper '' @ fmt_real env (o_upper r) @ '' until validity date '' @
     two_times_to_string (o_exp_date r) (o_exp_daily r)"

text \<open>Entering the book, and matching at once while continuous trading runs.\<close>

definition enter_book :: "sql_env \<Rightarrow> order_row \<Rightarrow> sql_server \<Rightarrow> sql_server option" where
  "enter_book env r sv =
     market_step (\<lambda>m. let m1 = accumulate_order (o_client r) r m
                      in if sv_continuous sv then process_continuous_trading env (o_action r) m1 else Some m1) sv"

definition create_order :: "sql_env \<Rightarrow> connection \<Rightarrow> order_row \<Rightarrow> string \<Rightarrow> sql_server \<Rightarrow> pass" where
  "create_order env cn draft trig sv =
     do { (i, m1) \<leftarrow> market_order_id (sv_market sv);
          let (t, m2) = get_current_time_ms m1;
          let r = draft\<lparr>o_id := i, o_date := get_date_time (local_time env) t, o_daily := get_daily_time (local_time env) t\<rparr>;
          let response = created_text env r trig t;
          sv3 \<leftarrow> sv_log_at env (o_client r) CLIENT_MESSAGE ORDER response t (sv\<lparr>sv_market := m2\<rparr>);
          let sv4 = send_to (cn_fd cn) response sv3;
          if trig = ''MARKET'' then
            do { sv5 \<leftarrow> sv_log env (o_client r) SERVER_MESSAGE ACCUMULATING_ORDER (''Accumulating the order'' @ ellipsis) sv4;
                 sv6 \<leftarrow> enter_book env r
                   (send_to_client (o_client r) (''Order '' @ show_int i @ '' is being accumulated'' @ ellipsis) sv5);
                 Some (Continue, cn, sv6) }
          else
            do { sv5 \<leftarrow> sv_log env (o_client r) SERVER_MESSAGE WAITING_ORDER
                   (''Order is waiting for its trigger condition to be reached'' @ ellipsis) sv4;
                 Some (Continue, cn, sv_on_db (add_waiting_order (o_client r) r)
                   (send_to_client (o_client r)
                     (''Order '' @ show_int i @ '' is waiting for its trigger condition to be reached'' @ ellipsis) sv5)) } }"

definition check_and_create :: "sql_env \<Rightarrow> connection \<Rightarrow> order_row \<Rightarrow> string \<Rightarrow> sql_server \<Rightarrow> pass" where
  "check_and_create env cn draft trig sv =
     (let refuse = (\<lambda>response content. answer env cn response (o_client draft) SERVER_MESSAGE ERROR content sv)
      in if \<not> action_exists (o_action draft) (sv_db sv) then
           (let text = ''Error: Action '' @ show_int (o_action draft) @ '' does not exist'' in refuse text text)
         else if o_type draft = BUY \<and>
             \<not> client_can_afford env (o_client draft) (o_quantity draft) (o_price draft) (o_action draft) (sv_db sv) then
           refuse ''Error: Insufficient balance for buying'' ''Insufficient balance for buying''
         else if o_type draft = SELL \<and>
             \<not> client_has_shares (o_client draft) (o_action draft) (o_quantity draft) (sv_db sv) then
           refuse ''Error: Failed to sell action, client does not have enough shares''
             ''Failed to sell action, client does not have enough shares''
         else create_order env cn draft trig sv)"

definition handle_order :: "sql_env \<Rightarrow> connection \<Rightarrow> string \<Rightarrow> sql_server \<Rightarrow> pass" where
  "handle_order env cn input sv =
     (let (cl, s1) = get_int (stray_int env ''client_id'') (input, True);
          (ty_text, s2) = get_word [] s1;
          (n, s3) = get_int32 (stray_int env ''quantity'') s2;
          (action, s4) = get_int (stray_int env ''action_id'') s3;
          (trig, s5) = get_word [] s4
      in if ty_text \<noteq> ''SELL'' \<and> ty_text \<noteq> ''BUY'' then
           answer env cn ''Error: Order type not recognized (use BUY or SELL)'' cl SERVER_MESSAGE ERROR
             ''Order type not recognized'' sv
         else
           (let ty = (if ty_text = ''SELL'' then SELL else BUY)
            in case read_prices env ty trig s5 of
                 Bad response content \<Rightarrow> answer env cn response cl SERVER_MESSAGE ERROR content sv
               | Good pr lo up s6 \<Rightarrow>
                   (case read_validity s6 of
                      None \<Rightarrow> Some (Terminate, cn, sv)
                    | Some (xdate, xdaily) \<Rightarrow>
                        check_and_create env cn
                          \<lparr>o_id = - 1, o_status = WAITING, o_date = 0, o_daily = 0, o_client = cl, o_type = ty,
                           o_quantity = n, o_action = action, o_trigger = string_to_trigger trig, o_price = pr,
                           o_lower = lo, o_upper = up, o_exp_date = xdate, o_exp_daily = xdaily\<rparr> trig sv)))"

text \<open>One pass of the loop. The branches are chosen by the words the message contains.\<close>

definition handle_input :: "sql_env \<Rightarrow> connection \<Rightarrow> string \<Rightarrow> sql_server \<Rightarrow> pass" where
  "handle_input env cn input sv =
     (if starts_with authentification_prefix input then handle_authentification env cn input sv
      else if contains ''CLIENT_CONNECTED'' input then handle_connected env cn input sv
      else if contains ''exit'' input then handle_exit env cn input sv
      else if contains ''display'' input then handle_display env cn input sv
      else if contains ''deposit'' input then handle_deposit env cn input sv
      else if contains ''withdraw'' input then handle_withdraw env cn input sv
      else handle_order env cn input sv)"

text \<open>The whole connection, over the messages that arrive before it is closed.\<close>

fun handle_messages :: "sql_env \<Rightarrow> connection \<Rightarrow> string list \<Rightarrow> sql_server \<Rightarrow> pass" where
  "handle_messages env cn [] sv = Some (Break, cn, sv)"
| "handle_messages env cn (input # inputs) sv =
     (if sv_shutdown sv then Some (Break, cn, sv)
      else do { (next, cn1, sv1) \<leftarrow> handle_input env cn input sv;
                if next = Continue then handle_messages env cn1 inputs sv1 else Some (next, cn1, sv1) })"

definition handle_client :: "sql_env \<Rightarrow> int \<Rightarrow> string list \<Rightarrow> sql_server \<Rightarrow> (after \<times> sql_server) option" where
  "handle_client env fd inputs sv =
     do { (next, cn, sv1) \<leftarrow> handle_messages env \<lparr>cn_fd = fd, cn_client = - 1\<rparr> inputs sv;
          Some (next, if next = Terminate then sv1 else unregister_client_socket (cn_client cn) sv1) }"

section \<open>The watcher of the waiting orders\<close>

definition has_expired :: "int \<Rightarrow> int \<Rightarrow> order_row \<Rightarrow> bool" where
  "has_expired now_date now_daily r \<longleftrightarrow>
     o_exp_date r \<noteq> max_number \<and>
     (o_exp_date r < now_date \<or> o_exp_date r = now_date \<and> o_exp_daily r \<le> now_daily)"

definition trigger_reached :: "double \<Rightarrow> order_row \<Rightarrow> bool" where
  "trigger_reached current r \<longleftrightarrow> \<not> current \<le> 0 \<and> o_lower r \<le> current \<and> current \<le> o_upper r"

definition watch_order :: "sql_env \<Rightarrow> int \<Rightarrow> order_row \<Rightarrow> sql_server \<Rightarrow> sql_server option" where
  "watch_order env now r sv =
     (if has_expired (get_date_time (local_time env) now) (get_daily_time (local_time env) now) r then
        sv_log_at env (o_client r) SERVER_MESSAGE ERROR
          (''Order '' @ show_int (o_id r) @ '' expired before its trigger condition was reached'') now
          (sv_on_db (remove_waiting_order (o_client r) (o_id r)) sv)
      else
        (let current = get_current_price (o_action r) (sv_db sv)
         in if trigger_reached current r then
              do { sv1 \<leftarrow> sv_log_at env (o_client r) SERVER_MESSAGE ACCUMULATING_ORDER
                     (''Order '' @ show_int (o_id r) @ '' trigger condition reached at price '' @ fmt_real env current @
                      ''$, entering the market'') now sv;
                   enter_book env r (sv_on_db (remove_waiting_order (o_client r) (o_id r)) sv1) }
            else Some sv))"

fun watch_all :: "sql_env \<Rightarrow> int \<Rightarrow> order_row list \<Rightarrow> sql_server \<Rightarrow> sql_server option" where
  "watch_all env now [] sv = Some sv"
| "watch_all env now (r # rs) sv = do { sv1 \<leftarrow> watch_order env now r sv; watch_all env now rs sv1 }"

definition watcher_scan :: "sql_env \<Rightarrow> sql_server \<Rightarrow> (after \<times> sql_server) option" where
  "watcher_scan env sv =
     (let (now, m) = get_current_time_ms (sv_market sv); sv1 = sv\<lparr>sv_market := m\<rparr>
      in case get_waiting_orders env (sv_db sv1) of
           None \<Rightarrow> Some (Terminate, sv1)
         | Some rs \<Rightarrow> do { sv2 \<leftarrow> watch_all env now rs sv1; Some (Continue, sv2) })"

end
