(* ===== verification/SqlSession.thy ===== *)
theory SqlSession
  imports SqlServer
begin

text \<open>
  The rest of \<open>src/Src_SQL/server.cpp\<close>: the phases of a market session, the set-up modes of the
  program and the summary it writes, and from \<open>client_account.cpp\<close> what the terminal client makes of
  a reply and of a typed line. What the other threads do while the session sleeps is a parameter.
\<close>

section \<open>The phases of a session\<close>

definition pre_open_phase :: "sql_env \<Rightarrow> sql_server \<Rightarrow> sql_server option" where
  "pre_open_phase env sv = sv_log env 0 SERVER_MESSAGE PRE_OPEN_PHASE ''Market pre-open phase, accumulating orders'' sv"

definition open_phase :: "sql_env \<Rightarrow> sql_server \<Rightarrow> sql_server option" where
  "open_phase env sv =
     do { sv1 \<leftarrow> market_step (process_fixing env) sv;
          sv_log env 0 SERVER_MESSAGE OPEN_PHASE ''Market open phase (fixing)'' sv1 }"

definition continuous_phase :: "sql_env \<Rightarrow> sql_server \<Rightarrow> sql_server option" where
  "continuous_phase env sv =
     do { sv1 \<leftarrow> sv_log env 0 SERVER_MESSAGE CONTINUOUS_TRADING_PHASE ''Market continuous trading phase'' sv;
          Some (sv1\<lparr>sv_continuous := True\<rparr>) }"

definition pre_close_phase :: "sql_env \<Rightarrow> sql_server \<Rightarrow> sql_server option" where
  "pre_close_phase env sv =
     sv_log env 0 SERVER_MESSAGE PRE_CLOSE_PHASE ''Market pre-close phase (fixing)'' (sv\<lparr>sv_continuous := False\<rparr>)"

definition close_phase :: "sql_env \<Rightarrow> sql_server \<Rightarrow> sql_server option" where
  "close_phase env sv =
     do { sv1 \<leftarrow> market_step (process_fixing env) sv;
          sv2 \<leftarrow> sv_log env 0 SERVER_MESSAGE CLOSE_PHASE ''Market close phase, accumulating orders'' sv1;
          Some (sv2\<lparr>sv_shutdown := True\<rparr>) }"

text \<open>
  The messages of the launch and of the shutdown of the program. The launch is logged with the time the
  program read when it started, the shutdown with a new reading.
\<close>

definition server_launch :: "sql_env \<Rightarrow> int \<Rightarrow> sql_server \<Rightarrow> sql_server option" where
  "server_launch env server_launch_time sv =
     sv_log_at env 0 SERVER_MESSAGE SERVER_RESTART ''Server launched'' server_launch_time sv"

definition server_closing :: "sql_env \<Rightarrow> sql_server \<Rightarrow> sql_server option" where
  "server_closing env sv = sv_log env 0 SERVER_MESSAGE SERVER_SHUTDOWN ''Server shutdown'' sv"

definition market_session :: "sql_env \<Rightarrow> (nat \<Rightarrow> sql_server \<Rightarrow> sql_server option) \<Rightarrow> sql_server \<Rightarrow> sql_server option" where
  "market_session env others sv =
     do { sv1 \<leftarrow> pre_open_phase env sv; sv2 \<leftarrow> others 0 sv1;
          sv3 \<leftarrow> open_phase env sv2; sv4 \<leftarrow> others 1 sv3;
          sv5 \<leftarrow> continuous_phase env sv4; sv6 \<leftarrow> others 2 sv5;
          sv7 \<leftarrow> pre_close_phase env sv6; sv8 \<leftarrow> others 3 sv7;
          close_phase env sv8 }"

definition display_all_messages :: "database \<Rightarrow> string list" where
  "display_all_messages db =
     [''-------------- Displaying all messages in the database --------------''] @
     List.map_filter (\<lambda>m. display_message db (m_id m)) (sort_key m_date (sort_key m_daily (messages db))) @
     [''-------------- End of messages in the database --------------'']"

section \<open>Setting up the database\<close>

definition reset_database :: database where
  "reset_database = empty_database"

definition init_default :: "sql_env \<Rightarrow> int \<Rightarrow> int \<Rightarrow> database \<Rightarrow> database" where
  "init_default env daily date db =
     (let db1 = market_add_action env 1 ''CAC40'' 20 (Fin 10) daily date db;
          db2 = market_add_action env 2 ''SP500'' 10 (Fin 20) daily date db1;
          db3 = market_add_client 1 ''Client1'' (encrypt env ''123'') (Fin 1000) [] db2
      in market_add_client 2 ''Client2'' (encrypt env ''123'') (Fin 100) [(1, 20), (2, 10)] db3)"

definition password_chars :: string where
  "password_chars = ''0123456789ABCDEFGHIJKLMNOPQRSTUVWXYZabcdefghijklmnopqrstuvwxyz''"

definition drawn_password :: "nat list \<Rightarrow> string" where
  "drawn_password ks = map (\<lambda>k. password_chars ! k) (take 12 ks)"

text \<open>A client of the generated set-up: its number, the draws of its password and its positions.\<close>

definition init_client ::
  "sql_env \<Rightarrow> double \<Rightarrow> int \<times> nat list \<times> (int \<times> int) list \<Rightarrow> database \<Rightarrow> database" where
  "init_client env balance c db =
     (case c of (i, ks, portfolio) \<Rightarrow>
        market_add_client i (''Client'' @ show_int i) (encrypt env (drawn_password ks)) balance portfolio db)"

definition credential_line :: "int \<times> nat list \<times> (int \<times> int) list \<Rightarrow> string" where
  "credential_line c = (case c of (i, ks, _) \<Rightarrow> show_int i @ '','' @ ''Client'' @ show_int i @ '','' @ drawn_password ks)"

text \<open>Positions over the actions already listed: drawn actions add up, and a drawn zero adds nothing.\<close>

definition drawn_portfolio :: "int list \<Rightarrow> (nat \<times> int) list \<Rightarrow> (int \<times> int) list" where
  "drawn_portfolio ids draws =
     fold (\<lambda>(k, n) m. if 0 < n then um_modify 0 (ids ! k) (\<lambda>old. old + n) m else m) draws []"

definition every_portfolio :: "int list \<Rightarrow> (int \<times> int) list" where
  "every_portfolio ns = filter (\<lambda>(_, n). 0 < n) (zip [1..int (length ns)] ns)"

definition init_real_prices ::
  "sql_env \<Rightarrow> int \<Rightarrow> (int \<times> nat list \<times> (nat \<times> int) list) list \<Rightarrow> database \<Rightarrow> (database \<times> string list) option" where
  "init_real_prices env balance drawn db =
     (let ids = map a_id (actions db);
          cs = map (\<lambda>(i, ks, draws). (i, ks, drawn_portfolio ids draws)) drawn
      in if ids = [] then None
         else Some (fold (init_client env (dbl_of_int balance)) cs db, ''client_id,name,password'' # map credential_line cs))"

definition init_actions :: "sql_env \<Rightarrow> int \<Rightarrow> int \<Rightarrow> (int \<times> int \<times> double) list \<Rightarrow> database \<Rightarrow> database" where
  "init_actions env daily date drawn db =
     fold (\<lambda>(i, shares, pr). market_add_action env i (''STOCK'' @ show_int i) shares pr daily date) drawn db"

definition init_generated ::
  "sql_env \<Rightarrow> int \<Rightarrow> int \<Rightarrow> int \<Rightarrow> (int \<times> int \<times> double) list \<Rightarrow> (int \<times> nat list \<times> int list) list \<Rightarrow> database \<Rightarrow>
     database \<times> string list" where
  "init_generated env daily date balance drawn_actions drawn db =
     (let cs = map (\<lambda>(i, ks, ns). (i, ks, every_portfolio ns)) drawn
      in (fold (init_client env (dbl_of_int balance)) cs (init_actions env daily date drawn_actions db),
          ''client_id,name,password'' # map credential_line cs))"

section \<open>The summary\<close>

definition format_order_summary_line :: "string \<Rightarrow> string" where
  "format_order_summary_line line =
     (case split line of
        date # time # client_name # ty # n # action_name # trig # pr # lo # up # xdate # _ \<Rightarrow>
          ''date '' @ date @ '' '' @ time @ '', client'' @ [CHR 0x27] @ ''s name '' @ client_name @ '', type '' @ ty @
          '', quantity '' @ n @ '', action'' @ [CHR 0x27] @ ''s name '' @ action_name @ '', trigger type '' @ trig @
          '', price '' @ pr @ '', trigger price lower '' @ lo @ '', trigger price upper '' @ up @
          '', expiration date '' @ xdate @ '', '' @ [newline]
      | _ \<Rightarrow> [])"

definition order_summary :: "string \<Rightarrow> string" where
  "order_summary orders_text =
     concat (map format_order_summary_line (filter (\<lambda>l. l \<noteq> []) (split_on CHR '','' orders_text)))"

definition summary_action :: "string \<Rightarrow> string" where
  "summary_action line =
     (case split line of
        name # n # pr # time # _ \<Rightarrow>
          ''action'' @ [CHR 0x27] @ ''s name '' @ name @ '', quantity '' @ n @ '', last_price '' @ pr @ '', time '' @ time @ [newline]
      | _ \<Rightarrow> [])"

definition summary_holding :: "string \<Rightarrow> string" where
  "summary_holding line =
     (case split line of
        name # n # pr # _ \<Rightarrow>
          ''    Action: '' @ name @ '', quantity: '' @ n @ '', last_price: '' @ pr @ [newline]
      | _ \<Rightarrow> [])"

text \<open>\<open>substr(0, find(c))\<close> and \<open>substr(find(c) + 1)\<close>; without the character both are the whole text.\<close>

definition before_char :: "char \<Rightarrow> string \<Rightarrow> string" where
  "before_char c s = (case cut_at c s of None \<Rightarrow> s | Some (a, _) \<Rightarrow> a)"

definition after_char :: "char \<Rightarrow> string \<Rightarrow> string" where
  "after_char c s = (case cut_at c s of None \<Rightarrow> s | Some (_, b) \<Rightarrow> b)"

definition titled :: "string \<Rightarrow> string \<Rightarrow> string" where
  "titled title body = (if body = [] then [] else title @ [newline] @ order_summary body)"

definition summary_client :: "sql_env \<Rightarrow> database \<Rightarrow> client_row \<Rightarrow> string option" where
  "summary_client env db c =
     do { info \<leftarrow> get_portfolio_info env (cl_id c) db;
          Some (''  '' @ cl_name c @ '' (id '' @ show_int (cl_id c) @ ''):'' @ [newline] @
            (case split (before_char CHR '','' info) of
               val # balance # _ \<Rightarrow>
                 ''    Portfolio value: '' @ val @ [newline] @ ''    Cash balance: '' @ balance @ [newline]
             | _ \<Rightarrow> []) @
            ''    Holdings:'' @ [newline] @
            concat (map summary_holding (filter (\<lambda>l. l \<noteq> []) (split_on CHR '','' (after_char CHR '','' info)))) @
            titled ''    Completed orders:'' (get_completed_orders_info env (cl_id c) db) @
            titled ''    Pending orders:'' (get_pending_orders_info env (cl_id c) db) @ [newline]) }"

definition write_simulation_summary :: "sql_env \<Rightarrow> int \<Rightarrow> database \<Rightarrow> string option" where
  "write_simulation_summary env t db =
     do { cs \<leftarrow> read_all (summary_client env db) (clients db);
          Some (''================ Simulation summary ('' @ time_to_string (local_time env) t @ '') ================'' @
            [newline, newline] @
            ''-- Market infos --'' @ [newline] @
            ''  Market value: '' @ before_char CHR '';'' (get_market_info env db) @ [newline] @
            [newline] @ ''-- Orders still to be executed --'' @ [newline] @
            order_summary (rev (after_char CHR '';'' (rev (after_char CHR '';'' (get_market_info env db))))) @ [newline] @
            ''-- Actions (name quantity last_price time) --'' @ [newline] @
            concat (map summary_action (filter (\<lambda>l. l \<noteq> []) (split_on CHR '','' (get_actions_info env db)))) @ [newline] @
            ''-- Clients ('' @ show_int (int (length (clients db))) @ '') --'' @ [newline] @ concat cs @
            ''================ End of summary ================'' @ [newline]) }"

section \<open>The terminal client\<close>

definition authentification_message :: "string \<Rightarrow> string \<Rightarrow> string" where
  "authentification_message name password = ''Authentification Request: '' @ name @ '' '' @ password"

datatype login_outcome = Logged_in int | Refused string | Uncaught

text \<open>A reply the client does not know leaves the identifier at \<open>- 1\<close> and is taken for a success.\<close>

definition login_reply :: "string \<Rightarrow> login_outcome" where
  "login_reply response =
     (if starts_with ''AUTHENTIFICATION_SUCCESS'' response then
        (case stoi (drop (length ''AUTHENTIFICATION_SUCCESS'') response) of Some i \<Rightarrow> Logged_in i | None \<Rightarrow> Uncaught)
      else if response = ''AUTHENTIFICATION_FAILURE_INPUT'' then Refused ''Error: Invalid input''
      else if response = ''AUTHENTIFICATION_FAILURE_USERNAME'' then Refused ''Error: Username not found''
      else if response = ''AUTHENTIFICATION_FAILURE_PASSWORD'' then Refused ''Error: Incorrect password''
      else Logged_in (- 1))"

definition connection_message :: "int \<Rightarrow> string" where
  "connection_message i = show_int i @ '' CLIENT_CONNECTED''"

text \<open>The messages sent for the lines typed, up to the line \<open>exit\<close>.\<close>

fun typed_messages :: "int \<Rightarrow> string list \<Rightarrow> string list" where
  "typed_messages i [] = []"
| "typed_messages i (line # lines) =
     (if line = ''exit'' then [] else (show_int i @ '' '' @ line) # typed_messages i lines)"

end
