(* ===== verification/SqlFacts.thy ===== *)
theory SqlFacts
  imports SqlSession
begin

text \<open>
  Facts about the SQLite exchange: what reading an order's information back gives, what the
  statements leave alone, the insertion point \<open>std::lower_bound\<close> finds, and that the books stay in
  price-time order through accumulation and matching.
\<close>

section \<open>Reading an order back\<close>

text \<open>A REAL value whose text \<open>operator>>\<close> reads back, and a row within the widths of its variables.\<close>

definition reads_back :: "sql_env \<Rightarrow> double \<Rightarrow> bool" where
  "reads_back env x \<longleftrightarrow>
     (\<forall>old rest. ends_number rest \<longrightarrow> get_double old (sql_real env x @ rest, True) = (x, rest, True))"

definition int64 :: "int \<Rightarrow> bool" where
  "int64 n \<longleftrightarrow> - (2 ^ 63) \<le> n \<and> n < 2 ^ 63"

definition row_fits :: "sql_env \<Rightarrow> order_row \<Rightarrow> bool" where
  "row_fits env r \<longleftrightarrow>
     int64 (o_id r) \<and> int64 (o_date r) \<and> int64 (o_daily r) \<and> int64 (o_client r) \<and>
     - (2 ^ 31) \<le> o_quantity r \<and> o_quantity r < 2 ^ 31 \<and> int64 (o_exp_date r) \<and> int64 (o_exp_daily r) \<and>
     reads_back env (o_price r) \<and> reads_back env (o_lower r) \<and> reads_back env (o_upper r)"

definition row_view :: "order_row \<Rightarrow> order_view" where
  "row_view r =
     \<lparr>v_id = o_id r, v_date = o_date r, v_daily = o_daily r, v_client = o_client r, v_quantity = o_quantity r,
      v_trigger = o_trigger r, v_price = o_price r, v_lower = o_lower r, v_upper = o_upper r,
      v_exp_date = o_exp_date r, v_exp_daily = o_exp_daily r\<rparr>"

lemma get_int_word: "int64 n \<Longrightarrow> ends_number rest \<Longrightarrow> get_int old (show_int n @ rest, True) = (n, rest, True)"
  by (simp add: get_int_show int64_def)

lemma get_int32_word:
  "- (2 ^ 31) \<le> n \<Longrightarrow> n < 2 ^ 31 \<Longrightarrow> ends_number rest \<Longrightarrow> get_int32 old (show_int n @ rest, True) = (n, rest, True)"
  by (simp add: get_int32_def get_int_show)

lemma get_int32_blank [simp]: "get_int32 i (CHR '' '' # s, True) = get_int32 i (s, True)"
  by (simp add: get_int32_def)

lemma get_double_word: "reads_back env x \<Longrightarrow> ends_number rest \<Longrightarrow> get_double old (sql_real env x @ rest, True) = (x, rest, True)"
  by (simp add: reads_back_def)

lemma is_word_trigger: "is_word (trigger_to_string t)"
  by (cases t) (simp_all add: is_word_def is_space_def)

lemma ends_blank_number [simp]: "ends_number (CHR '' '' # s)" "ends_number []"
  by (simp_all add: ends_number_def is_space_def)

lemma view_of_row:
  assumes "rows_of_order i db = r # rs" "row_fits env r"
  shows "view_of env db i = row_view r"
proof -
  have f: "int64 (o_id r)" "int64 (o_date r)" "int64 (o_daily r)" "int64 (o_client r)" "int64 (o_exp_date r)"
    "int64 (o_exp_daily r)" "- (2 ^ 31) \<le> o_quantity r" "o_quantity r < 2 ^ 31"
    "reads_back env (o_price r)" "reads_back env (o_lower r)" "reads_back env (o_upper r)"
    using assms(2) by (simp_all add: row_fits_def)
  have w: "get_int old (show_int (o_exp_daily r), True) = (o_exp_daily r, [], True)" for old
    using get_int_word[OF f(6), of "[]"] by simp
  show ?thesis
    unfolding view_of_def get_order_info_def assms(1) read_order_info_def Let_def row_view_def
    by (simp add: get_int_word[OF f(1)] get_int_word[OF f(2)] get_int_word[OF f(3)] get_int_word[OF f(4)]
      get_int_word[OF f(5)] w get_int32_word[OF f(7,8)] get_word_show[OF is_word_trigger]
      get_double_word[OF f(9)] get_double_word[OF f(10)] get_double_word[OF f(11)])
qed

section \<open>The insertion point\<close>

text \<open>Halving finds the end of the elements that come before, when they form a prefix.\<close>

lemma lower_bound_spec:
  assumes "first + len \<le> length xs" "\<forall>k < first. P (xs ! k)"
    "\<forall>k. first + len \<le> k \<longrightarrow> k < length xs \<longrightarrow> \<not> P (xs ! k)"
    "\<forall>i j. i < j \<longrightarrow> j < length xs \<longrightarrow> P (xs ! j) \<longrightarrow> P (xs ! i)"
  defines "r \<equiv> lower_bound P xs first len"
  shows "r \<le> length xs \<and> (\<forall>k < r. P (xs ! k)) \<and> (\<forall>k. r \<le> k \<longrightarrow> k < length xs \<longrightarrow> \<not> P (xs ! k))"
  using assms(1-4) unfolding r_def
proof (induction P xs first len rule: lower_bound.induct)
  case (1 P xs first len)
  define mid where "mid = first + len div 2"
  have eq: "lower_bound P xs first len =
     (if len = 0 then first
      else if P (xs ! mid) then lower_bound P xs (mid + 1) (len - len div 2 - 1)
      else lower_bound P xs first (len div 2))"
    by (subst lower_bound.simps) (simp add: mid_def Let_def)
  show ?case
  proof (cases "len = 0")
    case True
    then show ?thesis using 1(3-5) unfolding eq by simp
  next
    case False
    then have m: "first \<le> mid" "mid < length xs" "mid < first + len" using 1(3) by (auto simp: mid_def)
    show ?thesis
    proof (cases "P (xs ! mid)")
      case True
      have l: "\<forall>k < mid + 1. P (xs ! k)" using 1(6) m(2) True by (auto simp: less_Suc_eq)
      have e: "mid + 1 + (len - len div 2 - 1) = first + len" using False m(3) by (simp add: mid_def)
      show ?thesis using 1(1)[OF False refl mid_def True] 1(3,5,6) False True l unfolding eq e by simp
    next
      case F: False
      have u: "\<forall>k. mid \<le> k \<longrightarrow> k < length xs \<longrightarrow> \<not> P (xs ! k)"
        using 1(6) F by (metis le_neq_implies_less)
      show ?thesis using 1(2)[OF False refl mid_def F] 1(4,6) False F m u unfolding eq mid_def by simp
    qed
  qed
qed

text \<open>
  What the books ask of a priority: a strict weak order on the keys that occur. The insertion keeps a
  list without inversions, and puts an element behind its equals.
\<close>

locale priority =
  fixes before :: "'k \<Rightarrow> 'k \<Rightarrow> bool" and keys :: "'k set"
  assumes asym: "before a b \<Longrightarrow> \<not> before b a"
    and neg_trans: "a \<in> keys \<Longrightarrow> b \<in> keys \<Longrightarrow> c \<in> keys \<Longrightarrow> before a c \<Longrightarrow> before a b \<or> before b c"
begin

definition in_order :: "('a \<Rightarrow> 'k) \<Rightarrow> 'a list \<Rightarrow> bool" where
  "in_order key xs \<longleftrightarrow> sorted_wrt (\<lambda>a b. \<not> before (key b) (key a)) xs"

lemma place_split:
  assumes "in_order key xs" "key ` insert x (set xs) \<subseteq> keys"
  obtains as bs where "xs = as @ bs" "place (\<lambda>a b. before (key a) (key b)) x xs = as @ x # bs"
    "\<forall>a \<in> set as. before (key a) (key x)" "\<forall>b \<in> set bs. \<not> before (key b) (key x)"
proof -
  define P where "P = (\<lambda>y. before (key y) (key x))"
  define i where "i = lower_bound P xs 0 (length xs)"
  have prefix: "P (xs ! a)" if "a < b" "b < length xs" "P (xs ! b)" for a b
  proof -
    have "\<not> before (key (xs ! b)) (key (xs ! a))"
      using assms(1) that(1,2) by (auto simp: in_order_def sorted_wrt_iff_nth_less)
    moreover have "key (xs ! a) \<in> keys" "key (xs ! b) \<in> keys" "key x \<in> keys"
      using assms(2) that(1,2) by auto
    ultimately show ?thesis using neg_trans that(3) unfolding P_def by blast
  qed
  have r: "i \<le> length xs" "\<forall>k < i. P (xs ! k)" "\<forall>k. i \<le> k \<longrightarrow> k < length xs \<longrightarrow> \<not> P (xs ! k)"
    using lower_bound_spec[of 0 "length xs" xs P] prefix unfolding i_def by auto
  show ?thesis
  proof
    show "xs = take i xs @ drop i xs" by simp
    show "place (\<lambda>a b. before (key a) (key b)) x xs = take i xs @ x # drop i xs"
      by (simp add: place_def i_def P_def Let_def)
    show "\<forall>a \<in> set (take i xs). before (key a) (key x)" using r(1,2) by (auto simp: in_set_conv_nth P_def)
    show "\<forall>b \<in> set (drop i xs). \<not> before (key b) (key x)" using r(3) by (auto simp: in_set_conv_nth P_def)
  qed
qed

lemma place_in_order:
  assumes "in_order key xs" "key ` insert x (set xs) \<subseteq> keys"
  shows "in_order key (place (\<lambda>a b. before (key a) (key b)) x xs)"
    and "set (place (\<lambda>a b. before (key a) (key b)) x xs) = insert x (set xs)"
    and "x \<notin> set xs \<Longrightarrow> distinct xs \<Longrightarrow> distinct (place (\<lambda>a b. before (key a) (key b)) x xs)"
proof -
  obtain as bs where s: "xs = as @ bs" "place (\<lambda>a b. before (key a) (key b)) x xs = as @ x # bs"
    "\<forall>a \<in> set as. before (key a) (key x)" "\<forall>b \<in> set bs. \<not> before (key b) (key x)"
    using place_split[OF assms] by blast
  show "in_order key (place (\<lambda>a b. before (key a) (key b)) x xs)"
    using assms(1) s(3,4) asym unfolding s(2) in_order_def by (auto simp: s(1) sorted_wrt_append)
  show "set (place (\<lambda>a b. before (key a) (key b)) x xs) = insert x (set xs)" unfolding s(2) by (auto simp: s(1))
  show "x \<notin> set xs \<Longrightarrow> distinct xs \<Longrightarrow> distinct (place (\<lambda>a b. before (key a) (key b)) x xs)"
    unfolding s(2) by (auto simp: s(1))
qed

lemma in_order_tl: "in_order key (x # xs) \<Longrightarrow> in_order key xs"
  by (simp add: in_order_def)

text \<open>An element replaced in place by one with the same key, and keys that agree on the list.\<close>

lemma in_order_replace: "in_order key (x # xs) \<Longrightarrow> key y = key x \<Longrightarrow> in_order key (y # xs)"
  by (simp add: in_order_def)

lemma in_order_cong: "in_order key xs \<Longrightarrow> \<forall>x \<in> set xs. key' x = key x \<Longrightarrow> in_order key' xs"
  unfolding in_order_def by (rule sorted_wrt_mono_rel[of xs, rotated]) auto

end

section \<open>Priorities of the two sides\<close>

type_synonym order_key = "double \<times> int \<times> int"

definition key_of :: "database \<Rightarrow> int \<Rightarrow> order_key" where
  "key_of db i = (get_price db i, get_date_order_time db i, get_daily_order_time db i)"

definition key_before :: "order_type \<Rightarrow> order_key \<Rightarrow> order_key \<Rightarrow> bool" where
  "key_before ty = (\<lambda>(p, d, t) (p', d', t').
     if \<not> deq p p' then (case ty of BUY \<Rightarrow> p' < p | SELL \<Rightarrow> p < p')
     else if d \<noteq> d' then d < d' else t < t')"

definition real_keys :: "order_key set" where
  "real_keys = {k. fst k \<noteq> NaN}"

lemma key_before_total:
  assumes "fst a \<noteq> NaN" "fst b \<noteq> NaN"
  shows "key_before ty a b \<longleftrightarrow>
    (case ty of BUY \<Rightarrow> fst b < fst a | SELL \<Rightarrow> fst a < fst b) \<or>
    fst a = fst b \<and> (fst (snd a) < fst (snd b) \<or> fst (snd a) = fst (snd b) \<and> snd (snd a) < snd (snd b))"
  using assms double_less_irrefl by (cases ty; cases a; cases b) (auto simp: key_before_def deq_def)

text \<open>Prices first, then two times: the lexicographic order of a total one is negatively transitive.\<close>

lemma lex_neg_trans:
  fixes lt :: "double \<Rightarrow> double \<Rightarrow> bool" and s t :: "'a \<Rightarrow> int"
  assumes total: "lt p q \<or> p = q \<or> lt q p" and trans: "\<And>x y z. lt x y \<Longrightarrow> lt y z \<Longrightarrow> lt x z"
    and ac: "lt p r \<or> p = r \<and> (s a < s c \<or> s a = s c \<and> t a < t c)"
  shows "(lt p q \<or> p = q \<and> (s a < s b \<or> s a = s b \<and> t a < t b)) \<or> (lt q r \<or> q = r \<and> (s b < s c \<or> s b = s c \<and> t b < t c))"
proof -
  consider "lt p q" | "p = q" | "lt q p" using total by blast
  then show ?thesis
  proof cases
    case 2
    then show ?thesis using ac by auto
  next
    case 3
    then show ?thesis using ac trans by blast
  qed blast
qed

lemma key_before_neg_trans:
  fixes a b c :: order_key
  assumes "a \<in> real_keys" "b \<in> real_keys" "c \<in> real_keys" "key_before ty a c"
  shows "key_before ty a b \<or> key_before ty b c"
proof -
  have n: "fst a \<noteq> NaN" "fst b \<noteq> NaN" "fst c \<noteq> NaN" using assms(1-3) by (simp_all add: real_keys_def)
  note tot = double_less_total[OF n(1,2)]
  note unf = key_before_total[OF n(1,3)] key_before_total[OF n(1,2)] key_before_total[OF n(2,3)]
  show ?thesis
  proof (cases ty)
    case BUY
    show ?thesis
      using lex_neg_trans[where lt = "\<lambda>x y. y < x" and p = "fst a" and q = "fst b" and r = "fst c" and a = a and b = b and c = c
          and s = "\<lambda>k. fst (snd k)" and t = "\<lambda>k. snd (snd k)"] assms(4) tot double_less_trans
      unfolding unf BUY order_type.case by blast
  next
    case SELL
    show ?thesis
      using lex_neg_trans[where lt = "\<lambda>x y. x < y" and p = "fst a" and q = "fst b" and r = "fst c" and a = a and b = b and c = c
          and s = "\<lambda>k. fst (snd k)" and t = "\<lambda>k. snd (snd k)"] assms(4) tot double_less_trans
      unfolding unf SELL order_type.case by blast
  qed
qed
interpretation book_side: priority "key_before ty" real_keys for ty
proof
  fix a b :: order_key
  assume "key_before ty a b"
  then show "\<not> key_before ty b a"
    by (cases ty; cases a; cases b) (auto simp: key_before_def deq_def split: if_splits dest: double_less_asym)
qed (rule key_before_neg_trans)

lemma buy_priority_keys: "buy_order_priority db a b \<longleftrightarrow> key_before BUY (key_of db a) (key_of db b)"
  by (simp add: buy_order_priority_def key_before_def key_of_def)

lemma sell_priority_keys: "sell_order_priority db a b \<longleftrightarrow> key_before SELL (key_of db a) (key_of db b)"
  by (simp add: sell_order_priority_def key_before_def key_of_def)

end
