(* ===== verification/SqlBooks.thy ===== *)
theory SqlBooks
  imports SqlFacts
begin

text \<open>
  The books of the SQLite exchange against the orders table: what each statement of a transaction
  does to the rows of the other orders, and the invariant that every book is in price-time order over
  rows that are pending, of its side and of its action.
\<close>

section \<open>Rows under the statements\<close>

abbreviation order_ids :: "database \<Rightarrow> int set" where "order_ids db \<equiv> o_id ` set (orders db)"

definition keyed :: "database \<Rightarrow> bool" where
  "keyed db \<longleftrightarrow> distinct (map o_id (orders db))"

text \<open>The rows of some orders stay, and the identifiers stay unique.\<close>

definition keeps_rows :: "int set \<Rightarrow> database \<Rightarrow> database \<Rightarrow> bool" where
  "keeps_rows I db db' \<longleftrightarrow> (keyed db \<longrightarrow> keyed db') \<and> (\<forall>i \<in> I. rows_of_order i db' = rows_of_order i db)"

lemma keeps_rows_refl: "orders db' = orders db \<Longrightarrow> keeps_rows I db db'"
  by (simp add: keeps_rows_def keyed_def rows_of_order_def)

lemma keeps_rows_trans: "keeps_rows I db db1 \<Longrightarrow> keeps_rows I db1 db2 \<Longrightarrow> keeps_rows I db db2"
  by (simp add: keeps_rows_def)

lemma rows_nonempty: "i \<in> order_ids db \<longleftrightarrow> rows_of_order i db \<noteq> []"
  by (auto simp: rows_of_order_def filter_empty_conv)

lemma rows_single: "keyed db \<Longrightarrow> r \<in> set (orders db) \<Longrightarrow> rows_of_order (o_id r) db = [r]"
  unfolding keyed_def rows_of_order_def
proof (induction "orders db" arbitrary: db)
  case (Cons x xs)
  define db' where "db' = db\<lparr>orders := xs\<rparr>"
  have o: "orders db = x # xs" "orders db' = xs" using Cons(2) by (simp_all add: db'_def)
  have none: "filter (\<lambda>r'. o_id r' = o_id x) xs = []" using Cons(3) o by (auto simp: filter_empty_conv) (metis imageI)
  show ?case
  proof (cases "r = x")
    case True
    then show ?thesis using none o by simp
  next
    case False
    then have "r \<in> set xs" using Cons(4) o by simp
    then have "o_id x \<noteq> o_id r" using Cons(3) o by auto
    then show ?thesis using Cons(1)[of db'] Cons(3) o \<open>r \<in> set xs\<close> by simp
  qed
qed simp

lemma filter_insort_single:
  assumes "\<forall>y \<in> set xs. \<not> P y" "P x"
  shows "filter P (insort_key f x xs) = [x]"
  using assms by (induction xs) (auto simp: filter_empty_conv)

lemma distinct_insort_ids:
  "distinct (map f xs) \<Longrightarrow> f x \<notin> f ` set xs \<Longrightarrow> distinct (map f (insort_key f x xs))"
  by (induction xs) (auto simp: set_insort_key)

lemma insert_fresh:
  assumes "o_id r \<notin> order_ids db" "is_literal (o_price r)" "is_literal (o_lower r)" "is_literal (o_upper r)"
  shows "rows_of_order (o_id r) (insert_order r db) = [r]"
    and "keyed db \<Longrightarrow> keyed (insert_order r db)"
    and "i \<noteq> o_id r \<Longrightarrow> rows_of_order i (insert_order r db) = rows_of_order i db"
proof -
  have db': "insert_order r db = db\<lparr>orders := insort_key o_id r (orders db)\<rparr>"
    using assms by (auto simp: insert_order_def)
  show "rows_of_order (o_id r) (insert_order r db) = [r]"
    unfolding db' rows_of_order_def using assms(1) by (simp, intro filter_insort_single) (auto, metis imageI)
  show "keyed db \<Longrightarrow> keyed (insert_order r db)"
    unfolding db' keyed_def using assms(1) distinct_insort_ids[of o_id "orders db" r] by simp
  show "i \<noteq> o_id r \<Longrightarrow> rows_of_order i (insert_order r db) = rows_of_order i db"
    unfolding db' rows_of_order_def by (simp add: filter_insort_triv)
qed

lemma insert_keeps:
  assumes "o_id r \<notin> I"
  shows "keeps_rows I db (insert_order r db)"
proof (cases "o_id r \<in> order_ids db \<or> \<not> (is_literal (o_price r) \<and> is_literal (o_lower r) \<and> is_literal (o_upper r))")
  case True
  then show ?thesis by (intro keeps_rows_refl) (auto simp: insert_order_def)
next
  case False
  then show ?thesis unfolding keeps_rows_def using insert_fresh[of r db] assms by metis
qed

lemma delete_keeps: "\<forall>r. P r \<longrightarrow> o_id r \<notin> I \<Longrightarrow> keeps_rows I db (delete_orders P db)"
  unfolding keeps_rows_def keyed_def delete_orders_def rows_of_order_def
  by (auto simp: distinct_map_filter intro!: filter_cong)

lemma orders_of_statements [simp]:
  "orders (set_balance c f db) = orders db"
  "orders (client_deposit c x db) = orders db"
  "orders (client_withdraw c x db) = orders db"
  "orders (change_holding c a g db) = orders db"
  "orders (insert_price p db) = orders db"
  "orders (record_price a x d t db) = orders db"
  "orders (insert_holding h db) = orders db"
  "orders (client_add_action c a n x d t db) = orders db"
  "orders (client_remove_action c a n x d t db) = orders db"
  "orders (update_portfolio env c ty a n x d t db) = orders db"
  "orders (insert_message w db) = orders db"
  by (simp_all add: set_balance_def client_deposit_def client_withdraw_def change_holding_def insert_price_def
      record_price_def insert_holding_def client_add_action_def client_remove_action_def update_portfolio_def
      insert_message_def Let_def split: order_type.split)

lemma orders_log [simp]: "\<not> quotes content \<Longrightarrow> orders (log_message env i c s ty content t db) = orders db"
  by (simp add: log_message_def)

section \<open>Fresh identifiers\<close>

definition draws_ok :: "(nat \<Rightarrow> int) \<Rightarrow> bool" where
  "draws_ok ds \<longleftrightarrow> (\<forall>n. 0 \<le> ds n \<and> ds n < 2 ^ 32 - 1)"

lemma draw_until_result: "draw_until found i ds k = Some y \<Longrightarrow> found = - 1 \<and> y = (i, k)"
proof -
  have "found = - 1 \<and> y = (i, k)" if "draw_until found i ds k = Some y" "found = - 1"
    using that by (simp add: draw_until.simps)
  moreover have "found = - 1" if "draw_until found i ds k = Some y"
    using that by (rule draw_until.raw_induct[where P = "\<lambda>f i ds k y. f = - 1", rotated]) (auto split: if_splits)
  ultimately show "draw_until found i ds k = Some y \<Longrightarrow> found = - 1 \<and> y = (i, k)" by blast
qed

lemma to_int32_minus:
  assumes "0 \<le> i" "i < 2 ^ 32 - 1"
  shows "to_int32 i \<noteq> - 1"
proof (cases "i < 2 ^ 31")
  case True
  then show ?thesis using assms by (simp add: to_int32_def)
next
  case False
  have "(i + 2 ^ 31) mod 2 ^ 32 = ((i - 2 ^ 31) + 2 ^ 32) mod 2 ^ 32" by (simp add: add.commute)
  also have "\<dots> = i - 2 ^ 31" using assms False by (subst mod_add_self2) (simp add: mod_pos_pos_trivial)
  finally show ?thesis using assms by (simp add: to_int32_def)
qed

lemma query_fresh:
  assumes "execute_SQL_query_ID (filter (\<lambda>j. j = i) ids) = - 1" "0 \<le> i" "i < 2 ^ 32 - 1"
  shows "i \<notin> set ids"
proof
  assume "i \<in> set ids"
  then obtain xs where "filter (\<lambda>j. j = i) ids = i # xs"
    by (cases "filter (\<lambda>j. j = i) ids") (auto simp: filter_empty_conv filter_eq_Cons_iff)
  then show False using assms to_int32_minus[of i] by (simp add: execute_SQL_query_ID_def)
qed

lemma market_order_id_fresh:
  assumes "market_order_id m = Some (i, m')" "draws_ok (mk_draws m)"
  shows "i \<notin> order_ids (mk_db m)" "0 \<le> i" "i < 2 ^ 32" "mk_db m' = mk_db m" "mk_draws m' = mk_draws m"
    "mk_buys m' = mk_buys m" "mk_sells m' = mk_sells m"
proof -
  define d where "d = mk_draws m (mk_drawn m)"
  have d: "0 \<le> d" "d < 2 ^ 32 - 1" using assms(2) by (auto simp: draws_ok_def d_def)
  obtain k where k: "draw_until (execute_SQL_query_ID (filter (\<lambda>j. j = d) (map o_id (orders (mk_db m))))) d (mk_draws m)
      (Suc (mk_drawn m)) = Some (i, k)" "m' = m\<lparr>mk_drawn := k\<rparr>"
    using assms(1) by (auto simp: market_order_id_def get_new_order_id_def d_def Let_def split: Option.bind_splits)
  then have i: "i = d" "execute_SQL_query_ID (filter (\<lambda>j. j = d) (map o_id (orders (mk_db m)))) = - 1"
    using draw_until_result by blast+
  show "i \<notin> order_ids (mk_db m)" using query_fresh[OF i(2) d] by (simp add: i(1))
  show "0 \<le> i" "i < 2 ^ 32" "mk_db m' = mk_db m" "mk_draws m' = mk_draws m"
    "mk_buys m' = mk_buys m" "mk_sells m' = mk_sells m"
    using d i(1) k(2) by simp_all
qed

section \<open>A transaction and the other orders\<close>

text \<open>The texts of the log hold no quote when the printed doubles do not.\<close>

definition plain_env :: "sql_env \<Rightarrow> bool" where
  "plain_env env \<longleftrightarrow> (\<forall>x. \<not> quotes (fmt_real env x))"

lemma quotes_append [simp]: "quotes (a @ b) \<longleftrightarrow> quotes a \<or> quotes b"
  by (auto simp: quotes_def)

lemma quotes_Cons [simp]: "quotes (c # s) \<longleftrightarrow> c = CHR 0x27 \<or> quotes s" "\<not> quotes []"
  by (auto simp: quotes_def)

lemma quotes_show_nat [simp]: "\<not> quotes (show_nat n)"
proof
  assume "quotes (show_nat n)"
  then have "is_digit (CHR 0x27)" using show_nat_ok[of n] by (auto simp: quotes_def)
  then show False by (simp add: is_digit_def)
qed

lemma quotes_show_int [simp]: "\<not> quotes (show_int n)"
  by (simp add: show_int_def)

lemma quotes_padded [simp]: "\<not> quotes (padded w n)"
  by (auto simp: padded_def zero_padded_def quotes_def[of "replicate _ _"])

lemma quotes_take: "\<not> quotes s \<Longrightarrow> \<not> quotes (take n s)"
  by (auto simp: quotes_def dest: in_set_takeD)

lemma quotes_time [simp]: "\<not> quotes (time_to_string lt t)"
  unfolding time_to_string_def stamp_def Let_def by (rule quotes_take) simp

lemma quotes_transaction: "plain_env env \<Longrightarrow> \<not> quotes (transaction_text env n action pr b s t)"
  by (simp add: transaction_text_def plain_env_def)

text \<open>A step that keeps the rows of some orders, the books and the sequence of draws.\<close>

definition tracks :: "int set \<Rightarrow> market \<Rightarrow> market \<Rightarrow> bool" where
  "tracks I m m' \<longleftrightarrow>
     keeps_rows I (mk_db m) (mk_db m') \<and> mk_buys m' = mk_buys m \<and> mk_sells m' = mk_sells m \<and> mk_draws m' = mk_draws m"

lemma tracks_trans: "tracks I m m1 \<Longrightarrow> tracks I m1 m2 \<Longrightarrow> tracks I m m2"
  unfolding tracks_def using keeps_rows_trans by metis

lemma tracks_refl: "tracks I m m"
  by (simp add: tracks_def keeps_rows_refl)

lemma tracks_ids: "tracks I m m' \<Longrightarrow> I \<subseteq> order_ids (mk_db m) \<Longrightarrow> I \<subseteq> order_ids (mk_db m')"
  unfolding tracks_def keeps_rows_def using rows_nonempty by (metis subset_iff)

lemma tracks_on_db: "keeps_rows I (mk_db m) (f (mk_db m)) \<Longrightarrow> tracks I m (on_db f m)"
  by (simp add: tracks_def on_db_def)

lemma tracks_log:
  assumes "market_log env cl s ty content t m = Some m'" "\<not> quotes content"
  shows "tracks I m m'"
  using assms
  by (auto simp: market_log_def market_message_id_def get_new_message_id_def tracks_def on_db_def
      split: Option.bind_splits intro!: keeps_rows_refl)

lemma tracks_notify: "tracks I m (notify c text m)"
  by (simp add: notify_def tracks_def keeps_rows_refl)

lemma tracks_drawn:
  assumes "market_order_id m = Some (i, m1)" "draws_ok (mk_draws m)" "I \<subseteq> order_ids (mk_db m)" "o_id r = i"
  shows "tracks I m (on_db (insert_order r) m1)"
proof -
  note f = market_order_id_fresh[OF assms(1,2)]
  have "keeps_rows I (mk_db m) (insert_order r (mk_db m))" using f(1) assms(3,4) by (intro insert_keeps) auto
  then show ?thesis using f by (simp add: tracks_def on_db_def)
qed

lemma order_statements:
  "add_completed_order c r = insert_order (r\<lparr>o_client := c, o_status := COMPLETED\<rparr>)"
  "add_pending_order c r = insert_order (r\<lparr>o_client := c, o_status := PENDING\<rparr>)"
  by (rule ext, simp add: add_completed_order_def add_pending_order_def)+

lemma complete_tracks:
  assumes "complete v ty action n pr date daily m = Some m'" "draws_ok (mk_draws m)" "I \<subseteq> order_ids (mk_db m)"
  shows "tracks I m m'"
  using assms(1) tracks_drawn[OF _ assms(2,3)]
  by (auto simp: complete_def order_statements view_row_def split: Option.bind_splits)

text \<open>What is left over keeps the price and the time, and its row is the only one with its identifier.\<close>

definition literal_view :: "order_view \<Rightarrow> bool" where
  "literal_view v \<longleftrightarrow> is_literal (v_price v) \<and> is_literal (v_lower v) \<and> is_literal (v_upper v)"

lemma reopen_tracks:
  assumes "reopen env v ty action n m = Some (j, m')" "draws_ok (mk_draws m)" "I \<subseteq> order_ids (mk_db m)"
    "literal_view v"
  shows "tracks I m m'"
    and "j = Some i \<Longrightarrow> n < v_quantity v \<and> i \<notin> I \<and> 0 \<le> i \<and> i < 2 ^ 32 \<and>
      rows_of_order i (mk_db m') = [view_row v i ty action (v_quantity v - n) (v_price v) (v_date v) (v_daily v)]"
proof -
  show "tracks I m m'"
    using assms(1) tracks_drawn[OF _ assms(2,3)]
    by (auto simp: reopen_def order_statements view_row_def tracks_refl split: if_splits Option.bind_splits)
  assume j: "j = Some i"
  then obtain m1 where d: "n < v_quantity v" "market_order_id m = Some (i, m1)"
    "m' = on_db (add_pending_order (v_client v)
       (view_row v i ty action (v_quantity v - n) (v_price v) (v_date v) (v_daily v))) m1"
    using assms(1) by (auto simp: reopen_def split: if_splits Option.bind_splits)
  note f = market_order_id_fresh[OF d(2) assms(2)]
  define r where "r = view_row v i ty action (v_quantity v - n) (v_price v) (v_date v) (v_daily v)"
  have r: "r\<lparr>o_client := v_client v, o_status := PENDING\<rparr> = r" "o_id r = i" "is_literal (o_price r)"
    "is_literal (o_lower r)" "is_literal (o_upper r)"
    using assms(4) by (simp_all add: r_def view_row_def literal_view_def)
  have "mk_db m' = insert_order r (mk_db m)" using d(3) f(4) r(1) by (simp add: on_db_def add_pending_order_def r_def)
  then have "rows_of_order i (mk_db m') = [r]" using insert_fresh(1)[of r "mk_db m"] r f(1) by simp
  then show "n < v_quantity v \<and> i \<notin> I \<and> 0 \<le> i \<and> i < 2 ^ 32 \<and>
      rows_of_order i (mk_db m') = [view_row v i ty action (v_quantity v - n) (v_price v) (v_date v) (v_daily v)]"
    using d(1) f(1-3) assms(3) by (auto simp: r_def)
qed

text \<open>A whole transaction: the other orders keep their rows, and so does what is left over of the two.\<close>

lemma tracks_statement: "orders (f (mk_db m)) = orders (mk_db m) \<Longrightarrow> tracks I m (on_db f m)"
  by (rule tracks_on_db) (rule keeps_rows_refl)

lemma tracks_delete:
  "i \<notin> I \<Longrightarrow> tracks I m (on_db (remove_pending_order c i) m)"
  unfolding remove_pending_order_def[abs_def] by (rule tracks_on_db) (auto intro!: delete_keeps)

lemma tracks_draws: "tracks I m m' \<Longrightarrow> draws_ok (mk_draws m) \<Longrightarrow> draws_ok (mk_draws m')"
  by (simp add: tracks_def)

definition left_over :: "order_view \<Rightarrow> order_type \<Rightarrow> int \<Rightarrow> int \<Rightarrow> int \<Rightarrow> order_row" where
  "left_over v ty action n i = view_row v i ty action (v_quantity v - n) (v_price v) (v_date v) (v_daily v)"

text \<open>The intermediate markets of a transaction.\<close>

definition trade_price :: "int \<Rightarrow> order_view \<Rightarrow> order_view \<Rightarrow> market \<Rightarrow> double" where
  "trade_price action b s m = resolve_execution_price m action (v_trigger b) (v_trigger s) (v_price b) (v_price s)"

definition settled :: "sql_env \<Rightarrow> int \<Rightarrow> order_view \<Rightarrow> order_view \<Rightarrow> market \<Rightarrow> market" where
  "settled env action b s m =
     (let t = mk_clock m (mk_reads m); n = min (v_quantity b) (v_quantity s); pr = trade_price action b s m;
          daily = get_daily_time (local_time env) t; date = get_date_time (local_time env) t
      in on_db (update_portfolio env (v_client s) SELL action n pr daily date)
           (on_db (update_portfolio env (v_client b) BUY action n pr daily date)
             (m\<lparr>mk_exchange := pr, mk_reads := mk_reads m + 1\<rparr>)))"

definition announced :: "sql_env \<Rightarrow> int \<Rightarrow> order_view \<Rightarrow> order_view \<Rightarrow> int \<Rightarrow> double \<Rightarrow> int \<Rightarrow> market \<Rightarrow> market" where
  "announced env action b s n pr t m =
     on_db (remove_pending_order (v_client s) (v_id s)) (on_db (remove_pending_order (v_client b) (v_id b))
       (notify (v_client s) (trade_notice env ''sold'' n action pr t)
         (notify (v_client b) (trade_notice env ''bought'' n action pr t) m)))"

lemma trade_pair_steps:
  assumes "trade_pair env action b s m = Some ((b', s'), m')"
  defines "n \<equiv> min (v_quantity b) (v_quantity s)" and "pr \<equiv> trade_price action b s m" and "t \<equiv> mk_clock m (mk_reads m)"
  defines "daily \<equiv> get_daily_time (local_time env) t" and "date \<equiv> get_date_time (local_time env) t"
  obtains m4 m7 m8 m9 where
    "market_log env 0 SERVER_MESSAGE TRANSACTION (transaction_text env n action pr (v_client b) (v_client s) t) t
       (settled env action b s m) = Some m4"
    "complete b BUY action n pr date daily (announced env action b s n pr t m4) = Some m7"
    "complete s SELL action n pr date daily m7 = Some m8"
    "reopen env b BUY action n m8 = Some (b', m9)" "reopen env s SELL action n m9 = Some (s', m')"
  using assms
  by (auto simp: trade_pair_def get_current_time_ms_def Let_def settled_def announced_def trade_price_def
      split: Option.bind_splits)

lemma settled_tracks: "tracks I m (settled env action b s m)"
proof -
  have "tracks I m (m\<lparr>mk_exchange := x, mk_reads := k\<rparr>)" for x k by (simp add: tracks_def keeps_rows_refl)
  then show ?thesis
    unfolding settled_def Let_def by (rule tracks_trans) (rule tracks_trans[OF tracks_statement tracks_statement]; simp)
qed

lemma announced_tracks: "v_id b \<notin> I \<Longrightarrow> v_id s \<notin> I \<Longrightarrow> tracks I m (announced env action b s n pr t m)"
  unfolding announced_def by (meson tracks_trans tracks_notify tracks_delete)

lemma trade_pair_tracks:
  assumes "trade_pair env action b s m = Some ((b', s'), m')" "plain_env env" "draws_ok (mk_draws m)"
    "I \<subseteq> order_ids (mk_db m)" "v_id b \<notin> I" "v_id s \<notin> I" "literal_view b" "literal_view s"
  defines "n \<equiv> min (v_quantity b) (v_quantity s)"
  shows "tracks I m m'"
    and "b' = Some i \<Longrightarrow> n < v_quantity b \<and> i \<notin> I \<and> 0 \<le> i \<and> i < 2 ^ 32 \<and>
      rows_of_order i (mk_db m') = [left_over b BUY action n i]"
    and "s' = Some j \<Longrightarrow> n < v_quantity s \<and> j \<notin> I \<and> 0 \<le> j \<and> j < 2 ^ 32 \<and>
      rows_of_order j (mk_db m') = [left_over s SELL action n j]"
proof -
  obtain m4 m7 m8 m9 where st:
    "market_log env 0 SERVER_MESSAGE TRANSACTION
       (transaction_text env n action (trade_price action b s m) (v_client b) (v_client s) (mk_clock m (mk_reads m)))
       (mk_clock m (mk_reads m)) (settled env action b s m) = Some m4"
    "complete b BUY action n (trade_price action b s m) (get_date_time (local_time env) (mk_clock m (mk_reads m)))
       (get_daily_time (local_time env) (mk_clock m (mk_reads m)))
       (announced env action b s n (trade_price action b s m) (mk_clock m (mk_reads m)) m4) = Some m7"
    "complete s SELL action n (trade_price action b s m) (get_date_time (local_time env) (mk_clock m (mk_reads m)))
       (get_daily_time (local_time env) (mk_clock m (mk_reads m))) m7 = Some m8"
    "reopen env b BUY action n m8 = Some (b', m9)" "reopen env s SELL action n m9 = Some (s', m')"
    unfolding n_def using assms(1) by (rule trade_pair_steps)
  note t3 = settled_tracks[of I m env action b s]
  have t4: "tracks I (settled env action b s m) m4" using tracks_log[OF st(1)] quotes_transaction[OF assms(2)] by blast
  note t06 = tracks_trans[OF tracks_trans[OF t3 t4] announced_tracks[OF assms(5,6)]]
  have t7: "tracks I m m7"
    using complete_tracks[OF st(2) tracks_draws[OF t06 assms(3)] tracks_ids[OF t06 assms(4)]] t06 tracks_trans by blast
  have t8: "tracks I m m8"
    using complete_tracks[OF st(3) tracks_draws[OF t7 assms(3)] tracks_ids[OF t7 assms(4)]] t7 tracks_trans by blast
  note r9 = reopen_tracks[OF st(4) tracks_draws[OF t8 assms(3)] tracks_ids[OF t8 assms(4)] assms(7)]
  have t9: "tracks I m m9" using r9(1) t8 tracks_trans by blast
  note r10 = reopen_tracks[OF st(5) tracks_draws[OF t9 assms(3)] tracks_ids[OF t9 assms(4)] assms(8)]
  show "tracks I m m'" using r10(1) t9 tracks_trans by blast
  show "s' = Some j \<Longrightarrow> n < v_quantity s \<and> j \<notin> I \<and> 0 \<le> j \<and> j < 2 ^ 32 \<and>
      rows_of_order j (mk_db m') = [left_over s SELL action n j]"
    using r10(2) by (simp add: left_over_def)
  assume i: "b' = Some i"
  have row: "rows_of_order i (mk_db m9) = [left_over b BUY action n i]" using r9(2)[OF i] by (simp add: left_over_def)
  then have "{i} \<subseteq> order_ids (mk_db m9)" using rows_nonempty by simp
  then have "tracks {i} m9 m'"
    using reopen_tracks(1)[OF st(5) tracks_draws[OF t9 assms(3)] _ assms(8)] by blast
  then have "rows_of_order i (mk_db m') = [left_over b BUY action n i]"
    using row by (simp add: tracks_def keeps_rows_def)
  then show "n < v_quantity b \<and> i \<notin> I \<and> 0 \<le> i \<and> i < 2 ^ 32 \<and>
      rows_of_order i (mk_db m') = [left_over b BUY action n i]"
    using r9(2)[OF i] by blast
qed

section \<open>Books in order\<close>

definition good_row :: "sql_env \<Rightarrow> order_row \<Rightarrow> bool" where
  "good_row env r \<longleftrightarrow> row_fits env r \<and> is_literal (o_price r) \<and> is_literal (o_lower r) \<and> is_literal (o_upper r)"

definition book_ordered :: "sql_env \<Rightarrow> database \<Rightarrow> order_type \<Rightarrow> int \<Rightarrow> int list \<Rightarrow> bool" where
  "book_ordered env db ty action is \<longleftrightarrow>
     distinct is \<and>
     (\<forall>i \<in> set is. \<exists>r. rows_of_order i db = [r] \<and> o_status r = PENDING \<and> o_type r = ty \<and> o_action r = action \<and> good_row env r) \<and>
     book_side.in_order ty (key_of db) is"

lemma key_of_cong: "rows_of_order i db' = rows_of_order j db \<Longrightarrow> key_of db' i = key_of db j"
  by (simp add: key_of_def get_price_def get_date_order_time_def get_daily_order_time_def)

lemma key_of_row:
  "rows_of_order i db = [r] \<Longrightarrow> is_literal (o_price r) \<Longrightarrow> key_of db i = (o_price r, to_int32 (o_date r), to_int32 (o_daily r))"
  by (simp add: key_of_def get_price_def get_date_order_time_def get_daily_order_time_def
      execute_SQL_query_double_def execute_SQL_query_ID_def)

lemma book_ids: "book_ordered env db ty action is \<Longrightarrow> set is \<subseteq> order_ids db"
  unfolding book_ordered_def using rows_nonempty by fastforce

lemma book_tl: "book_ordered env db ty action (i # is) \<Longrightarrow> book_ordered env db ty action is"
  by (simp add: book_ordered_def book_side.in_order_def)

lemma book_kept:
  assumes "book_ordered env db ty action is" "\<forall>i \<in> set is. rows_of_order i db' = rows_of_order i db"
  shows "book_ordered env db' ty action is"
  using assms book_side.in_order_cong[of ty "key_of db" "is" "key_of db'"] key_of_cong[of _ db' _ db]
  by (simp add: book_ordered_def)

lemma book_front:
  assumes "book_ordered env db ty action (i # is)" "\<forall>k \<in> set is. rows_of_order k db' = rows_of_order k db"
    "rows_of_order i db = [r]" "rows_of_order j db' = [r']" "j \<notin> set is"
    "o_status r' = PENDING" "o_type r' = ty" "o_action r' = action" "good_row env r'"
    "o_price r' = o_price r" "o_date r' = o_date r" "o_daily r' = o_daily r"
  shows "book_ordered env db' ty action (j # is)"
proof -
  have "book_side.in_order ty (key_of db) (i # is)" using assms(1) by (simp add: book_ordered_def)
  then have "book_side.in_order ty (\<lambda>k. if k = j then key_of db i else key_of db k) (j # is)"
    using assms(5) by (auto simp: book_side.in_order_def intro: sorted_wrt_mono_rel[rotated])
  moreover have "is_literal (o_price r)" "is_literal (o_price r')"
    using assms(1,3,9) by (auto simp: book_ordered_def good_row_def)
  ultimately have "book_side.in_order ty (key_of db') (j # is)"
    using assms(2-5,10-12) by (elim book_side.in_order_cong) (auto simp: key_of_row intro: key_of_cong)
  moreover have "book_ordered env db' ty action is" using book_kept[OF book_tl[OF assms(1)] assms(2)] .
  ultimately show ?thesis using assms(4-9) by (auto simp: book_ordered_def)
qed

lemma good_row_views:
  assumes "rows_of_order i db = [r]" "good_row env r"
  shows "view_of env db i = row_view r" "v_id (view_of env db i) = o_id r" "literal_view (view_of env db i)" "o_id r = i"
proof -
  show v: "view_of env db i = row_view r" using view_of_row[of i db r "[]"] assms by (simp add: good_row_def)
  show "v_id (view_of env db i) = o_id r" by (simp add: v row_view_def)
  show "literal_view (view_of env db i)" using assms(2) by (simp add: v row_view_def literal_view_def good_row_def)
  have "r \<in> set (rows_of_order i db)" using assms(1) by simp
  then show "o_id r = i" by (simp add: rows_of_order_def)
qed

lemma left_over_good:
  assumes "good_row env r" "n < o_quantity r" "0 \<le> n" "0 \<le> i" "i < 2 ^ 32"
  shows "good_row env (left_over (row_view r) ty action n i)"
  using assms by (auto simp: good_row_def row_fits_def left_over_def view_row_def row_view_def int64_def)

text \<open>A book after one transaction with its best order.\<close>

lemma book_after_trade:
  assumes "book_ordered env db ty action (i # is)" "\<forall>k \<in> set is. rows_of_order k db' = rows_of_order k db"
    "v = view_of env db i" "0 \<le> n"
    "\<And>j. i' = Some j \<Longrightarrow> n < v_quantity v \<and> j \<notin> set is \<and> 0 \<le> j \<and> j < 2 ^ 32 \<and>
       rows_of_order j db' = [left_over v ty action n j]"
  shows "book_ordered env db' ty action (put_back i' is)"
proof (cases i')
  case None
  then show ?thesis using book_kept[OF book_tl[OF assms(1)] assms(2)] by (simp add: put_back_def)
next
  case (Some j)
  obtain r where r: "rows_of_order i db = [r]" "good_row env r" using assms(1) by (auto simp: book_ordered_def)
  note v = good_row_views(1)[OF r]
  note f = assms(5)[OF Some, unfolded assms(3) v]
  have "good_row env (left_over (row_view r) ty action n j)"
    using left_over_good[OF r(2) _ assms(4)] f by (simp add: row_view_def)
  then show ?thesis
    using book_front[OF assms(1,2) r(1), of j "left_over (row_view r) ty action n j"] f Some
    by (simp add: put_back_def left_over_def view_row_def row_view_def)
qed

section \<open>The matching loop\<close>

text \<open>Both tests before a transaction read the two orders they return.\<close>

definition reads_views :: "sql_env \<Rightarrow> (database \<Rightarrow> int \<Rightarrow> int \<Rightarrow> (order_view \<times> order_view) option) \<Rightarrow> bool" where
  "reads_views env ready \<longleftrightarrow>
     (\<forall>db i j b s. ready db i j = Some (b, s) \<longrightarrow>
        b = view_of env db i \<and> s = view_of env db j \<and> 0 < v_quantity b \<and> 0 < v_quantity s)"

lemma fixing_reads: "reads_views env (fixing_pair env)"
  by (simp add: reads_views_def fixing_pair_def clients_and_quantities_def Let_def)

lemma continuous_reads: "reads_views env (continuous_pair env)"
  by (simp add: reads_views_def continuous_pair_def clients_and_quantities_def Let_def)

lemma tracks_mono: "tracks I m m' \<Longrightarrow> J \<subseteq> I \<Longrightarrow> tracks J m m'"
  by (auto simp: tracks_def keeps_rows_def)

lemma books_disjoint:
  "book_ordered env db ty a is \<Longrightarrow> book_ordered env db ty' a' is' \<Longrightarrow> (ty, a) \<noteq> (ty', a') \<Longrightarrow> set is \<inter> set is' = {}"
  by (fastforce simp: book_ordered_def)

text \<open>One round of the loop: the two books go on in order, and the rows of all the other orders stay.\<close>

lemma match_step:
  assumes "ready (mk_db m) i j = Some (b, s)" "trade_pair env action b s m = Some ((b', s'), m1)"
    "reads_views env ready" "plain_env env" "draws_ok (mk_draws m)"
    "book_ordered env (mk_db m) BUY action (i # bs)" "book_ordered env (mk_db m) SELL action (j # ss)"
    "I \<subseteq> order_ids (mk_db m)" "I \<inter> (set (i # bs) \<union> set (j # ss)) = {}"
  shows "tracks I m m1" "draws_ok (mk_draws m1)" "I \<subseteq> order_ids (mk_db m1)"
    "book_ordered env (mk_db m1) BUY action (put_back b' bs)" "book_ordered env (mk_db m1) SELL action (put_back s' ss)"
    "I \<inter> (set (put_back b' bs) \<union> set (put_back s' ss)) = {}"
    "\<forall>k \<in> set bs. rows_of_order k (mk_db m1) = rows_of_order k (mk_db m)"
    "\<forall>k \<in> set ss. rows_of_order k (mk_db m1) = rows_of_order k (mk_db m)"
    "\<And>k. b' = Some k \<Longrightarrow> rows_of_order k (mk_db m1) = [left_over b BUY action (min (v_quantity b) (v_quantity s)) k]"
    "\<And>k. s' = Some k \<Longrightarrow> rows_of_order k (mk_db m1) = [left_over s SELL action (min (v_quantity b) (v_quantity s)) k]"
proof -
  have v: "b = view_of env (mk_db m) i" "s = view_of env (mk_db m) j" "0 < v_quantity b" "0 < v_quantity s"
    using assms(3,1) by (simp_all add: reads_views_def)
  obtain rb where rb: "rows_of_order i (mk_db m) = [rb]" "good_row env rb" using assms(6) by (auto simp: book_ordered_def)
  obtain rs where rs: "rows_of_order j (mk_db m) = [rs]" "good_row env rs" using assms(7) by (auto simp: book_ordered_def)
  have ids: "v_id b = i" "v_id s = j" "literal_view b" "literal_view s"
    using good_row_views[OF rb] good_row_views[OF rs] v(1,2) by simp_all
  define K where "K = I \<union> set bs \<union> set ss"
  have dis: "set (i # bs) \<inter> set (j # ss) = {}" using books_disjoint[OF assms(6,7)] by simp
  have K: "K \<subseteq> order_ids (mk_db m)" "i \<notin> K" "j \<notin> K"
    using assms(8,9) dis book_ids[OF assms(6)] book_ids[OF assms(7)] assms(6,7) by (auto simp: K_def book_ordered_def)
  note tp = trade_pair_tracks[OF assms(2,4,5) K(1) _ _ ids(3,4), unfolded ids(1,2), OF K(2,3)]
  show kept: "\<forall>k \<in> set bs. rows_of_order k (mk_db m1) = rows_of_order k (mk_db m)"
    "\<forall>k \<in> set ss. rows_of_order k (mk_db m1) = rows_of_order k (mk_db m)"
    using tp(1) by (auto simp: tracks_def keeps_rows_def K_def)
  have n: "0 \<le> min (v_quantity b) (v_quantity s)" using v(3,4) by simp
  show "book_ordered env (mk_db m1) BUY action (put_back b' bs)"
    using book_after_trade[OF assms(6) kept(1) v(1) n] tp(2) by (auto simp: K_def)
  show "book_ordered env (mk_db m1) SELL action (put_back s' ss)"
    using book_after_trade[OF assms(7) kept(2) v(2) n] tp(3) by (auto simp: K_def)
  show t: "tracks I m m1" using tracks_mono[OF tp(1), of I] by (auto simp: K_def)
  show "I \<inter> (set (put_back b' bs) \<union> set (put_back s' ss)) = {}"
    using assms(9) tp(2,3) by (auto simp: put_back_def K_def split: option.splits)
  show "draws_ok (mk_draws m1)" "I \<subseteq> order_ids (mk_db m1)" using tracks_draws[OF t assms(5)] tracks_ids[OF t assms(8)] .
  show "\<And>k. b' = Some k \<Longrightarrow> rows_of_order k (mk_db m1) = [left_over b BUY action (min (v_quantity b) (v_quantity s)) k]"
    "\<And>k. s' = Some k \<Longrightarrow> rows_of_order k (mk_db m1) = [left_over s SELL action (min (v_quantity b) (v_quantity s)) k]"
    using tp(2,3) by blast+
qed

lemma match_loop_ordered:
  assumes "match_loop env ready action bs ss m = Some (bs', ss', m')" "reads_views env ready" "plain_env env"
    "draws_ok (mk_draws m)" "book_ordered env (mk_db m) BUY action bs" "book_ordered env (mk_db m) SELL action ss"
    "I \<subseteq> order_ids (mk_db m)" "I \<inter> (set bs \<union> set ss) = {}"
  shows "tracks I m m' \<and> book_ordered env (mk_db m') BUY action bs' \<and> book_ordered env (mk_db m') SELL action ss'"
  using assms
proof (induction env ready action bs ss m rule: match_loop.induct)
  case (3 env ready action i bs j ss m)
  show ?case
  proof (cases "ready (mk_db m) i j")
    case None
    then show ?thesis using 3(2,6,7) by (simp add: tracks_refl)
  next
    case (Some p)
    obtain b s where p: "p = (b, s)" by (cases p)
    obtain b' s' m1 where t: "trade_pair env action b s m = Some ((b', s'), m1)"
      and rest: "match_loop env ready action (put_back b' bs) (put_back s' ss) m1 = Some (bs', ss', m')"
      using 3(2) Some p by (auto split: option.splits)
    note st = match_step[of ready, OF Some[unfolded p] t 3(3-9)]
    have "tracks I m1 m' \<and> book_ordered env (mk_db m') BUY action bs' \<and> book_ordered env (mk_db m') SELL action ss'"
      using 3(1)[OF Some p[symmetric] t refl refl rest 3(3,4) st(2,4,5,3,6)] .
    then show ?thesis using st(1) tracks_trans by blast
  qed
qed (auto simp: tracks_refl)

section \<open>The market\<close>

definition books_in_order :: "sql_env \<Rightarrow> market \<Rightarrow> bool" where
  "books_in_order env m \<longleftrightarrow>
     keyed (mk_db m) \<and> draws_ok (mk_draws m) \<and> um_ok (mk_buys m) \<and> um_ok (mk_sells m) \<and>
     (\<forall>a is. map_of (mk_buys m) a = Some is \<longrightarrow> book_ordered env (mk_db m) BUY a is) \<and>
     (\<forall>a is. map_of (mk_sells m) a = Some is \<longrightarrow> book_ordered env (mk_db m) SELL a is)"

text \<open>The identifiers of every book but the two of one action.\<close>

definition other_ids :: "int \<Rightarrow> market \<Rightarrow> int set" where
  "other_ids action m =
     \<Union> {set is |a is. a \<noteq> action \<and> (map_of (mk_buys m) a = Some is \<or> map_of (mk_sells m) a = Some is)}"

lemma other_ids_facts:
  assumes "books_in_order env m"
  shows "other_ids action m \<subseteq> order_ids (mk_db m)"
    and "book_ordered env (mk_db m) ty action is \<Longrightarrow> other_ids action m \<inter> set is = {}"
proof -
  have b: "book_ordered env (mk_db m) BUY a is" if "map_of (mk_buys m) a = Some is" for a "is"
    using assms that by (simp add: books_in_order_def)
  have s: "book_ordered env (mk_db m) SELL a is" if "map_of (mk_sells m) a = Some is" for a "is"
    using assms that by (simp add: books_in_order_def)
  show "other_ids action m \<subseteq> order_ids (mk_db m)"
    unfolding other_ids_def using book_ids b s by fastforce
  show "other_ids action m \<inter> set is = {}" if "book_ordered env (mk_db m) ty action is"
    unfolding other_ids_def using books_disjoint[OF that] b s by fastforce
qed

text \<open>The two books of an action are exchanged after a step that left all the others alone.\<close>

lemma books_exchanged:
  assumes "books_in_order env m" "tracks (other_ids action m) m m'"
    "book_ordered env (mk_db m') BUY action bs" "book_ordered env (mk_db m') SELL action ss"
  shows "books_in_order env (m'\<lparr>mk_buys := AList.update action bs (mk_buys m'),
                               mk_sells := AList.update action ss (mk_sells m')\<rparr>)"
proof -
  have t: "keyed (mk_db m')" "draws_ok (mk_draws m')" "mk_buys m' = mk_buys m" "mk_sells m' = mk_sells m"
    and kept: "\<And>i. i \<in> other_ids action m \<Longrightarrow> rows_of_order i (mk_db m') = rows_of_order i (mk_db m)"
    using assms(1,2) by (auto simp: tracks_def keeps_rows_def books_in_order_def)
  have other: "book_ordered env (mk_db m') ty a is"
    if "a \<noteq> action" "map_of (mk_buys m) a = Some is \<or> map_of (mk_sells m) a = Some is"
      "book_ordered env (mk_db m) ty a is" for ty a "is"
  proof (rule book_kept[OF that(3)], rule ballI, rule kept)
    fix i assume "i \<in> set is"
    then show "i \<in> other_ids action m" unfolding other_ids_def using that(1,2) by blast
  qed
  show ?thesis
    using assms(1,3,4) t other by (auto simp: books_in_order_def distinct_update map_of_update split: if_splits)
qed

lemma continuous_in_order:
  assumes "books_in_order env m" "plain_env env" "process_continuous_trading env action m = Some m'"
  shows "books_in_order env m'"
proof (cases "\<exists>bs ss. map_of (mk_buys m) action = Some bs \<and> map_of (mk_sells m) action = Some ss \<and> bs \<noteq> [] \<and> ss \<noteq> []")
  case False
  then have "m' = m" using assms(3) by (auto simp: process_continuous_trading_def split: option.splits if_splits)
  then show ?thesis using assms(1) by simp
next
  case True
  then obtain bs ss where b: "map_of (mk_buys m) action = Some bs" "map_of (mk_sells m) action = Some ss" "bs \<noteq> []" "ss \<noteq> []"
    by blast
  obtain bs' ss' m1 where l: "match_loop env (continuous_pair env) action bs ss m = Some (bs', ss', m1)"
    "m' = m1\<lparr>mk_buys := AList.update action bs' (mk_buys m1), mk_sells := AList.update action ss' (mk_sells m1)\<rparr>"
    using assms(3) b by (auto simp: process_continuous_trading_def split: Option.bind_splits)
  have B: "book_ordered env (mk_db m) BUY action bs" "book_ordered env (mk_db m) SELL action ss" "draws_ok (mk_draws m)"
    using assms(1) b by (auto simp: books_in_order_def)
  note o = other_ids_facts[OF assms(1), where action = action]
  have "other_ids action m \<inter> (set bs \<union> set ss) = {}" using o(2)[OF B(1)] o(2)[OF B(2)] by blast
  then show ?thesis unfolding l(2)
    using match_loop_ordered[OF l(1) continuous_reads assms(2) B(3,1,2) o(1)] books_exchanged[OF assms(1)] by blast
qed

lemma fixing_in_order:
  assumes "books_in_order env m" "plain_env env" "fixing_loop env rest m = Some m'"
    "um_ok rest" "\<forall>(a, bs) \<in> set rest. map_of (mk_buys m) a = Some bs"
  shows "books_in_order env m'"
  using assms
proof (induction env rest m rule: fixing_loop.induct)
  case (2 env action bs rest m)
  have rest: "um_ok rest" "\<forall>(a, bs) \<in> set rest. map_of (mk_buys m) a = Some bs" "map_of (mk_buys m) action = Some bs"
    using 2(7,8) by auto
  show ?case
  proof (cases "\<exists>ss. map_of (mk_sells m) action = Some ss \<and> bs \<noteq> [] \<and> ss \<noteq> []")
    case False
    then have l: "fixing_loop env rest m = Some m'" using 2(6) by (auto split: option.splits if_splits)
    show ?thesis
    proof (cases "map_of (mk_sells m) action")
      case None
      then show ?thesis using 2(1)[OF None 2(4,5) l rest(1,2)] by simp
    next
      case (Some ss)
      then show ?thesis using 2(2)[OF Some _ 2(4,5) l rest(1,2)] False by blast
    qed
  next
    case True
    then obtain ss where ss: "map_of (mk_sells m) action = Some ss" "\<not> (bs = [] \<or> ss = [])" by blast
    obtain bs' ss' m1 where l: "match_loop env (fixing_pair env) action bs ss m = Some (bs', ss', m1)"
      "fixing_loop env rest (m1\<lparr>mk_buys := AList.update action bs' (mk_buys m1),
                               mk_sells := AList.update action ss' (mk_sells m1)\<rparr>) = Some m'"
      using 2(6) ss by (auto split: Option.bind_splits)
    have B: "book_ordered env (mk_db m) BUY action bs" "book_ordered env (mk_db m) SELL action ss" "draws_ok (mk_draws m)"
      using 2(4) rest(3) ss(1) by (auto simp: books_in_order_def)
    note o = other_ids_facts[OF 2(4), where action = action]
    have d: "other_ids action m \<inter> (set bs \<union> set ss) = {}" using o(2)[OF B(1)] o(2)[OF B(2)] by blast
    note ml = match_loop_ordered[OF l(1) fixing_reads 2(5) B(3,1,2) o(1) d]
    have inv: "books_in_order env (m1\<lparr>mk_buys := AList.update action bs' (mk_buys m1),
                               mk_sells := AList.update action ss' (mk_sells m1)\<rparr>)"
      using ml books_exchanged[OF 2(4)] by blast
    have r: "\<forall>(a, bs) \<in> set rest. map_of (AList.update action bs' (mk_buys m1)) a = Some bs"
    proof (rule ballI, clarify)
      fix a b assume e: "(a, b) \<in> set rest"
      then have "a \<noteq> action" using 2(7) by force
      moreover have "map_of (mk_buys m) a = Some b" using rest(2) e by auto
      ultimately show "map_of (AList.update action bs' (mk_buys m1)) a = Some b" using ml by (simp add: tracks_def)
    qed
    show ?thesis using 2(3)[OF ss l(1) refl refl inv 2(5) l(2) rest(1)] r by simp
  qed
qed simp

section \<open>A new order\<close>

lemma book_real_keys: "book_ordered env db ty action is \<Longrightarrow> key_of db ` set is \<subseteq> real_keys"
  by (auto simp: book_ordered_def real_keys_def good_row_def is_literal_def dest!: bspec key_of_row)

lemma book_placed:
  assumes "book_ordered env db ty action is" "rows_of_order i db = [r]" "i \<notin> set is"
    "o_status r = PENDING" "o_type r = ty" "o_action r = action" "good_row env r"
  shows "book_ordered env db ty action (place (\<lambda>a b. key_before ty (key_of db a) (key_of db b)) i is)"
proof -
  have "key_of db i \<in> real_keys"
    using assms(2,7) by (simp add: key_of_row real_keys_def good_row_def is_literal_def)
  then have k: "key_of db ` insert i (set is) \<subseteq> real_keys" using book_real_keys[OF assms(1)] by simp
  have o: "book_side.in_order ty (key_of db) is" using assms(1) by (simp add: book_ordered_def)
  note pl = book_side.place_in_order[OF o k]
  show ?thesis using pl assms by (auto simp: book_ordered_def)
qed

lemma priority_functions:
  "buy_order_priority db = (\<lambda>a b. key_before BUY (key_of db a) (key_of db b))"
  "sell_order_priority db = (\<lambda>a b. key_before SELL (key_of db a) (key_of db b))"
  by (intro ext, simp add: buy_priority_keys sell_priority_keys)+

lemma empty_book [simp]: "book_ordered env db ty action []"
  by (simp add: book_ordered_def book_side.in_order_def)

lemma accumulate_in_order:
  assumes "books_in_order env m" "good_row env r" "o_id r \<notin> order_ids (mk_db m)" "o_client r = cl"
  shows "books_in_order env (accumulate_order cl r m)"
proof (cases "client_exists cl (mk_db m)")
  case False
  then show ?thesis using assms(1) by (simp add: accumulate_order_def)
next
  case True
  define r' where "r' = r\<lparr>o_client := cl, o_status := PENDING\<rparr>"
  define db where "db = insert_order r' (mk_db m)"
  have r': "o_id r' = o_id r" "good_row env r'" "o_status r' = PENDING" "o_type r' = o_type r" "o_action r' = o_action r"
    using assms(2,4) by (auto simp: r'_def good_row_def row_fits_def)
  have lit: "is_literal (o_price r')" "is_literal (o_lower r')" "is_literal (o_upper r')"
    using r'(2) by (simp_all add: good_row_def)
  note ins = insert_fresh[of r' "mk_db m", unfolded r'(1), OF assms(3) lit, folded db_def]
  have kept: "rows_of_order i db = rows_of_order i (mk_db m)" if "i \<in> order_ids (mk_db m)" for i
    using ins(3) that assms(3) by metis
  have old: "book_ordered env db ty a is" if "book_ordered env (mk_db m) ty a is" for ty a "is"
    using book_kept[OF that] book_ids[OF that] kept by blast
  have new: "book_ordered env db (o_type r) (o_action r)
      (place (\<lambda>a b. key_before (o_type r) (key_of db a) (key_of db b)) (o_id r) is)"
    if "book_ordered env (mk_db m) (o_type r) (o_action r) is" for "is"
    using book_placed[OF old[OF that] ins(1) _ r'(3,4,5,2)] book_ids[OF that] assms(3) by blast
  have pend: "add_pending_order cl r (mk_db m) = db"
    by (simp add: order_statements db_def r'_def)
  have book: "book_ordered env (mk_db m) BUY a (um_get [] (mk_buys m) a)"
    "book_ordered env (mk_db m) SELL a (um_get [] (mk_sells m) a)" for a
    using assms(1) by (auto simp: um_get_def books_in_order_def split: option.splits)
  have f: "keyed db" "draws_ok (mk_draws m)" "um_ok (mk_buys m)" "um_ok (mk_sells m)"
    using assms(1) ins(2) by (auto simp: books_in_order_def)
  have all: "\<forall>a is. map_of (mk_buys m) a = Some is \<longrightarrow> book_ordered env db BUY a is"
    "\<forall>a is. map_of (mk_sells m) a = Some is \<longrightarrow> book_ordered env db SELL a is"
    using assms(1) old by (auto simp: books_in_order_def)
  show ?thesis
  proof (cases "o_type r")
    case BUY
    show ?thesis
      using f all new[unfolded BUY, OF book(1)] True
      by (auto simp: accumulate_order_def BUY pend priority_functions books_in_order_def map_of_modify on_db_def Let_def
          split: if_splits)
  next
    case SELL
    show ?thesis
      using f all new[unfolded SELL, OF book(2)] True
      by (auto simp: accumulate_order_def SELL pend priority_functions books_in_order_def map_of_modify on_db_def Let_def
          split: if_splits)
  qed
qed

end
