(* ===== verification/SqlProps.thy ===== *)
theory SqlProps
  imports SqlBooks
begin

text \<open>
  What the SQLite exchange guarantees and where it does not: its books stay in price-time order, and
  the ways in which a transaction, an order or a message is not what it should be.
\<close>

section \<open>A concrete environment\<close>

definition plain_clock :: local_clock where
  "plain_clock t = \<lparr>tm_year = 126, tm_mon = 2, tm_mday = 18, tm_hour = 10, tm_min = 0, tm_sec = t mod 60\<rparr>"

definition demo_env :: sql_env where
  "demo_env =
     \<lparr>sql_sum = foldl (+) 0, sql_real = show_double 17, fmt_real = show_double 17, local_time = plain_clock,
      encrypt = id, broken_update = (\<lambda>_ db. db), broken_query = (\<lambda>_ _. - 1), stray_int = (\<lambda>_. 0), stray_real = (\<lambda>_. 0)\<rparr>"

lemma quotes_layout:
  assumes "\<not> quotes ds"
  shows "\<not> quotes (layout p ds e)"
proof -
  have "\<not> quotes (strip_zeros (take n ds))" "\<not> quotes (strip_zeros (drop n ds))" for n
    using assms by (auto simp: quotes_def dest!: set_strip[THEN subsetD] dest: in_set_takeD in_set_dropD)
  then show ?thesis
    using assms
    by (auto simp: layout_def with_fraction_def show_exponent_def Let_def quotes_take split: if_splits)
       (auto simp: quotes_def dest!: set_strip[THEN subsetD] dest: in_set_takeD in_set_dropD)
qed

lemma plain_demo [simp]: "plain_env demo_env"
proof -
  have "\<not> quotes (show_double 17 x)" for x
    by (cases x) (auto simp: quotes_layout split: prod.split)
  then show ?thesis by (simp add: plain_env_def demo_env_def)
qed

lemma demo_reads [simp]: "rnd x = Fin x \<Longrightarrow> reads_back demo_env (Fin x)"
  unfolding reads_back_def demo_env_def using get_double_show by simp

text \<open>A market with the set-up the program makes without arguments, and a buy order for it.\<close>

definition demo_db :: database where
  "demo_db = init_default demo_env 36000000 46951 empty_database"

definition demo_market :: market where
  "demo_market = new_market demo_db (\<lambda>n. int n mod 1000) (\<lambda>n. int n)"

definition demo_order :: "int \<Rightarrow> int \<Rightarrow> rat \<Rightarrow> order_row" where
  "demo_order i n x =
     \<lparr>o_id = i, o_status = PENDING, o_date = 46951, o_daily = 36000000, o_client = 1, o_type = BUY, o_quantity = n,
      o_action = 1, o_trigger = LIMIT, o_price = Fin x, o_lower = Fin 1, o_upper = Fin 65535,
      o_exp_date = 65535, o_exp_daily = 0\<rparr>"

lemma demo_order_good:
  "0 \<le> n \<Longrightarrow> n < 1000 \<Longrightarrow> 0 \<le> i \<Longrightarrow> i < 1000 \<Longrightarrow> rnd x = Fin x \<Longrightarrow> good_row demo_env (demo_order i n x)"
  by (simp add: good_row_def row_fits_def demo_order_def int64_def is_literal_def)

lemma demo_market_ordered: "books_in_order demo_env demo_market"
proof -
  have "mk_db demo_market = demo_db" by (simp add: demo_market_def new_market_def)
  moreover have "orders demo_db = []" unfolding demo_db_def by code_simp
  moreover have "draws_ok (mk_draws demo_market)"
    unfolding draws_ok_def
  proof
    fix n
    have "int n mod 1000 < 1000" by simp
    then show "0 \<le> mk_draws demo_market n \<and> mk_draws demo_market n < 2 ^ 32 - 1"
      by (simp add: demo_market_def new_market_def)
  qed
  ultimately show ?thesis by (simp add: books_in_order_def keyed_def demo_market_def new_market_def)
qed

section \<open>The books\<close>

text \<open>C35. Every book stays in price-time order over pending orders of its side and action: a new order is
  placed by the binary search of \<open>std::lower_bound\<close>, and neither continuous matching nor the auction,
  which write the quantity left over back in place under a new identifier, disturbs the order of any
  book or the uniqueness of the identifiers.\<close>

theorem sql_books_stay_in_order:
  assumes "books_in_order env m" "plain_env env"
  shows "(\<forall>r. good_row env r \<longrightarrow> o_id r \<notin> order_ids (mk_db m) \<longrightarrow> books_in_order env (accumulate_order (o_client r) r m)) \<and>
    (\<forall>action m'. process_continuous_trading env action m = Some m' \<longrightarrow> books_in_order env m') \<and>
    (\<forall>m'. process_fixing env m = Some m' \<longrightarrow> books_in_order env m')"
proof (intro conjI allI impI)
  fix r assume "good_row env r" "o_id r \<notin> order_ids (mk_db m)"
  then show "books_in_order env (accumulate_order (o_client r) r m)" using accumulate_in_order[OF assms(1)] by blast
next
  fix action m' assume "process_continuous_trading env action m = Some m'"
  then show "books_in_order env m'" using continuous_in_order[OF assms] by blast
next
  fix m' assume p: "process_fixing env m = Some m'"
  have "um_ok (mk_buys m)" using assms(1) by (simp add: books_in_order_def)
  moreover from this have "\<forall>(a, bs) \<in> set (mk_buys m). map_of (mk_buys m) a = Some bs" by auto
  ultimately show "books_in_order env m'" using fixing_in_order[OF assms] p by (simp add: process_fixing_def)
qed

theorem sql_books_stay_in_order_witness:
  "books_in_order demo_env (accumulate_order 1 (demo_order 9 5 11) demo_market) \<and>
   mk_buys (accumulate_order 1 (demo_order 9 5 11) demo_market) = [(1, [9])]"
proof
  have "o_id (demo_order 9 5 11) \<notin> order_ids (mk_db demo_market)" by code_simp
  moreover have "o_client (demo_order 9 5 11) = 1" by (simp add: demo_order_def)
  moreover have "good_row demo_env (demo_order 9 5 11)" using demo_order_good[of 5 9 11] by simp
  ultimately show "books_in_order demo_env (accumulate_order 1 (demo_order 9 5 11) demo_market)"
    using sql_books_stay_in_order[OF demo_market_ordered plain_demo] by metis
  show "mk_buys (accumulate_order 1 (demo_order 9 5 11) demo_market) = [(1, [9])]" by code_simp
qed

lemma empty_order_blocks_the_book_facts:
  assumes "map_of (mk_buys m) action = Some (i # bs)" "rows_of_order i (mk_db m) = [r]" "row_fits env r"
    "o_quantity r \<le> 0"
  shows "process_continuous_trading env action m = Some m"
    and "fixing_loop env ((action, i # bs) # rest) m = fixing_loop env rest m"
    and "0 < get_current_price action (mk_db m) \<Longrightarrow> is_literal (get_current_price action (mk_db m)) \<Longrightarrow>
      0 \<le> available_balance env cl (mk_db m) \<Longrightarrow> action \<noteq> - 1 \<Longrightarrow>
      client_can_afford env cl 0 max_price action (mk_db m)"
proof -
  have q: "\<not> 0 < v_quantity (view_of env (mk_db m) i)"
    using view_of_row[of i "mk_db m" r "[]"] assms(2-4) by (simp add: row_view_def)
  then have none: "continuous_pair env (mk_db m) i j = None" "fixing_pair env (mk_db m) i j = None" for j
    by (simp_all add: continuous_pair_def fixing_pair_def clients_and_quantities_def Let_def)
  have upd: "m\<lparr>mk_buys := AList.update action (i # bs) (mk_buys m), mk_sells := AList.update action ss (mk_sells m)\<rparr> = m"
    if "map_of (mk_sells m) action = Some ss" for ss
    using that assms(1) by (simp add: update_triv)
  have loop: "match_loop env ready action (i # bs) ss m = Some (i # bs, ss, m)"
    if "ready \<in> {continuous_pair env, fixing_pair env}" for ready ss
    using none that by (cases ss) auto
  show "process_continuous_trading env action m = Some m"
    using assms(1) upd loop by (auto simp: process_continuous_trading_def split: option.splits)
  show "fixing_loop env ((action, i # bs) # rest) m = fixing_loop env rest m"
    using upd loop by (auto split: option.splits)
  assume c: "0 < get_current_price action (mk_db m)" "is_literal (get_current_price action (mk_db m))"
    "0 \<le> available_balance env cl (mk_db m)" "action \<noteq> - 1"
  then obtain x where x: "get_current_price action (mk_db m) = Fin x"
    by (cases "get_current_price action (mk_db m)") (auto simp: is_literal_def)
  have "dbl_of_int 0 * Fin x * safety_percentage = 0"
    by (simp add: dbl_of_int_def safety_percentage_def rnd_eleven_tenths zero_double_def)
  moreover have "\<not> get_current_price action (mk_db m) \<le> 0" using c(1) by (simp add: x zero_double_def)
  moreover have "\<not> (0::double) < 0" by (simp add: zero_double_def)
  moreover have "deq max_price max_price" by (simp add: deq_def max_price_def dbl_of_int_def)
  ultimately show "client_can_afford env cl 0 max_price action (mk_db m)"
    using c(3,4) x by (simp add: client_can_afford_def Let_def)
qed

text \<open>C38. An order for no shares stops its book. Nothing refuses a BUY for zero shares (its cost is zero),
  a MARKET one goes to the front, and from then on neither continuous matching nor the auction trades
  anything for that action: the loop leaves at the first pair whose quantity is not positive.\<close>

theorem empty_order_blocks_the_book:
  assumes "map_of (mk_buys m) action = Some (i # bs)" "rows_of_order i (mk_db m) = [r]" "row_fits env r"
    "o_quantity r \<le> 0"
  shows "process_continuous_trading env action m = Some m \<and>
    fixing_loop env ((action, i # bs) # rest) m = fixing_loop env rest m \<and>
    (0 < get_current_price action (mk_db m) \<longrightarrow> is_literal (get_current_price action (mk_db m)) \<longrightarrow>
      0 \<le> available_balance env cl (mk_db m) \<longrightarrow> action \<noteq> - 1 \<longrightarrow>
      client_can_afford env cl 0 max_price action (mk_db m))"
  using empty_order_blocks_the_book_facts[OF assms] by blast

definition blocked_market :: market where
  "blocked_market = (accumulate_order 1 (demo_order 9 0 11) demo_market)\<lparr>mk_sells := [(1, [8])]\<rparr>"

theorem empty_order_blocks_the_book_witness:
  "process_continuous_trading demo_env 1 blocked_market = Some blocked_market \<and>
   mk_buys blocked_market = [(1, [9])] \<and> mk_sells blocked_market = [(1, [8])] \<and>
   client_can_afford demo_env 2 0 max_price 1 (mk_db blocked_market)"
proof -
  have db: "get_current_price 1 (mk_db blocked_market) = Fin 10" "open_orders 2 (mk_db blocked_market) = []"
    "map cl_balance (clients_with 2 (mk_db blocked_market)) = [Fin 100]"
    unfolding blocked_market_def by code_simp+
  have "0 \<le> available_balance demo_env 2 (mk_db blocked_market)"
    using db(2,3) by (cases "clients_with 2 (mk_db blocked_market)")
      (simp_all add: available_balance_def reserved_def execute_SQL_query_double_def zero_double_def Fin_minus)
  moreover have "0 < get_current_price 1 (mk_db blocked_market)" "is_literal (get_current_price 1 (mk_db blocked_market))"
    by (simp_all add: db(1) zero_double_def is_literal_def)
  moreover have b: "mk_buys blocked_market = [(1, [9])]" "rows_of_order 9 (mk_db blocked_market) = [demo_order 9 0 11]"
    "mk_sells blocked_market = [(1, [8])]"
    unfolding blocked_market_def by code_simp+
  moreover have "row_fits demo_env (demo_order 9 0 11)" using demo_order_good[of 0 9 11] by (simp add: good_row_def)
  moreover have "o_quantity (demo_order 9 0 11) \<le> 0" by (simp add: demo_order_def)
  ultimately show ?thesis
    using empty_order_blocks_the_book[of blocked_market 1 9 "[]" "demo_order 9 0 11" demo_env "[]" 2] b by simp
qed

section \<open>Settlement\<close>

lemma own_reservation_blocks_settlement_facts:
  assumes "clients_with cl db = [c]" "open_orders cl db = []"
    and "o_id r \<notin> order_ids db" "is_literal (o_price r)" "is_literal (o_lower r)" "is_literal (o_upper r)"
    and "o_trigger r \<noteq> MARKET" "\<not> deq (o_price r) max_price"
  defines "cost \<equiv> dbl_of_int (o_quantity r) * o_price r"
  assumes "sql_sum env [cost] = cost"
  shows "client_can_afford env cl (o_quantity r) (o_price r) (o_action r) db \<longleftrightarrow> \<not> cost < 0 \<and> cost \<le> column_double (cl_balance c - 0)"
    and "\<not> cost \<le> column_double (cl_balance c - cost) \<Longrightarrow>
      update_portfolio env cl BUY (o_action r) (o_quantity r) (o_price r) daily date (add_pending_order cl r db)
      = add_pending_order cl r db"
proof -
  show "client_can_afford env cl (o_quantity r) (o_price r) (o_action r) db \<longleftrightarrow> \<not> cost < 0 \<and> cost \<le> column_double (cl_balance c - 0)"
    using assms(1,2,8)
    by (simp add: client_can_afford_def cost_def available_balance_def reserved_def execute_SQL_query_double_def Let_def)
  define r' where "r' = r\<lparr>o_client := cl, o_status := PENDING\<rparr>"
  have db': "add_pending_order cl r db = db\<lparr>orders := insort_key o_id r' (orders db)\<rparr>"
    using assms(3-6) by (auto simp: add_pending_order_def insert_order_def r'_def)
  have "open_orders cl (add_pending_order cl r db) = [r']"
    unfolding db' open_orders_def using assms(2)
    by (simp, intro filter_insort_single) (auto simp: open_orders_def filter_empty_conv r'_def)
  moreover have "reservation (add_pending_order cl r db) r' = cost"
    using assms(7) by (simp add: reservation_def r'_def cost_def)
  moreover have "clients_with cl (add_pending_order cl r db) = [c]" using assms(1) by (simp add: db' clients_with_def)
  ultimately have av: "available_balance env cl (add_pending_order cl r db) = column_double (cl_balance c - cost)" if "cost \<noteq> NaN"
    using assms(10) that by (simp add: available_balance_def reserved_def execute_SQL_query_double_def)
  then show "update_portfolio env cl BUY (o_action r) (o_quantity r) (o_price r) daily date (add_pending_order cl r db)
      = add_pending_order cl r db" if "\<not> cost \<le> column_double (cl_balance c - cost)"
  proof (cases "cost = NaN")
    case True
    then show ?thesis using assms(8) by (simp add: update_portfolio_def client_can_afford_def cost_def Let_def)
  next
    case False
    then show ?thesis using that assms(8) av by (simp add: update_portfolio_def client_can_afford_def cost_def Let_def)
  qed
qed

text \<open>C37. A buyer's own order is held against it when it is executed. The funds of a limit order are
  checked once when it is placed and again when it trades, and the second check still counts the order
  itself among the reserved ones: an order for more than half of the balance is accepted but its
  execution neither charges the buyer nor gives it the shares. (The difference is read through
  \<open>column_double\<close>: it is the plain difference unless that is NaN.)\<close>

theorem own_reservation_blocks_settlement:
  assumes "clients_with cl db = [c]" "open_orders cl db = []"
    and "o_id r \<notin> order_ids db" "is_literal (o_price r)" "is_literal (o_lower r)" "is_literal (o_upper r)"
    and "o_trigger r \<noteq> MARKET" "\<not> deq (o_price r) max_price"
  defines "cost \<equiv> dbl_of_int (o_quantity r) * o_price r"
  assumes "sql_sum env [cost] = cost"
  shows "(client_can_afford env cl (o_quantity r) (o_price r) (o_action r) db \<longleftrightarrow> \<not> cost < 0 \<and> cost \<le> column_double (cl_balance c - 0)) \<and>
    (\<not> cost \<le> column_double (cl_balance c - cost) \<longrightarrow>
      update_portfolio env cl BUY (o_action r) (o_quantity r) (o_price r) daily date (add_pending_order cl r db)
      = add_pending_order cl r db)"
  using own_reservation_blocks_settlement_facts[OF assms(1-8) assms(10)[unfolded cost_def]] unfolding cost_def by blast

lemma demo_client: "clients_with 1 demo_db = [\<lparr>cl_id = 1, cl_name = ''Client1'', cl_password = ''123'', cl_balance = Fin 1000\<rparr>]"
  "open_orders 1 demo_db = []" "order_ids demo_db = {}"
  unfolding demo_db_def by code_simp+

text \<open>Sixty shares at 10 with a balance of 1000.\<close>

theorem own_reservation_blocks_settlement_witness:
  "client_can_afford demo_env 1 60 (Fin 10) 1 demo_db \<and>
   update_portfolio demo_env 1 BUY 1 60 (Fin 10) 36000001 46951 (add_pending_order 1 (demo_order 9 60 10) demo_db)
     = add_pending_order 1 (demo_order 9 60 10) demo_db"
proof -
  define r where "r = demo_order 9 60 10"
  have r: "o_quantity r = 60" "o_price r = Fin 10" "o_action r = 1" "o_trigger r \<noteq> MARKET" "o_lower r = Fin 1"
    "o_upper r = Fin 65535" "o_id r = 9"
    by (simp_all add: r_def demo_order_def)
  have cost: "dbl_of_int (o_quantity r) * o_price r = Fin 600" by (simp add: r dbl_of_int_def)
  have sum: "sql_sum demo_env [Fin 600] = Fin 600" by (simp add: demo_env_def zero_double_def)
  have lit: "is_literal (o_price r)" "is_literal (o_lower r)" "is_literal (o_upper r)" "\<not> deq (o_price r) max_price"
    by (simp_all add: r is_literal_def deq_def max_price_def dbl_of_int_def max_number_def)
  have fresh: "o_id r \<notin> order_ids demo_db" using demo_client(3) by simp
  note t' = own_reservation_blocks_settlement[OF demo_client(1,2) fresh lit(1-3) r(4) lit(4), of demo_env, unfolded cost, OF sum]
  note t = t'[THEN conjunct1] t'[THEN conjunct2, rule_format]
  have "client_can_afford demo_env 1 (o_quantity r) (o_price r) (o_action r) demo_db"
    unfolding t(1) by (simp add: zero_double_def Fin_minus)
  moreover have "\<not> Fin 600 \<le> Fin 1000 - Fin 600" by (simp add: Fin_minus)
  ultimately show ?thesis using t(2)[of 36000001 46951] by (simp add: r r_def[symmetric])
qed

text \<open>C40. An order with a validity date never expires by it. The date of the message is packed with the
  year as written and months from one, the current date with years since 1900 and months from zero:
  whatever the day, the order's number is larger, for eighteen centuries.\<close>

theorem validity_dates_never_expire:
  assumes "calendar (lt (t div 1000))" "tm_year (lt (t div 1000)) < 999"
    and "int_at 0 4 s = Some y" "int_at 5 2 s = Some mo" "int_at 8 2 s = Some d" "1000 \<le> y" "0 \<le> mo" "0 \<le> d"
    and "get_date_id_from_string s = Some (o_exp_date r)"
  shows "\<not> has_expired (get_date_time lt t) (get_daily_time lt t) r"
proof -
  have exp: "o_exp_date r = d + 31 * (mo + 12 * y)"
    using assms(3-5,9) by (simp add: get_date_id_from_string_def time_units)
  have "get_date_time lt t = tm_mday (lt (t div 1000)) + 31 * (tm_mon (lt (t div 1000)) + 12 * tm_year (lt (t div 1000)))"
    by (simp add: get_date_time_def time_units Let_def)
  then have "get_date_time lt t < o_exp_date r" using assms(1,2,6-8) by (simp add: calendar_def exp)
  then show ?thesis by (simp add: has_expired_def)
qed

text \<open>Today is the 18th of March 2026 and the order says so: it does not expire on any later day either.\<close>

theorem validity_dates_never_expire_witness:
  "\<not> has_expired (get_date_time plain_clock 1900000000000) (get_daily_time plain_clock 1900000000000)
       ((demo_order 9 5 11)\<lparr>o_exp_date := 753783\<rparr>)"
proof -
  have p: "int_at 0 4 ''2026-03-18'' = Some 2026" "int_at 5 2 ''2026-03-18'' = Some 3" "int_at 8 2 ''2026-03-18'' = Some 18"
    "get_date_id_from_string ''2026-03-18'' = Some 753783"
    by code_simp+
  have "calendar (plain_clock 1900000000)" "tm_year (plain_clock 1900000000) < 999"
    by (simp_all add: calendar_def plain_clock_def)
  then show ?thesis
    using validity_dates_never_expire[of plain_clock 1900000000000 "''2026-03-18''" 2026 3 18 "(demo_order 9 5 11)\<lparr>o_exp_date := 753783\<rparr>"] p
    by simp
qed

section \<open>Shares\<close>

definition shares_of :: "int \<Rightarrow> database \<Rightarrow> int" where
  "shares_of action db = sum_list (map h_quantity (filter (\<lambda>h. h_action h = action) (client_portfolio db)))"

definition holdings_ok :: "database \<Rightarrow> bool" where
  "holdings_ok db \<longleftrightarrow>
     distinct (map (\<lambda>h. (h_client h, h_action h)) (client_portfolio db)) \<and>
     (\<forall>h \<in> set (client_portfolio db). 0 \<le> h_quantity h)"

lemma portfolio_of_statements [simp]:
  "client_portfolio (set_balance c f db) = client_portfolio db"
  "client_portfolio (client_deposit c x db) = client_portfolio db"
  "client_portfolio (client_withdraw c x db) = client_portfolio db"
  "client_portfolio (insert_price p db) = client_portfolio db"
  "client_portfolio (record_price a x d t db) = client_portfolio db"
  "client_portfolio (insert_order r db) = client_portfolio db"
  "client_portfolio (delete_orders P db) = client_portfolio db"
  "client_portfolio (insert_message w db) = client_portfolio db"
  by (simp_all add: set_balance_def client_deposit_def client_withdraw_def insert_price_def record_price_def
      insert_order_def delete_orders_def insert_message_def Let_def)

lemma change_holding_shares:
  assumes "distinct (map (\<lambda>h. (h_client h, h_action h)) hs)" "h \<in> set hs" "h_client h = i" "h_action h = action"
  shows "sum_list (map h_quantity (filter (\<lambda>h. h_action h = action)
      (map (\<lambda>h. if h_client h = i \<and> h_action h = action then h\<lparr>h_quantity := f (h_quantity h)\<rparr> else h) hs)))
    = sum_list (map h_quantity (filter (\<lambda>h. h_action h = action) hs)) + f (h_quantity h) - h_quantity h"
  using assms
proof (induction hs)
  case (Cons x hs)
  show ?case
  proof (cases "x = h")
    case True
    then have "\<forall>g \<in> set hs. \<not> (h_client g = i \<and> h_action g = action)" using Cons.prems by (auto simp: image_iff)
    then have "map (\<lambda>h. if h_client h = i \<and> h_action h = action then h\<lparr>h_quantity := f (h_quantity h)\<rparr> else h) hs = hs"
      by (intro map_idI) auto
    then show ?thesis using True Cons.prems by simp
  next
    case False
    then have "h \<in> set hs" "\<not> (h_client x = i \<and> h_action x = action)" using Cons.prems by (auto simp: image_iff)
    then show ?thesis using Cons by auto
  qed
qed simp

lemma to_int32_le: "0 \<le> q \<Longrightarrow> to_int32 q \<le> q"
proof -
  assume "0 \<le> q"
  then have "(q + 2 ^ 31) mod 2 ^ 32 \<le> q + 2 ^ 31" by (intro zmod_le_nonneg_dividend) simp
  then show ?thesis by (simp add: to_int32_def)
qed

definition action_id :: "int \<Rightarrow> bool" where
  "action_id action \<longleftrightarrow> - (2 ^ 31) \<le> action \<and> action < 2 ^ 31 \<and> action \<noteq> - 1"

lemma in_portfolio:
  assumes "action_id action"
  shows "is_action_in_portfolio i action db \<longleftrightarrow> holdings_of i action db \<noteq> []"
proof (cases "holdings_of i action db")
  case (Cons h hs)
  then have "h_action h = action" by (auto simp: holdings_of_def filter_eq_Cons_iff)
  then show ?thesis using Cons assms by (simp add: is_action_in_portfolio_def execute_SQL_query_ID_def to_int32_id action_id_def)
qed (use assms in \<open>simp add: is_action_in_portfolio_def execute_SQL_query_ID_def action_id_def\<close>)

lemma holding_found:
  assumes "holdings_of i action db = h # hs"
  shows "h \<in> set (client_portfolio db)" "h_client h = i" "h_action h = action"
  using assms by (auto simp: holdings_of_def filter_eq_Cons_iff)

lemma add_action_shares:
  assumes "holdings_ok db" "action_id action"
  shows "shares_of action (client_add_action i action n pr daily date db) = shares_of action db + n"
proof (cases "holdings_of i action db")
  case Nil
  then have "\<forall>h \<in> set (client_portfolio db). \<not> (h_client h = i \<and> h_action h = action)"
    by (simp add: holdings_of_def filter_empty_conv)
  then show ?thesis using in_portfolio[OF assms(2)] Nil
    by (auto simp: client_add_action_def insert_holding_def shares_of_def image_iff)
next
  case (Cons h hs)
  then show ?thesis
    using change_holding_shares[of "client_portfolio db" h i action "\<lambda>q. q + n"] assms(1) holding_found[OF Cons]
      in_portfolio[OF assms(2)]
    by (simp add: client_add_action_def change_holding_def shares_of_def holdings_ok_def)
qed

lemma change_holding_keys:
  "map (\<lambda>h. (h_client h, h_action h)) (client_portfolio (change_holding i a f db)) =
   map (\<lambda>h. (h_client h, h_action h)) (client_portfolio db)"
  by (simp add: change_holding_def)

lemma add_action_holdings:
  assumes "holdings_ok db" "0 \<le> n"
  shows "holdings_ok (client_add_action i action n pr daily date db)"
proof (cases "is_action_in_portfolio i action db")
  case True
  have "\<forall>h \<in> set (client_portfolio (change_holding i action (\<lambda>q. q + n) db)). 0 \<le> h_quantity h"
    using assms by (auto simp: change_holding_def holdings_ok_def)
  then show ?thesis using assms(1) True change_holding_keys[of i action "\<lambda>q. q + n" db]
    by (simp add: holdings_ok_def client_add_action_def)
next
  case False
  then show ?thesis using assms by (auto simp: holdings_ok_def client_add_action_def insert_holding_def)
qed

lemma remove_action_shares:
  assumes "holdings_ok db" "action_id action" "client_has_shares i action n db"
  shows "shares_of action (client_remove_action i action n pr daily date db) = shares_of action db - n"
proof (cases "holdings_of i action db")
  case Nil
  then show ?thesis using assms(3) by (simp add: client_has_shares_def execute_SQL_query_int_def)
next
  case (Cons h hs)
  note f = holding_found[OF Cons]
  have "0 \<le> h_quantity h" using assms(1) f(1) by (simp add: holdings_ok_def)
  moreover have "n \<le> to_int32 (h_quantity h)"
    using assms(3) Cons by (simp add: client_has_shares_def execute_SQL_query_int_def)
  ultimately have "max (h_quantity h - n) 0 = h_quantity h - n" using to_int32_le[of "h_quantity h"] by (intro max_absorb1) linarith
  then show ?thesis
    using change_holding_shares[of "client_portfolio db" h i action "\<lambda>q. max (q - n) 0"] assms(1) f in_portfolio[OF assms(2)] Cons
    by (simp add: client_remove_action_def change_holding_def shares_of_def holdings_ok_def)
qed

text \<open>The rest of a transaction does not touch the portfolios, and records both orders as executed.\<close>

lemma portfolio_after:
  "market_log env c w ty text' t m = Some m' \<Longrightarrow> \<not> quotes text' \<Longrightarrow>
    client_portfolio (mk_db m') = client_portfolio (mk_db m)"
  "complete v side' action n pr date daily m = Some m' \<Longrightarrow> client_portfolio (mk_db m') = client_portfolio (mk_db m)"
  "reopen env v side' action n m = Some (i, m') \<Longrightarrow> client_portfolio (mk_db m') = client_portfolio (mk_db m)"
  "client_portfolio (mk_db (announced env action b s n pr t m)) = client_portfolio (mk_db m)"
proof -
  have ids: "mk_db m1 = mk_db m" if "market_order_id m = Some (i, m1)" for i m1
    using that by (auto simp: market_order_id_def split: Option.bind_splits)
  show "market_log env c w ty text' t m = Some m' \<Longrightarrow> \<not> quotes text' \<Longrightarrow>
      client_portfolio (mk_db m') = client_portfolio (mk_db m)"
    by (auto simp: market_log_def market_message_id_def on_db_def log_message_def split: Option.bind_splits)
  show "complete v side' action n pr date daily m = Some m' \<Longrightarrow> client_portfolio (mk_db m') = client_portfolio (mk_db m)"
    using ids by (auto simp: complete_def on_db_def order_statements split: Option.bind_splits)
  show "reopen env v side' action n m = Some (i, m') \<Longrightarrow> client_portfolio (mk_db m') = client_portfolio (mk_db m)"
    using ids by (auto simp: reopen_def on_db_def order_statements split: Option.bind_splits if_splits)
  show "client_portfolio (mk_db (announced env action b s n pr t m)) = client_portfolio (mk_db m)"
    by (simp add: announced_def on_db_def remove_pending_order_def notify_def)
qed

lemma complete_row:
  assumes "complete v ty action n pr date daily m = Some m'" "draws_ok (mk_draws m)" "literal_view v" "is_literal pr"
  obtains i where "rows_of_order i (mk_db m') = [(view_row v i ty action n pr date daily)\<lparr>o_status := COMPLETED\<rparr>]"
proof -
  obtain i m1 where d: "market_order_id m = Some (i, m1)"
    "m' = on_db (add_completed_order (v_client v) (view_row v i ty action n pr date daily)) m1"
    using assms(1) by (auto simp: complete_def split: Option.bind_splits)
  note f = market_order_id_fresh[OF d(1) assms(2)]
  define r where "r = (view_row v i ty action n pr date daily)\<lparr>o_status := COMPLETED\<rparr>"
  have r: "o_id r = i" "is_literal (o_price r)" "is_literal (o_lower r)" "is_literal (o_upper r)"
    "(view_row v i ty action n pr date daily)\<lparr>o_client := v_client v, o_status := COMPLETED\<rparr> = r"
    using assms(3,4) by (simp_all add: r_def view_row_def literal_view_def)
  have "mk_db m' = insert_order r (mk_db m)" using d(2) f(4) r(5) by (simp add: on_db_def order_statements)
  then show ?thesis using insert_fresh(1)[of r "mk_db m"] r f(1) that by (simp add: r_def)
qed

lemma settled_shares:
  fixes env
  assumes "holdings_ok (mk_db m)" "action_id action" "0 < min (v_quantity b) (v_quantity s)"
  defines "n \<equiv> min (v_quantity b) (v_quantity s)" and "pr \<equiv> trade_price action b s m" and "t \<equiv> mk_clock m (mk_reads m)"
  defines "db1 \<equiv> update_portfolio env (v_client b) BUY action n pr (get_daily_time (local_time env) t)
                    (get_date_time (local_time env) t) (mk_db m)"
  shows "shares_of action (mk_db (settled env action b s m)) = shares_of action (mk_db m)
     + (if client_can_afford env (v_client b) n pr action (mk_db m) then n else 0)
     - (if client_has_shares (v_client s) action n db1 then n else 0)"
proof -
  have ok: "holdings_ok db \<Longrightarrow> holdings_ok (client_withdraw c x db)" "holdings_ok db \<Longrightarrow> holdings_ok (client_deposit c x db)"
    "shares_of a (client_withdraw c x db) = shares_of a db" "shares_of a (client_deposit c x db) = shares_of a db"
    "holdings_of c a (client_withdraw c' x db) = holdings_of c a db" "holdings_of c a (client_deposit c' x db) = holdings_of c a db"
    for c c' a x db
    by (simp_all add: holdings_ok_def shares_of_def holdings_of_def)
  have n: "0 \<le> n" using assms(3) by (simp add: n_def)
  have db1: "holdings_ok db1" "shares_of action db1 = shares_of action (mk_db m) +
      (if client_can_afford env (v_client b) n pr action (mk_db m) then n else 0)"
    using assms(1,2) n add_action_holdings add_action_shares ok
    by (simp_all add: db1_def update_portfolio_def)
  have s2: "client_has_shares c action n (client_deposit c' x db) = client_has_shares c action n db" for c c' x db
    by (simp add: client_has_shares_def ok)
  have "mk_db (settled env action b s m) = update_portfolio env (v_client s) SELL action n pr
      (get_daily_time (local_time env) t) (get_date_time (local_time env) t) db1"
    by (simp add: settled_def Let_def on_db_def db1_def n_def pr_def t_def)
  then show ?thesis using remove_action_shares[OF ok(2)[OF db1(1)] assms(2)] db1(2) s2 ok(4)
    by (simp add: update_portfolio_def)
qed

lemma sql_trade_shares_facts:
  assumes "trade_pair env action b s m = Some (rest, m')" "plain_env env" "draws_ok (mk_draws m)"
    and "literal_view b" "literal_view s" "is_literal (trade_price action b s m)"
    and "holdings_ok (mk_db m)" "action_id action" "0 < v_quantity b" "0 < v_quantity s"
  defines "n \<equiv> min (v_quantity b) (v_quantity s)" and "pr \<equiv> trade_price action b s m" and "t \<equiv> mk_clock m (mk_reads m)"
  defines "db1 \<equiv> update_portfolio env (v_client b) BUY action n pr (get_daily_time (local_time env) t)
                    (get_date_time (local_time env) t) (mk_db m)"
  defines "bought \<equiv> client_can_afford env (v_client b) n pr action (mk_db m)"
    and "sold \<equiv> client_has_shares (v_client s) action n db1"
  shows "shares_of action (mk_db m') = shares_of action (mk_db m) + (if bought then n else 0) - (if sold then n else 0)"
    and "shares_of action (mk_db m') = shares_of action (mk_db m) \<longleftrightarrow> bought = sold"
    and "\<exists>i j rb rs. rows_of_order i (mk_db m') = [rb] \<and> rows_of_order j (mk_db m') = [rs] \<and>
      o_status rb = COMPLETED \<and> o_client rb = v_client b \<and> o_type rb = BUY \<and> o_action rb = action \<and> o_quantity rb = n \<and>
      o_status rs = COMPLETED \<and> o_client rs = v_client s \<and> o_type rs = SELL \<and> o_action rs = action \<and> o_quantity rs = n"
proof -
  obtain b' s' where rest: "rest = (b', s')" by (cases rest)
  obtain m4 m7 m8 m9 where st:
    "market_log env 0 SERVER_MESSAGE TRANSACTION (transaction_text env n action pr (v_client b) (v_client s) t) t
       (settled env action b s m) = Some m4"
    "complete b BUY action n pr (get_date_time (local_time env) t) (get_daily_time (local_time env) t)
       (announced env action b s n pr t m4) = Some m7"
    "complete s SELL action n pr (get_date_time (local_time env) t) (get_daily_time (local_time env) t) m7 = Some m8"
    "reopen env b BUY action n m8 = Some (b', m9)" "reopen env s SELL action n m9 = Some (s', m')"
    unfolding n_def pr_def t_def using assms(1)[unfolded rest] by (rule trade_pair_steps)
  note q = quotes_transaction[OF assms(2), of n action pr "v_client b" "v_client s" t]
  have "client_portfolio (mk_db m') = client_portfolio (mk_db (settled env action b s m))"
    using portfolio_after(1)[OF st(1) q] portfolio_after(2)[OF st(2)] portfolio_after(2)[OF st(3)]
      portfolio_after(3)[OF st(4)] portfolio_after(3)[OF st(5)] by (simp add: portfolio_after(4))
  then have "shares_of action (mk_db m') = shares_of action (mk_db (settled env action b s m))" by (simp add: shares_of_def)
  moreover have n: "0 < n" using assms(9,10) by (simp add: n_def)
  ultimately show eq: "shares_of action (mk_db m') = shares_of action (mk_db m) + (if bought then n else 0) - (if sold then n else 0)"
    using settled_shares[OF assms(7,8) n[unfolded n_def]] by (simp add: bought_def sold_def db1_def n_def pr_def t_def)
  show "shares_of action (mk_db m') = shares_of action (mk_db m) \<longleftrightarrow> bought = sold" unfolding eq using n by auto
  have t6: "tracks {} m (announced env action b s n pr t m4)"
    by (rule tracks_trans[OF tracks_trans[OF settled_tracks tracks_log[OF st(1) q]] announced_tracks]) simp_all
  note d6 = tracks_draws[OF t6 assms(3)]
  obtain i where i: "rows_of_order i (mk_db m7) = [(view_row b i BUY action n pr (get_date_time (local_time env) t)
      (get_daily_time (local_time env) t))\<lparr>o_status := COMPLETED\<rparr>]"
    using complete_row[OF st(2) d6 assms(4)] assms(6) by (auto simp: pr_def)
  have d7: "draws_ok (mk_draws m7)" by (rule tracks_draws[OF complete_tracks[OF st(2) d6, of "{}"] d6]) simp
  obtain j where j: "rows_of_order j (mk_db m8) = [(view_row s j SELL action n pr (get_date_time (local_time env) t)
      (get_daily_time (local_time env) t))\<lparr>o_status := COMPLETED\<rparr>]"
    using complete_row[OF st(3) d7 assms(5)] assms(6) by (auto simp: pr_def)
  have t8: "tracks {i} m7 m8" using complete_tracks[OF st(3) d7] i rows_nonempty[of i "mk_db m7"] by simp
  note d8 = tracks_draws[OF t8 d7]
  have i8: "rows_of_order i (mk_db m8) = rows_of_order i (mk_db m7)" using t8 by (simp add: tracks_def keeps_rows_def)
  have t9: "tracks {i, j} m8 m9" using reopen_tracks(1)[OF st(4) d8 _ assms(4)] i i8 j rows_nonempty by simp
  have t10: "tracks {i, j} m9 m'"
    using reopen_tracks(1)[OF st(5) tracks_draws[OF t9 d8] tracks_ids[OF t9] assms(5)] i i8 j rows_nonempty by simp
  have "rows_of_order i (mk_db m') = rows_of_order i (mk_db m7)" "rows_of_order j (mk_db m') = rows_of_order j (mk_db m8)"
    using tracks_trans[OF t9 t10] i8 by (simp_all add: tracks_def keeps_rows_def)
  then show "\<exists>i j rb rs. rows_of_order i (mk_db m') = [rb] \<and> rows_of_order j (mk_db m') = [rs] \<and>
      o_status rb = COMPLETED \<and> o_client rb = v_client b \<and> o_type rb = BUY \<and> o_action rb = action \<and> o_quantity rb = n \<and>
      o_status rs = COMPLETED \<and> o_client rs = v_client s \<and> o_type rs = SELL \<and> o_action rs = action \<and> o_quantity rs = n"
    using i j by (intro exI[of _ i] exI[of _ j]) (simp add: view_row_def)
qed

text \<open>C36. What a transaction does to the shares. The two legs are settled separately and each may be refused,
  the buyer's for its balance and the seller's for its holding, but the trade stands: both orders are
  recorded as executed, and the shares of the action grow or shrink by the traded quantity when exactly
  one leg is refused. They are conserved exactly when both legs are settled or neither is.\<close>

theorem sql_trade_shares:
  assumes "trade_pair env action b s m = Some (rest, m')" "plain_env env" "draws_ok (mk_draws m)"
    and "literal_view b" "literal_view s" "is_literal (trade_price action b s m)"
    and "holdings_ok (mk_db m)" "action_id action" "0 < v_quantity b" "0 < v_quantity s"
  defines "n \<equiv> min (v_quantity b) (v_quantity s)" and "pr \<equiv> trade_price action b s m" and "t \<equiv> mk_clock m (mk_reads m)"
  defines "db1 \<equiv> update_portfolio env (v_client b) BUY action n pr (get_daily_time (local_time env) t)
                    (get_date_time (local_time env) t) (mk_db m)"
  defines "bought \<equiv> client_can_afford env (v_client b) n pr action (mk_db m)"
    and "sold \<equiv> client_has_shares (v_client s) action n db1"
  shows "shares_of action (mk_db m') = shares_of action (mk_db m) + (if bought then n else 0) - (if sold then n else 0) \<and>
    (shares_of action (mk_db m') = shares_of action (mk_db m) \<longleftrightarrow> bought = sold) \<and>
    (\<exists>i j rb rs. rows_of_order i (mk_db m') = [rb] \<and> rows_of_order j (mk_db m') = [rs] \<and>
      o_status rb = COMPLETED \<and> o_client rb = v_client b \<and> o_type rb = BUY \<and> o_action rb = action \<and> o_quantity rb = n \<and>
      o_status rs = COMPLETED \<and> o_client rs = v_client s \<and> o_type rs = SELL \<and> o_action rs = action \<and> o_quantity rs = n)"
  using sql_trade_shares_facts[OF assms(1-10)] unfolding n_def pr_def t_def db1_def bought_def sold_def by blast

lemma messages_of_statements [simp]:
  "messages (client_deposit c x db) = messages db"
  "messages (client_withdraw c x db) = messages db"
  "messages (change_holding c a g db) = messages db"
  "messages (record_price a x d t db) = messages db"
  "messages (insert_holding h db) = messages db"
  "messages (client_add_action c a n x d t db) = messages db"
  "messages (client_remove_action c a n x d t db) = messages db"
  "messages (update_portfolio env c ty a n x d t db) = messages db"
  by (simp_all add: set_balance_def client_deposit_def client_withdraw_def change_holding_def insert_price_def
      record_price_def insert_holding_def client_add_action_def client_remove_action_def update_portfolio_def
      Let_def split: order_type.split)

text \<open>A transaction of two whole orders returns when the next draws are new.\<close>

lemma log_returns:
  assumes "mk_draws m (mk_drawn m) \<notin> m_id ` set (messages (mk_db m))" "\<not> quotes content"
  obtains m' where "market_log env c w ty content t m = Some m'" "orders (mk_db m') = orders (mk_db m)"
    "mk_draws m' = mk_draws m" "mk_drawn m' = Suc (mk_drawn m)"
proof -
  have "filter (\<lambda>i. i = mk_draws m (mk_drawn m)) (map m_id (messages (mk_db m))) = []"
    using assms(1) by (auto simp: filter_empty_conv) (metis imageI)
  then show ?thesis using that assms(2)
    by (simp add: market_log_def market_message_id_def get_new_message_id_def execute_SQL_query_ID_def
        draw_until.simps on_db_def)
qed

lemma inserted_ids: "order_ids (insert_order r db) \<subseteq> insert (o_id r) (order_ids db)"
  by (auto simp: insert_order_def set_insort_key)

lemma complete_returns:
  assumes "mk_draws m (mk_drawn m) \<notin> order_ids (mk_db m)"
  obtains m' where "complete v ty action n pr date daily m = Some m'"
    "order_ids (mk_db m') \<subseteq> insert (mk_draws m (mk_drawn m)) (order_ids (mk_db m))"
    "mk_draws m' = mk_draws m" "mk_drawn m' = Suc (mk_drawn m)"
proof -
  have "filter (\<lambda>i. i = mk_draws m (mk_drawn m)) (map o_id (orders (mk_db m))) = []"
    using assms(1) by (auto simp: filter_empty_conv) (metis imageI)
  then have "complete v ty action n pr date daily m =
      Some (on_db (add_completed_order (v_client v) (view_row v (mk_draws m (mk_drawn m)) ty action n pr date daily))
        (m\<lparr>mk_drawn := Suc (mk_drawn m)\<rparr>))"
    by (simp add: complete_def market_order_id_def get_new_order_id_def execute_SQL_query_ID_def draw_until.simps)
  then show ?thesis using that inserted_ids
    by (simp add: on_db_def order_statements view_row_def) (metis inserted_ids order_row.select_convs(1))
qed

lemma trade_pair_returns:
  assumes "v_quantity b = v_quantity s" "plain_env env"
    and "mk_draws m (mk_drawn m) \<notin> m_id ` set (messages (mk_db m))"
    and "mk_draws m (Suc (mk_drawn m)) \<notin> order_ids (mk_db m)"
    and "mk_draws m (Suc (Suc (mk_drawn m))) \<notin> insert (mk_draws m (Suc (mk_drawn m))) (order_ids (mk_db m))"
  obtains m' where "trade_pair env action b s m = Some ((None, None), m')"
proof -
  define n where "n = min (v_quantity b) (v_quantity s)"
  define t where "t = mk_clock m (mk_reads m)"
  define pr where "pr = trade_price action b s m"
  define m3 where "m3 = settled env action b s m"
  have m3: "orders (mk_db m3) = orders (mk_db m)" "messages (mk_db m3) = messages (mk_db m)" "mk_draws m3 = mk_draws m"
    "mk_drawn m3 = mk_drawn m"
    by (simp_all add: m3_def settled_def Let_def on_db_def)
  obtain m4 where m4: "market_log env 0 SERVER_MESSAGE TRANSACTION
      (transaction_text env n action pr (v_client b) (v_client s) t) t m3 = Some m4"
    "orders (mk_db m4) = orders (mk_db m)" "mk_draws m4 = mk_draws m" "mk_drawn m4 = Suc (mk_drawn m)"
    using log_returns[of m3] m3 assms(3) quotes_transaction[OF assms(2)] by metis
  define m6 where "m6 = announced env action b s n pr t m4"
  have m6: "order_ids (mk_db m6) \<subseteq> order_ids (mk_db m)" "mk_draws m6 = mk_draws m" "mk_drawn m6 = Suc (mk_drawn m)"
    using m4 by (auto simp: m6_def announced_def on_db_def remove_pending_order_def delete_orders_def notify_def)
  have f6: "mk_draws m6 (mk_drawn m6) \<notin> order_ids (mk_db m6)" using m6 assms(4) by auto
  obtain m7 where m7: "complete b BUY action n pr (get_date_time (local_time env) t) (get_daily_time (local_time env) t) m6 = Some m7"
    "order_ids (mk_db m7) \<subseteq> insert (mk_draws m (Suc (mk_drawn m))) (order_ids (mk_db m6))" "mk_draws m7 = mk_draws m"
    "mk_drawn m7 = Suc (Suc (mk_drawn m))"
    by (rule complete_returns[OF f6]) (simp add: m6(2,3))
  have "mk_draws m7 (mk_drawn m7) \<notin> order_ids (mk_db m7)" using m7(2-4) m6(1) assms(5) by auto
  then obtain m8 where m8: "complete s SELL action n pr (get_date_time (local_time env) t) (get_daily_time (local_time env) t) m7 = Some m8"
    using complete_returns[of m7] by metis
  show ?thesis
    using that m4(1) m7(1) m8 assms(1)
    by (simp add: trade_pair_def get_current_time_ms_def Let_def settled_def announced_def trade_price_def reopen_def
        n_def t_def pr_def m3_def m6_def)
qed

text \<open>Client 2 sells 25 shares at 10 to client 1, and holds only 20 of them.\<close>

definition demo_view :: "int \<Rightarrow> int \<Rightarrow> int \<Rightarrow> order_view" where
  "demo_view i cl n = (row_view (demo_order i n 10))\<lparr>v_client := cl\<rparr>"

lemma demo_holdings: "holdings_of 2 1 demo_db = [\<lparr>h_client = 2, h_action = 1, h_quantity = 20\<rparr>]" "shares_of 1 demo_db = 20"
  "holdings_ok demo_db" "messages demo_db = []" "orders demo_db = []"
  unfolding demo_db_def by code_simp+

lemma holdings_elsewhere:
  assumes "i \<noteq> j"
  shows "holdings_of j action (change_holding i action' f db) = holdings_of j action db"
    and "h_client h = i \<Longrightarrow> holdings_of j action (insert_holding h db) = holdings_of j action db"
    and "holdings_of j action (record_price a x d t db) = holdings_of j action db"
proof -
  have "filter (\<lambda>h. h_client h = j \<and> h_action h = action)
      (map (\<lambda>h. if h_client h = i \<and> h_action h = action' then h\<lparr>h_quantity := f (h_quantity h)\<rparr> else h) hs)
    = filter (\<lambda>h. h_client h = j \<and> h_action h = action) hs" for hs
    using assms by (induction hs) auto
  then show "holdings_of j action (change_holding i action' f db) = holdings_of j action db"
    by (simp add: holdings_of_def change_holding_def)
  show "h_client h = i \<Longrightarrow> holdings_of j action (insert_holding h db) = holdings_of j action db"
    using assms by (auto simp: holdings_of_def insert_holding_def)
  show "holdings_of j action (record_price a x d t db) = holdings_of j action db" by (simp add: holdings_of_def)
qed

lemma demo_legs:
  "client_can_afford demo_env 1 25 (Fin 10) 1 demo_db"
  "\<not> client_has_shares 2 1 25 (update_portfolio demo_env 1 BUY 1 25 (Fin 10) daily date demo_db)"
proof -
  have cost: "dbl_of_int 25 * Fin 10 = Fin 250" by (simp add: dbl_of_int_def)
  have "\<not> deq (Fin 10) max_price" by (simp add: deq_def max_price_def dbl_of_int_def max_number_def)
  then show "client_can_afford demo_env 1 25 (Fin 10) 1 demo_db"
    using demo_client by (simp add: client_can_afford_def cost available_balance_def reserved_def
        execute_SQL_query_double_def zero_double_def Fin_minus)
  have "holdings_of 2 1 (client_add_action 1 1 25 p daily date db) = holdings_of 2 1 db" for p db
    by (simp add: client_add_action_def holdings_elsewhere[of 1 2])
  moreover have "holdings_of 2 1 (client_withdraw 1 x db) = holdings_of 2 1 db" for x db by (simp add: holdings_of_def)
  ultimately have "holdings_of 2 1 (update_portfolio demo_env 1 BUY 1 25 (Fin 10) daily date demo_db) = holdings_of 2 1 demo_db"
    by (simp add: update_portfolio_def)
  then show "\<not> client_has_shares 2 1 25 (update_portfolio demo_env 1 BUY 1 25 (Fin 10) daily date demo_db)"
    using demo_holdings(1) by (simp add: client_has_shares_def execute_SQL_query_int_def to_int32_id)
qed

theorem sql_trade_shares_witness:
  "\<exists>m'. trade_pair demo_env 1 (demo_view 9 1 25) (demo_view 8 2 25) demo_market = Some ((None, None), m') \<and>
     shares_of 1 (mk_db m') = 45 \<and> shares_of 1 (mk_db demo_market) = 20"
proof -
  define b s where "b = demo_view 9 1 25" and "s = demo_view 8 2 25"
  have v: "v_quantity b = 25" "v_quantity s = 25" "v_client b = 1" "v_client s = 2" "literal_view b" "literal_view s"
    "trade_price 1 b s demo_market = Fin 10"
    by (simp_all add: b_def s_def demo_view_def row_view_def demo_order_def literal_view_def is_literal_def
        trade_price_def resolve_execution_price_def)
  have db: "mk_db demo_market = demo_db" "mk_drawn demo_market = 0" "\<And>n. mk_draws demo_market n = int n mod 1000"
    "draws_ok (mk_draws demo_market)"
    using demo_market_ordered by (simp_all add: demo_market_def new_market_def books_in_order_def)
  obtain m' where m': "trade_pair demo_env 1 b s demo_market = Some ((None, None), m')"
    using trade_pair_returns[of b s demo_env demo_market] v db demo_holdings by auto
  have "shares_of 1 (mk_db m') = 20 + 25 - 0"
    using sql_trade_shares[THEN conjunct1, OF m' plain_demo db(4) v(5,6)] v db demo_holdings demo_legs
    by (simp add: is_literal_def action_id_def)
  then show ?thesis using m' db demo_holdings(2) by (simp add: b_def s_def)
qed

end
