(* ===== verification/SqlIdentity.thy ===== *)
theory SqlIdentity
  imports SqlProps
begin

text \<open>
  Whose message it is: what one pass of \<open>handle_client\<close> in \<open>src/Src_SQL/server.cpp\<close> does to the
  exchange depends on the text of the message only, not on the connection it arrived on.
\<close>

section \<open>The part of the server a connection is not part of\<close>

definition core :: "sql_server \<Rightarrow> market \<times> bool \<times> bool" where
  "core sv = (sv_market sv, sv_continuous sv, sv_shutdown sv)"

definition effect :: "pass \<Rightarrow> (after \<times> market \<times> bool \<times> bool) option" where
  "effect p = map_option (\<lambda>(next, cn, sv). (next, core sv)) p"

lemma core_sockets [simp]:
  "core (send_to fd text' sv) = core sv"
  "core (register_client_socket cl fd sv) = core sv"
  "core (unregister_client_socket cl sv) = core sv"
  "core (send_to_client cl text' sv) = core sv"
  by (simp_all add: core_def send_to_def register_client_socket_def unregister_client_socket_def send_to_client_def
      split: option.split)

lemma core_notices: "core (fold (\<lambda>(cl, text'). send_to_client cl text') ps sv) = core sv"
  by (induction ps arbitrary: sv) auto

lemma core_parts:
  assumes "core sv = core sv'"
  shows "sv_market sv' = sv_market sv" "sv_continuous sv' = sv_continuous sv" "sv_shutdown sv' = sv_shutdown sv"
  using assms by (simp_all add: core_def)

lemma core_on_db: "core sv = core sv' \<Longrightarrow> core (sv_on_db f sv) = core (sv_on_db f sv')"
  by (simp add: core_def sv_on_db_def)

lemma core_market: "core sv = core sv' \<Longrightarrow> core (sv\<lparr>sv_market := m\<rparr>) = core (sv'\<lparr>sv_market := m\<rparr>)"
  by (simp add: core_def)

text \<open>Two computations that agree on the core.\<close>

definition agree :: "sql_server option \<Rightarrow> sql_server option \<Rightarrow> bool" where
  "agree x y \<longleftrightarrow> map_option core x = map_option core y"

lemma agree_log:
  assumes "core sv = core sv'"
  shows "agree (sv_log env cl s ty content sv) (sv_log env cl s ty content sv')"
  unfolding sv_log_def core_parts(1)[OF assms]
  by (cases "market_message_id (sv_market sv)") (auto simp: agree_def core_market[OF assms] split: prod.split)

lemma agree_log_at:
  assumes "core sv = core sv'"
  shows "agree (sv_log_at env cl s ty content t sv) (sv_log_at env cl s ty content t sv')"
  unfolding sv_log_at_def core_parts(1)[OF assms]
  by (cases "market_log env cl s ty content t (sv_market sv)") (simp_all add: agree_def core_market[OF assms])

lemma agree_market_step:
  assumes "core sv = core sv'"
  shows "agree (market_step f sv) (market_step f sv')"
  unfolding market_step_def core_parts(1)[OF assms]
  by (cases "f (sv_market sv)") (simp_all add: agree_def core_notices core_market[OF assms])

lemma agree_enter_book:
  assumes "core sv = core sv'"
  shows "agree (enter_book env r sv) (enter_book env r sv')"
  unfolding enter_book_def core_parts(2)[OF assms] by (rule agree_market_step[OF assms])

lemma effect_Some: "core sv = core sv' \<Longrightarrow> effect (Some (next, cn, sv)) = effect (Some (next, cn', sv'))"
  by (simp add: effect_def)

lemma effect_bind:
  assumes "agree x y" "\<And>sv sv'. core sv = core sv' \<Longrightarrow> effect (f sv) = effect (g sv')"
  shows "effect (x \<bind> f) = effect (y \<bind> g)"
  using assms by (cases x; cases y) (auto simp: agree_def effect_def[of None])

lemma effect_if: "effect p = effect q \<Longrightarrow> effect p' = effect q' \<Longrightarrow> effect (if b then p else p') = effect (if b then q else q')"
  by simp

section \<open>Every command\<close>

lemma effect_answer:
  assumes "core sv = core sv'"
  shows "effect (answer env cn response cl s ty content sv) = effect (answer env cn' response cl s ty content sv')"
  unfolding answer_def by (rule effect_bind[OF agree_log effect_Some]) (simp_all add: assms)

lemma effect_create:
  assumes "core sv = core sv'"
  shows "effect (create_order env cn draft trig sv) = effect (create_order env cn' draft trig sv')"
proof (cases "market_order_id (sv_market sv)")
  case None
  then show ?thesis using core_parts[OF assms] by (simp add: create_order_def)
next
  case (Some p)
  obtain i m1 t m2 where p: "p = (i, m1)" "get_current_time_ms m1 = (t, m2)" by (cases p; cases "get_current_time_ms (snd p)") auto
  show ?thesis
    unfolding create_order_def core_parts(1)[OF assms] Some p
    by (auto simp: p(2) Let_def intro!: effect_bind agree_log_at core_market assms agree_log agree_enter_book effect_Some core_on_db)
qed

lemma effect_check:
  assumes "core sv = core sv'"
  shows "effect (check_and_create env cn draft trig sv) = effect (check_and_create env cn' draft trig sv')"
  unfolding check_and_create_def core_parts(1)[OF assms] Let_def
  by (intro effect_if effect_answer effect_create assms)

lemma effect_order:
  assumes "core sv = core sv'"
  shows "effect (handle_order env cn input sv) = effect (handle_order env cn' input sv')"
  unfolding handle_order_def
  by (auto simp: Let_def split: prod.split prices_read.split option.split
      intro!: effect_answer effect_check effect_Some assms)

lemma effect_amounts:
  assumes "core sv = core sv'"
  shows "effect (handle_deposit env cn input sv) = effect (handle_deposit env cn' input sv')"
    and "effect (handle_withdraw env cn input sv) = effect (handle_withdraw env cn' input sv')"
  unfolding handle_deposit_def handle_withdraw_def core_parts(1)[OF assms]
  by (auto simp: Let_def split: prod.split intro!: effect_answer core_on_db assms)

lemma effect_display:
  assumes "core sv = core sv'"
  shows "effect (handle_display env cn input sv) = effect (handle_display env cn' input sv')"
  unfolding handle_display_def display_portfolio_def display_action_def core_parts(1)[OF assms]
  by (auto simp: Let_def split: prod.split option.split intro!: effect_answer effect_Some assms)

lemma effect_connection:
  assumes "core sv = core sv'"
  shows "effect (handle_connected env cn input sv) = effect (handle_connected env cn' input sv')"
    and "effect (handle_exit env cn input sv) = effect (handle_exit env cn' input sv')"
  unfolding handle_connected_def handle_exit_def
  by (auto split: prod.split intro!: effect_bind agree_log effect_Some assms)

lemma effect_authentification:
  assumes "core sv = core sv'"
  shows "effect (handle_authentification env cn input sv) = effect (handle_authentification env cn' input sv')"
proof -
  have "effect (do { (_, cn1, sv1) \<leftarrow> answer env cn response cl s ty content sv; Some (Break, cn1, sv1) })
      = effect (do { (_, cn1, sv1) \<leftarrow> answer env cn' response cl s ty content sv'; Some (Break, cn1, sv1) })"
    for response cl s ty content
    using effect_answer[OF assms, of env cn response cl s ty content cn']
    by (cases "answer env cn response cl s ty content sv"; cases "answer env cn' response cl s ty content sv'")
       (auto simp: effect_def)
  then show ?thesis
    unfolding handle_authentification_def core_parts(1)[OF assms]
    by (auto simp: Let_def split: prod.split intro!: effect_answer assms)
qed

section \<open>The property\<close>

text \<open>C39. Nothing connects a message with the client who logged in on its connection. What any message does to
  the accounts, the orders and the market, and whether it ends the connection or the server, is the
  same on every connection, authenticated or not, whoever it belongs to: the client identifier in the
  text decides whose money is withdrawn and for whom an order is placed.\<close>

theorem identity_is_never_checked:
  "effect (handle_input env \<lparr>cn_fd = fd, cn_client = cl\<rparr> input (sv\<lparr>sv_sockets := known\<rparr>))
   = effect (handle_input env \<lparr>cn_fd = fd', cn_client = cl'\<rparr> input (sv\<lparr>sv_sockets := known'\<rparr>))"
proof -
  have "core (sv\<lparr>sv_sockets := known\<rparr>) = core (sv\<lparr>sv_sockets := known'\<rparr>)" by (simp add: core_def)
  then show ?thesis
    unfolding handle_input_def
    using effect_authentification effect_connection effect_display effect_amounts effect_order by (simp split: if_split)
qed

end
