(* ===== verification/SqlLaws.thy ===== *)
theory SqlLaws
  imports SqlIdentity
begin

text \<open>
  What an exchange that is running cannot break. An invariant of the database that the single
  statements keep (\<open>database_law\<close>) is kept by everything built from them: a transaction, the auctions,
  every message, the watcher and the phases of a session. The laws are then stated for the tables the
  code has.
\<close>

section \<open>Results that satisfy a condition\<close>

lemma result_bind:
  assumes "pred_option P x" "\<And>y. P y \<Longrightarrow> pred_option Q (f y)"
  shows "pred_option Q (x \<bind> f)"
  using assms by (cases x) auto

lemma result_mono: "pred_option P x \<Longrightarrow> (\<And>y. P y \<Longrightarrow> Q y) \<Longrightarrow> pred_option Q x"
  by (cases x) auto

lemma result_iff: "pred_option P x \<longleftrightarrow> (\<forall>y. x = Some y \<longrightarrow> P y)"
  by (cases x) auto

section \<open>Texts without quotes\<close>

lemma quotes_subset: "\<not> quotes s \<Longrightarrow> set s' \<subseteq> set s \<Longrightarrow> \<not> quotes s'"
  by (auto simp: quotes_def)

lemma quotes_two_times [simp]: "\<not> quotes (two_times_to_string date daily)"
  unfolding two_times_to_string_def stamp_def Let_def by (rule quotes_take) simp

text \<open>What is left of a message after a read, and a word of it.\<close>

lemma scan_sign_set: "set (snd (scan_sign s)) \<subseteq> set s"
  by (auto simp: scan_sign_def split: list.splits)

lemma scan_int_set:
  assumes "scan_int s = Some (neg, n, r)"
  shows "set r \<subseteq> set s"
proof -
  have "set r \<subseteq> set (snd (scan_sign (dropWhile is_space s)))"
    using assms by (auto simp: scan_int_def Let_def split: prod.splits if_splits dest: set_dropWhileD)
  then show ?thesis using scan_sign_set[of "dropWhile is_space s"] set_dropWhileD[of _ is_space s] by blast
qed

lemma scan_float_set:
  assumes "scan_float s = Some (x, r)"
  shows "set r \<subseteq> set s"
proof -
  obtain ip fp r1 where m: "scan_mantissa is_digit s = (ip, fp, r1)" by (cases "scan_mantissa is_digit s") auto
  have r1: "set r1 \<subseteq> set s"
    using m by (auto simp: scan_mantissa_def Let_def split: list.splits if_splits dest: set_dropWhileD)
       (metis list.set_intros set_dropWhileD)+
  have "set (snd (scan_exponent CHR ''e'' r1)) \<subseteq> set r1"
  proof (cases r1)
    case (Cons c cs)
    then show ?thesis using scan_sign_set[of cs]
      by (auto simp: scan_exponent_def Let_def split: prod.splits dest: set_dropWhileD) (metis snd_conv set_dropWhileD subsetD)
  qed (simp add: scan_exponent_def)
  then show ?thesis using assms m r1 by (auto simp: scan_float_def Let_def split: prod.splits if_splits)
qed

lemma left_after:
  "set (fst (snd (get_word old s))) \<subseteq> set (fst s)"
  "set (fst (snd (get_int n s))) \<subseteq> set (fst s)"
  "set (fst (snd (get_int32 n s))) \<subseteq> set (fst s)"
  "set (fst (snd (get_double x s))) \<subseteq> set (fst s)"
proof -
  obtain rest good where s: "s = (rest, good)" by (cases s)
  have drop: "set (dropWhile is_space rest) \<subseteq> set rest" using set_dropWhileD by fast
  show "set (fst (snd (get_word old s))) \<subseteq> set (fst s)"
    using drop by (auto simp: get_word_def s Let_def dest: set_dropWhileD)
  show int': "set (fst (snd (get_int n s))) \<subseteq> set (fst s)" for n
    using drop scan_int_set[of "dropWhile is_space rest"]
    by (auto simp: get_int_def s Let_def split: option.splits) blast+
  show "set (fst (snd (get_int32 n s))) \<subseteq> set (fst s)"
    using int'[of n] by (auto simp: get_int32_def split: prod.splits)
  obtain neg r1 where r1: "scan_sign (dropWhile is_space rest) = (neg, r1)" by (cases "scan_sign (dropWhile is_space rest)")
  then have "set r1 \<subseteq> set rest" using scan_sign_set[of "dropWhile is_space rest"] drop by auto
  then show "set (fst (snd (get_double x s))) \<subseteq> set (fst s)"
    using drop scan_float_set[of r1]
    by (auto simp: get_double_def s Let_def r1 split: option.splits double.splits) blast+
qed

lemma word_of: "set (fst (get_word [] s)) \<subseteq> set (fst s)"
  by (auto simp: get_word_def Let_def split: prod.splits dest!: set_takeWhileD dest: set_dropWhileD)

lemma quotes_error: "read_prices env ty trig s = Bad response content \<Longrightarrow> \<not> quotes content"
  by (auto simp: read_prices_def read_limit_def read_stop_def read_limit_stop_def missing_def negative_def Let_def
      split: prod.splits if_splits)

lemma quotes_texts:
  assumes "plain_env env" "\<not> quotes trig"
  shows "\<not> quotes (created_text env r trig t)" "\<not> quotes (fmt_real env x)" "\<not> quotes ellipsis"
  using assms by (cases "o_type r"; auto simp: created_text_def plain_env_def ellipsis_def)+

section \<open>A law of the database\<close>

text \<open>The statements of a running exchange, and what they keep.\<close>

locale database_law =
  fixes ok :: "database \<Rightarrow> bool"
  assumes message: "ok db \<Longrightarrow> ok (insert_message w db)"
    and order_in: "ok db \<Longrightarrow> ok (insert_order r db)"
    and order_out: "ok db \<Longrightarrow> ok (delete_orders P db)"
    and balance: "ok db \<Longrightarrow> ok (set_balance i f db)"
    and price: "ok db \<Longrightarrow> ok (insert_price p db)"
    and holding: "ok db \<Longrightarrow> 0 \<le> h_quantity h \<Longrightarrow> ok (insert_holding h db)"
    and change: "ok db \<Longrightarrow> (\<And>q. 0 \<le> q \<Longrightarrow> 0 \<le> g q) \<Longrightarrow> ok (change_holding i a g db)"
begin

lemma portfolio_law:
  assumes "ok db" "0 \<le> n"
  shows "ok (update_portfolio env i ty a n pr daily date db)"
proof -
  have rp: "ok db \<Longrightarrow> ok (record_price a pr daily date db)" for db by (simp add: record_price_def Let_def price)
  have "ok (client_deposit i x db)" "ok (client_withdraw i x db)" for x
    using assms(1) balance by (simp_all add: client_deposit_def client_withdraw_def)
  then show ?thesis using assms
    by (auto simp: update_portfolio_def client_add_action_def client_remove_action_def intro!: rp holding change split: order_type.split)
qed

abbreviation fine :: "market \<Rightarrow> bool" where "fine m \<equiv> ok (mk_db m)"

lemma id_law: "fine m \<Longrightarrow> pred_option (\<lambda>(i, m'). fine m') (market_order_id m)"
  "fine m \<Longrightarrow> pred_option (\<lambda>(i, m'). fine m') (market_message_id m)"
  by (auto simp: market_order_id_def market_message_id_def result_iff split: Option.bind_splits)

lemma log_row_law: "ok db \<Longrightarrow> \<not> quotes content \<Longrightarrow> ok (log_message env i cl s ty content t db)"
  by (simp add: log_message_def message)

lemma log_law: "fine m \<Longrightarrow> \<not> quotes content \<Longrightarrow> pred_option fine (market_log env cl s ty content t m)"
  unfolding market_log_def by (rule result_bind[OF id_law(2)]) (auto simp: on_db_def log_row_law)

lemma complete_law: "fine m \<Longrightarrow> pred_option fine (complete v ty action n pr date daily m)"
  unfolding complete_def order_statements by (rule result_bind[OF id_law(1)]) (auto simp: on_db_def order_in)

lemma reopen_law: "fine m \<Longrightarrow> pred_option (\<lambda>(i, m'). fine m') (reopen env v ty action n m)"
  unfolding reopen_def order_statements by (auto intro!: result_bind[OF id_law(1)] simp: on_db_def order_in)

lemma trade_law:
  assumes "fine m" "plain_env env" "0 \<le> v_quantity b" "0 \<le> v_quantity s"
  shows "pred_option (\<lambda>(r, m'). fine m') (trade_pair env action b s m)"
proof -
  have "0 \<le> min (v_quantity b) (v_quantity s)" using assms(3,4) by simp
  then show ?thesis
    unfolding trade_pair_def Let_def get_current_time_ms_def
    by (auto simp: on_db_def notify_def remove_pending_order_def quotes_transaction[OF assms(2)] assms(1)
        intro!: result_bind[OF log_law] result_bind[OF complete_law] result_bind[OF reopen_law] portfolio_law order_out)
qed

lemma loop_law:
  assumes "fine m" "plain_env env" "reads_views env ready"
  shows "pred_option (\<lambda>(bs, ss, m'). fine m') (match_loop env ready action bs ss m)"
  using assms
proof (induction env ready action bs ss m rule: match_loop.induct)
  case (3 env ready action i bs j ss m)
  show ?case
  proof (cases "ready (mk_db m) i j")
    case (Some p)
    obtain b s where p: "p = (b, s)" by (cases p)
    have v: "0 < v_quantity b" "0 < v_quantity s" using 3(4) Some p by (simp_all add: reads_views_def)
    note t = trade_law[OF 3(2,3), of b s action]
    show ?thesis
    proof (cases "trade_pair env action b s m")
      case None
      then show ?thesis by (simp add: Some p)
    next
      case (Some q)
      obtain b' s' m' where q: "q = ((b', s'), m')" by (cases q) auto
      have "fine m'" using t v Some q by simp
      then show ?thesis using 3(1)[OF \<open>ready (mk_db m) i j = Some p\<close> p[symmetric] Some q[symmetric] refl _ 3(3,4)]
        by (simp add: \<open>ready (mk_db m) i j = Some p\<close> p Some q)
    qed
  qed (use 3(2) in simp)
qed simp_all

lemma continuous_law: "fine m \<Longrightarrow> plain_env env \<Longrightarrow> pred_option fine (process_continuous_trading env action m)"
  by (auto simp: process_continuous_trading_def split: option.split
      intro!: result_bind[OF loop_law] continuous_reads)

lemma fixing_law: "fine m \<Longrightarrow> plain_env env \<Longrightarrow> pred_option fine (fixing_loop env rest m)"
proof (induction env rest m rule: fixing_loop.induct)
  case (2 env action bs rest m)
  show ?case
  proof (cases "map_of (mk_sells m) action")
    case None
    then show ?thesis using 2(1)[OF None] 2(4,5) by simp
  next
    case (Some ss)
    show ?thesis
    proof (cases "bs = [] \<or> ss = []")
      case True
      then show ?thesis using 2(2)[OF Some True 2(4,5)] Some by simp
    next
      case False
      have "pred_option (\<lambda>(bs, ss, m'). fine m') (match_loop env (fixing_pair env) action bs ss m)"
        using loop_law 2(4,5) fixing_reads by blast
      then show ?thesis using 2(3)[OF Some False] 2(5) by (auto simp: Some False result_iff split: Option.bind_splits)
    qed
  qed
qed simp

lemma accumulate_law: "fine m \<Longrightarrow> fine (accumulate_order cl r m)"
  by (auto simp: accumulate_order_def on_db_def order_statements order_in Let_def split: order_type.split)

text \<open>The server.\<close>

abbreviation held :: "sql_server \<Rightarrow> bool" where "held sv \<equiv> ok (sv_db sv)"
abbreviation passed :: "pass \<Rightarrow> bool" where "passed p \<equiv> pred_option (\<lambda>(next, cn, sv). held sv) p"

lemma sockets_law [simp]: "held (send_to fd text' sv) = held sv" "held (register_client_socket cl fd sv) = held sv"
  "held (unregister_client_socket cl sv) = held sv" "held (send_to_client cl text' sv) = held sv"
  using core_sockets by (simp_all add: core_def)

lemma sv_log_law: "held sv \<Longrightarrow> \<not> quotes content \<Longrightarrow> pred_option held (sv_log env cl s ty content sv)"
  unfolding sv_log_def by (rule result_bind[OF id_law(2)]) (auto simp: get_current_time_ms_def on_db_def log_row_law)

lemma sv_log_at_law: "held sv \<Longrightarrow> \<not> quotes content \<Longrightarrow> pred_option held (sv_log_at env cl s ty content t sv)"
  unfolding sv_log_at_def by (rule result_bind[OF log_law]) simp_all

lemma market_step_law:
  assumes "pred_option fine (f (sv_market sv))"
  shows "pred_option held (market_step f sv)"
  unfolding market_step_def
proof (rule result_bind[OF assms])
  fix m assume "fine m"
  moreover have "sv_market (fold (\<lambda>(cl, text'). send_to_client cl text') ps sv') = sv_market sv'" for ps sv'
    using core_notices[of ps sv'] by (simp add: core_def)
  ultimately show "pred_option held (Some (fold (\<lambda>(cl, text'). send_to_client cl text') (mk_pushed m)
      (sv\<lparr>sv_market := m\<lparr>mk_pushed := []\<rparr>\<rparr>)))" by simp
qed

lemma enter_law: "held sv \<Longrightarrow> plain_env env \<Longrightarrow> pred_option held (enter_book env r sv)"
  unfolding enter_book_def by (rule market_step_law) (simp add: Let_def continuous_law accumulate_law)

lemma answer_law: "held sv \<Longrightarrow> \<not> quotes content \<Longrightarrow> passed (answer env cn response cl s ty content sv)"
  unfolding answer_def by (rule result_bind[OF sv_log_law]) simp_all

lemma create_law:
  assumes "held sv" "plain_env env" "\<not> quotes trig"
  shows "passed (create_order env cn draft trig sv)"
  unfolding create_order_def Let_def get_current_time_ms_def
  by (rule result_bind[OF id_law(1)])
     (auto simp: assms quotes_texts[OF assms(2,3)] sv_on_db_def on_db_def add_waiting_order_def order_in
        intro!: result_bind[OF sv_log_at_law] result_bind[OF sv_log_law] result_bind[OF enter_law])

lemma check_law:
  assumes "held sv" "plain_env env" "\<not> quotes trig"
  shows "passed (check_and_create env cn draft trig sv)"
  unfolding check_and_create_def Let_def using create_law[OF assms] assms(1) by (auto intro!: answer_law)

lemma order_law:
  assumes "held sv" "plain_env env" "\<not> quotes input"
  shows "passed (handle_order env cn input sv)"
proof -
  obtain cl s1 where s1: "get_int (stray_int env ''client_id'') (input, True) = (cl, s1)" by (metis surj_pair)
  obtain ty s2 where s2: "get_word [] s1 = (ty, s2)" by (metis surj_pair)
  obtain n s3 where s3: "get_int32 (stray_int env ''quantity'') s2 = (n, s3)" by (metis surj_pair)
  obtain action s4 where s4: "get_int (stray_int env ''action_id'') s3 = (action, s4)" by (metis surj_pair)
  obtain trig s5 where s5: "get_word [] s4 = (trig, s5)" by (metis surj_pair)
  have "set trig \<subseteq> set input"
    using left_after(2)[of "stray_int env ''client_id''" "(input, True)"] left_after(1)[of "[]" s1]
      left_after(3)[of "stray_int env ''quantity''" s2] left_after(2)[of "stray_int env ''action_id''" s3] word_of[of s4]
    by (auto simp: s1 s2 s3 s4 s5)
  then have "\<not> quotes trig" using assms(3) quotes_subset by blast
  then show ?thesis
    unfolding handle_order_def using assms(1,2)
    by (auto simp: s1 s2 s3 s4 s5 Let_def quotes_error split: prices_read.split option.split intro!: answer_law check_law)
qed

lemma display_law:
  assumes "held sv" "plain_env env" "\<not> quotes input"
  shows "passed (handle_display env cn input sv)"
proof -
  obtain cl s1 where s1: "get_int (stray_int env ''client_id'') (input, True) = (cl, s1)" by (metis surj_pair)
  obtain command s2 where s2: "get_word [] s1 = (command, s2)" by (metis surj_pair)
  obtain what s3 where s3: "get_word [] s2 = (what, s3)" by (metis surj_pair)
  have "set what \<subseteq> set input"
    using left_after(2)[of "stray_int env ''client_id''" "(input, True)"] left_after(1)[of "[]" s1] word_of[of s2]
    by (auto simp: s1 s2 s3)
  then have "\<not> quotes what" using assms(3) quotes_subset by blast
  then have action': "passed (display_action env cn cl what sv)"
    unfolding display_action_def Let_def using assms(1) by (simp add: answer_law split: option.split)
  have "passed (display_portfolio env cn cl sv)"
    unfolding display_portfolio_def using assms(1) by (simp add: answer_law split: option.split)
  then show ?thesis
    unfolding handle_display_def s1 s2 s3 Let_def prod.case using action' assms(1) by (simp add: answer_law)
qed

lemma amount_law:
  assumes "held sv" "plain_env env"
  shows "passed (handle_deposit env cn input sv)" "passed (handle_withdraw env cn input sv)"
proof -
  have db: "held (sv_on_db (client_deposit cl x) sv)" "held (sv_on_db (client_withdraw cl x) sv)" for cl x
    using assms(1) by (simp_all add: sv_on_db_def on_db_def client_deposit_def client_withdraw_def balance)
  show "passed (handle_deposit env cn input sv)" "passed (handle_withdraw env cn input sv)"
    unfolding handle_deposit_def handle_withdraw_def unknown_client_def
    using assms db quotes_texts(2)[OF assms(2), of "[]"]
    by (auto simp: Let_def split: prod.split intro!: answer_law)
qed

lemma connection_law:
  assumes "held sv"
  shows "passed (handle_connected env cn input sv)" "passed (handle_exit env cn input sv)"
    "passed (handle_authentification env cn input sv)"
  unfolding handle_connected_def handle_exit_def handle_authentification_def using assms
  by (auto simp: Let_def split: prod.split
      intro!: result_bind[OF sv_log_law] result_bind[OF answer_law] answer_law)

lemma input_law: "held sv \<Longrightarrow> plain_env env \<Longrightarrow> \<not> quotes input \<Longrightarrow> passed (handle_input env cn input sv)"
  using connection_law order_law display_law amount_law by (simp add: handle_input_def)

lemma watch_law:
  assumes "held sv" "plain_env env"
  shows "pred_option held (watch_order env now r sv)"
  unfolding watch_order_def Let_def using assms quotes_texts(2)[OF assms(2), of "[]"]
  by (auto simp: sv_on_db_def on_db_def remove_waiting_order_def order_out
      intro!: sv_log_at_law result_bind[OF sv_log_at_law] enter_law)

lemma watcher_law:
  assumes "held sv" "plain_env env"
  shows "pred_option (\<lambda>(next, sv'). held sv') (watcher_scan env sv)"
proof -
  have "held sv \<Longrightarrow> pred_option held (watch_all env now rs sv)" for now rs sv
    by (induction rs arbitrary: sv) (auto intro!: result_bind[OF watch_law] simp: assms(2))
  then show ?thesis
    using assms(1) by (auto simp: watcher_scan_def get_current_time_ms_def Let_def split: option.split intro!: result_bind)
qed

lemma phases_law:
  assumes "held sv" "plain_env env"
  shows "pred_option held (pre_open_phase env sv)" "pred_option held (open_phase env sv)"
    "pred_option held (continuous_phase env sv)" "pred_option held (pre_close_phase env sv)"
    "pred_option held (close_phase env sv)" "pred_option held (server_launch env t sv)" "pred_option held (server_closing env sv)"
proof -
  have f: "pred_option held (market_step (process_fixing env) sv)"
    by (rule market_step_law) (simp add: process_fixing_def fixing_law assms)
  show "pred_option held (pre_open_phase env sv)" "pred_option held (open_phase env sv)"
    "pred_option held (continuous_phase env sv)" "pred_option held (pre_close_phase env sv)"
    "pred_option held (close_phase env sv)" "pred_option held (server_launch env t sv)" "pred_option held (server_closing env sv)"
    unfolding server_launch_def server_closing_def pre_open_phase_def open_phase_def continuous_phase_def pre_close_phase_def close_phase_def
    using assms(1) by (auto intro!: sv_log_law sv_log_at_law result_bind[OF f] result_bind[OF sv_log_law])
qed

end

end
