(* ===== verification/SqlExchange.thy ===== *)
theory SqlExchange
  imports SqlLaws
begin

text \<open>
  The SQLite exchange as a state machine: its steps are the messages of the clients, the scans of the
  watcher, the phases of the session and what happens to the connections, in any order. Two laws of the
  database hold in all its reachable states: the tables stay consistent, and nothing that was recorded
  is changed or lost.
\<close>

section \<open>Steps\<close>

definition session_phases :: "(sql_env \<Rightarrow> sql_server \<Rightarrow> sql_server option) list" where
  "session_phases =
     [pre_open_phase, open_phase, continuous_phase, pre_close_phase, close_phase, server_closing]"

text \<open>What the server does on its own.\<close>

inductive server_step :: "sql_env \<Rightarrow> sql_server \<Rightarrow> sql_server \<Rightarrow> bool" for env where
  on_scan: "watcher_scan env sv = Some (next, sv') \<Longrightarrow> server_step env sv sv'"
| on_phase: "phase \<in> set session_phases \<Longrightarrow> phase env sv = Some sv' \<Longrightarrow> server_step env sv sv'"
| on_launch: "server_launch env t sv = Some sv' \<Longrightarrow> server_step env sv sv'"
| on_close: "server_step env sv (unregister_client_socket cl sv)"
| on_break: "server_step env sv (sv\<lparr>sv_broken := broken\<rparr>)"

text \<open>With the messages that hold no quote. A quote closes the text of a statement (see \<open>quotes_rewrite_history\<close>).\<close>

inductive exchange_step :: "sql_env \<Rightarrow> sql_server \<Rightarrow> sql_server \<Rightarrow> bool" for env where
  on_message: "\<not> quotes input \<Longrightarrow> handle_input env cn input sv = Some (next, cn', sv') \<Longrightarrow> exchange_step env sv sv'"
| on_server: "server_step env sv sv' \<Longrightarrow> exchange_step env sv sv'"

inductive exchange_reachable :: "sql_env \<Rightarrow> sql_server \<Rightarrow> sql_server \<Rightarrow> bool" for env sv0 where
  at_start: "exchange_reachable env sv0 sv0"
| by_step: "exchange_reachable env sv0 sv \<Longrightarrow> exchange_step env sv sv' \<Longrightarrow> exchange_reachable env sv0 sv'"

inductive_cases exchange_stepE: "exchange_step env sv sv'"

text \<open>A run with any messages at all, kept in the order in which they were handled.\<close>

inductive exchange_run :: "sql_env \<Rightarrow> sql_server \<Rightarrow> string list \<Rightarrow> sql_server \<Rightarrow> bool" for env sv0 where
  run_starts: "exchange_run env sv0 [] sv0"
| run_handles: "exchange_run env sv0 inputs sv \<Longrightarrow> handle_input env cn input sv = Some (next, cn', sv') \<Longrightarrow>
    exchange_run env sv0 (inputs @ [input]) sv'"
| run_acts: "exchange_run env sv0 inputs sv \<Longrightarrow> server_step env sv sv' \<Longrightarrow> exchange_run env sv0 inputs sv'"

lemma run_reachable:
  "exchange_run env sv0 inputs sv \<Longrightarrow> \<forall>input \<in> set inputs. \<not> quotes input \<Longrightarrow> exchange_reachable env sv0 sv"
  by (induction rule: exchange_run.induct) (auto intro: at_start by_step on_message on_server)

text \<open>A law of the database holds in every state reachable from one where it holds.\<close>

context database_law
begin

lemma own_law: "server_step env sv sv' \<Longrightarrow> held sv \<Longrightarrow> plain_env env \<Longrightarrow> held sv'"
proof (induction rule: server_step.induct)
  case (on_scan sv "next" sv')
  then show ?case using watcher_law[of sv env] by simp
next
  case (on_phase phase sv sv')
  then show ?case using phases_law[of sv env] by (auto simp: session_phases_def)
next
  case (on_launch t sv sv')
  then show ?case using phases_law(6)[of sv env t] by simp
qed simp_all

lemma step_law: "exchange_step env sv sv' \<Longrightarrow> held sv \<Longrightarrow> plain_env env \<Longrightarrow> held sv'"
proof (induction rule: exchange_step.induct)
  case (on_message input cn sv "next" cn' sv')
  then show ?case using input_law[of sv env input cn] by simp
qed (rule own_law)

lemma reachable_law:
  assumes "exchange_reachable env sv0 sv" "held sv0" "plain_env env"
  shows "held sv"
  using assms(1,2) by induction (auto intro: step_law assms(3))

end

section \<open>The tables\<close>

text \<open>The keys are unique, holdings are not negative, and no stored number is NaN where SQLite would refuse it.\<close>

definition consistent :: "database \<Rightarrow> bool" where
  "consistent db \<longleftrightarrow>
     keyed db \<and> distinct (map m_id (messages db)) \<and> distinct (map cl_id (clients db)) \<and> holdings_ok db \<and>
     (\<forall>c \<in> set (clients db). cl_balance c \<noteq> NaN) \<and> (\<forall>p \<in> set (prices db). is_literal (p_price p)) \<and>
     (\<forall>r \<in> set (orders db). is_literal (o_price r) \<and> is_literal (o_lower r) \<and> is_literal (o_upper r))"

lemma balances_kept:
  assumes "\<forall>c \<in> set (clients db). cl_balance c \<noteq> NaN"
  shows "\<forall>c \<in> set (clients (set_balance i f db)). cl_balance c \<noteq> NaN"
  using assms by (auto simp: set_balance_def clients_with_def)

lemma client_ids_kept: "map cl_id (clients (set_balance i f db)) = map cl_id (clients db)"
  by (simp add: set_balance_def comp_def if_distrib cong: if_cong)

interpretation tables: database_law consistent
proof unfold_locales
  fix db and w :: message_row
  assume "consistent db"
  then show "consistent (insert_message w db)"
    using distinct_insort_ids[of m_id "messages db" w]
    by (auto simp: consistent_def insert_message_def keyed_def holdings_ok_def)
next
  fix db r assume ok: "consistent db"
  show "consistent (insert_order r db)"
    using ok insert_keeps[of r "{}" db]
    by (auto simp: consistent_def keeps_rows_def holdings_ok_def insert_order_def set_insort_key)
next
  fix db P assume ok: "consistent db"
  then show "consistent (delete_orders P db)"
    using delete_keeps[of P "{}" db] by (auto simp: consistent_def keeps_rows_def holdings_ok_def delete_orders_def)
next
  fix db i f assume ok: "consistent db"
  then show "consistent (set_balance i f db)"
    using balances_kept[of db i f] client_ids_kept[of i f db]
    by (simp add: consistent_def keyed_def holdings_ok_def) (simp add: set_balance_def)
next
  fix db p assume "consistent db"
  then show "consistent (insert_price p db)" by (auto simp: consistent_def insert_price_def keyed_def holdings_ok_def)
next
  fix db and h :: holding_row assume "consistent db" "0 \<le> h_quantity h"
  then show "consistent (insert_holding h db)" by (auto simp: consistent_def insert_holding_def keyed_def holdings_ok_def)
next
  fix db i a and g :: "int \<Rightarrow> int" assume ok: "consistent db" and g: "\<And>q. 0 \<le> q \<Longrightarrow> 0 \<le> g q"
  have "\<forall>h \<in> set (client_portfolio (change_holding i a g db)). 0 \<le> h_quantity h"
    using ok g by (auto simp: consistent_def holdings_ok_def change_holding_def)
  then show "consistent (change_holding i a g db)"
    using ok change_holding_keys[of i a g db] by (simp add: consistent_def keyed_def holdings_ok_def) (simp add: change_holding_def)
qed

section \<open>The past\<close>

definition identity :: "client_row \<Rightarrow> int \<times> string \<times> string" where
  "identity c = (cl_id c, cl_name c, cl_password c)"

definition since :: "database \<Rightarrow> database \<Rightarrow> bool" where
  "since db0 db \<longleftrightarrow>
     take (length (prices db0)) (prices db) = prices db0 \<and> set (messages db0) \<subseteq> set (messages db) \<and>
     map identity (clients db) = map identity (clients db0) \<and> actions db = actions db0"

lemma identities_kept: "map identity (clients (set_balance i f db)) = map identity (clients db)"
  by (simp add: set_balance_def identity_def)

interpretation past: database_law "since db0" for db0
proof unfold_locales
  fix db i f assume "since db0 db"
  then show "since db0 (set_balance i f db)" unfolding since_def identities_kept by (simp add: set_balance_def)
next
  fix db p assume s: "since db0 db"
  then have "length (prices db0) \<le> length (prices db)" unfolding since_def by (metis length_take min.cobounded1)
  then show "since db0 (insert_price p db)" using s by (simp add: since_def insert_price_def)
qed (auto simp: since_def insert_message_def insert_order_def delete_orders_def insert_price_def insert_holding_def
       change_holding_def set_insort_key)

section \<open>The properties\<close>

text \<open>C32. A running exchange keeps its tables consistent. Whatever messages arrive, in whatever order with the
  scans of the watcher, the phases of the session and broken connections: identifiers of orders, log
  messages and clients and the pairs of a client and an action stay unique, no holding is ever
  negative, no balance is NaN, and every stored price is a number. (A message with a quote may close a
  statement; then nothing is promised.)\<close>

theorem sql_exchange_stays_consistent:
  assumes "exchange_reachable env sv0 sv" "plain_env env" "consistent (sv_db sv0)"
  shows "consistent (sv_db sv)"
  using tables.reachable_law[OF assms(1,3,2)] .

text \<open>C33. A running exchange forgets nothing, as long as no message it handles holds a quote: then the price
  history only grows at its end, no logged message is changed or removed, and the clients, their names
  and passwords and the actions stay as they were. Any connection can send a message with a quote, whose
  text goes into a statement unescaped; what such a statement does is not bounded by the code, and the
  history can be lost by it (\<open>quotes_rewrite_history\<close>).\<close>

theorem sql_history_is_kept:
  assumes "exchange_run env sv0 inputs sv" "\<forall>input \<in> set inputs. \<not> quotes input" "plain_env env"
  shows "since (sv_db sv0) (sv_db sv)"
  by (rule past.reachable_law[OF run_reachable[OF assms(1,2)] _ assms(3)]) (simp add: since_def)

definition demo_server :: sql_server where
  "demo_server = new_sql_server demo_market"

lemma demo_exit:
  obtains r cn sv where "handle_input demo_env \<lparr>cn_fd = 4, cn_client = 1\<rparr> ''1 exit'' demo_server = Some (r, cn, sv)"
    "map m_id (messages (sv_db sv)) = [0]"
proof -
  have "map_option (\<lambda>(next, cn, sv). map m_id (messages (sv_db sv)))
      (handle_input demo_env \<lparr>cn_fd = 4, cn_client = 1\<rparr> ''1 exit'' demo_server) = Some [0]"
    unfolding demo_server_def by code_simp
  then obtain r cn sv where h: "handle_input demo_env \<lparr>cn_fd = 4, cn_client = 1\<rparr> ''1 exit'' demo_server = Some (r, cn, sv)"
    "map m_id (messages (sv_db sv)) = [0]"
    by (cases "handle_input demo_env \<lparr>cn_fd = 4, cn_client = 1\<rparr> ''1 exit'' demo_server") auto
  then show ?thesis by (rule that)
qed

lemma demo_consistent: "consistent (sv_db demo_server)"
proof -
  have "sv_db demo_server = demo_db"
    by (simp add: demo_server_def new_sql_server_def demo_market_def new_market_def set_notification_callback_def)
  moreover have "consistent demo_db" unfolding demo_db_def by code_simp
  ultimately show ?thesis by simp
qed

theorem sql_exchange_stays_consistent_witness:
  "\<exists>sv. exchange_reachable demo_env demo_server sv \<and> map m_id (messages (sv_db sv)) = [0] \<and> consistent (sv_db sv)"
proof -
  obtain r cn sv where sv: "handle_input demo_env \<lparr>cn_fd = 4, cn_client = 1\<rparr> ''1 exit'' demo_server = Some (r, cn, sv)"
    "map m_id (messages (sv_db sv)) = [0]" by (rule demo_exit)
  have r: "exchange_reachable demo_env demo_server sv"
    by (rule by_step[OF at_start on_message[OF _ sv(1)]]) (simp add: quotes_def)
  show ?thesis using sql_exchange_stays_consistent[OF r plain_demo demo_consistent] r sv(2) by (intro exI[of _ sv]) simp
qed

theorem sql_history_is_kept_witness:
  "\<exists>sv. exchange_run demo_env demo_server [''1 exit''] sv \<and> map m_id (messages (sv_db sv)) = [0] \<and>
     since (sv_db demo_server) (sv_db sv)"
proof -
  obtain r cn sv where sv: "handle_input demo_env \<lparr>cn_fd = 4, cn_client = 1\<rparr> ''1 exit'' demo_server = Some (r, cn, sv)"
    "map m_id (messages (sv_db sv)) = [0]" by (rule demo_exit)
  have r: "exchange_run demo_env demo_server [''1 exit''] sv" using run_handles[OF run_starts sv(1)] by simp
  show ?thesis using sql_history_is_kept[OF r _ plain_demo] r sv(2) by (intro exI[of _ sv]) (simp add: quotes_def)
qed

text \<open>
  The exclusion is needed. A name with a quote closes the text of the query for the action and of the
  INSERT that logs it; if what follows the quote makes SQLite answer the query with a row and delete the
  price history, one message of one connection removes it.
\<close>

definition injected_env :: sql_env where
  "injected_env = demo_env\<lparr>sql_real := (\<lambda>_. ''1''), fmt_real := (\<lambda>_. ''1''),
     broken_query := (\<lambda>_ _. 1), broken_update := (\<lambda>_ db. db\<lparr>prices := []\<rparr>)\<rparr>"

theorem quotes_rewrite_history:
  "plain_env injected_env \<and>
   (\<exists>sv. exchange_run injected_env demo_server [''1 display x'' @ [CHR 0x27]] sv \<and> \<not> since (sv_db demo_server) (sv_db sv))"
proof -
  let ?cn = "\<lparr>cn_fd = 4, cn_client = 1\<rparr>" and ?msg = "''1 display x'' @ [CHR 0x27]"
  have "map_option (\<lambda>(next, cn, sv). (prices (sv_db sv), prices (sv_db demo_server) = []))
      (handle_input injected_env ?cn ?msg demo_server) = Some ([], False)"
    unfolding demo_server_def injected_env_def by code_simp
  then obtain r cn sv where h: "handle_input injected_env ?cn ?msg demo_server = Some (r, cn, sv)"
    "prices (sv_db sv) = []" "prices (sv_db demo_server) \<noteq> []"
    by (cases "handle_input injected_env ?cn ?msg demo_server") auto
  have "exchange_run injected_env demo_server [?msg] sv" using run_handles[OF run_starts h(1)] by simp
  moreover have "\<not> since (sv_db demo_server) (sv_db sv)" using h(2,3) by (simp add: since_def)
  moreover have "plain_env injected_env" using plain_demo by (simp add: plain_env_def injected_env_def quotes_def)
  ultimately show ?thesis by blast
qed

end
