(* ===== verification/SqlMatch.thy ===== *)
theory SqlMatch
  imports SqlExchange
begin

text \<open>
  The matching of the SQLite exchange against what it is meant to compute: the two queues of orders of an
  action are cleared from their fronts. The code reads each order back from its text, deletes its row,
  records it as completed and inserts what is left under a new identifier; the queues of orders without
  their identifiers change exactly as the specification says.
\<close>

section \<open>The specification\<close>

definition tradable :: "(int \<Rightarrow> bool) \<Rightarrow> order_row \<Rightarrow> order_row \<Rightarrow> bool" where
  "tradable known b s \<longleftrightarrow>
     known (o_client b) \<and> known (o_client s) \<and> 0 < o_quantity b \<and> 0 < o_quantity s \<and> \<not> o_price b < o_price s"

text \<open>What is left of an order after \<open>n\<close> of it were traded.\<close>

definition unfilled :: "int \<Rightarrow> order_row \<Rightarrow> order_row list" where
  "unfilled n r = (if n < o_quantity r then [r\<lparr>o_quantity := o_quantity r - n\<rparr>] else [])"

function clearing :: "(int \<Rightarrow> bool) \<Rightarrow> order_row list \<Rightarrow> order_row list \<Rightarrow> order_row list \<times> order_row list" where
  "clearing known [] ss = ([], ss)"
| "clearing known (b # bs) [] = (b # bs, [])"
| "clearing known (b # bs) (s # ss) =
     (if tradable known b s
      then let n = min (o_quantity b) (o_quantity s) in clearing known (unfilled n b @ bs) (unfilled n s @ ss)
      else (b # bs, s # ss))"
  by pat_completeness auto

termination by (relation "measure (\<lambda>(_, bs, ss). length bs + length ss)") (auto simp: unfilled_def Let_def)

text \<open>What the specification promises: the queues shrink by the same quantity, and what remains cannot trade.\<close>

definition total_quantity :: "order_row list \<Rightarrow> int" where
  "total_quantity rs = sum_list (map o_quantity rs)"

lemma unfilled_total: "n \<le> o_quantity r \<Longrightarrow> total_quantity (unfilled n r @ rs) = total_quantity (r # rs) - n"
  by (auto simp: unfilled_def total_quantity_def)

lemma clearing_balanced:
  assumes "clearing known bs ss = (bs', ss')"
  shows "total_quantity bs - total_quantity bs' = total_quantity ss - total_quantity ss'"
    and "total_quantity bs' \<le> total_quantity bs"
  using assms
proof (induction known bs ss rule: clearing.induct)
  case (3 known b bs s ss)
  define n where "n = min (o_quantity b) (o_quantity s)"
  show "total_quantity (b # bs) - total_quantity bs' = total_quantity (s # ss) - total_quantity ss'"
    "total_quantity bs' \<le> total_quantity (b # bs)"
    if "clearing known (b # bs) (s # ss) = (bs', ss')"
    using 3 that unfilled_total[of n b bs] unfilled_total[of n s ss]
    by (auto simp: n_def[symmetric] Let_def tradable_def split: if_splits) (auto simp: n_def)
qed auto

lemma clearing_done:
  assumes "clearing known bs ss = (b # bs', s # ss')"
  shows "\<not> tradable known b s"
  using assms by (induction known bs ss rule: clearing.induct) (auto simp: Let_def split: if_splits)

section \<open>The queues of the code\<close>

definition anonymous :: "order_row \<Rightarrow> order_row" where
  "anonymous r = r\<lparr>o_id := 0\<rparr>"

definition rows_of_book :: "database \<Rightarrow> int list \<Rightarrow> order_row list" where
  "rows_of_book db is = map (\<lambda>i. anonymous (hd (rows_of_order i db))) is"

lemma rows_of_book_kept:
  "\<forall>i \<in> set is. rows_of_order i db' = rows_of_order i db \<Longrightarrow> rows_of_book db' is = rows_of_book db is"
  by (simp add: rows_of_book_def)

lemma left_over_row:
  assumes "o_type r = ty" "o_action r = action" "o_status r = PENDING"
  shows "anonymous (left_over (row_view r) ty action n j) = (anonymous r)\<lparr>o_quantity := o_quantity r - n\<rparr>"
  using assms by (simp add: anonymous_def left_over_def view_row_def row_view_def)

text \<open>A transaction leaves an identifier exactly when something is left.\<close>

lemma reopened:
  assumes "trade_pair env action b s m = Some ((b', s'), m')"
  shows "b' = None \<longleftrightarrow> v_quantity b \<le> min (v_quantity b) (v_quantity s)"
    and "s' = None \<longleftrightarrow> v_quantity s \<le> min (v_quantity b) (v_quantity s)"
proof -
  have r: "reopen env v ty action n m1 = Some (i, m2) \<Longrightarrow> i = None \<longleftrightarrow> v_quantity v \<le> n" for v ty n m1 i m2
    by (auto simp: reopen_def split: if_splits Option.bind_splits)
  obtain m8 m9 where "reopen env b BUY action (min (v_quantity b) (v_quantity s)) m8 = Some (b', m9)"
    "reopen env s SELL action (min (v_quantity b) (v_quantity s)) m9 = Some (s', m')"
    by (rule trade_pair_steps[OF assms])
  then show "b' = None \<longleftrightarrow> v_quantity b \<le> min (v_quantity b) (v_quantity s)"
    "s' = None \<longleftrightarrow> v_quantity s \<le> min (v_quantity b) (v_quantity s)"
    using r by blast+
qed

lemma book_row_after:
  assumes "book_ordered env db ty action (i # is)" "\<forall>k \<in> set is. rows_of_order k db' = rows_of_order k db"
    "v = view_of env db i" "n \<le> v_quantity v"
    "i' = None \<longleftrightarrow> v_quantity v \<le> n"
    "\<And>j. i' = Some j \<Longrightarrow> rows_of_order j db' = [left_over v ty action n j]"
  shows "rows_of_book db' (put_back i' is) = unfilled n (anonymous (hd (rows_of_order i db))) @ rows_of_book db is"
proof -
  obtain r where r: "rows_of_order i db = [r]" "good_row env r" "o_type r = ty" "o_action r = action" "o_status r = PENDING"
    using assms(1) by (auto simp: book_ordered_def)
  note v = good_row_views(1)[OF r(1,2)]
  have rest: "rows_of_book db' is = rows_of_book db is" by (rule rows_of_book_kept[OF assms(2)])
  show ?thesis
  proof (cases i')
    case None
    then have "unfilled n (anonymous r) = []" using assms(5) by (simp add: assms(3) v row_view_def unfilled_def anonymous_def)
    then show ?thesis using None rest r(1) by (simp add: put_back_def)
  next
    case (Some j)
    then have "unfilled n (anonymous r) = [(anonymous r)\<lparr>o_quantity := o_quantity r - n\<rparr>]"
      using assms(5) by (simp add: assms(3) v row_view_def unfilled_def anonymous_def)
    moreover have "rows_of_order j db' = [left_over (row_view r) ty action n j]" using assms(6)[OF Some] by (simp add: assms(3) v)
    ultimately show ?thesis using Some rest r left_over_row[of r ty action n j]
      by (simp add: put_back_def rows_of_book_def)
  qed
qed

section \<open>The loops\<close>

lemma client_exists_since: "since db0 db \<Longrightarrow> client_exists i db = client_exists i db0"
proof -
  assume "since db0 db"
  then have "map fst (map identity (clients db)) = map fst (map identity (clients db0))" by (simp add: since_def)
  then have "map cl_id (clients db) = map cl_id (clients db0)" by (simp add: identity_def comp_def)
  moreover have "map cl_id (clients_with i d) = filter (\<lambda>k. k = i) (map cl_id (clients d))" for d
    by (simp add: clients_with_def filter_map comp_def)
  ultimately show ?thesis by (simp add: client_exists_def)
qed

text \<open>Both tests before a transaction are the specification's.\<close>

definition tests_tradable :: "sql_env \<Rightarrow> (database \<Rightarrow> int \<Rightarrow> int \<Rightarrow> (order_view \<times> order_view) option) \<Rightarrow> bool" where
  "tests_tradable env ready \<longleftrightarrow>
     (\<forall>db i j rb rs. rows_of_order i db = [rb] \<longrightarrow> good_row env rb \<longrightarrow> rows_of_order j db = [rs] \<longrightarrow> good_row env rs \<longrightarrow>
        (ready db i j \<noteq> None \<longleftrightarrow> tradable (\<lambda>c. client_exists c db) (anonymous rb) (anonymous rs)))"

lemma loops_test: "tests_tradable env (fixing_pair env)" "tests_tradable env (continuous_pair env)"
proof -
  have v: "view_of env db i = row_view r" if "rows_of_order i db = [r]" "good_row env r" for db i r
    using good_row_views(1)[OF that] .
  have p: "get_price db i = o_price r" if "rows_of_order i db = [r]" "good_row env r" for db i r
    using that by (simp add: get_price_def execute_SQL_query_double_def good_row_def)
  show "tests_tradable env (fixing_pair env)" "tests_tradable env (continuous_pair env)"
    unfolding tests_tradable_def
    by (auto simp: fixing_pair_def continuous_pair_def clients_and_quantities_def v p tradable_def anonymous_def
        row_view_def Let_def)
qed

lemma loop_refines:
  assumes "match_loop env ready action bs ss m = Some (bs', ss', m')" "reads_views env ready" "tests_tradable env ready"
    "plain_env env" "draws_ok (mk_draws m)" "book_ordered env (mk_db m) BUY action bs"
    "book_ordered env (mk_db m) SELL action ss" "\<And>c. client_exists c (mk_db m) = known c"
  shows "clearing known (rows_of_book (mk_db m) bs) (rows_of_book (mk_db m) ss)
    = (rows_of_book (mk_db m') bs', rows_of_book (mk_db m') ss')"
  using assms
proof (induction env ready action bs ss m rule: match_loop.induct)
  case (3 env ready action i bs j ss m)
  obtain rb where rb: "rows_of_order i (mk_db m) = [rb]" "good_row env rb" using 3(7) by (auto simp: book_ordered_def)
  obtain rs where rs: "rows_of_order j (mk_db m) = [rs]" "good_row env rs" using 3(8) by (auto simp: book_ordered_def)
  have test: "ready (mk_db m) i j \<noteq> None \<longleftrightarrow> tradable known (anonymous rb) (anonymous rs)"
    using 3(4) rb rs 3(9) by (simp add: tests_tradable_def)
  have books: "rows_of_book (mk_db m) (i # bs) = anonymous rb # rows_of_book (mk_db m) bs"
    "rows_of_book (mk_db m) (j # ss) = anonymous rs # rows_of_book (mk_db m) ss"
    by (simp_all add: rows_of_book_def rb(1) rs(1))
  show ?case
  proof (cases "ready (mk_db m) i j")
    case None
    then show ?thesis using 3(2) test books by simp
  next
    case (Some p)
    obtain b s where p: "p = (b, s)" by (cases p)
    obtain b' s' m1 where t: "trade_pair env action b s m = Some ((b', s'), m1)"
      and rest: "match_loop env ready action (put_back b' bs) (put_back s' ss) m1 = Some (bs', ss', m')"
      using 3(2) Some p by (auto split: option.splits)
    have v: "b = view_of env (mk_db m) i" "s = view_of env (mk_db m) j" "0 < v_quantity b" "0 < v_quantity s"
      using 3(3) Some p by (simp_all add: reads_views_def)
    define n where "n = min (v_quantity b) (v_quantity s)"
    have n: "n = min (o_quantity (anonymous rb)) (o_quantity (anonymous rs))" "n \<le> v_quantity b" "n \<le> v_quantity s"
      using good_row_views(1)[OF rb] good_row_views(1)[OF rs] v(1,2) by (simp_all add: n_def row_view_def anonymous_def)
    note st = match_step[of ready, OF Some[unfolded p] t 3(3,5,6,7,8) empty_subsetI Int_empty_left]
    have "since (mk_db m) (mk_db m1)"
      using past.trade_law[of "mk_db m" m env b s action] 3(5) v(3,4) t by (simp add: since_def)
    then have known: "\<And>c. client_exists c (mk_db m1) = known c" using client_exists_since 3(9) by metis
    have B: "rows_of_book (mk_db m1) (put_back b' bs) = unfilled n (anonymous rb) @ rows_of_book (mk_db m) bs"
      using book_row_after[OF 3(7) st(7) v(1) n(2) _ st(9)[folded n_def]] reopened(1)[OF t] by (simp add: n_def rb(1))
    have S: "rows_of_book (mk_db m1) (put_back s' ss) = unfilled n (anonymous rs) @ rows_of_book (mk_db m) ss"
      using book_row_after[OF 3(8) st(8) v(2) n(3) _ st(10)[folded n_def]] reopened(2)[OF t] by (simp add: n_def rs(1))
    show ?thesis
      using 3(1)[OF Some p[symmetric] t refl refl rest 3(3-5) st(2,4,5) known] test Some
      by (simp add: books B S n(1)[symmetric] Let_def)
  qed
qed (auto simp: rows_of_book_def)

section \<open>The market\<close>

definition buy_queue :: "market \<Rightarrow> int \<Rightarrow> order_row list" where
  "buy_queue m action = rows_of_book (mk_db m) (um_get [] (mk_buys m) action)"

definition sell_queue :: "market \<Rightarrow> int \<Rightarrow> order_row list" where
  "sell_queue m action = rows_of_book (mk_db m) (um_get [] (mk_sells m) action)"

definition registered :: "market \<Rightarrow> int \<Rightarrow> bool" where
  "registered m c \<longleftrightarrow> client_exists c (mk_db m)"

text \<open>Clearing one action: its two queues are the specification's, and all the others are untouched.\<close>

definition cleared :: "int \<Rightarrow> market \<Rightarrow> market \<Rightarrow> bool" where
  "cleared action m m' \<longleftrightarrow>
     (buy_queue m' action, sell_queue m' action) = clearing (registered m) (buy_queue m action) (sell_queue m action)"

definition untouched :: "int \<Rightarrow> market \<Rightarrow> market \<Rightarrow> bool" where
  "untouched action m m' \<longleftrightarrow> buy_queue m' action = buy_queue m action \<and> sell_queue m' action = sell_queue m action"

lemma cleared_untouched: "cleared a m m1 \<Longrightarrow> untouched a m1 m2 \<Longrightarrow> cleared a m m2"
  by (simp add: cleared_def untouched_def)

lemma untouched_cleared: "untouched a m m1 \<Longrightarrow> registered m1 = registered m \<Longrightarrow> cleared a m1 m2 \<Longrightarrow> cleared a m m2"
  by (simp add: cleared_def untouched_def)

lemma untouched_trans: "untouched a m m1 \<Longrightarrow> untouched a m1 m2 \<Longrightarrow> untouched a m m2"
  by (simp add: untouched_def)

lemma clearing_idle: "ss = [] \<or> bs = [] \<Longrightarrow> clearing known bs ss = (bs, ss)"
  by (cases bs) auto

lemma action_cleared:
  assumes "books_in_order env m" "plain_env env" "ready \<in> {continuous_pair env, fixing_pair env}"
    and "map_of (mk_buys m) action = Some bs" "map_of (mk_sells m) action = Some ss"
    and "match_loop env ready action bs ss m = Some (bs', ss', m1)"
  defines "m2 \<equiv> m1\<lparr>mk_buys := AList.update action bs' (mk_buys m1), mk_sells := AList.update action ss' (mk_sells m1)\<rparr>"
  shows "books_in_order env m2" "cleared action m m2" "\<And>a. a \<noteq> action \<Longrightarrow> untouched a m m2" "registered m2 = registered m"
    and "\<And>a. a \<noteq> action \<Longrightarrow> map_of (mk_buys m2) a = map_of (mk_buys m) a"
proof -
  have r: "reads_views env ready" "tests_tradable env ready" using assms(3) fixing_reads continuous_reads loops_test by auto
  have B: "book_ordered env (mk_db m) BUY action bs" "book_ordered env (mk_db m) SELL action ss" "draws_ok (mk_draws m)"
    using assms(1,4,5) by (auto simp: books_in_order_def)
  note o = other_ids_facts[OF assms(1), where action = action]
  have d: "other_ids action m \<inter> (set bs \<union> set ss) = {}" using o(2)[OF B(1)] o(2)[OF B(2)] by blast
  note ml = match_loop_ordered[OF assms(6) r(1) assms(2) B(3,1,2) o(1) d]
  show "books_in_order env m2" unfolding m2_def using ml books_exchanged[OF assms(1)] by blast
  have get: "um_get [] (mk_buys m2) a = (if a = action then bs' else um_get [] (mk_buys m) a)"
    "um_get [] (mk_sells m2) a = (if a = action then ss' else um_get [] (mk_sells m) a)" "mk_db m2 = mk_db m1" for a
    using ml by (simp_all add: m2_def um_get_def map_of_update tracks_def)
  have "clearing (registered m) (rows_of_book (mk_db m) bs) (rows_of_book (mk_db m) ss)
      = (rows_of_book (mk_db m1) bs', rows_of_book (mk_db m1) ss')"
    by (rule loop_refines[OF assms(6) r assms(2) B(3,1,2)]) (simp add: registered_def)
  then show "cleared action m m2" using assms(4,5)
    by (simp add: cleared_def buy_queue_def sell_queue_def get) (simp add: um_get_def)
  show "untouched a m m2" if "a \<noteq> action" for a
  proof -
    have "i \<in> other_ids action m" if "i \<in> set (um_get [] (mk_buys m) a) \<or> i \<in> set (um_get [] (mk_sells m) a)" for i
    proof -
      have "\<exists>is. i \<in> set is \<and> (map_of (mk_buys m) a = Some is \<or> map_of (mk_sells m) a = Some is)"
        using that by (auto simp: um_get_def split: option.splits)
      then show ?thesis unfolding other_ids_def using \<open>a \<noteq> action\<close> by blast
    qed
    then have "\<forall>i \<in> set (um_get [] (mk_buys m) a). rows_of_order i (mk_db m1) = rows_of_order i (mk_db m)"
      "\<forall>i \<in> set (um_get [] (mk_sells m) a). rows_of_order i (mk_db m1) = rows_of_order i (mk_db m)"
      using ml by (simp_all add: tracks_def keeps_rows_def)
    then show ?thesis using that by (simp add: untouched_def buy_queue_def sell_queue_def get rows_of_book_kept)
  qed
  have "since (mk_db m) (mk_db m2)"
    using past.loop_law[of "mk_db m" m env ready action bs ss] r(1) assms(2,6) by (simp add: since_def get)
  then show "registered m2 = registered m" using client_exists_since by (auto simp: registered_def)
  show "\<And>a. a \<noteq> action \<Longrightarrow> map_of (mk_buys m2) a = map_of (mk_buys m) a" using ml by (simp add: m2_def map_of_update tracks_def)
qed

lemma cleared_idle: "um_get [] (mk_buys m) action = [] \<or> um_get [] (mk_sells m) action = [] \<Longrightarrow> cleared action m m"
  using clearing_idle[of "sell_queue m action" "buy_queue m action"]
  by (auto simp: cleared_def buy_queue_def sell_queue_def rows_of_book_def)

lemma continuous_clears:
  assumes "books_in_order env m" "plain_env env" "process_continuous_trading env action m = Some m'"
  shows "cleared action m m' \<and> (\<forall>a. a \<noteq> action \<longrightarrow> untouched a m m')"
proof (cases "\<exists>bs ss. map_of (mk_buys m) action = Some bs \<and> map_of (mk_sells m) action = Some ss \<and> bs \<noteq> [] \<and> ss \<noteq> []")
  case False
  then have "m' = m" using assms(3) by (auto simp: process_continuous_trading_def split: option.splits if_splits)
  moreover have "um_get [] (mk_buys m) action = [] \<or> um_get [] (mk_sells m) action = []"
    using False by (auto simp: um_get_def split: option.splits)
  ultimately show ?thesis using cleared_idle by (simp add: untouched_def)
next
  case True
  then obtain bs ss where b: "map_of (mk_buys m) action = Some bs" "map_of (mk_sells m) action = Some ss" "bs \<noteq> []" "ss \<noteq> []"
    by blast
  obtain bs' ss' m1 where l: "match_loop env (continuous_pair env) action bs ss m = Some (bs', ss', m1)"
    "m' = m1\<lparr>mk_buys := AList.update action bs' (mk_buys m1), mk_sells := AList.update action ss' (mk_sells m1)\<rparr>"
    using assms(3) b by (auto simp: process_continuous_trading_def split: Option.bind_splits)
  note ac = action_cleared[OF assms(1,2) insertI1 b(1,2) l(1), folded l(2)]
  show ?thesis using ac(2,3) by blast
qed

lemma fixing_clears:
  assumes "books_in_order env m" "plain_env env" "fixing_loop env rest m = Some m'"
    "um_ok rest" "\<forall>(a, bs) \<in> set rest. map_of (mk_buys m) a = Some bs"
  shows "\<forall>a. if a \<in> fst ` set rest then cleared a m m' else untouched a m m'"
  using assms
proof (induction env rest m rule: fixing_loop.induct)
  case (2 env action bs rest m)
  have rest: "um_ok rest" "\<forall>(a, bs) \<in> set rest. map_of (mk_buys m) a = Some bs" "map_of (mk_buys m) action = Some bs"
    "action \<notin> fst ` set rest"
    using 2(7,8) by auto
  show ?case
  proof (cases "\<exists>ss. map_of (mk_sells m) action = Some ss \<and> bs \<noteq> [] \<and> ss \<noteq> []")
    case False
    then have l: "fixing_loop env rest m = Some m'" using 2(6) by (auto split: option.splits if_splits)
    have IH: "\<forall>a. if a \<in> fst ` set rest then cleared a m m' else untouched a m m'"
    proof (cases "map_of (mk_sells m) action")
      case None
      then show ?thesis using 2(1)[OF None 2(4,5) l rest(1,2)] by simp
    next
      case (Some ss)
      then show ?thesis using 2(2)[OF Some _ 2(4,5) l rest(1,2)] False by blast
    qed
    have "cleared action m m" by (rule cleared_idle) (use False rest(3) in \<open>auto simp: um_get_def split: option.splits\<close>)
    then have "cleared action m m'" using IH rest(4) cleared_untouched by metis
    then show ?thesis using IH by auto
  next
    case True
    then obtain ss where ss: "map_of (mk_sells m) action = Some ss" "\<not> (bs = [] \<or> ss = [])" by blast
    obtain bs' ss' m1 where l: "match_loop env (fixing_pair env) action bs ss m = Some (bs', ss', m1)"
      "fixing_loop env rest (m1\<lparr>mk_buys := AList.update action bs' (mk_buys m1),
                               mk_sells := AList.update action ss' (mk_sells m1)\<rparr>) = Some m'"
      using 2(6) ss by (auto split: Option.bind_splits)
    define m2 where "m2 = m1\<lparr>mk_buys := AList.update action bs' (mk_buys m1), mk_sells := AList.update action ss' (mk_sells m1)\<rparr>"
    note ac = action_cleared[OF 2(4,5) _ rest(3) ss(1) l(1), folded m2_def, simplified]
    have r: "\<forall>(a, bs) \<in> set rest. map_of (mk_buys m2) a = Some bs" using rest(2,4) ac(5) by force
    have IH: "\<forall>a. if a \<in> fst ` set rest then cleared a m2 m' else untouched a m2 m'"
      using 2(3)[OF ss l(1) refl refl ac(1)[unfolded m2_def] 2(5) l(2) rest(1)] r by (simp add: m2_def)
    have "if a = action \<or> a \<in> fst ` set rest then cleared a m m' else untouched a m m'" for a
    proof (cases "a = action")
      case True
      then have "untouched a m2 m'" using IH rest(4) by metis
      then show ?thesis using ac(2) True cleared_untouched by simp
    next
      case False
      then show ?thesis using IH[rule_format, of a] ac(3)[OF False] ac(4) untouched_cleared untouched_trans
        by (metis (full_types))
    qed
    then show ?thesis by simp
  qed
qed (simp add: untouched_def)

text \<open>C31. Continuous matching and the auction compute the specification of a double queue: of the orders
  without their identifiers, the two queues of every action after a round are what clearing them from
  their fronts leaves, in price-time order, at the quantities left; continuous trading touches no other
  action, and the auction clears all of them.\<close>

theorem sql_matching_refines_clearing:
  assumes "books_in_order env m" "plain_env env"
  shows "(\<forall>action m'. process_continuous_trading env action m = Some m' \<longrightarrow>
      cleared action m m' \<and> (\<forall>a. a \<noteq> action \<longrightarrow> untouched a m m')) \<and>
    (\<forall>m'. process_fixing env m = Some m' \<longrightarrow> (\<forall>action. cleared action m m'))"
proof (intro conjI allI impI)
  fix m' action assume p: "process_fixing env m = Some m'"
  have "um_ok (mk_buys m)" using assms(1) by (simp add: books_in_order_def)
  moreover from this have "\<forall>(a, bs) \<in> set (mk_buys m). map_of (mk_buys m) a = Some bs" by auto
  ultimately have "if action \<in> fst ` set (mk_buys m) then cleared action m m' else untouched action m m'"
    using fixing_clears[OF assms, of "mk_buys m" m'] p by (simp add: process_fixing_def)
  moreover have "cleared action m m" if "action \<notin> fst ` set (mk_buys m)"
    using that by (intro cleared_idle) (simp add: um_get_def map_of_eq_None_iff[THEN iffD2])
  ultimately show "cleared action m m'" using cleared_untouched by metis
qed (use continuous_clears[OF assms] in blast)+

end
