(* ===== verification/SqlProgress.thy ===== *)
theory SqlProgress
  imports SqlMatch
begin

text \<open>
  That matching comes to an end. The only loop of the SQLite exchange that may not is the search for an
  identifier; four new draws for each order of the two books are enough for all the transactions of an
  action to go through.
\<close>

section \<open>Draws that are new\<close>

definition used :: "database \<Rightarrow> int set" where
  "used db = order_ids db \<union> m_id ` set (messages db)"

definition fresh :: "nat \<Rightarrow> market \<Rightarrow> bool" where
  "fresh k m \<longleftrightarrow> inj_on (mk_draws m) {mk_drawn m..<mk_drawn m + k} \<and>
     (\<forall>n \<in> {mk_drawn m..<mk_drawn m + k}. mk_draws m n \<notin> used (mk_db m))"

text \<open>A step that takes some draws and uses no other identifiers.\<close>

definition takes :: "nat \<Rightarrow> market \<Rightarrow> market \<Rightarrow> bool" where
  "takes d m m' \<longleftrightarrow> mk_draws m' = mk_draws m \<and> mk_drawn m' = mk_drawn m + d \<and>
     mk_buys m' = mk_buys m \<and> mk_sells m' = mk_sells m \<and>
     used (mk_db m') \<subseteq> used (mk_db m) \<union> mk_draws m ` {mk_drawn m..<mk_drawn m + d}"

lemma takes_trans: "takes d m m1 \<Longrightarrow> takes e m1 m2 \<Longrightarrow> takes (d + e) m m2"
  by (fastforce simp: takes_def)

lemma fresh_after:
  assumes "fresh k m" "takes d m m'" "d + j \<le> k"
  shows "fresh j m'"
proof -
  have sub: "{mk_drawn m'..<mk_drawn m' + j} \<subseteq> {mk_drawn m..<mk_drawn m + k}"
    using assms(2,3) by (auto simp: takes_def)
  have "mk_draws m n \<notin> mk_draws m ` {mk_drawn m..<mk_drawn m + d}" if "n \<in> {mk_drawn m'..<mk_drawn m' + j}" for n
  proof
    assume "mk_draws m n \<in> mk_draws m ` {mk_drawn m..<mk_drawn m + d}"
    then obtain k' where k': "k' \<in> {mk_drawn m..<mk_drawn m + d}" "mk_draws m n = mk_draws m k'" by auto
    have "k' \<in> {mk_drawn m..<mk_drawn m + k}" using k'(1) assms(3) by simp
    moreover have "inj_on (mk_draws m) {mk_drawn m..<mk_drawn m + k}" using assms(1) by (simp add: fresh_def)
    ultimately have "n = k'" using k'(2) sub that by (meson inj_onD subsetD)
    then show False using k'(1) that assms(2) by (simp add: takes_def)
  qed
  moreover have "inj_on (mk_draws m) {mk_drawn m'..<mk_drawn m' + j}"
    using assms(1) sub unfolding fresh_def by (blast intro: inj_on_subset)
  moreover have "mk_draws m n \<notin> used (mk_db m)" if "n \<in> {mk_drawn m'..<mk_drawn m' + j}" for n
    using assms(1) sub that unfolding fresh_def by blast
  moreover have "mk_draws m' = mk_draws m" "used (mk_db m') \<subseteq> used (mk_db m) \<union> mk_draws m ` {mk_drawn m..<mk_drawn m + d}"
    using assms(2) by (simp_all add: takes_def)
  ultimately show ?thesis unfolding fresh_def by (metis Un_iff subsetD)
qed

lemma takes_statement:
  "orders (mk_db m') = orders (mk_db m) \<Longrightarrow> messages (mk_db m') = messages (mk_db m) \<Longrightarrow>
     mk_draws m' = mk_draws m \<Longrightarrow> mk_drawn m' = mk_drawn m \<Longrightarrow> mk_buys m' = mk_buys m \<Longrightarrow>
     mk_sells m' = mk_sells m \<Longrightarrow> takes 0 m m'"
  by (simp add: takes_def used_def)

lemma next_fresh: "fresh (Suc k) m \<Longrightarrow> mk_draws m (mk_drawn m) \<notin> order_ids (mk_db m) \<and>
    mk_draws m (mk_drawn m) \<notin> m_id ` set (messages (mk_db m))"
  by (auto simp: fresh_def used_def)

lemma market_order_id_new:
  assumes "fresh (Suc k) m"
  shows "market_order_id m = Some (mk_draws m (mk_drawn m), m\<lparr>mk_drawn := Suc (mk_drawn m)\<rparr>)"
proof -
  have "filter (\<lambda>i. i = mk_draws m (mk_drawn m)) (map o_id (orders (mk_db m))) = []"
    using next_fresh[OF assms] by (auto simp: filter_empty_conv) (metis imageI)
  then show ?thesis
    by (simp add: market_order_id_def get_new_order_id_def execute_SQL_query_ID_def draw_until.simps)
qed

lemma takes_insert:
  assumes "o_id r = mk_draws m (mk_drawn m)"
  shows "takes 1 m (on_db (insert_order r) (m\<lparr>mk_drawn := Suc (mk_drawn m)\<rparr>))"
proof -
  have "messages (insert_order r (mk_db m)) = messages (mk_db m)" by (simp add: insert_order_def)
  then show ?thesis using inserted_ids[of r "mk_db m"] assms by (auto simp: takes_def used_def on_db_def)
qed

lemma complete_takes:
  assumes "fresh (Suc k) m"
  obtains m' where "complete v ty action n pr date daily m = Some m'" "takes 1 m m'"
proof -
  have "complete v ty action n pr date daily m =
      Some (on_db (add_completed_order (v_client v) (view_row v (mk_draws m (mk_drawn m)) ty action n pr date daily))
        (m\<lparr>mk_drawn := Suc (mk_drawn m)\<rparr>))"
    by (simp add: complete_def market_order_id_new[OF assms])
  moreover have "takes 1 m (on_db (add_completed_order (v_client v) (view_row v (mk_draws m (mk_drawn m)) ty action n pr date daily))
        (m\<lparr>mk_drawn := Suc (mk_drawn m)\<rparr>))"
    unfolding order_statements by (rule takes_insert) (simp add: view_row_def)
  ultimately show ?thesis by (rule that)
qed

lemma reopen_takes:
  assumes "fresh (Suc k) m"
  obtains i m' d where "reopen env v ty action n m = Some (i, m')" "takes d m m'" "d \<le> (if n < v_quantity v then 1 else 0)"
proof (cases "n < v_quantity v")
  case True
  define r where "r = view_row v (mk_draws m (mk_drawn m)) ty action (v_quantity v - n) (v_price v) (v_date v) (v_daily v)"
  have "reopen env v ty action n m =
      Some (Some (mk_draws m (mk_drawn m)), on_db (add_pending_order (v_client v) r) (m\<lparr>mk_drawn := Suc (mk_drawn m)\<rparr>))"
    by (simp add: reopen_def market_order_id_new[OF assms] True r_def)
  moreover have "takes 1 m (on_db (add_pending_order (v_client v) r) (m\<lparr>mk_drawn := Suc (mk_drawn m)\<rparr>))"
    unfolding order_statements by (rule takes_insert) (simp add: r_def view_row_def)
  ultimately show ?thesis using that True by simp
next
  case False
  have "takes 0 m m" by (simp add: takes_statement)
  then show ?thesis using that[of None m 0] False by (simp add: reopen_def)
qed

lemma log_takes:
  assumes "fresh (Suc k) m" "\<not> quotes content"
  obtains m' where "market_log env c w ty content t m = Some m'" "takes 1 m m'"
proof -
  have "filter (\<lambda>i. i = mk_draws m (mk_drawn m)) (map m_id (messages (mk_db m))) = []"
    using next_fresh[OF assms(1)] by (auto simp: filter_empty_conv) (metis imageI)
  then have "market_log env c w ty content t m =
      Some (on_db (log_message env (mk_draws m (mk_drawn m)) c w ty content t) (m\<lparr>mk_drawn := Suc (mk_drawn m)\<rparr>))"
    by (simp add: market_log_def market_message_id_def get_new_message_id_def execute_SQL_query_ID_def draw_until.simps)
  moreover have "takes 1 m (on_db (log_message env (mk_draws m (mk_drawn m)) c w ty content t) (m\<lparr>mk_drawn := Suc (mk_drawn m)\<rparr>))"
    using assms(2) by (auto simp: takes_def used_def on_db_def log_message_def insert_message_def set_insort_key)
  ultimately show ?thesis by (rule that)
qed

section \<open>Transactions go through\<close>

lemma trade_takes:
  assumes "fresh 4 m" "plain_env env"
  obtains r m' d where "trade_pair env action b s m = Some (r, m')" "takes d m m'" "d \<le> 4"
proof -
  define n where "n = min (v_quantity b) (v_quantity s)"
  define t where "t = mk_clock m (mk_reads m)"
  define pr where "pr = trade_price action b s m"
  have t3: "takes 0 m (settled env action b s m)" by (rule takes_statement) (simp_all add: settled_def Let_def on_db_def)
  then have f3: "fresh 4 (settled env action b s m)" by (rule fresh_after[OF assms(1)]) simp
  obtain m4 where m4: "market_log env 0 SERVER_MESSAGE TRANSACTION
      (transaction_text env n action pr (v_client b) (v_client s) t) t (settled env action b s m) = Some m4"
    "takes 1 (settled env action b s m) m4"
    by (rule log_takes[of 3 "settled env action b s m", OF _ quotes_transaction[OF assms(2)]]) (use f3 in simp)
  have "takes 0 m4 (announced env action b s n pr t m4)"
    by (auto simp: takes_def used_def announced_def on_db_def remove_pending_order_def delete_orders_def notify_def)
  note t6 = takes_trans[OF takes_trans[OF t3 m4(2)] this]
  have f6: "fresh 3 (announced env action b s n pr t m4)" by (rule fresh_after[OF assms(1) t6]) simp
  obtain m7 where m7: "complete b BUY action n pr (get_date_time (local_time env) t) (get_daily_time (local_time env) t)
      (announced env action b s n pr t m4) = Some m7" "takes 1 (announced env action b s n pr t m4) m7"
    by (rule complete_takes[of 2]) (use f6 in simp)
  note t7 = takes_trans[OF t6 m7(2)]
  have f7: "fresh 2 m7" by (rule fresh_after[OF assms(1) t7]) simp
  obtain m8 where m8: "complete s SELL action n pr (get_date_time (local_time env) t) (get_daily_time (local_time env) t) m7
      = Some m8" "takes 1 m7 m8"
    by (rule complete_takes[of 1]) (use f7 in \<open>simp add: numeral_2_eq_2\<close>)
  note t8 = takes_trans[OF t7 m8(2)]
  have f8: "fresh (Suc 0) m8" by (rule fresh_after[OF assms(1) t8]) simp
  obtain b' m9 d where m9: "reopen env b BUY action n m8 = Some (b', m9)" "takes d m8 m9" "d \<le> (if n < v_quantity b then 1 else 0)"
    by (rule reopen_takes[OF f8])
  obtain s' m10 e where m10: "reopen env s SELL action n m9 = Some (s', m10)" "takes e m9 m10" "d + e \<le> 1"
  proof (cases "n < v_quantity s")
    case True
    then have d: "d = 0" using m9(3) by (auto simp: n_def split: if_splits)
    have "fresh (Suc 0) m9" by (rule fresh_after[OF f8 m9(2)]) (simp add: d)
    then obtain s' m10 e where r: "reopen env s SELL action n m9 = Some (s', m10)" "takes e m9 m10" "e \<le> (if n < v_quantity s then 1 else 0)"
      by (rule reopen_takes)
    show ?thesis using that[OF r(1,2)] r(3) True d by simp
  next
    case False
    then have "reopen env s SELL action n m9 = Some (None, m9)" by (simp add: reopen_def)
    moreover have "takes 0 m9 m9" by (simp add: takes_statement)
    ultimately show ?thesis using that m9(3) by (simp split: if_splits)
  qed
  have "trade_pair env action b s m = Some ((b', s'), m10)"
    using m4(1) m7(1) m8(1) m9(1) m10(1)
    by (simp add: trade_pair_def get_current_time_ms_def Let_def settled_def announced_def trade_price_def n_def t_def pr_def)
  then show ?thesis using that[OF _ takes_trans[OF t8 takes_trans[OF m9(2) m10(2)]]] m10(3) by simp
qed

lemma loop_takes:
  assumes "fresh (4 * (length bs + length ss)) m" "plain_env env"
  shows "\<exists>bs' ss' m' d. match_loop env ready action bs ss m = Some (bs', ss', m') \<and> takes d m m' \<and>
    d \<le> 4 * (length bs + length ss)"
  using assms
proof (induction env ready action bs ss m rule: match_loop.induct)
  case (1 env ready action ss m)
  have "takes 0 m m" by (simp add: takes_statement)
  then show ?case by force
next
  case (2 env ready action i bs m)
  have "takes 0 m m" by (simp add: takes_statement)
  then show ?case by force
next
  case (3 env ready action i bs j ss m)
  have stay: "takes 0 m m" by (simp add: takes_statement)
  show ?case
  proof (cases "ready (mk_db m) i j")
    case None
    then show ?thesis using stay by force
  next
    case (Some p)
    obtain b s where p: "p = (b, s)" by (cases p)
    have "fresh 4 m" by (rule fresh_after[OF 3(2) stay]) simp
    then obtain r m1 d where t: "trade_pair env action b s m = Some (r, m1)" "takes d m m1" "d \<le> 4"
      by (rule trade_takes[OF _ 3(3)])
    obtain b' s' where r: "r = (b', s')" by (cases r)
    have shrink: "length (put_back b' bs) + length (put_back s' ss) \<le> length bs + length ss + 1"
      using trade_pair_progress[OF t(1)[unfolded r]] by (auto simp: put_back_def split: option.splits)
    have "fresh (4 * (length (put_back b' bs) + length (put_back s' ss))) m1"
      by (rule fresh_after[OF 3(2) t(2)]) (use t(3) shrink in simp)
    then obtain bs' ss' m' e where "match_loop env ready action (put_back b' bs) (put_back s' ss) m1 = Some (bs', ss', m')"
      "takes e m1 m'" "e \<le> 4 * (length (put_back b' bs) + length (put_back s' ss))"
      using 3(1)[OF Some p[symmetric] t(1) refl r[symmetric] _ 3(3)] by blast
    moreover from this have "d + e \<le> 4 * (length (i # bs) + length (j # ss))" using t(3) shrink by simp
    ultimately show ?thesis using Some p t r takes_trans[OF t(2)] by force
  qed
qed

section \<open>The rounds of the market\<close>

definition book_sizes :: "market \<Rightarrow> (int \<times> int list) list \<Rightarrow> nat" where
  "book_sizes m rest = sum_list (map (\<lambda>(a, bs). length bs + length (um_get [] (mk_sells m) a)) rest)"

lemma continuous_returns:
  assumes "fresh (4 * (length (um_get [] (mk_buys m) action) + length (um_get [] (mk_sells m) action))) m" "plain_env env"
  shows "\<exists>m'. process_continuous_trading env action m = Some m'"
proof (cases "map_of (mk_buys m) action")
  case None
  then show ?thesis by (simp add: process_continuous_trading_def)
next
  case (Some bs)
  note bs = this
  show ?thesis
  proof (cases "map_of (mk_sells m) action")
    case None
    then show ?thesis by (simp add: process_continuous_trading_def bs)
  next
    case (Some ss)
    then show ?thesis using loop_takes[of bs ss m env "continuous_pair env" action] assms bs
      by (fastforce simp: process_continuous_trading_def um_get_def)
  qed
qed

lemma fixing_returns:
  assumes "fresh (4 * book_sizes m rest) m" "plain_env env" "um_ok rest"
  shows "\<exists>m'. fixing_loop env rest m = Some m'"
  using assms
proof (induction env rest m rule: fixing_loop.induct)
  case (2 env action bs rest m)
  have stay: "takes 0 m m" by (simp add: takes_statement)
  have f: "fresh (4 * book_sizes m rest) m" by (rule fresh_after[OF 2(4) stay]) (simp add: book_sizes_def)
  have ok: "um_ok rest" "action \<notin> fst ` set rest" using 2(6) by simp_all
  show ?case
  proof (cases "map_of (mk_sells m) action")
    case None
    then show ?thesis using 2(1)[OF None f 2(5) ok(1)] by simp
  next
    case (Some ss)
    show ?thesis
    proof (cases "bs = [] \<or> ss = []")
      case True
      then show ?thesis using 2(2)[OF Some True f 2(5) ok(1)] Some by simp
    next
      case False
      have size: "book_sizes m ((action, bs) # rest) = length bs + length ss + book_sizes m rest"
        by (simp add: book_sizes_def um_get_def Some)
      have "fresh (4 * (length bs + length ss)) m" by (rule fresh_after[OF 2(4) stay]) (simp add: size)
      then obtain bs' ss' m1 d where l: "match_loop env (fixing_pair env) action bs ss m = Some (bs', ss', m1)"
        "takes d m m1" "d \<le> 4 * (length bs + length ss)"
        using loop_takes[OF _ 2(5)] by blast
      define m2 where "m2 = m1\<lparr>mk_buys := AList.update action bs' (mk_buys m1), mk_sells := AList.update action ss' (mk_sells m1)\<rparr>"
      have "book_sizes m2 rest = book_sizes m rest"
        unfolding book_sizes_def
        by (rule arg_cong[where f = sum_list], rule map_cong[OF refl])
           (use ok(2) l(2) in \<open>auto simp: m2_def um_get_def map_of_update takes_def image_iff\<close>)
      moreover have "fresh (4 * book_sizes m rest) m1" by (rule fresh_after[OF 2(4) l(2)]) (use l(3) size in simp)
      ultimately have "fresh (4 * book_sizes m2 rest) m2" by (simp add: fresh_def m2_def)
      then show ?thesis using 2(3)[OF Some False l(1) refl refl _ 2(5) ok(1)] by (simp add: Some False l(1) m2_def)
    qed
  qed
qed simp

text \<open>C34. Matching returns. When the next draws are new, four for each order in the books concerned, neither
  continuous matching nor the auction is caught in the search for an identifier: every round of either
  ends with a result.\<close>

theorem sql_matching_returns:
  assumes "plain_env env"
  shows "(\<forall>action. fresh (4 * (length (um_get [] (mk_buys m) action) + length (um_get [] (mk_sells m) action))) m \<longrightarrow>
      (\<exists>m'. process_continuous_trading env action m = Some m')) \<and>
    (um_ok (mk_buys m) \<longrightarrow> fresh (4 * book_sizes m (mk_buys m)) m \<longrightarrow> (\<exists>m'. process_fixing env m = Some m'))"
  using continuous_returns fixing_returns assms by (simp add: process_fixing_def)

section \<open>A round on a concrete market\<close>

definition demo_sell :: order_row where
  "demo_sell = (demo_order 8 3 10)\<lparr>o_client := 2, o_type := SELL\<rparr>"

definition crossing_market :: market where
  "crossing_market = accumulate_order 2 demo_sell (accumulate_order 1 (demo_order 9 5 11) demo_market)"

lemma crossing_books:
  "mk_buys crossing_market = [(1, [9])]" "mk_sells crossing_market = [(1, [8])]"
  "map o_id (orders (mk_db crossing_market)) = [8, 9]" "messages (mk_db crossing_market) = []"
  "buy_queue crossing_market 1 = [(demo_order 0 5 11)]" "sell_queue crossing_market 1 = [demo_sell\<lparr>o_id := 0\<rparr>]"
  "registered crossing_market 1" "registered crossing_market 2" "mk_drawn crossing_market = 0"
  unfolding crossing_market_def by code_simp+

lemma crossing_draws: "mk_draws crossing_market = (\<lambda>n. int n mod 1000)"
proof -
  have "mk_draws (accumulate_order cl r m) = mk_draws m" for cl r m
    by (simp add: accumulate_order_def on_db_def Let_def split: order_type.split)
  then show ?thesis by (simp add: crossing_market_def demo_market_def new_market_def)
qed

lemma crossing_fresh: "fresh 8 crossing_market"
proof -
  have "order_ids (mk_db crossing_market) = {8, 9}" using crossing_books(3) by (metis set_map list.set(1) list.simps(15))
  then have "used (mk_db crossing_market) = {8, 9}" by (simp add: used_def crossing_books(4))
  moreover have "int n mod 1000 = int n" if "n < 8" for n using that by simp
  ultimately show ?thesis by (auto simp: fresh_def crossing_draws crossing_books(9) inj_on_def)
qed

theorem sql_matching_returns_witness:
  "(\<exists>m'. process_continuous_trading demo_env 1 crossing_market = Some m') \<and>
   (\<exists>m'. process_fixing demo_env crossing_market = Some m')"
  using sql_matching_returns[OF plain_demo, of crossing_market] crossing_fresh crossing_books(1,2)
  by (simp add: um_get_def book_sizes_def)

lemma crossing_ordered: "books_in_order demo_env crossing_market"
proof -
  define m where "m = accumulate_order 1 (demo_order 9 5 11) demo_market"
  have b: "good_row demo_env (demo_order 9 5 11)" "good_row demo_env (demo_order 8 3 10)"
    using demo_order_good[of 5 9 11] demo_order_good[of 3 8 10] by simp_all
  have s: "good_row demo_env demo_sell" using b(2) by (simp add: good_row_def row_fits_def demo_sell_def int64_def)
  have "o_id (demo_order 9 5 11) \<notin> order_ids (mk_db demo_market)" by code_simp
  moreover have "o_client (demo_order 9 5 11) = 1" by (simp add: demo_order_def)
  ultimately have m: "books_in_order demo_env m"
    unfolding m_def using accumulate_in_order[OF demo_market_ordered b(1)] by simp
  have "o_id demo_sell \<notin> order_ids (mk_db m)" unfolding m_def by code_simp
  moreover have "o_client demo_sell = 2" by (simp add: demo_sell_def)
  ultimately show ?thesis unfolding crossing_market_def m_def[symmetric] using accumulate_in_order[OF m s] by simp
qed

text \<open>Of five shares wanted at 11 and three offered at 10, two remain wanted.\<close>

theorem sql_matching_refines_clearing_witness:
  "\<exists>m'. process_continuous_trading demo_env 1 crossing_market = Some m' \<and>
     buy_queue m' 1 = [demo_order 0 2 11] \<and> sell_queue m' 1 = []"
proof -
  obtain m' where m': "process_continuous_trading demo_env 1 crossing_market = Some m'"
    using continuous_returns[of crossing_market 1 demo_env] crossing_fresh crossing_books(1,2) by (auto simp: um_get_def)
  have "cleared 1 crossing_market m'"
    using sql_matching_refines_clearing[OF crossing_ordered plain_demo] m' by blast
  moreover have "\<not> Fin 11 < Fin 10" by simp
  ultimately have "(buy_queue m' 1, sell_queue m' 1) = ([demo_order 0 2 11], [])"
    by (simp add: cleared_def crossing_books(5-8) tradable_def unfilled_def demo_order_def demo_sell_def Let_def)
  then show ?thesis using m' by simp
qed

end
