(* ===== verification/SqlProgram.thy ===== *)
theory SqlProgram
  imports SqlProgress Protocol
begin

text \<open>
  The programs of \<open>src/Src_SQL\<close>: the encryption keys kept in the database, the plan the server makes of
  its arguments, a whole run of it from the launch to the closing summary, the loop of the terminal
  client, the database reader, the two framed helpers of \<open>utility.cpp\<close> and the resets of
  \<open>database_management.cpp\<close>.
\<close>

section \<open>Encryption keys\<close>

definition AES_KEY_SIZE :: nat where "AES_KEY_SIZE = 32"
definition AES_IV_SIZE :: nat where "AES_IV_SIZE = 16"

type_synonym key_pair = "string \<times> string"

text \<open>The first row of the answer, or nothing.\<close>

definition execute_SQL_query_blob :: "string list \<Rightarrow> string" where
  "execute_SQL_query_blob rows = (case rows of [] \<Rightarrow> [] | b # _ \<Rightarrow> b)"

definition get_or_generate_crypted_keys :: "key_pair \<Rightarrow> key_pair list \<Rightarrow> key_pair \<times> key_pair list" where
  "get_or_generate_crypted_keys drawn rows =
     (let key_data = execute_SQL_query_blob (map fst rows); iv_data = execute_SQL_query_blob (map snd rows)
      in if length key_data = AES_KEY_SIZE \<and> length iv_data = AES_IV_SIZE then ((key_data, iv_data), rows)
         else (drawn, rows @ [drawn]))"

definition drawn_keys :: "key_pair \<Rightarrow> bool" where
  "drawn_keys p \<longleftrightarrow> length (fst p) = AES_KEY_SIZE \<and> length (snd p) = AES_IV_SIZE"

text \<open>The table of a database that no other program wrote: empty, or beginning with the keys of an earlier run.\<close>

definition own_keys :: "key_pair list \<Rightarrow> bool" where
  "own_keys rows \<longleftrightarrow> (case rows of [] \<Rightarrow> True | p # _ \<Rightarrow> drawn_keys p)"

lemma keys_survive:
  assumes "own_keys rows" "drawn_keys drawn" "get_or_generate_crypted_keys drawn rows = (p, rows')"
  shows "own_keys rows'" "get_or_generate_crypted_keys drawn' rows' = (p, rows')" "drawn_keys p"
  using assms
  by (auto simp: get_or_generate_crypted_keys_def execute_SQL_query_blob_def own_keys_def drawn_keys_def Let_def
      AES_KEY_SIZE_def split: list.splits if_splits)

text \<open>The keys of several starts of the program over the same database.\<close>

fun starts :: "key_pair list \<Rightarrow> key_pair list \<Rightarrow> key_pair list \<times> key_pair list" where
  "starts [] rows = ([], rows)"
| "starts (d # ds) rows =
     (let (p, rows1) = get_or_generate_crypted_keys d rows; (ps, rows2) = starts ds rows1 in (p # ps, rows2))"

section \<open>The plan of a run\<close>

record play_options =
  pre_open_time_delay :: int
  open_time_delay :: int
  continuous_trading_time_delay :: int
  continuous_trading_loop_duration :: int
  pre_close_time_delay :: int
  trigger_poll_interval :: int

datatype server_plan =
    Usage
  | Null_argument
  | Reset
  | Init_default
  | Init_real int int
  | Init_generated int int int
  | Play play_options

text \<open>The arguments after the program's name. With two of them, \<open>atoi\<close> is handed the null pointer.\<close>

definition play_options_of :: "string list \<Rightarrow> play_options" where
  "play_options_of args =
     (let poll = (if 7 \<le> length args then max 100 (atoi (args ! 6)) else 500)
      in if 6 \<le> length args
         then \<lparr>pre_open_time_delay = max 0 (atoi (args ! 1)), open_time_delay = max 0 (atoi (args ! 2)),
               continuous_trading_time_delay = max 0 (atoi (args ! 3)),
               continuous_trading_loop_duration = max 0 (atoi (args ! 4)),
               pre_close_time_delay = max 0 (atoi (args ! 5)), trigger_poll_interval = poll\<rparr>
         else \<lparr>pre_open_time_delay = 1000, open_time_delay = 1000, continuous_trading_time_delay = 30000,
               continuous_trading_loop_duration = 1000, pre_close_time_delay = 1000, trigger_poll_interval = poll\<rparr>)"

definition init_plan :: "string list \<Rightarrow> server_plan" where
  "init_plan args =
     (if length args < 2 then Init_default
      else if length args < 3 then Null_argument
      else let num_clients = max 1 (atoi (args ! 1)); clients_balance = max 0 (atoi (args ! 2))
           in if 4 \<le> length args \<and> atoi (args ! 3) \<noteq> 0 then Init_real num_clients clients_balance
              else if length args < 5 then Usage
              else Init_generated num_clients clients_balance (max 1 (atoi (args ! 4))))"

definition server_plan_of :: "string list \<Rightarrow> server_plan" where
  "server_plan_of args =
     (case args of
        [] \<Rightarrow> Usage
      | arg # _ \<Rightarrow>
          if arg = ''reset'' then Reset
          else if arg = ''init'' then init_plan args
          else if arg = ''play'' then Play (play_options_of args)
          else Usage)"

section \<open>A whole run\<close>

text \<open>The query for the clients still connected names a column the table does not have: it has no answer.\<close>

definition log_others_client_disconnects :: "sql_env \<Rightarrow> sql_server \<Rightarrow> sql_server option" where
  "log_others_client_disconnects env sv =
     fold (\<lambda>cl r. r \<bind> sv_log env cl SERVER_MESSAGE CLIENT_DISCONNECTED ''Client disconnected'')
       (execute_SQL_query_IDs []) (Some sv)"

text \<open>
  The mode \<open>play\<close>: the start of the program reads the clock, then the summary before, the launch, the session among what the other threads do (\<open>others\<close>),
  the shutdown, the log, the summary after. \<open>None\<close> is an exception or a search that never ends.
\<close>

definition server_play ::
  "sql_env \<Rightarrow> (nat \<Rightarrow> sql_server \<Rightarrow> sql_server option) \<Rightarrow> sql_server \<Rightarrow> (string \<times> string list \<times> string \<times> sql_server) option" where
  "server_play env others sv =
     (let (server_launch_time, m) = get_current_time_ms (sv_market sv);
          (t0, m0) = get_current_time_ms m
      in do { before \<leftarrow> write_simulation_summary env t0 (mk_db m0);
              sv1 \<leftarrow> server_launch env server_launch_time (sv\<lparr>sv_market := m0\<rparr>);
              sv2 \<leftarrow> market_session env others sv1;
              sv3 \<leftarrow> others 4 sv2;
              sv4 \<leftarrow> server_closing env sv3;
              sv5 \<leftarrow> log_others_client_disconnects env sv4;
              let (t1, m1) = get_current_time_ms (sv_market sv5);
              after' \<leftarrow> write_simulation_summary env t1 (mk_db m1);
              Some (before, display_all_messages (mk_db m1), after', sv5\<lparr>sv_market := m1\<rparr>) })"

section \<open>The terminal client\<close>

datatype client_event = Typed string | Pushed string | End_of_input | Server_gone

text \<open>What is sent for the lines typed and what is printed of the server's messages, until one of the two ends.\<close>

fun client_loop :: "int \<Rightarrow> client_event list \<Rightarrow> string list \<times> string list" where
  "client_loop i [] = ([], [])"
| "client_loop i (Typed line # es) =
     (let message = show_int i @ '' '' @ line
      in if message = show_int i @ '' exit'' then ([], [''Exiting from user command...''])
         else let (sent, shown) = client_loop i es in (message # sent, shown))"
| "client_loop i (Pushed text' # es) =
     (let (sent, shown) = client_loop i es in (sent, (''Server: '' @ text') # shown))"
| "client_loop i (End_of_input # es) = ([], [])"
| "client_loop i (Server_gone # es) = ([], [''Connexion closed by the server.''])"

datatype client_exit = Client_failure string | Client_exception | Client_done "string list" "string list"

definition client_main :: "string list \<Rightarrow> string option \<Rightarrow> client_event list \<Rightarrow> client_exit" where
  "client_main args reply es =
     (case args of
        name # password # _ \<Rightarrow>
          (case reply of
             None \<Rightarrow> Client_failure ''Connection closed by the server.''
           | Some response \<Rightarrow>
               (case login_reply response of
                  Uncaught \<Rightarrow> Client_exception
                | Refused text' \<Rightarrow> Client_failure text'
                | Logged_in i \<Rightarrow>
                    (let (sent, shown) = client_loop i es
                     in Client_done (authentification_message name password # connection_message i # sent) shown)))
      | _ \<Rightarrow> Client_failure ''Usage'')"

lemma loop_sends_typed: "fst (client_loop i (map Typed ls)) = typed_messages i ls"
  by (induction ls) (auto simp: Let_def split: prod.splits)

section \<open>The database reader\<close>

definition print_row :: "(string \<times> string option) list \<Rightarrow> string" where
  "print_row columns =
     concat (map (\<lambda>k. fst (columns ! k) @ ''='' @ (case snd (columns ! k) of None \<Rightarrow> ''NULL'' | Some v \<Rightarrow> v) @
       (if k + 1 < length columns then '' | '' else [])) [0..<length columns]) @ [newline]"

text \<open>
  The tables in the order of their names, each with its rows, or the error of reading it. The table to
  skip is compared without a look at the number of arguments: without one, the first table is a null
  pointer made a string (\<open>None\<close>).
\<close>

fun read_tables :: "string option \<Rightarrow> (string \<times> (string \<times> string option) list list) list \<Rightarrow> string list option" where
  "read_tables skip [] = Some []"
| "read_tables skip ((name, rows) # tables) =
     (case skip of
        None \<Rightarrow> None
      | Some s \<Rightarrow>
          do { rest \<leftarrow> read_tables skip tables;
               Some ((if name = s
                      then [[newline] @ ''Skipping table '' @ name @ '' as it matches the argument to skip'' @ [newline]]
                      else ([newline] @ ''=== '' @ name @ '' ==='' @ [newline]) # map print_row rows) @ rest) })"

section \<open>Framed messages\<close>

definition send_full_string :: "string \<Rightarrow> int list \<Rightarrow> bool \<times> string" where
  "send_full_string msg answers =
     (let header = encode_length (of_nat (length msg))
      in case answers of
           [] \<Rightarrow> (False, [])
         | n # ns \<Rightarrow>
             if n \<noteq> 8 then (False, take (nat n) header)
             else (case send_exact msg ns of (done, out, _) \<Rightarrow> (done, header @ out)))"

text \<open>A piece is what one \<open>recv\<close> returned; an empty one, or none, is an error.\<close>

fun recv_header :: "string \<Rightarrow> string list \<Rightarrow> (string \<times> string list) option" where
  "recv_header leftover [] = (if 8 \<le> length leftover then Some (leftover, []) else None)"
| "recv_header leftover (p # ps) =
     (if 8 \<le> length leftover then Some (leftover, p # ps)
      else if p = [] then None else recv_header (leftover @ p) ps)"

fun recv_body :: "nat \<Rightarrow> string \<Rightarrow> string \<Rightarrow> string list \<Rightarrow> (string \<times> string \<times> string list) option" where
  "recv_body msg_size data leftover [] = (if msg_size \<le> length data then Some (data, leftover, []) else None)"
| "recv_body msg_size data leftover (p # ps) =
     (if msg_size \<le> length data then Some (data, leftover, p # ps)
      else if p = [] then None
      else let needed = msg_size - length data
           in if needed < length p then recv_body msg_size (data @ take needed p) (drop needed p) ps
              else recv_body msg_size (data @ p) leftover ps)"

definition recv_full_string :: "string \<Rightarrow> string list \<Rightarrow> (string \<times> string \<times> string list) option" where
  "recv_full_string leftover pieces =
     do { (l, ps) \<leftarrow> recv_header leftover pieces;
          let msg_size = unat (decode_length (take 8 l));
          let rest = drop 8 l;
          recv_body msg_size (take msg_size rest) (drop msg_size rest) ps }"

section \<open>Resets\<close>

text \<open>The deletion compares three values with two columns and is refused; the update stands.\<close>

definition reset_database_action_prices :: "int \<Rightarrow> int \<Rightarrow> database \<Rightarrow> database" where
  "reset_database_action_prices daily date db =
     db\<lparr>prices := map (\<lambda>p. if p \<in> set (last_moment (action_prices (p_action p) db))
                            then p\<lparr>p_date := date, p_daily := daily\<rparr> else p) (prices db)\<rparr>"

section \<open>Facts\<close>

text \<open>The encryption keys survive a restart. In a database that only this program wrote, the keys of the
  first start are those of every later one, whatever each of them draws, and the table is not written
  again: a password encrypted in one run is compared under the same keys in the next.\<close>

theorem encryption_keys_survive:
  assumes "own_keys rows" "drawn_keys d" "get_or_generate_crypted_keys d rows = (p, rows')"
  shows "starts (d # ds) rows = (replicate (Suc (length ds)) p, rows')"
proof -
  have "starts ds rows' = (replicate (length ds) p, rows')"
    by (induction ds) (simp_all add: keys_survive(2)[OF assms])
  then show ?thesis by (simp add: assms(3))
qed

theorem encryption_keys_survive_witness:
  "starts [(replicate 32 CHR ''k'', replicate 16 CHR ''v''), (''a'', ''b''), (''c'', ''d'')] []
   = (replicate 3 (replicate 32 CHR ''k'', replicate 16 CHR ''v''), [(replicate 32 CHR ''k'', replicate 16 CHR ''v'')])"
proof -
  define k where "k = (replicate 32 CHR ''k'', replicate 16 CHR ''v'')"
  have "own_keys []" "drawn_keys k" "get_or_generate_crypted_keys k [] = (k, [k])"
    by (simp_all add: k_def own_keys_def drawn_keys_def AES_KEY_SIZE_def AES_IV_SIZE_def get_or_generate_crypted_keys_def
        execute_SQL_query_blob_def)
  from encryption_keys_survive[OF this, of "[(''a'', ''b''), (''c'', ''d'')]"] show ?thesis
    unfolding k_def[symmetric] by (simp add: numeral_3_eq_3 del: starts.simps)
qed

text \<open>A framed message is received whole, however the bytes are cut, and what follows it is kept.\<close>

lemma recv_header_ok:
  "[] \<notin> set ps \<Longrightarrow> 8 \<le> length (l @ concat ps) \<Longrightarrow>
     \<exists>l' ps'. recv_header l ps = Some (l', ps') \<and> l' @ concat ps' = l @ concat ps \<and> 8 \<le> length l' \<and> [] \<notin> set ps'"
proof (induction ps arbitrary: l)
  case (Cons p ps)
  show ?case
  proof (cases "8 \<le> length l")
    case False
    have "p \<noteq> []" "[] \<notin> set ps" "8 \<le> length ((l @ p) @ concat ps)" using Cons.prems by auto
    then show ?thesis using Cons.IH[of "l @ p"] False
      by (simp only: recv_header.simps if_False concat.simps append_assoc simp_thms)
  next
    case True
    then show ?thesis using Cons.prems by (simp only: recv_header.simps if_True) blast
  qed
qed simp

lemma recv_body_ok:
  assumes "[] \<notin> set ps" "data @ l @ concat ps = msg @ rest" "length data \<le> length msg" "length data < length msg \<Longrightarrow> l = []"
  shows "\<exists>l' ps'. recv_body (length msg) data l ps = Some (msg, l', ps') \<and> l' @ concat ps' = rest \<and> [] \<notin> set ps'"
  using assms
proof (induction "length msg" data l ps rule: recv_body.induct)
  case (1 data l)
  then show ?case by (cases "length data = length msg") (auto simp: append_eq_append_conv)
next
  case (2 data l p ps)
  show ?case
  proof (cases "length msg \<le> length data")
    case True
    then have "length data = length msg" using 2(5) by simp
    then have "data = msg" "l @ concat (p # ps) = rest" using 2(4) append_eq_append_conv[of data msg] by blast+
    then show ?thesis using 2(3) by simp
  next
    case False
    then have l: "l = []" and p: "p \<noteq> []" using 2(3,6) by auto
    define needed where "needed = length msg - length data"
    show ?thesis
    proof (cases "needed < length p")
      case True
      have "data @ take needed p @ drop needed p @ concat ps = msg @ rest"
        using 2(4) l by (metis append.assoc append_Nil append_take_drop_id concat.simps(2))
      moreover have "length (data @ take needed p) = length msg" using True False by (simp add: needed_def)
      ultimately show ?thesis
        using 2(1)[OF False p needed_def True] 2(3) by (simp add: False p l True needed_def[symmetric] Let_def)
    next
      case long: False
      then show ?thesis using 2(2)[OF False p needed_def long] 2(3,4) False
        by (simp add: p l needed_def[symmetric] Let_def) (simp add: needed_def)
    qed
  qed
qed

lemma recv_full_ok:
  assumes "[] \<notin> set ps" "l @ concat ps = frame msg @ rest" "length msg < 2 ^ 64"
  shows "\<exists>l' ps'. recv_full_string l ps = Some (msg, l', ps') \<and> l' @ concat ps' = rest \<and> [] \<notin> set ps'"
proof -
  have "8 \<le> length (l @ concat ps)" by (simp add: assms(2) frame_def)
  then obtain h qs where h: "recv_header l ps = Some (h, qs)" "h @ concat qs = frame msg @ rest" "8 \<le> length h" "[] \<notin> set qs"
    using recv_header_ok[OF assms(1)] assms(2) by metis
  have "take 8 (h @ concat qs) = encode_length (of_nat (length msg))" "drop 8 (h @ concat qs) = msg @ rest"
    by (simp_all add: h(2) frame_def)
  then have t: "take 8 h = encode_length (of_nat (length msg))" "drop 8 h @ concat qs = msg @ rest" using h(3) by simp_all
  have len: "unat (decode_length (take 8 h)) = length msg"
    using assms(3) by (simp add: t(1) decode_encode unat_of_nat)
  have split: "take (length msg) (drop 8 h) @ drop (length msg) (drop 8 h) @ concat qs = msg @ rest"
    using t(2) by (metis append.assoc append_take_drop_id)
  show ?thesis
    using recv_body_ok[OF h(4) split] by (simp add: recv_full_string_def h(1) len Let_def)
qed

text \<open>A whole run keeps the laws of the exchange, whatever the other threads do meanwhile.\<close>

lemma reachable_trans: "exchange_reachable env sv1 sv2 \<Longrightarrow> exchange_reachable env sv0 sv1 \<Longrightarrow> exchange_reachable env sv0 sv2"
  by (induction rule: exchange_reachable.induct) (auto intro: by_step)

lemma phase_reaches:
  "phase \<in> set session_phases \<Longrightarrow> phase env sv = Some sv' \<Longrightarrow> exchange_reachable env sv0 sv \<Longrightarrow> exchange_reachable env sv0 sv'"
  by (rule by_step[OF _ on_server[OF on_phase]])

lemma session_reaches:
  assumes "market_session env others sv = Some sv'" "\<And>k s s'. others k s = Some s' \<Longrightarrow> exchange_reachable env s s'"
  shows "exchange_reachable env sv sv'"
proof -
  obtain sv1 sv2 sv3 sv4 sv5 sv6 sv7 sv8 where s: "pre_open_phase env sv = Some sv1" "others 0 sv1 = Some sv2"
    "open_phase env sv2 = Some sv3" "others 1 sv3 = Some sv4" "continuous_phase env sv4 = Some sv5" "others 2 sv5 = Some sv6"
    "pre_close_phase env sv6 = Some sv7" "others 3 sv7 = Some sv8" "close_phase env sv8 = Some sv'"
    using assms(1) by (auto simp: market_session_def split: Option.bind_splits)
  have p: "pre_open_phase \<in> set session_phases" "open_phase \<in> set session_phases" "continuous_phase \<in> set session_phases"
    "pre_close_phase \<in> set session_phases" "close_phase \<in> set session_phases"
    by (simp_all add: session_phases_def)
  note r1 = reachable_trans[OF assms(2)[OF s(2)] phase_reaches[OF p(1) s(1) at_start]]
  note r2 = reachable_trans[OF assms(2)[OF s(4)] phase_reaches[OF p(2) s(3) r1]]
  note r3 = reachable_trans[OF assms(2)[OF s(6)] phase_reaches[OF p(3) s(5) r2]]
  note r4 = reachable_trans[OF assms(2)[OF s(8)] phase_reaches[OF p(4) s(7) r3]]
  show ?thesis by (rule phase_reaches[OF p(5) s(9) r4])
qed

lemma run_reaches:
  assumes "server_play env others sv = Some (before, shown, after', sv')"
    "\<And>k s s'. others k s = Some s' \<Longrightarrow> exchange_reachable env s s'"
  shows "\<exists>m sv1. sv_db (sv\<lparr>sv_market := m\<rparr>) = sv_db sv \<and> exchange_reachable env (sv\<lparr>sv_market := m\<rparr>) sv1 \<and>
    sv_db sv' = sv_db sv1"
proof -
  let ?m = "snd (get_current_time_ms (snd (get_current_time_ms (sv_market sv))))"
  obtain t sv1 sv2 sv3 sv4 where s: "server_launch env t (sv\<lparr>sv_market := ?m\<rparr>) = Some sv1"
    "market_session env others sv1 = Some sv2" "others 4 sv2 = Some sv3" "server_closing env sv3 = Some sv4"
    "sv_db sv' = sv_db sv4"
    using assms(1)
    by (auto simp: server_play_def log_others_client_disconnects_def execute_SQL_query_IDs_def get_current_time_ms_def
        Let_def split: Option.bind_splits)
  have p: "server_closing \<in> set session_phases" by (simp add: session_phases_def)
  have db: "sv_db (sv\<lparr>sv_market := ?m\<rparr>) = sv_db sv" by (simp add: get_current_time_ms_def)
  have "exchange_reachable env sv1 sv2" using session_reaches[OF s(2)] assms(2) by simp
  note r = reachable_trans[OF assms(2)[OF s(3)] reachable_trans[OF this by_step[OF at_start on_server[OF on_launch[OF s(1)]]]]]
  show ?thesis using phase_reaches[OF p s(4) r] s(5) db by (intro exI[of _ ?m] exI[of _ sv4]) simp
qed

end
