(* ===== verification/Spec2Isabelle.thy ===== *)
theory Spec2Isabelle
  imports BookProps EngineProps ComponentProps ServerProps NetProps AppProps
    RecorderProps ClientProps ProgramProps SqlProgram
begin

text \<open>
  The Stock Market Trading Simulator, two programs that share nothing but their subject.

  \<^bold>\<open>The simulation\<close> (\<open>src/Src_Simulation\<close>) keeps everything in memory. A \<open>MatchingEngine\<close> owns one
  \<open>OrderBook\<close> per symbol, a \<open>Portfolio\<close> per client and the \<open>OrderRegistry\<close> of orders that wait for
  their release band or start date. It publishes trades and order events on an \<open>EventBus\<close>, whose
  worker hands them to the market data feed, the logger and the market recorder. Trading bots, a TCP
  server with its client directory and snapshot file, and a client program stand around it.

  \<^bold>\<open>The exchange over SQLite\<close> (\<open>src/Src_SQL\<close>) keeps its state in tables. The books in memory are lists of
  order identifiers per action; a session goes through an opening auction, continuous matching and a
  closing auction, while a thread per client executes the messages it reads and a watcher moves
  orders whose trigger is reached into the books.

  \<^bold>\<open>Theories and sources\<close>
  \<^item> \<open>Prelude\<close>: the containers of the standard library, list and map lemmas, the lemma collections.
  \<^item> \<open>Doubles\<close>, \<open>DoubleText\<close>, \<open>Text\<close>, \<open>Streams\<close>: the type \<open>double\<close>, the text of numbers, and formatted
    input; both programs rest on them. \<open>Types\<close>: \<open>include/types.hpp\<close>.
  \<^item> \<open>OrderBook\<close> (\<open>src/order_book.cpp\<close>) with \<open>BookFacts\<close>, \<open>BookInv\<close>, \<open>BookThms\<close> and \<open>BookProps\<close>.
  \<^item> \<open>Portfolio\<close>, \<open>OrderRegistry\<close>, \<open>Metrics\<close>, \<open>Notification\<close> (the headers of the same names) with
    \<open>ComponentProps\<close>.
  \<^item> \<open>MatchingEngine\<close> (\<open>src/matching_engine.cpp\<close>) with \<open>EngineFacts\<close>, \<open>EngineInv\<close>, \<open>EngineMachine\<close> and
    \<open>EngineProps\<close>.
  \<^item> \<open>MarketData\<close>, \<open>Reports\<close> (\<open>logger.hpp\<close>), \<open>Recorder\<close> (\<open>market_recorder.cpp\<close>) with \<open>RecorderProps\<close>.
  \<^item> \<open>Protocol\<close>, \<open>Sha256\<close>, \<open>Auth\<close>, \<open>Server\<close>, \<open>Persistence\<close> (\<open>src/net\<close>) with \<open>ServerFacts\<close>, \<open>ServerProps\<close>
    and \<open>NetProps\<close>.
  \<^item> \<open>Bots\<close>, \<open>Simulation\<close> (\<open>bot.cpp\<close>, \<open>market_seed.cpp\<close>, \<open>simulation.cpp\<close>) with \<open>SimFacts\<close> and \<open>AppProps\<close>;
    \<open>SimClient\<close> (\<open>net/sim_client_main.cpp\<close>) with \<open>ClientProps\<close>; \<open>Programs\<close> (\<open>main.cpp\<close>,
    \<open>net/sim_server_main.cpp\<close>) with \<open>ProgramProps\<close>.
  \<^item> \<open>SqlTime\<close> (\<open>utility.cpp\<close>), \<open>SqlBase\<close> (\<open>database_management.cpp\<close>, \<open>order.cpp\<close>, \<open>action.cpp\<close>,
    \<open>messages.cpp\<close>), \<open>SqlClient\<close> (\<open>client.cpp\<close>), \<open>SqlMarket\<close> (\<open>market.cpp\<close>), \<open>SqlServer\<close> and \<open>SqlSession\<close>
    (\<open>server.cpp\<close>, \<open>client_account.cpp\<close>), \<open>SqlProgram\<close> (the rest of them, \<open>read_database.cpp\<close> and the framed
    helpers of \<open>utility.cpp\<close>), with \<open>SqlFacts\<close>, \<open>SqlBooks\<close>, \<open>SqlProps\<close>, \<open>SqlIdentity\<close>, \<open>SqlLaws\<close>,
    \<open>SqlExchange\<close>, \<open>SqlMatch\<close> and \<open>SqlProgress\<close>.

  \<^bold>\<open>What the lemmas show\<close>
  \<^item> The book: \<open>match\<close> computes the abstract price-time priority book, level by level; it conserves
    quantity, trades the most that crosses, at resting prices, and keeps the book sorted and
    uncrossed. The two sides are one locale (\<open>price_side\<close>), interpreted on both comparators.
  \<^item> The engine: every reachable state is sound (an \<open>inductive\<close> step relation and its invariant); what a
    submission, a cancellation and the two scans of the waiting orders do, on every branch; shares are
    conserved. The pool of waiting orders is a locale over its operations (\<open>waiting_pool\<close>), the
    unordered maps another (\<open>lookup_map\<close>).
  \<^item> Around it: the bus delivers in order, the running market data equals its recomputation, frames
    survive being cut, the in-tree SHA-256 is the standard's, a login needs the password registered or
    one that collides with it under SHA-256, a snapshot restores what was saved (as a file, and through
    the start of the server), the server and the simulation stay sound under any interleaving, the
    cancel commands take out exactly the live order they name, whoever sends them, the bots' lines are
    parsed into the whole requests they mean, the report shows the book.
  \<^item> The SQLite exchange: every book stays in price-time order through insertion, matching and both
    auctions, and the loops end (the sum of the two books shrinks with each transaction). The
    insertion point of \<open>std::lower_bound\<close> is a locale over a priority (\<open>priority\<close>), interpreted on the two
    comparison functions of the code. \<open>SqlMatch\<close> shows that the two loops compute the clearing of two
    queues of orders (\<open>clearing\<close>), whatever identifiers the code draws on the way, and \<open>SqlProgress\<close> that
    they return when four new identifiers can be drawn for each order.
  \<^item> The SQLite exchange as a state machine: an invariant of the database that the single statements
    keep is kept by every message, scan, phase and whole run (the locale \<open>database_law\<close>); it is
    interpreted on the consistency of the tables and, for every past database, on the history since
    then. \<open>server_step\<close> is what the server does by itself; \<open>exchange_run\<close> adds any messages and keeps them
    in a list, \<open>exchange_step\<close> only those without a quote.
  \<^item> What a transaction does to the shares, and four behaviours
    the code does not intend, each stated for all inputs: the double reservation, the empty order, the
    missing identity check and the validity dates that never pass.

  \<^bold>\<open>Conventions\<close>
  \<^item> A \<open>double\<close> is NaN, an infinity or the rational it denotes, with one zero; every operation rounds to
    nearest, ties to even, as IEEE-754 says. Decimal literals are exactly converted.
  \<^item> An \<open>std::unordered_map\<close> is an association list with distinct keys; the theorems hold for every order of
    it. Order ids of the simulation are 64-bit words; quantities and client ids are integers, since
    signed overflow is undefined in the code. In the SQLite exchange an identifier is an integer and
    the 32-bit fetch of \<open>sqlite3_column_int\<close> is written out.
  \<^item> Clock readings, random draws and the answers of the operating system are arguments or sequences
    of the state. Mutexes make an operation atomic; the threads are the interleavings of the step
    relations, and what other threads do during a sleep is a parameter.
  \<^item> A result is an option or a record with an error: \<open>None\<close> is an exception, and in the SQLite theories
    also the search for an identifier that never ends (\<open>draw_until\<close>, a \<open>partial_function\<close>). Every other
    loop is total. The two loops of \<open>Sha256\<close> take fuel: as many passes as there are bytes to absorb, each
    of which takes at least one, and 64 for the padding, which needs at most 63; \<open>sha_fed\<close> and the lemmas around it show that they
    always reach their end.
  \<^item> A table is the list of its rows, by primary key where there is one. The record \<open>sql_env\<close> holds what
    SQLite, fmt, OpenSSL and \<open>localtime\<close> compute: the floating-point SUM, the text of a double, the
    encryption of a password, the broken-down time, the effect of a statement whose quotes the text of
    a user closes, and the values of variables nothing was read into. \<open>plain_env\<close> (printed numbers hold no quote)
    and \<open>reads_back\<close> (a printed number is read back) are the only hypotheses about them.

  \<^bold>\<open>Inputs the theorems exclude\<close>. Three kinds of input break what the code means to keep, and the
  theorems that need their absence say so:
  \<^item> An order at price NaN. \<open>PRICE=nan\<close> passes the parser and the price check, and two such orders trade at
    NaN (\<open>nan_price_trades\<close>). The machine of the engine (\<open>engine_step\<close>) takes no such request; the machine
    of the server (\<open>server_run\<close>) takes every line and records it, and \<open>server_stays_sound\<close> assumes of the
    recorded lines that none carries such a price.
  \<^item> More submissions than the 64-bit id counter has numbers left.
  \<^item> A message with a quote, whose text closes the literal of an SQL statement. \<open>quotes_rewrite_history\<close>
    shows one that rewrites the history; \<open>sql_history_is_kept\<close> assumes of the messages of the run that none
    holds a quote.

  Numbers the socket bots print are between 10^-290 and 10^290 (\<open>sendable\<close>): outside, the 15 digits may
  be read back as zero or an infinity. SQLite stores a NaN as NULL, which is read back as zero
  (\<open>column_double\<close>). An operation of the engine is one step, where the code takes the locks of its parts
  one after the other: two submissions that overlap between two of these locks are not modelled.

  \<^bold>\<open>Not modelled\<close>: sockets, \<open>select\<close>, signals and the creation of threads; the AES calls and the raw
  keyboard reading of \<open>utility.cpp\<close>; \<open>reset_database_messages\<close>, which nothing calls and which leaves a
  table no other statement fits; usage texts and prompts; the demonstrations under \<open>Test_Functionnalities\<close>, the test
  drivers under \<open>NRT\<close> and the Python scripts. A data race the mutexes do not exclude (two threads of
  the SQLite server between two statements) is outside the model: an operation of its market is one
  step.
\<close>

end
